(* ===== verification/Prelude.thy ===== *)
theory Prelude
  imports Main "HOL-Library.Word"
begin

text \<open>
  Shared base of the development: the integer types of the X64 build, the status codes, the
  page arithmetic macros of \<^verbatim>\<open>MdePkg/Include/Uefi/UefiBaseType.h\<close>, byte-addressed memory with
  \<^verbatim>\<open>CopyMem\<close>, and the generic facts on words, lists and intervals that the component theories
  use.  The collection \<open>word_nat\<close> holds the equations that move word arithmetic to \<open>nat\<close>.
\<close>

unbundle bit_operations_syntax

named_theorems word_nat

section \<open>Types of the X64 build\<close>

type_synonym UINT8 = "8 word"
type_synonym UINT16 = "16 word"
type_synonym UINT32 = "32 word"
type_synonym UINT64 = "64 word"
type_synonym UINTN = "64 word"
type_synonym EFI_PHYSICAL_ADDRESS = "64 word"
type_synonym EFI_LBA = "64 word"

text \<open>A GUID is only ever copied and compared, so it is kept as its 128-bit value.\<close>

type_synonym EFI_GUID = "128 word"

text \<open>
  The status codes of the UEFI and PI headers the modelled code works with.  The encoding puts the
  error bit in the most significant bit of an error; success and the warnings do not carry it.
\<close>

datatype EFI_STATUS =
    EFI_SUCCESS
  | EFI_LOAD_ERROR | EFI_INVALID_PARAMETER | EFI_UNSUPPORTED | EFI_BAD_BUFFER_SIZE
  | EFI_BUFFER_TOO_SMALL | EFI_NOT_READY | EFI_DEVICE_ERROR | EFI_WRITE_PROTECTED
  | EFI_OUT_OF_RESOURCES | EFI_VOLUME_CORRUPTED | EFI_VOLUME_FULL | EFI_NO_MEDIA
  | EFI_MEDIA_CHANGED | EFI_NOT_FOUND | EFI_ACCESS_DENIED | EFI_NO_RESPONSE | EFI_NO_MAPPING
  | EFI_TIMEOUT | EFI_NOT_STARTED | EFI_ALREADY_STARTED | EFI_ABORTED | EFI_ICMP_ERROR
  | EFI_TFTP_ERROR | EFI_PROTOCOL_ERROR | EFI_INCOMPATIBLE_VERSION | EFI_SECURITY_VIOLATION
  | EFI_CRC_ERROR | EFI_END_OF_MEDIA | EFI_END_OF_FILE | EFI_INVALID_LANGUAGE
  | EFI_COMPROMISED_DATA | EFI_INTERRUPT_PENDING | EFI_WARN_UNKNOWN_GLYPH
  | EFI_WARN_DELETE_FAILURE | EFI_WARN_WRITE_FAILURE | EFI_WARN_BUFFER_TOO_SMALL
  | EFI_WARN_STALE_DATA | EFI_WARN_INTERRUPT_SOURCE_PENDING | EFI_WARN_INTERRUPT_SOURCE_QUIESCED

fun EFI_ERROR :: "EFI_STATUS \<Rightarrow> bool" where
  "EFI_ERROR EFI_SUCCESS = False"
| "EFI_ERROR EFI_WARN_UNKNOWN_GLYPH = False"
| "EFI_ERROR EFI_WARN_DELETE_FAILURE = False"
| "EFI_ERROR EFI_WARN_WRITE_FAILURE = False"
| "EFI_ERROR EFI_WARN_BUFFER_TOO_SMALL = False"
| "EFI_ERROR EFI_WARN_STALE_DATA = False"
| "EFI_ERROR EFI_WARN_INTERRUPT_SOURCE_PENDING = False"
| "EFI_ERROR EFI_WARN_INTERRUPT_SOURCE_QUIESCED = False"
| "EFI_ERROR _ = True"

section \<open>Page arithmetic\<close>

abbreviation PAGE :: nat where
  "PAGE \<equiv> 4096"

definition EFI_PAGE_MASK :: UINTN where
  "EFI_PAGE_MASK = 0xFFF"

definition EFI_PAGES_TO_SIZE :: "UINTN \<Rightarrow> UINTN" where
  "EFI_PAGES_TO_SIZE pages = push_bit 12 pages"

definition EFI_SIZE_TO_PAGES :: "UINTN \<Rightarrow> UINTN" where
  "EFI_SIZE_TO_PAGES n = drop_bit 12 n + (if n AND EFI_PAGE_MASK \<noteq> 0 then 1 else 0)"

definition TRUNCATE_TO_PAGES :: "UINTN \<Rightarrow> UINTN" where
  "TRUNCATE_TO_PAGES a = drop_bit 12 a"

section \<open>Words as natural numbers\<close>

lemma unat_bound64 [simp]: "unat (w :: 64 word) < 18446744073709551616"
  using unsigned_less [of w] by simp

lemma unat_of_drop_bit: "unat (drop_bit n (w :: 64 word)) = unat w div 2 ^ n"
  by (simp add: unat_drop_bit_eq drop_bit_nat_def)

lemma unat_drop12 [word_nat]: "unat (drop_bit 12 (w :: 64 word)) = unat w div PAGE"
  using unat_of_drop_bit [of 12 w] by simp

lemma unat_push12 [word_nat]:
  "unat (push_bit 12 (w :: 64 word)) = (unat w * PAGE) mod 18446744073709551616"
  by (simp add: push_bit_eq_mult unat_word_ariths)

lemma unat_PAGES_TO_SIZE [simp]:
  "unat n * PAGE < 18446744073709551616 \<Longrightarrow> unat (EFI_PAGES_TO_SIZE n) = unat n * PAGE"
  by (simp add: EFI_PAGES_TO_SIZE_def unat_push12)

lemma unat_TRUNCATE [simp]: "unat (TRUNCATE_TO_PAGES a) = unat a div PAGE"
  by (simp add: TRUNCATE_TO_PAGES_def word_nat)

lemma unat_and_mask64: "unat ((w :: 64 word) AND mask n) = unat w mod 2 ^ n"
  by (simp flip: take_bit_eq_mask add: unsigned_take_bit_eq take_bit_nat_def)

lemma unat_and_page_mask [word_nat]: "unat (w AND EFI_PAGE_MASK) = unat w mod PAGE"
  using unat_and_mask64 [of w 12] by (simp add: EFI_PAGE_MASK_def mask_eq_exp_minus_1)

lemma and_page_mask_eq_0 [simp]: "w AND EFI_PAGE_MASK = 0 \<longleftrightarrow> unat w mod PAGE = 0"
  by (metis unat_0 unat_and_page_mask unat_eq_zero)

lemma unat_add_noov:
  "unat (a :: 64 word) + unat b < 18446744073709551616 \<Longrightarrow> unat (a + b) = unat a + unat b"
  by (simp add: unat_word_ariths)

lemma unat_sub_noov: "unat (b :: 64 word) \<le> unat a \<Longrightarrow> unat (a - b) = unat a - unat b"
  by (simp add: unat_sub word_le_nat_alt)

lemma unat_suc_noov: "unat (a :: 64 word) < 18446744073709551615 \<Longrightarrow> unat (a + 1) = unat a + 1"
  by (simp add: unat_add_noov)

lemma unat_of_nat64: "n < 18446744073709551616 \<Longrightarrow> unat (of_nat n :: 64 word) = n"
  by (simp add: unat_of_nat)

lemma unat_gap:
  fixes M s :: UINTN
  assumes "0 < unat s" and "unat s \<le> unat M + 1"
  shows "unat (M + 1 - s) = unat M + 1 - unat s"
proof -
  have 1: "unat (s - 1) = unat s - 1" using assms(1) by (simp add: unat_sub_noov)
  have "unat (M - (s - 1)) = unat M - unat (s - 1)" 
    using assms by (intro unat_sub_noov) (simp add: 1)
  then show ?thesis using assms(1) 1 by (simp only: diff_diff_eq2)
qed

lemma unat_minus_1_64: "unat (- 1 :: UINTN) = 18446744073709551615"
  by (simp add: unsigned_minus_1_eq_mask mask_eq_exp_minus_1)

lemma not_self [simp]: "NOT a \<noteq> (a :: 64 word)"
proof
  assume *: "NOT a = a"
  then have "a AND a = 0" by (metis bit.conj_cancel_right)
  then show False using * by simp
qed

lemma unat_and_not_page_mask: "unat (w AND NOT EFI_PAGE_MASK) = unat w div PAGE * PAGE"
proof -
  have "(w AND EFI_PAGE_MASK) AND (w AND NOT EFI_PAGE_MASK) = w AND (EFI_PAGE_MASK AND NOT EFI_PAGE_MASK)"
    by (simp only: ac_simps and.left_idem)
  then have "(w AND EFI_PAGE_MASK) + (w AND NOT EFI_PAGE_MASK) = (w AND EFI_PAGE_MASK) OR (w AND NOT EFI_PAGE_MASK)"
    by (intro disjunctive_add_eq_or) simp
  also have "\<dots> = w" by (simp flip: bit.conj_disj_distrib)
  finally have "w AND NOT EFI_PAGE_MASK = w - (w AND EFI_PAGE_MASK)" by (simp add: algebra_simps)
  then have "unat (w AND NOT EFI_PAGE_MASK) = unat w - unat w mod PAGE"
    by (simp add: unat_sub_noov unat_and_page_mask)
  then show ?thesis by (simp add: minus_mod_eq_div_mult)
qed

lemma unat_down: "unat (w :: UINTN) < 4294967296 \<Longrightarrow> unat (ucast w :: UINT32) = unat w"
  by (simp add: unsigned_ucast_eq take_bit_nat_def)

lemma unat_bound32 [simp]: "unat (w :: UINT32) < 4294967296"
  using unsigned_less [of w] by simp

lemma unat_up [simp]: "unat (ucast (w :: UINT32) :: UINTN) = unat w"
  by (simp add: unsigned_ucast_eq take_bit_nat_def order.strict_trans [OF unat_bound32])

lemma unat_down_up: "unat (w :: UINTN) < 4294967296 \<Longrightarrow> unat (ucast (ucast w :: UINT32) :: UINTN) = unat w"
  by (simp add: unat_down)

lemmas word_order_nat = word_le_nat_alt word_less_nat_alt word_unat_eq_iff

section \<open>Byte-addressed memory\<close>

type_synonym memory = "UINT64 \<Rightarrow> UINT8"

text \<open>
  \<open>CopyMem\<close> of BaseMemoryLib copies as if through a temporary, so an overlap of source and
  destination is safe; every destination byte gets the old source byte.
\<close>

definition CopyMem :: "UINT64 \<Rightarrow> UINT64 \<Rightarrow> UINTN \<Rightarrow> memory \<Rightarrow> memory" where
  "CopyMem dst src len m = (\<lambda>a. if a - dst < len then m (src + (a - dst)) else m a)"

definition mem_range :: "UINT64 \<Rightarrow> UINTN \<Rightarrow> UINT64 set" where
  "mem_range base len = {a. a - base < len}"

definition mem_bytes :: "UINT64 \<Rightarrow> UINTN \<Rightarrow> memory \<Rightarrow> UINT8 list" where
  "mem_bytes base len m = map (\<lambda>i. m (base + of_nat i)) [0 ..< unat len]"

lemma CopyMem_outside [simp]: "a \<notin> mem_range dst len \<Longrightarrow> CopyMem dst src len m a = m a"
  by (simp add: CopyMem_def mem_range_def)

lemma CopyMem_inside: "a \<in> mem_range dst len \<Longrightarrow> CopyMem dst src len m a = m (src + (a - dst))"
  by (simp add: CopyMem_def mem_range_def)

lemma offset_in_mem_range: "i < unat len \<Longrightarrow> base + of_nat i \<in> mem_range base len"
  by (simp add: mem_range_def word_less_nat_alt unat_of_nat)

lemma mem_bytes_CopyMem: "mem_bytes dst len (CopyMem dst src len m) = mem_bytes src len m"
  by (auto simp: mem_bytes_def CopyMem_inside [OF offset_in_mem_range])

lemma mem_bytes_CopyMem_other:
  "mem_range b l \<inter> mem_range dst len = {} \<Longrightarrow>
    mem_bytes b l (CopyMem dst src len m) = mem_bytes b l m"
  using offset_in_mem_range [of _ l b] by (auto simp: mem_bytes_def disjoint_iff)

lemma length_mem_bytes [simp]: "length (mem_bytes b l m) = unat l"
  by (simp add: mem_bytes_def)

lemma mem_range_nat:
  assumes "unat base + unat len \<le> 18446744073709551616"
  shows "a \<in> mem_range base len \<longleftrightarrow> unat base \<le> unat a \<and> unat a < unat base + unat len"
  using assms unat_bound64 [of a] unat_bound64 [of base] unat_bound64 [of len]
  by (auto simp: mem_range_def word_less_nat_alt unat_sub_if' split: if_splits)

end
