(* ===== verification/SmmPage.thy ===== *)
theory SmmPage
  imports Prelude
begin

text \<open>
  The SMRAM page allocator of the SMM core, \<^verbatim>\<open>MdeModulePkg/Core/PiSmmCore/Page.c\<close>.

  The state is the list \<^verbatim>\<open>mSmmMemoryMap\<close> of free runs of pages in \<^verbatim>\<open>ForwardLink\<close> order.  Each
  \<^verbatim>\<open>FREE_PAGE_LIST\<close> header lives at the first byte of the run it describes; the model keeps the
  address of that header as \<open>PageAddr\<close> and the position in the list stands for its \<^verbatim>\<open>Link\<close>.
  A walk over \<^verbatim>\<open>BackLink\<close> is a recursion over list positions from the end.

  \<^verbatim>\<open>InsertHeadList\<close> of a node after itself leaves a list that is its own successor.  That
  outcome is the value \<open>None\<close> of the allocation functions; the theorems show when it cannot occur.

  The lemmas relate the list to the set \<open>free_pages\<close> of free page numbers: allocation takes the
  highest fitting run and removes exactly it, a release adds exactly the given run and coalesces,
  so that an allocation followed by its release restores the list itself.
\<close>

section \<open>Data\<close>

record FREE_PAGE_LIST =
  PageAddr :: UINTN
  NumberOfPages :: UINTN

type_synonym memory_map = "FREE_PAGE_LIST list"

datatype EFI_ALLOCATE_TYPE = AllocateAnyPages | AllocateMaxAddress | AllocateAddress | MaxAllocateType

datatype EFI_MEMORY_TYPE =
    EfiReservedMemoryType | EfiLoaderCode | EfiLoaderData | EfiBootServicesCode
  | EfiBootServicesData | EfiRuntimeServicesCode | EfiRuntimeServicesData
  | EfiConventionalMemory | EfiUnusableMemory | EfiACPIReclaimMemory | EfiACPIMemoryNVS
  | EfiMemoryMappedIO | EfiMemoryMappedIOPortSpace | EfiPalCode | EfiPersistentMemory
  | EfiMaxMemoryType

section \<open>Allocation\<close>

definition InternalAllocPagesOnOneNode ::
  "memory_map \<Rightarrow> nat \<Rightarrow> UINTN \<Rightarrow> UINTN \<Rightarrow> (memory_map \<times> UINTN) option" where
  "InternalAllocPagesOnOneNode m i N MaxAddress =
    (let Pages = m ! i;
         Top0 = TRUNCATE_TO_PAGES (MaxAddress + 1 - PageAddr Pages);
         Top = (if Top0 > NumberOfPages Pages then NumberOfPages Pages else Top0);
         Bottom = Top - N;
         Node = \<lparr>PageAddr = PageAddr Pages + EFI_PAGES_TO_SIZE Top,
                 NumberOfPages = NumberOfPages Pages - Top\<rparr>;
         rest = (if Top < NumberOfPages Pages then Node # drop (Suc i) m else drop (Suc i) m)
     in if Top < NumberOfPages Pages \<and> PageAddr Node = PageAddr Pages then None
        else Some (take i m @ (if Bottom > 0 then Pages\<lparr>NumberOfPages := Bottom\<rparr> # rest else rest),
                   PageAddr Pages + EFI_PAGES_TO_SIZE Bottom))"

fun InternalAllocMaxAddress_loop ::
  "memory_map \<Rightarrow> nat \<Rightarrow> UINTN \<Rightarrow> UINTN \<Rightarrow> (memory_map \<times> UINTN) option" where
  "InternalAllocMaxAddress_loop m 0 N MaxAddress = Some (m, - 1)"
| "InternalAllocMaxAddress_loop m (Suc i) N MaxAddress =
    (if NumberOfPages (m ! i) \<ge> N \<and>
        PageAddr (m ! i) + EFI_PAGES_TO_SIZE N - 1 \<le> MaxAddress
     then InternalAllocPagesOnOneNode m i N MaxAddress
     else InternalAllocMaxAddress_loop m i N MaxAddress)"

definition InternalAllocMaxAddress ::
  "memory_map \<Rightarrow> UINTN \<Rightarrow> UINTN \<Rightarrow> (memory_map \<times> UINTN) option" where
  "InternalAllocMaxAddress m N MaxAddress = InternalAllocMaxAddress_loop m (length m) N MaxAddress"

fun InternalAllocAddress_loop ::
  "memory_map \<Rightarrow> nat \<Rightarrow> UINTN \<Rightarrow> UINTN \<Rightarrow> UINTN \<Rightarrow> (memory_map \<times> UINTN) option" where
  "InternalAllocAddress_loop m 0 N Address EndAddress = Some (m, NOT Address)"
| "InternalAllocAddress_loop m (Suc i) N Address EndAddress =
    (if PageAddr (m ! i) \<le> Address then
       if PageAddr (m ! i) + EFI_PAGES_TO_SIZE (NumberOfPages (m ! i)) < EndAddress
       then Some (m, NOT Address)
       else InternalAllocPagesOnOneNode m i N EndAddress
     else InternalAllocAddress_loop m i N Address EndAddress)"

definition InternalAllocAddress ::
  "memory_map \<Rightarrow> UINTN \<Rightarrow> UINTN \<Rightarrow> (memory_map \<times> UINTN) option" where
  "InternalAllocAddress m N Address =
    (if Address AND EFI_PAGE_MASK \<noteq> 0 then Some (m, NOT Address)
     else InternalAllocAddress_loop m (length m) N Address (Address + EFI_PAGES_TO_SIZE N))"

text \<open>The result carries the status, the value left in \<^verbatim>\<open>*Memory\<close> and the new list.\<close>

definition SmmInternalAllocatePages ::
  "EFI_ALLOCATE_TYPE \<Rightarrow> EFI_MEMORY_TYPE \<Rightarrow> UINTN \<Rightarrow> EFI_PHYSICAL_ADDRESS \<Rightarrow> memory_map
    \<Rightarrow> (EFI_STATUS \<times> EFI_PHYSICAL_ADDRESS \<times> memory_map) option" where
  "SmmInternalAllocatePages Type MemoryType N Memory m =
    (if MemoryType \<noteq> EfiRuntimeServicesCode \<and> MemoryType \<noteq> EfiRuntimeServicesData
     then Some (EFI_INVALID_PARAMETER, Memory, m)
     else if N > TRUNCATE_TO_PAGES (- 1) + 1 then Some (EFI_OUT_OF_RESOURCES, Memory, m)
     else case Type of
       AllocateAnyPages \<Rightarrow>
         map_option (\<lambda>(m', a). (if a = - 1 then EFI_OUT_OF_RESOURCES else EFI_SUCCESS, a, m'))
           (InternalAllocMaxAddress m N (- 1))
     | AllocateMaxAddress \<Rightarrow>
         map_option (\<lambda>(m', a). (if a = - 1 then EFI_OUT_OF_RESOURCES else EFI_SUCCESS, a, m'))
           (InternalAllocMaxAddress m N Memory)
     | AllocateAddress \<Rightarrow>
         map_option (\<lambda>(m', a). (if a \<noteq> Memory then EFI_NOT_FOUND else EFI_SUCCESS, a, m'))
           (InternalAllocAddress m N Memory)
     | MaxAllocateType \<Rightarrow> Some (EFI_INVALID_PARAMETER, Memory, m))"

section \<open>Release\<close>

text \<open>
  \<open>InternalMergeNodes m i\<close> works on the nodes at positions \<open>i\<close> and \<open>i + 1\<close> and returns the
  position of the node the C function returns a pointer to.
\<close>

definition InternalMergeNodes :: "memory_map \<Rightarrow> nat \<Rightarrow> memory_map \<times> nat" where
  "InternalMergeNodes m i =
    (let First = m ! i; Next = m ! Suc i
     in if TRUNCATE_TO_PAGES (PageAddr Next - PageAddr First) = NumberOfPages First
        then (take i m @
                First\<lparr>NumberOfPages := NumberOfPages First + NumberOfPages Next\<rparr> # drop (i + 2) m, i)
        else (m, Suc i))"

text \<open>The forward walk to the first node above \<open>Memory\<close>; \<open>length m\<close> stands for the list head.\<close>

fun FreePages_find :: "memory_map \<Rightarrow> UINTN \<Rightarrow> nat" where
  "FreePages_find [] Memory = 0"
| "FreePages_find (p # ps) Memory =
    (if Memory < PageAddr p then 0 else Suc (FreePages_find ps Memory))"

definition SmmInternalFreePages ::
  "EFI_PHYSICAL_ADDRESS \<Rightarrow> UINTN \<Rightarrow> memory_map \<Rightarrow> EFI_STATUS \<times> memory_map" where
  "SmmInternalFreePages Memory N m =
    (if Memory AND EFI_PAGE_MASK \<noteq> 0 then (EFI_INVALID_PARAMETER, m)
     else let i = FreePages_find m Memory in
       if i \<noteq> length m \<and> Memory + EFI_PAGES_TO_SIZE N > PageAddr (m ! i)
       then (EFI_INVALID_PARAMETER, m)
       else if i \<noteq> 0 \<and>
          PageAddr (m ! (i - 1)) + EFI_PAGES_TO_SIZE (NumberOfPages (m ! (i - 1))) > Memory
       then (EFI_INVALID_PARAMETER, m)
       else let m1 = take i m @ \<lparr>PageAddr = Memory, NumberOfPages = N\<rparr> # drop i m;
                (m2, j) = (if i \<noteq> 0 then InternalMergeNodes m1 (i - 1) else (m1, i));
                m3 = (if i \<noteq> length m then fst (InternalMergeNodes m2 j) else m2)
            in (EFI_SUCCESS, m3))"

text \<open>
  The exported services add a call to the SMRAM profile, which records the caller and leaves the
  list alone.
\<close>

definition SmmAllocatePages ::
  "EFI_ALLOCATE_TYPE \<Rightarrow> EFI_MEMORY_TYPE \<Rightarrow> UINTN \<Rightarrow> EFI_PHYSICAL_ADDRESS \<Rightarrow> memory_map
    \<Rightarrow> (EFI_STATUS \<times> EFI_PHYSICAL_ADDRESS \<times> memory_map) option" where
  "SmmAllocatePages Type MemoryType N Memory m = SmmInternalAllocatePages Type MemoryType N Memory m"

definition SmmFreePages ::
  "EFI_PHYSICAL_ADDRESS \<Rightarrow> UINTN \<Rightarrow> memory_map \<Rightarrow> EFI_STATUS \<times> memory_map" where
  "SmmFreePages Memory N m = SmmInternalFreePages Memory N m"

definition EFI_ALLOCATED :: UINT64 where "EFI_ALLOCATED = 0x10"
definition EFI_NEEDS_TESTING :: UINT64 where "EFI_NEEDS_TESTING = 0x20"
definition EFI_NEEDS_ECC_INITIALIZATION :: UINT64 where "EFI_NEEDS_ECC_INITIALIZATION = 0x40"

definition SmmAddMemoryRegion ::
  "EFI_PHYSICAL_ADDRESS \<Rightarrow> UINT64 \<Rightarrow> UINT64 \<Rightarrow> memory_map \<Rightarrow> memory_map" where
  "SmmAddMemoryRegion MemBase MemLength Attributes m =
    (if Attributes AND (EFI_ALLOCATED OR EFI_NEEDS_TESTING OR EFI_NEEDS_ECC_INITIALIZATION) \<noteq> 0
     then m
     else let AlignedMemBase = (MemBase + EFI_PAGE_MASK) AND NOT EFI_PAGE_MASK;
              MemLength' = MemLength - (AlignedMemBase - MemBase)
          in snd (SmmFreePages AlignedMemBase (TRUNCATE_TO_PAGES MemLength') m))"

section \<open>The abstract view: sets of free page numbers\<close>

definition pfn :: "FREE_PAGE_LIST \<Rightarrow> nat" where
  "pfn x = unat (PageAddr x) div PAGE"

definition pend :: "FREE_PAGE_LIST \<Rightarrow> nat" where
  "pend x = pfn x + unat (NumberOfPages x)"

definition node_pages :: "FREE_PAGE_LIST \<Rightarrow> nat set" where
  "node_pages x = {pfn x ..< pend x}"

definition free_pages :: "memory_map \<Rightarrow> nat set" where
  "free_pages m = (\<Union>x \<in> set m. node_pages x)"

definition wf_node :: "FREE_PAGE_LIST \<Rightarrow> bool" where
  "wf_node x \<longleftrightarrow> unat (PageAddr x) mod PAGE = 0 \<and> PageAddr x \<noteq> 0 \<and> NumberOfPages x \<noteq> 0
     \<and> pend x < 4503599627370496"

definition wf_map :: "memory_map \<Rightarrow> bool" where
  "wf_map m \<longleftrightarrow> (\<forall>x \<in> set m. wf_node x) \<and> sorted_wrt (\<lambda>x y. pend x < pfn y) m"

lemma free_pages_simps [simp]:
  "free_pages [] = {}"
  "free_pages (x # m) = node_pages x \<union> free_pages m"
  "free_pages (m @ m') = free_pages m \<union> free_pages m'"
  by (auto simp: free_pages_def)

lemma wf_node_addr: "wf_node x \<Longrightarrow> unat (PageAddr x) = pfn x * PAGE"
  by (auto simp: wf_node_def pfn_def)

lemma wf_node_facts:
  assumes "wf_node x"
  shows "0 < pfn x" "pfn x < pend x" "pend x < 4503599627370496" 
    "unat (NumberOfPages x) = pend x - pfn x" "0 < unat (NumberOfPages x)"
proof -
  have "unat (PageAddr x) \<noteq> 0" "unat (NumberOfPages x) \<noteq> 0"
    using assms by (auto simp: wf_node_def unat_gt_0)
  then show "0 < pfn x" "pfn x < pend x" "pend x < 4503599627370496" 
    "unat (NumberOfPages x) = pend x - pfn x" "0 < unat (NumberOfPages x)"
    using assms wf_node_addr [OF assms] by (auto simp: wf_node_def pend_def)
qed

lemma wf_map_simps [simp]:
  "wf_map []"
  "wf_map (x # m) \<longleftrightarrow> wf_node x \<and> wf_map m \<and> (\<forall>y \<in> set m. pend x < pfn y)"
  "wf_map (m @ m') \<longleftrightarrow> wf_map m \<and> wf_map m' \<and> (\<forall>x \<in> set m. \<forall>y \<in> set m'. pend x < pfn y)"
  by (auto simp: wf_map_def sorted_wrt_append)

lemma wf_map_replace:
  assumes "wf_map (pre @ x # post)" and "wf_map ys"
    and "\<And>y. y \<in> set ys \<Longrightarrow> pfn x \<le> pfn y \<and> pend y \<le> pend x"
  shows "wf_map (pre @ ys @ post)"
  using assms by (fastforce dest: wf_node_facts)

lemma wf_map_disjoint: "wf_map (pre @ x # post) \<Longrightarrow> node_pages x \<inter> free_pages (pre @ post) = {}"
  by (fastforce simp: free_pages_def node_pages_def)

lemma wf_map_nth_split: "i < length m \<Longrightarrow> m = take i m @ m ! i # drop (Suc i) m"
  by (rule id_take_nth_drop)

text \<open>A contiguous run of free pages lies inside one node: neighbouring nodes never touch.\<close>

lemma run_in_one_node:
  assumes "wf_map m" and "0 < n" and "{p ..< p + n} \<subseteq> free_pages m"
  shows "\<exists>x \<in> set m. {p ..< p + n} \<subseteq> node_pages x"
  using assms
proof (induction m)
  case Nil
  then show ?case by simp
next
  case (Cons x m)
  show ?case
  proof (cases "{p ..< p + n} \<subseteq> node_pages x")
    case True
    then show ?thesis by simp
  next
    case False
    have above: "pend x < q" if "q \<in> free_pages m" for q
      using that Cons.prems(1) by (fastforce simp: free_pages_def node_pages_def)
    obtain r where r: "p \<le> r" "r < p + n" "r \<notin> node_pages x" "r \<in> free_pages m"
      using False Cons.prems(3) by fastforce
    have "pend x < p"
    proof (rule ccontr)
      assume "\<not> pend x < p"
      then have "pend x \<in> {p ..< p + n}" using above [OF r(4)] r(2) by auto
      then have "pend x \<in> free_pages m"
        using Cons.prems(3) by (auto simp: node_pages_def)
      then show False using above by blast
    qed
    then have "{p ..< p + n} \<subseteq> free_pages m"
      using Cons.prems(3) by (fastforce simp: node_pages_def)
    then show ?thesis using Cons by auto
  qed
qed

text \<open>The list is determined by the set it covers.\<close>

lemma node_eqI: "wf_node x \<Longrightarrow> wf_node y \<Longrightarrow> pfn x = pfn y \<Longrightarrow> pend x = pend y \<Longrightarrow> x = y"
  by (metis FREE_PAGE_LIST.equality old.unit.exhaust unat_eq_nat_uint wf_node_addr wf_node_facts(4) word_unat_eq_iff)

lemma wf_map_unique:
  "wf_map m \<Longrightarrow> wf_map m' \<Longrightarrow> free_pages m = free_pages m' \<Longrightarrow> m = m'"
proof (induction m arbitrary: m')
  case Nil
  then show ?case
    by (cases m') (auto simp: node_pages_def dest: wf_node_facts)
next
  case (Cons x m)
  from Cons.prems obtain y l where m': "m' = y # l"
    by (cases m') (auto simp: node_pages_def dest: wf_node_facts)
  have x: "wf_node x" and y: "wf_node y" using Cons.prems m' by auto
  have gx: "pend x < q" if "q \<in> free_pages m" for q
    using that Cons.prems(1) by (fastforce simp: free_pages_def node_pages_def)
  have gy: "pend y < q" if "q \<in> free_pages l" for q
    using that Cons.prems(2) m' by (fastforce simp: free_pages_def node_pages_def)
  have eq: "node_pages x \<union> free_pages m = node_pages y \<union> free_pages l"
    using Cons.prems(3) m' by simp
  have "pfn x \<in> node_pages x" "pfn y \<in> node_pages y"
    using x y by (auto simp: node_pages_def dest: wf_node_facts)
  then have p: "pfn x = pfn y"
    using eq gx gy wf_node_facts [OF x] wf_node_facts [OF y]
    by (metis Un_iff atLeastLessThan_iff le_antisym less_imp_le_nat node_pages_def order.strict_trans)
  have e: "pend x = pend y"
  proof (rule ccontr)
    assume "pend x \<noteq> pend y"
    then consider "pend x < pend y" | "pend y < pend x" by linarith
    then show False
    proof cases
      case 1
      then have "pend x \<in> node_pages y" using p wf_node_facts [OF x] by (simp add: node_pages_def)
      then have "pend x \<in> node_pages x \<union> free_pages m" using eq by blast
      then show False using gx by (auto simp: node_pages_def)
    next
      case 2
      then have "pend y \<in> node_pages x" using p wf_node_facts [OF y] by (simp add: node_pages_def)
      then have "pend y \<in> node_pages y \<union> free_pages l" using eq by blast
      then show False using gy by (auto simp: node_pages_def)
    qed
  qed
  have np: "node_pages x = node_pages y" using p e by (simp add: node_pages_def)
  have "free_pages m = free_pages l"
    using eq gx gy np p e by (auto simp: node_pages_def set_eq_iff)
       (metis atLeastLessThan_iff node_pages_def not_less_iff_gr_or_eq)+
  then have "m = l" using Cons m' by auto
  then show ?case using m' node_eqI [OF x y p e] by simp
qed

section \<open>Allocation takes the highest fitting run\<close>

text \<open>The node for the run of pages from \<open>lo\<close> to \<open>hi\<close>.\<close>

definition mk_node :: "nat \<Rightarrow> nat \<Rightarrow> FREE_PAGE_LIST" where
  "mk_node lo hi = \<lparr>PageAddr = of_nat (lo * PAGE), NumberOfPages = of_nat (hi - lo)\<rparr>"

lemma mk_node_fields:
  assumes "lo < hi" "hi < 4503599627370496"
  shows "unat (PageAddr (mk_node lo hi)) = lo * PAGE" "unat (NumberOfPages (mk_node lo hi)) = hi - lo"
proof -
  have "lo * PAGE < 18446744073709551616" "hi - lo < 18446744073709551616" using assms by simp_all
  from this [THEN unat_of_nat64] 
  show "unat (PageAddr (mk_node lo hi)) = lo * PAGE" "unat (NumberOfPages (mk_node lo hi)) = hi - lo"
    unfolding mk_node_def FREE_PAGE_LIST.simps by auto
qed

lemma mk_node [simp]:
  assumes "lo < hi" "hi < 4503599627370496"
  shows "pfn (mk_node lo hi) = lo" "pend (mk_node lo hi) = hi" 
    "node_pages (mk_node lo hi) = {lo ..< hi}" "0 < lo \<Longrightarrow> wf_node (mk_node lo hi)"
  using mk_node_fields [OF assms] assms
  by (auto simp: pfn_def pend_def node_pages_def wf_node_def word_unat_eq_iff)

lemma wf_node_eq_mk: "wf_node x \<Longrightarrow> x = mk_node (pfn x) (pend x)"
  using wf_node_facts [of x] by (intro node_eqI) auto

lemma mk_nodeI:
  "unat a = lo * PAGE \<Longrightarrow> unat n = hi - lo \<Longrightarrow> \<lparr>PageAddr = a, NumberOfPages = n\<rparr> = mk_node lo hi"
  unfolding mk_node_def by (metis word_unat_eq_iff unat_of_nat64 unat_bound64)

text \<open>What is left of a node when the run from \<open>lo\<close> to \<open>hi\<close> is taken out of it.\<close>

definition split_node :: "FREE_PAGE_LIST \<Rightarrow> nat \<Rightarrow> nat \<Rightarrow> memory_map" where
  "split_node x lo hi =
    (if pfn x < lo then [mk_node (pfn x) lo] else []) @ (if hi < pend x then [mk_node hi (pend x)] else [])"

lemma split_node:
  assumes "wf_node x" "pfn x \<le> lo" "lo < hi" "hi \<le> pend x"
  shows "wf_map (split_node x lo hi)"
    and "\<And>y. y \<in> set (split_node x lo hi) \<Longrightarrow> pfn x \<le> pfn y \<and> pend y \<le> pend x"
    and "free_pages (split_node x lo hi) = node_pages x - {lo ..< hi}"
proof -
  note f = assms(2-) wf_node_facts(1-3) [OF assms(1)]
  have lt: "lo < 4503599627370496" using f by simp
  show "wf_map (split_node x lo hi)" using f lt by (cases "pfn x < lo"; cases "hi < pend x") (simp_all add: split_node_def)
  show "pfn x \<le> pfn y \<and> pend y \<le> pend x" if "y \<in> set (split_node x lo hi)" for y
    using that f lt by (cases "pfn x < lo"; cases "hi < pend x") (auto simp: split_node_def)
  show "free_pages (split_node x lo hi) = node_pages x - {lo ..< hi}"
    using f lt by (auto simp: split_node_def node_pages_def)
qed

lemma take_run:
  assumes wf: "wf_map m" and i: "i < length m" and lo: "pfn (m ! i) \<le> lo" "lo < hi" "hi \<le> pend (m ! i)"
  defines "m' \<equiv> take i m @ split_node (m ! i) lo hi @ drop (Suc i) m"
  shows "wf_map m'" "free_pages m' = free_pages m - {lo ..< hi}" "{lo ..< hi} \<subseteq> free_pages m"
proof -
  have m: "m = take i m @ m ! i # drop (Suc i) m" using i by (rule id_take_nth_drop)
  then have wf': "wf_map (take i m @ m ! i # drop (Suc i) m)" using wf by simp
  then have x: "wf_node (m ! i)" by simp
  note s = split_node [OF x lo]
  show "wf_map m'" unfolding m'_def by (rule wf_map_replace [OF wf' s(1) s(2)])
  have sub: "{lo ..< hi} \<subseteq> node_pages (m ! i)" using lo by (auto simp: node_pages_def)
  have fp: "free_pages m = node_pages (m ! i) \<union> free_pages (take i m @ drop (Suc i) m)"
    by (subst m) auto
  show "{lo ..< hi} \<subseteq> free_pages m" using sub fp by blast
  show "free_pages m' = free_pages m - {lo ..< hi}"
    using fp sub wf_map_disjoint [OF wf'] s(3) by (auto simp: m'_def)
qed

text \<open>The run a node offers below \<open>MaxAddress\<close> ends at page \<open>node_end x MaxAddress\<close>.\<close>

definition node_end :: "FREE_PAGE_LIST \<Rightarrow> UINTN \<Rightarrow> nat" where
  "node_end x M = min (pend x) ((unat M + 1) div PAGE)"

lemma OnOneNode_eq:
  assumes wf: "wf_node (m ! i)" and N: "0 < unat N" and fit: "pfn (m ! i) + unat N \<le> node_end (m ! i) M"
  defines "hi \<equiv> node_end (m ! i) M"
  shows "InternalAllocPagesOnOneNode m i N M =
    Some (take i m @ split_node (m ! i) (hi - unat N) hi @ drop (Suc i) m, of_nat ((hi - unat N) * PAGE))"
proof -
  define x where "x = m ! i"
  note f = wf_node_facts [OF wf, folded x_def] and a = wf_node_addr [OF wf, folded x_def]
  have hi: "pfn x < hi" "hi \<le> pend x" "pfn x + unat N \<le> hi"
    using N fit by (auto simp: hi_def node_end_def x_def)
  have le: "unat (PageAddr x) \<le> unat M + 1" 
    using fit less_eq_div_iff_mult_less_eq [of PAGE "pfn x" "unat M + 1"] a
    by (simp add: node_end_def x_def)
  have "unat (M + 1 - PageAddr x) = unat M + 1 - pfn x * PAGE"
    using unat_gap [of "PageAddr x" M] le f a by simp
  then have gap: "unat (TRUNCATE_TO_PAGES (M + 1 - PageAddr x)) = (unat M + 1) div PAGE - pfn x"
    using div_mult_self1 by simp
  define Top where "Top = (if TRUNCATE_TO_PAGES (M + 1 - PageAddr x) > NumberOfPages x 
     then NumberOfPages x else TRUNCATE_TO_PAGES (M + 1 - PageAddr x))"
  have Top: "unat Top = hi - pfn x"
    using gap f by (auto simp: Top_def node_end_def hi_def x_def word_less_nat_alt)
  have Bot: "unat (Top - N) = hi - unat N - pfn x"
    using Top hi by (simp add: unat_sub_noov)
  have n: "pfn x + (hi - unat N - pfn x) = hi - unat N" using hi by simp
  have addr: "unat (PageAddr x + EFI_PAGES_TO_SIZE t) = (pfn x + unat t) * PAGE"
    if "unat t \<le> pend x - pfn x" for t
    using that f a by (subst unat_add_noov) simp_all
  have ret: "PageAddr x + EFI_PAGES_TO_SIZE (Top - N) = of_nat ((hi - unat N) * PAGE)"
    using addr [of "Top - N"] Bot hi n f(3) 
    by (intro word_unat_eq_iff [THEN iffD2]) (subst unat_of_nat64, auto)
  have lowr: "x\<lparr>NumberOfPages := Top - N\<rparr> = mk_node (pfn x) (hi - unat N)" 
    using mk_nodeI [of "PageAddr x" "pfn x" "Top - N" "hi - unat N"] a Bot by (cases x) simp
  have high: "\<lparr>PageAddr = PageAddr x + EFI_PAGES_TO_SIZE Top, NumberOfPages = NumberOfPages x - Top\<rparr> 
     = mk_node hi (pend x)" if "hi < pend x"
    using that addr [of Top] Top f hi by (intro mk_nodeI) (auto simp: unat_sub_noov)
  have c1: "Top < NumberOfPages x \<longleftrightarrow> hi < pend x" and c2: "Top - N > 0 \<longleftrightarrow> pfn x < hi - unat N"
    using Top Bot f hi by (auto simp: word_less_nat_alt)
  have "PageAddr x + EFI_PAGES_TO_SIZE Top \<noteq> PageAddr x"
    using addr [of Top] Top hi f(4) a by (simp add: word_unat_eq_iff)
  then show ?thesis
    unfolding InternalAllocPagesOnOneNode_def Let_def x_def [symmetric] Top_def [symmetric]
    using c1 c2 lowr high ret by (simp add: split_node_def)
qed

text \<open>The first pages of the free runs of \<open>n\<close> pages that end at or below \<open>MaxAddress\<close>.\<close>

definition fits :: "memory_map \<Rightarrow> nat \<Rightarrow> UINTN \<Rightarrow> nat set" where
  "fits m n M = {p. {p ..< p + n} \<subseteq> free_pages m \<and> (p + n) * PAGE \<le> unat M + 1}"

definition node_fits :: "FREE_PAGE_LIST \<Rightarrow> UINTN \<Rightarrow> UINTN \<Rightarrow> bool" where
  "node_fits x N M \<longleftrightarrow> pfn x + unat N \<le> node_end x M"

lemma node_fits_guard:
  assumes "wf_node x" "0 < unat N"
  shows "N \<le> NumberOfPages x \<and> PageAddr x + EFI_PAGES_TO_SIZE N - 1 \<le> M \<longleftrightarrow> node_fits x N M"
proof (cases "unat N \<le> pend x - pfn x")
  case True
  note f = wf_node_facts [OF assms(1)] wf_node_addr [OF assms(1)]
  have "unat (PageAddr x + EFI_PAGES_TO_SIZE N) = (pfn x + unat N) * PAGE"
    using True f by (subst unat_add_noov) simp_all
  then have "unat (PageAddr x + EFI_PAGES_TO_SIZE N - 1) = (pfn x + unat N) * PAGE - 1"
    using f by (subst unat_sub_noov) simp_all
  then show ?thesis using True f assms(2) less_eq_div_iff_mult_less_eq [of PAGE "pfn x + unat N" "unat M + 1"]
    by (auto simp: node_fits_def node_end_def word_le_nat_alt)
next
  case False
  then show ?thesis using wf_node_facts [OF assms(1)] 
    by (auto simp: node_fits_def node_end_def word_le_nat_alt)
qed

lemma MaxAddress_loop_none:
  assumes "wf_map m" "0 < unat N" "i \<le> length m" "\<forall>j < i. \<not> node_fits (m ! j) N M"
  shows "InternalAllocMaxAddress_loop m i N M = Some (m, - 1)"
  using assms by (induction i) (auto simp: node_fits_guard wf_map_def)

lemma MaxAddress_loop_some:
  assumes "wf_map m" "0 < unat N" "i \<le> length m" "j < i" "node_fits (m ! j) N M"
    "\<forall>k. j < k \<longrightarrow> k < i \<longrightarrow> \<not> node_fits (m ! k) N M"
  shows "InternalAllocMaxAddress_loop m i N M = InternalAllocPagesOnOneNode m j N M"
  using assms
proof (induction i)
  case (Suc i)
  then show ?case by (cases "i = j") (auto simp: node_fits_guard wf_map_def)
qed simp

lemma fits_node:
  assumes "wf_map m" "0 < unat N" "p \<in> fits m (unat N) M"
  obtains k where "k < length m" "node_fits (m ! k) N M" "pfn (m ! k) \<le> p" "p + unat N \<le> node_end (m ! k) M"
proof -
  obtain x where x: "x \<in> set m" "{p ..< p + unat N} \<subseteq> node_pages x"
    using run_in_one_node [OF assms(1,2)] assms(3) unfolding fits_def by blast
  then have "pfn x \<le> p" "p + unat N \<le> pend x"
    using assms(2) by (auto simp: node_pages_def ivl_subset)
  moreover have "p + unat N \<le> (unat M + 1) div PAGE"
    using assms(3) less_eq_div_iff_mult_less_eq [of PAGE "p + unat N" "unat M + 1"] by (simp add: fits_def)
  ultimately have "pfn x \<le> p" "p + unat N \<le> node_end x M" "node_fits x N M"
    by (auto simp: node_end_def node_fits_def)
  then show ?thesis using x that by (metis in_set_conv_nth)
qed

lemma node_fits_in_fits:
  assumes "wf_map m" "k < length m" "node_fits (m ! k) N M" "0 < unat N"
  shows "node_end (m ! k) M - unat N \<in> fits m (unat N) M"
proof -
  let ?e = "node_end (m ! k) M"
  have le: "pfn (m ! k) + unat N \<le> ?e" "?e \<le> pend (m ! k)" "?e \<le> (unat M + 1) div PAGE"
    using assms(3) by (auto simp: node_fits_def node_end_def)
  have "?e * PAGE \<le> unat M + 1" using le(3) less_eq_div_iff_mult_less_eq [of PAGE ?e "unat M + 1"] by simp
  moreover have "{?e - unat N ..< ?e} \<subseteq> free_pages m"
    using take_run(3) [OF assms(1,2), of "?e - unat N" ?e] le assms(4) by simp
  ultimately show ?thesis using le by (simp add: fits_def)
qed

lemma finite_fits:
  assumes "wf_map m" "0 < unat N" shows "finite (fits m (unat N) M)"
proof (rule finite_subset)
  show "fits m (unat N) M \<subseteq> free_pages m" using assms(2) by (auto simp: fits_def)
qed (simp add: free_pages_def node_pages_def)

lemma InternalAllocMaxAddress_none:
  assumes "wf_map m" "0 < unat N" "fits m (unat N) M = {}"
  shows "InternalAllocMaxAddress m N M = Some (m, - 1)"
  unfolding InternalAllocMaxAddress_def
  using node_fits_in_fits [OF assms(1) _ _ assms(2), of _ M] assms
  by (intro MaxAddress_loop_none) auto

lemma InternalAllocMaxAddress_some:
  assumes wf: "wf_map m" and N: "0 < unat N" and ne: "fits m (unat N) M \<noteq> {}"
  shows "\<exists>m'. InternalAllocMaxAddress m N M = Some (m', of_nat (Max (fits m (unat N) M) * PAGE)) \<and> wf_map m' \<and>
    free_pages m' = free_pages m - {Max (fits m (unat N) M) ..< Max (fits m (unat N) M) + unat N}"
proof -
  let ?J = "{k. k < length m \<and> node_fits (m ! k) N M}"
  define j where "j = Max ?J"
  have fin: "finite ?J" by simp
  have "?J \<noteq> {}" using ne fits_node [OF wf N] by blast
  then have j: "j < length m" "node_fits (m ! j) N M"
    using Max_in [OF fin] by (auto simp: j_def)
  have top: "k \<le> j" if "k < length m" "node_fits (m ! k) N M" for k
    using Max_ge [OF fin] that by (auto simp: j_def)
  let ?e = "node_end (m ! j) M"
  have e: "pfn (m ! j) + unat N \<le> ?e" "?e \<le> pend (m ! j)"
    using j(2) by (auto simp: node_fits_def node_end_def)
  have ub: "p \<le> ?e - unat N" if p: "p \<in> fits m (unat N) M" for p
  proof -
    obtain k where k: "k < length m" "node_fits (m ! k) N M" "p + unat N \<le> node_end (m ! k) M"
      using fits_node [OF wf N p] by metis
    show ?thesis
    proof (cases "k = j")
      case False
      then have "pend (m ! k) < pfn (m ! j)" using top [OF k(1,2)] wf j(1) k(1)
        by (simp add: wf_map_def sorted_wrt_iff_nth_less)
      moreover have "p + unat N \<le> pend (m ! k)" using k(3) by (simp add: node_end_def)
      ultimately show ?thesis using e by linarith
    qed (use k in simp)
  qed
  have "Max (fits m (unat N) M) = ?e - unat N"
  proof (rule Max_eqI)
    show "finite (fits m (unat N) M)" by (rule finite_fits [OF wf N])
  qed (use ub node_fits_in_fits [OF wf j N] in auto)
  moreover have "InternalAllocMaxAddress m N M = InternalAllocPagesOnOneNode m j N M"
    unfolding InternalAllocMaxAddress_def
    by (intro MaxAddress_loop_some [OF wf N _ j]) (use top in \<open>force simp: not_less [symmetric]\<close>)+
  moreover have "wf_node (m ! j)" using wf j(1) by (simp add: wf_map_def)
  ultimately show ?thesis
    using OnOneNode_eq [of m j N M] take_run [OF wf j(1), of "?e - unat N" ?e] e N by auto
qed

section \<open>Allocation at a given address\<close>

lemma Address_loop_eq:
  assumes "i \<le> length m"
  shows "InternalAllocAddress_loop m i N A E =
    (let J = {k. k < i \<and> PageAddr (m ! k) \<le> A} in
     if J = {} then Some (m, NOT A)
     else if PageAddr (m ! Max J) + EFI_PAGES_TO_SIZE (NumberOfPages (m ! Max J)) < E
     then Some (m, NOT A) else InternalAllocPagesOnOneNode m (Max J) N E)"
  using assms
proof (induction i)
  case (Suc i)
  have split: "{k. k < Suc i \<and> PageAddr (m ! k) \<le> A} =
    (if PageAddr (m ! i) \<le> A then insert i {k. k < i \<and> PageAddr (m ! k) \<le> A}
     else {k. k < i \<and> PageAddr (m ! k) \<le> A})" by (auto simp: less_Suc_eq)
  have "Max (insert i {k. k < i \<and> PageAddr (m ! k) \<le> A}) = i"
    by (rule Max_eqI) auto
  then show ?case using Suc by (auto simp: split Let_def)
qed simp

lemma node_of_page:
  assumes "wf_map m" "p \<in> free_pages m"
  shows "\<exists>k < length m. pfn (m ! k) \<le> p \<and> p < pend (m ! k)"
  using assms(2) by (auto simp: free_pages_def node_pages_def in_set_conv_nth)

lemma InternalAllocAddress_spec:
  assumes wf: "wf_map m" and N: "0 < unat N" and al: "unat A mod PAGE = 0"
    and nov: "unat A + unat N * PAGE < 18446744073709551616"
  defines "a \<equiv> unat A div PAGE"
  shows "if {a ..< a + unat N} \<subseteq> free_pages m
    then \<exists>m'. InternalAllocAddress m N A = Some (m', A) \<and> wf_map m' \<and>
           free_pages m' = free_pages m - {a ..< a + unat N}
    else InternalAllocAddress m N A = Some (m, NOT A)"
proof -
  let ?E = "A + EFI_PAGES_TO_SIZE N"
  let ?J = "{k. k < length m \<and> PageAddr (m ! k) \<le> A}"
  have A: "unat A = a * PAGE" using al by (auto simp: a_def)
  have E: "unat ?E = (a + unat N) * PAGE" using nov A by (subst unat_add_noov) simp_all
  have wfn: "wf_node (m ! k)" if "k < length m" for k using wf that by (simp add: wf_map_def)
  have J: "k \<in> ?J \<longleftrightarrow> k < length m \<and> pfn (m ! k) \<le> a" for k
    using wf_node_addr [OF wfn] A by (auto simp: word_le_nat_alt)
  have nend: "unat (PageAddr x + EFI_PAGES_TO_SIZE (NumberOfPages x)) = pend x * PAGE" if "wf_node x" for x
    using wf_node_facts [OF that] wf_node_addr [OF that] by (subst unat_add_noov) auto
  define j where "j = Max ?J"
  have eq: "InternalAllocAddress m N A =
    (if ?J = {} \<or> pend (m ! j) < a + unat N then Some (m, NOT A)
     else InternalAllocPagesOnOneNode m j N ?E)"
  proof (cases "?J = {}")
    case False
    then have "j < length m" using Max_in [of ?J] by (auto simp: j_def)
    then show ?thesis using al False E nend [OF wfn]
      by (auto simp: InternalAllocAddress_def Address_loop_eq Let_def j_def word_less_nat_alt)
  qed (use al in \<open>simp add: InternalAllocAddress_def Address_loop_eq\<close>)
  have jJ: "j \<in> ?J" if "?J \<noteq> {}" unfolding j_def using that by (intro Max_in) simp_all
  have top: "j < length m" "pfn (m ! j) \<le> a" "k \<le> j" if "k < length m" "pfn (m ! k) \<le> a" for k
  proof -
    have k: "k \<in> ?J" using that J by blast
    then show "k \<le> j" unfolding j_def by (intro Max_ge) simp_all
    show "j < length m" "pfn (m ! j) \<le> a" using jJ J [of j] k by blast+
  qed
  have inj: "j = k" if k: "k < length m" "pfn (m ! k) \<le> a" "a < pend (m ! k)" for k
  proof (rule ccontr)
    assume "j \<noteq> k"
    then have "pend (m ! k) < pfn (m ! j)" using top [OF k(1,2)] wf k(1)
      by (simp add: wf_map_def sorted_wrt_iff_nth_less)
    then show False using k top [OF k(1,2)] by simp
  qed
  show ?thesis
  proof (cases "{a ..< a + unat N} \<subseteq> free_pages m")
    case True
    obtain x where "x \<in> set m" "{a ..< a + unat N} \<subseteq> node_pages x"
      using run_in_one_node [OF wf N True] by blast
    then obtain k where k: "k < length m" "pfn (m ! k) \<le> a" "a + unat N \<le> pend (m ! k)"
      using N by (auto simp: in_set_conv_nth node_pages_def ivl_subset)
    have jk: "j = k" using inj k N by simp
    have ne: "node_end (m ! j) ?E = a + unat N" using k jk E by (simp add: node_end_def)
    have "InternalAllocPagesOnOneNode m j N ?E =
      Some (take j m @ split_node (m ! j) a (a + unat N) @ drop (Suc j) m, of_nat (a * PAGE))"
      using OnOneNode_eq [of m j N ?E] wfn k jk N ne by simp
    moreover have "of_nat (a * PAGE) = A" using A by (metis of_nat_unat ucast_id)
    moreover have "k \<in> ?J" using J k by blast
    ultimately show ?thesis
      using True eq k jk N take_run [OF wf, of j a "a + unat N"] by auto
  next
    case False
    have "?J = {} \<or> pend (m ! j) < a + unat N"
    proof (rule ccontr)
      assume *: "\<not> (?J = {} \<or> pend (m ! j) < a + unat N)"
      then have "j < length m" "pfn (m ! j) \<le> a" using J Max_in [of ?J] by (auto simp: j_def)
      then show False using * False N take_run(3) [OF wf, of j a "a + unat N"] by auto
    qed
    then show ?thesis using False eq by simp
  qed
qed

section \<open>Release\<close>

lemma FreePages_find_split:
  "FreePages_find m a = length (takeWhile (\<lambda>x. PageAddr x \<le> a) m)"
  by (induction m) (auto simp: not_less)

lemma split_at_find:
  obtains pre post where "m = pre @ post" "FreePages_find m a = length pre"
    "\<forall>x \<in> set pre. PageAddr x \<le> a" "post = [] \<or> a < PageAddr (hd post)"
proof
  show "m = takeWhile (\<lambda>x. PageAddr x \<le> a) m @ dropWhile (\<lambda>x. PageAddr x \<le> a) m" by simp
  show "dropWhile (\<lambda>x. PageAddr x \<le> a) m = [] \<or> a < PageAddr (hd (dropWhile (\<lambda>x. PageAddr x \<le> a) m))"
    by (metis hd_dropWhile not_le)
qed (auto simp: FreePages_find_split dest: set_takeWhileD)

lemma InternalMergeNodes_eq:
  assumes "wf_node x" "wf_node y" "pend x \<le> pfn y"
  shows "InternalMergeNodes (pre @ x # y # post) (length pre) =
    (if pend x = pfn y then (pre @ mk_node (pfn x) (pend y) # post, length pre)
     else (pre @ x # y # post, Suc (length pre)))"
proof -
  note f = wf_node_facts [OF assms(1)] wf_node_addr [OF assms(1)]
    and g = wf_node_facts [OF assms(2)] wf_node_addr [OF assms(2)]
  have "unat (PageAddr y - PageAddr x) = (pfn y - pfn x) * PAGE"
    using f g assms(3) by (subst unat_sub_noov) (auto simp: diff_mult_distrib)
  then have c: "TRUNCATE_TO_PAGES (PageAddr y - PageAddr x) = NumberOfPages x \<longleftrightarrow> pend x = pfn y"
    using f assms(3) by (auto simp: word_unat_eq_iff)
  have "x\<lparr>NumberOfPages := NumberOfPages x + NumberOfPages y\<rparr> = mk_node (pfn x) (pend y)" if "pend x = pfn y"
  proof -
    have sum: "unat (NumberOfPages x) + unat (NumberOfPages y) = pend y - pfn x"
      using f(2,4) g(2,4) that by linarith
    then have "unat (NumberOfPages x + NumberOfPages y) = pend y - pfn x"
      using g(3) unat_add_noov [of "NumberOfPages x" "NumberOfPages y"] by linarith
    moreover have "x\<lparr>NumberOfPages := n\<rparr> = \<lparr>PageAddr = PageAddr x, NumberOfPages = n\<rparr>" for n
      by (cases x) simp
    ultimately show ?thesis using mk_nodeI [OF f(6)] by metis
  qed
  then show ?thesis using c by (simp add: InternalMergeNodes_def nth_append Let_def)
qed

lemma wf_map_above_pre:
  assumes "wf_map (pre @ x # post)" "y \<in> set pre" shows "pend y < pfn x"
  using assms by simp

text \<open>The list after the new node is put between \<open>pre\<close> and \<open>post\<close> and merged with its neighbours.\<close>

definition merge_left :: "memory_map \<Rightarrow> FREE_PAGE_LIST \<Rightarrow> memory_map \<times> FREE_PAGE_LIST" where
  "merge_left pre z = (if pre \<noteq> [] \<and> pend (last pre) = pfn z
     then (butlast pre, mk_node (pfn (last pre)) (pend z)) else (pre, z))"

definition merge_right :: "FREE_PAGE_LIST \<Rightarrow> memory_map \<Rightarrow> memory_map" where
  "merge_right z post = (case post of [] \<Rightarrow> [z]
     | y # ys \<Rightarrow> if pend z = pfn y then mk_node (pfn z) (pend y) # ys else z # y # ys)"

definition fits_between :: "memory_map \<Rightarrow> FREE_PAGE_LIST \<Rightarrow> memory_map \<Rightarrow> bool" where
  "fits_between pre z post \<longleftrightarrow> wf_map pre \<and> wf_map post \<and> wf_node z \<and>
     (\<forall>x \<in> set pre. pend x \<le> pfn z) \<and> (\<forall>y \<in> set post. pend z \<le> pfn y)"

lemma merge_left_correct:
  assumes "fits_between pre z post" and "merge_left pre z = (pre', z')"
  shows "wf_map (pre' @ [z'])" "free_pages pre' \<union> node_pages z' = free_pages pre \<union> node_pages z"
    "fits_between pre' z' post"
proof -
  have "wf_map (pre' @ [z']) \<and> free_pages pre' \<union> node_pages z' = free_pages pre \<union> node_pages z \<and>
    fits_between pre' z' post"
  proof (cases pre rule: rev_cases)
    case Nil
    then show ?thesis using assms by (auto simp: merge_left_def fits_between_def)
  next
    case (snoc p x)
    have wf: "wf_map (p @ [x])" "wf_node z" "pend x \<le> pfn z" "wf_node x"
      using assms(1) snoc by (auto simp: fits_between_def)
    have px: "pend y < pfn x" if "y \<in> set p" for y using wf that by auto
    note f = wf_node_facts(1-3) [OF wf(4)] wf_node_facts(1-3) [OF wf(2)]
    show ?thesis
    proof (cases "pend x = pfn z")
      case True
      have lt: "pfn x < pend z" "0 < pfn x" "pend z < 4503599627370496" using f True by auto
      have res: "pre' = p" "z' = mk_node (pfn x) (pend z)"
        using assms(2) snoc True by (auto simp: merge_left_def)
      have "node_pages z' = node_pages x \<union> node_pages z"
        using res lt f True by (auto simp: node_pages_def)
      then show ?thesis using res lt assms(1) snoc px by (auto simp: fits_between_def less_imp_le)
    next
      case False
      then have "pend x < pfn z" using wf by simp
      moreover have "pend y < pfn z" if "y \<in> set p" for y
        using px [OF that] f calculation by simp
      ultimately show ?thesis using False assms snoc by (auto simp: merge_left_def fits_between_def)
    qed
  qed
  then show "wf_map (pre' @ [z'])" "free_pages pre' \<union> node_pages z' = free_pages pre \<union> node_pages z"
    "fits_between pre' z' post" by auto
qed

lemma merge_right_correct:
  assumes "fits_between pre z post" and "wf_map (pre @ [z])"
  shows "wf_map (pre @ merge_right z post)"
    "free_pages (merge_right z post) = node_pages z \<union> free_pages post"
proof -
  have "wf_map (pre @ merge_right z post) \<and> free_pages (merge_right z post) = node_pages z \<union> free_pages post"
  proof (cases post)
    case Nil
    then show ?thesis using assms by (auto simp: merge_right_def)
  next
    case (Cons y ys)
    have wf: "wf_map (y # ys)" "wf_node z" "pend z \<le> pfn y" "wf_node y"
      using assms(1) Cons by (auto simp: fits_between_def)
    note f = wf_node_facts(1-3) [OF wf(4)] wf_node_facts(1-3) [OF wf(2)]
    have pz: "pend x < pfn z" if "x \<in> set pre" for x using assms(2) that by auto
    have lt: "pfn z < pend y" using f wf by simp
    have zy: "pend x < pfn w" if "x \<in> set pre" "w \<in> set (y # ys)" for x w
      using pz [OF that(1)] f assms(1) Cons that(2) by (force simp: fits_between_def)
    show ?thesis
    proof (cases "pend z = pfn y")
      case True
      then show ?thesis using Cons wf f lt pz zy assms
        by (auto simp: merge_right_def node_pages_def)
    next
      case False
      then have "pend z < pfn y" using wf by simp
      then show ?thesis using Cons wf f lt zy assms False by (fastforce simp: merge_right_def)
    qed
  qed
  then show "wf_map (pre @ merge_right z post)"
    "free_pages (merge_right z post) = node_pages z \<union> free_pages post" by auto
qed

lemma wf_map_last: "wf_map m \<Longrightarrow> x \<in> set m \<Longrightarrow> pend x \<le> pend (last m)"
  by (cases m rule: rev_cases) (auto dest: wf_node_facts(2) bspec intro: less_imp_le less_trans)

lemma wf_map_hd: "wf_map m \<Longrightarrow> x \<in> set m \<Longrightarrow> pfn (hd m) \<le> pfn x"
  by (cases m) (auto dest: wf_node_facts(2) bspec intro: less_imp_le less_trans)

lemma free_insert_merge:
  assumes fb: "fits_between pre z post" and z: "z = \<lparr>PageAddr = A, NumberOfPages = N\<rparr>"
  defines "m1 \<equiv> pre @ z # post"
  shows "(let (m2, j) = (if length pre \<noteq> 0 then InternalMergeNodes m1 (length pre - 1) else (m1, length pre))
          in if length pre \<noteq> length (pre @ post) then fst (InternalMergeNodes m2 j) else m2)
    = (let (pre', z') = merge_left pre z in pre' @ merge_right z' post)"
proof -
  obtain pre' z' where ml: "merge_left pre z = (pre', z')" by fastforce
  note c = merge_left_correct [OF fb ml]
  have left: "(if length pre \<noteq> 0 then InternalMergeNodes m1 (length pre - 1) else (m1, length pre))
    = (pre' @ z' # post, length pre')"
  proof (cases pre rule: rev_cases)
    case Nil
    then show ?thesis using ml by (simp add: merge_left_def m1_def)
  next
    case (snoc p x)
    then have "wf_node x" "wf_node z" "pend x \<le> pfn z" using fb by (auto simp: fits_between_def)
    from InternalMergeNodes_eq [OF this, of p post] show ?thesis
      using ml snoc by (auto simp: merge_left_def m1_def split: if_splits)
  qed
  have right: "(if length pre \<noteq> length (pre @ post)
      then fst (InternalMergeNodes (pre' @ z' # post) (length pre')) else pre' @ z' # post)
    = pre' @ merge_right z' post"
  proof (cases post)
    case (Cons y ys)
    then have "wf_node z'" "wf_node y" "pend z' \<le> pfn y" using c(3) by (auto simp: fits_between_def)
    from InternalMergeNodes_eq [OF this, of pre' ys] show ?thesis
      using Cons by (simp add: merge_right_def)
  qed (simp add: merge_right_def)
  show ?thesis using left right ml by (simp add: Let_def)
qed

text \<open>The two overlap tests of the release, for a well-formed list split at \<open>Memory\<close>.\<close>

lemma free_guards:
  assumes wf: "wf_map (pre @ post)" and z: "wf_node z"
    and pre: "\<forall>x \<in> set pre. PageAddr x \<le> PageAddr z" and post: "post = [] \<or> PageAddr z < PageAddr (hd post)"
  shows "(post \<noteq> [] \<and> PageAddr z + EFI_PAGES_TO_SIZE (NumberOfPages z) > PageAddr (hd post)) \<or>
     (pre \<noteq> [] \<and> PageAddr (last pre) + EFI_PAGES_TO_SIZE (NumberOfPages (last pre)) > PageAddr z)
     \<longleftrightarrow> node_pages z \<inter> free_pages (pre @ post) \<noteq> {}"
    and "node_pages z \<inter> free_pages (pre @ post) = {} \<Longrightarrow> fits_between pre z post"
proof -
  have nend: "unat (PageAddr x + EFI_PAGES_TO_SIZE (NumberOfPages x)) = pend x * PAGE" if "wf_node x" for x
    using wf_node_facts [OF that] wf_node_addr [OF that] by (subst unat_add_noov) auto
  have wfx: "wf_node x" if "x \<in> set (pre @ post)" for x using wf that by (simp add: wf_map_def)
  have prez: "pfn x \<le> pfn z" if "x \<in> set pre" for x
    using that pre wf_node_addr [OF z] wf_node_addr [OF wfx, of x] by (force simp: word_le_nat_alt)
  have postz: "pfn z < pfn (hd post)" if "post \<noteq> []"
    using that post wf_node_addr [OF z] wf_node_addr [OF wfx, of "hd post"] by (auto simp: word_less_nat_alt)
  have g1: "PageAddr z + EFI_PAGES_TO_SIZE (NumberOfPages z) > PageAddr (hd post) \<longleftrightarrow> pfn (hd post) < pend z"
    if "post \<noteq> []"
    using that nend [OF z] wf_node_addr [OF wfx, of "hd post"] by (simp add: word_less_nat_alt)
  have g2: "PageAddr (last pre) + EFI_PAGES_TO_SIZE (NumberOfPages (last pre)) > PageAddr z \<longleftrightarrow>
      pfn z < pend (last pre)" if "pre \<noteq> []"
    using that nend [OF wfx, of "last pre"] wf_node_addr [OF z] by (simp add: word_less_nat_alt)
  have fb: "fits_between pre z post" if "post \<noteq> [] \<longrightarrow> pend z \<le> pfn (hd post)" "pre \<noteq> [] \<longrightarrow> pend (last pre) \<le> pfn z"
    using that wf z wf_map_last [of pre] wf_map_hd [of post] 
    by (force simp: fits_between_def intro: order_trans)
  have hit: "node_pages z \<inter> node_pages x \<noteq> {}" if "wf_node x" "pfn x < pend z" "pfn z < pend x" for x
  proof -
    have "max (pfn x) (pfn z) \<in> node_pages z \<inter> node_pages x"
      using that wf_node_facts(2) [OF z] wf_node_facts(2) [OF that(1)] by (auto simp: node_pages_def)
    then show ?thesis by blast
  qed
  have l: "pfn (last pre) < pend z" if "pre \<noteq> []" 
    using that prez [of "last pre"] wf_node_facts(2) [OF z] by simp
  have h: "pfn z < pend (hd post)" if "post \<noteq> []"
    using that postz wf_node_facts(2) [OF wfx, of "hd post"] by force
  have 1: "node_pages z \<inter> free_pages (pre @ post) \<noteq> {}" if "post \<noteq> [] \<and> pfn (hd post) < pend z"
    using that hit [OF wfx, of "hd post"] h by (auto simp: free_pages_def)
  have 2: "node_pages z \<inter> free_pages (pre @ post) \<noteq> {}" if "pre \<noteq> [] \<and> pfn z < pend (last pre)"
  proof -
    have "node_pages (last pre) \<subseteq> free_pages (pre @ post)" using that by (auto simp: free_pages_def)
    then show ?thesis using that hit [OF wfx, of "last pre"] l by fastforce
  qed
  have 3: "node_pages z \<inter> free_pages (pre @ post) = {}" if "fits_between pre z post"
    using that by (fastforce simp: fits_between_def free_pages_def node_pages_def)
  show "(post \<noteq> [] \<and> PageAddr z + EFI_PAGES_TO_SIZE (NumberOfPages z) > PageAddr (hd post)) \<or>
     (pre \<noteq> [] \<and> PageAddr (last pre) + EFI_PAGES_TO_SIZE (NumberOfPages (last pre)) > PageAddr z)
     \<longleftrightarrow> node_pages z \<inter> free_pages (pre @ post) \<noteq> {}"
    using 1 2 3 fb g1 g2 by (meson not_le)
  show "fits_between pre z post" if "node_pages z \<inter> free_pages (pre @ post) = {}" 
    using that 1 2 fb by (meson not_le)
qed

lemma SmmInternalFreePages_spec:
  assumes wf: "wf_map m" and al: "unat A mod PAGE = 0" and A: "A \<noteq> 0" and N: "N \<noteq> 0"
    and top: "unat A div PAGE + unat N < 4503599627370496"
  defines "R \<equiv> {unat A div PAGE ..< unat A div PAGE + unat N}"
  shows "if R \<inter> free_pages m = {}
    then \<exists>m'. SmmInternalFreePages A N m = (EFI_SUCCESS, m') \<and> wf_map m' \<and> free_pages m' = free_pages m \<union> R
    else SmmInternalFreePages A N m = (EFI_INVALID_PARAMETER, m)"
proof -
  obtain pre post where m: "m = pre @ post" "FreePages_find m A = length pre"
    and s: "\<forall>x \<in> set pre. PageAddr x \<le> A" "post = [] \<or> A < PageAddr (hd post)"
    by (rule split_at_find)
  define z where "z = \<lparr>PageAddr = A, NumberOfPages = N\<rparr>"
  have z: "wf_node z" "node_pages z = R"
    using assms by (auto simp: z_def wf_node_def pend_def pfn_def node_pages_def R_def)
  note g = free_guards [OF _ z(1), of pre post] 
  obtain pre' z' where ml: "merge_left pre z = (pre', z')" by fastforce
  have "SmmInternalFreePages A N m =
    (if (post \<noteq> [] \<and> PageAddr z + EFI_PAGES_TO_SIZE (NumberOfPages z) > PageAddr (hd post)) \<or>
     (pre \<noteq> [] \<and> PageAddr (last pre) + EFI_PAGES_TO_SIZE (NumberOfPages (last pre)) > PageAddr z)
     then (EFI_INVALID_PARAMETER, m)
     else (EFI_SUCCESS, let (m2, j) = (if length pre \<noteq> 0 then InternalMergeNodes (pre @ z # post) (length pre - 1) 
              else (pre @ z # post, length pre))
          in if length pre \<noteq> length (pre @ post) then fst (InternalMergeNodes m2 j) else m2))"
    using al m(2) by (auto simp: SmmInternalFreePages_def m(1) z_def Let_def nth_append hd_conv_nth 
       last_conv_nth split: prod.splits)
  then show ?thesis 
    using g wf m s z ml free_insert_merge [of pre z post A N] 
      merge_left_correct [of pre z post pre' z'] merge_right_correct [of pre' z' post]
    by (auto simp: z_def)
qed

section \<open>The page service as an interface\<close>

text \<open>
  What the pool and the lock box rely on: an allocation takes a whole run out of the free pages,
  a release of such a run succeeds and puts it back, and the state is a function of the free set.
\<close>

definition page_run :: "UINTN \<Rightarrow> UINTN \<Rightarrow> nat set" where
  "page_run a N = {unat a div PAGE ..< unat a div PAGE + unat N}"

definition wf_run :: "UINTN \<Rightarrow> UINTN \<Rightarrow> bool" where
  "wf_run a N \<longleftrightarrow> unat a mod PAGE = 0 \<and> a \<noteq> 0 \<and> N \<noteq> 0 \<and> unat a div PAGE + unat N < 4503599627370496"

definition run_of :: "UINTN \<times> UINTN \<Rightarrow> nat set" where
  "run_of x = page_run (fst x) (snd x)"

locale page_allocator =
  fixes inv :: "'s \<Rightarrow> bool"
    and free :: "'s \<Rightarrow> nat set"
    and valid :: "'r \<Rightarrow> UINTN \<Rightarrow> bool"
    and alloc :: "'r \<Rightarrow> UINTN \<Rightarrow> 's \<Rightarrow> (UINTN \<times> 's) option"
    and release :: "UINTN \<Rightarrow> UINTN \<Rightarrow> 's \<Rightarrow> 's option"
  assumes alloc_law: "inv s \<Longrightarrow> valid r N \<Longrightarrow> alloc r N s = Some (a, s') \<Longrightarrow>
      inv s' \<and> wf_run a N \<and> page_run a N \<subseteq> free s \<and> free s' = free s - page_run a N"
    and release_law: "inv s \<Longrightarrow> wf_run a N \<Longrightarrow> page_run a N \<inter> free s = {} \<Longrightarrow>
      \<exists>s'. release a N s = Some s' \<and> inv s' \<and> free s' = free s \<union> page_run a N"
    and canonical: "inv s \<Longrightarrow> inv s' \<Longrightarrow> free s = free s' \<Longrightarrow> s = s'"
begin

lemma alloc_release:
  assumes "inv s" "valid r N" "alloc r N s = Some (a, s')"
  shows "release a N s' = Some s"
proof -
  note A = alloc_law [OF assms]
  obtain s'' where s'': "release a N s' = Some s''" "inv s''" "free s'' = free s' \<union> page_run a N"
    using release_law [of s' a N] A by blast
  then have "free s'' = free s" using A by blast
  then show ?thesis using canonical [OF s''(2) assms(1)] s''(1) by simp
qed

text \<open>The bookkeeping a client keeps: the runs it holds and the pages the service started with.\<close>

definition accounts :: "nat set \<Rightarrow> 's \<Rightarrow> (UINTN \<times> UINTN) set \<Rightarrow> bool" where
  "accounts P s live \<longleftrightarrow> inv s \<and> free s \<union> \<Union>(run_of ` live) = P \<and>
     (\<forall>x \<in> live. wf_run (fst x) (snd x) \<and> run_of x \<inter> free s = {}) \<and>
     (\<forall>x \<in> live. \<forall>y \<in> live. x \<noteq> y \<longrightarrow> run_of x \<inter> run_of y = {})"

lemma accounts_alloc:
  assumes acc: "accounts P s live" and "valid r N" "alloc r N s = Some (a, s')"
  shows "accounts P s' (insert (a, N) live)"
proof -
  have A: "inv s'" "wf_run a N" "run_of (a, N) \<subseteq> free s" "free s' = free s - run_of (a, N)"
    using alloc_law [of s r N a s'] assms by (auto simp: accounts_def run_of_def)
  have dis: "run_of (a, N) \<inter> run_of y = {}" if "y \<in> live" for y
    using acc that A(3) unfolding accounts_def by blast
  have "free s' \<union> \<Union>(run_of ` insert (a, N) live) = P"
    using acc A(3,4) unfolding accounts_def by auto
  moreover have "wf_run (fst x) (snd x) \<and> run_of x \<inter> free s' = {}" if "x \<in> insert (a, N) live" for x
    using acc A that unfolding accounts_def by auto
  moreover have "run_of x \<inter> run_of y = {}" 
    if "x \<in> insert (a, N) live" "y \<in> insert (a, N) live" "x \<noteq> y" for x y
    using acc that dis unfolding accounts_def by (metis Int_commute insertE)
  ultimately show ?thesis using A(1) unfolding accounts_def by blast
qed

lemma accounts_release:
  assumes acc: "accounts P s live" and mem: "(a, N) \<in> live"
  shows "\<exists>s'. release a N s = Some s' \<and> accounts P s' (live - {(a, N)})"
proof -
  have "inv s" "wf_run a N" "page_run a N \<inter> free s = {}"
    using acc mem unfolding accounts_def run_of_def by (fastforce dest: bspec [of _ _ "(a, N)"])+
  then obtain s' where s': "release a N s = Some s'" "inv s'" "free s' = free s \<union> run_of (a, N)"
    using release_law [of s a N] by (auto simp: run_of_def)
  have dis: "run_of (a, N) \<inter> run_of y = {}" if "y \<in> live" "y \<noteq> (a, N)" for y
    using acc mem that unfolding accounts_def by metis
  have "free s' \<union> \<Union>(run_of ` (live - {(a, N)})) = P"
    using acc mem s'(3) unfolding accounts_def by auto
  moreover have "wf_run (fst x) (snd x) \<and> run_of x \<inter> free s' = {}" if "x \<in> live - {(a, N)}" for x
    using acc s'(3) that dis [of x] unfolding accounts_def by auto
  moreover have "run_of x \<inter> run_of y = {}" 
    if "x \<in> live - {(a, N)}" "y \<in> live - {(a, N)}" "x \<noteq> y" for x y
    using acc that unfolding accounts_def by blast
  ultimately have "accounts P s' (live - {(a, N)})" using s'(2) unfolding accounts_def by blast
  then show ?thesis using s'(1) by blast
qed

end

text \<open>The two services as partial functions of the list: success or no result.\<close>

definition valid_request :: "EFI_ALLOCATE_TYPE \<times> UINTN \<Rightarrow> UINTN \<Rightarrow> bool" where
  "valid_request r N \<longleftrightarrow> N \<noteq> 0 \<and> (fst r = AllocateAddress \<longrightarrow> unat (snd r) + unat N * PAGE < 18446744073709551616)"

definition smm_alloc :: "EFI_ALLOCATE_TYPE \<times> UINTN \<Rightarrow> UINTN \<Rightarrow> memory_map \<Rightarrow> (UINTN \<times> memory_map) option" where
  "smm_alloc r N m = (case SmmAllocatePages (fst r) EfiRuntimeServicesData N (snd r) m of
     None \<Rightarrow> None | Some (Status, a, m') \<Rightarrow> if Status = EFI_SUCCESS then Some (a, m') else None)"

definition smm_release :: "UINTN \<Rightarrow> UINTN \<Rightarrow> memory_map \<Rightarrow> memory_map option" where
  "smm_release a N m = (case SmmFreePages a N m of
     (Status, m') \<Rightarrow> if Status = EFI_SUCCESS then Some m' else None)"

lemma alloc_guard: "\<not> TRUNCATE_TO_PAGES (- 1) + 1 < N \<longleftrightarrow> unat N \<le> 4503599627370496"
proof -
  have "unat (TRUNCATE_TO_PAGES (- 1)) = 4503599627370495" by (simp add: unat_minus_1_64)
  then have "unat (TRUNCATE_TO_PAGES (- 1) + 1) = 4503599627370496" by (subst unat_suc_noov) simp_all
  then show ?thesis by (simp add: word_less_nat_alt not_less)
qed

lemma free_pages_bound: "wf_map m \<Longrightarrow> p \<in> free_pages m \<Longrightarrow> 0 < p \<and> p < 4503599627370495"
  by (force simp: free_pages_def node_pages_def wf_map_def dest: wf_node_facts(1,3))

lemma page_addr:
  assumes "wf_map m" "0 < n" "{p ..< p + n} \<subseteq> free_pages m" "unat N = n"
  shows "unat (of_nat (p * PAGE) :: UINTN) = p * PAGE" "wf_run (of_nat (p * PAGE)) N"
    "page_run (of_nat (p * PAGE)) N = {p ..< p + n}" "of_nat (p * PAGE) \<noteq> (- 1 :: UINTN)"
proof -
  have "p \<in> free_pages m" "p + n - 1 \<in> free_pages m" using assms(2,3) by auto
  then have b: "0 < p" "p < 4503599627370495" "p + n - 1 < 4503599627370495"
    using free_pages_bound [OF assms(1)] by blast+
  show u: "unat (of_nat (p * PAGE) :: UINTN) = p * PAGE" using b by (intro unat_of_nat64) simp
  show "of_nat (p * PAGE) \<noteq> (- 1 :: UINTN)"
  proof
    assume "of_nat (p * PAGE) = (- 1 :: UINTN)"
    then have "p * PAGE = 18446744073709551615" using u unat_minus_1_64 by metis
    then have "(p * PAGE) mod PAGE = 18446744073709551615 mod PAGE" by metis
    then show False by simp
  qed
  show "page_run (of_nat (p * PAGE)) N = {p ..< p + n}" unfolding page_run_def u using assms(4) by simp
  show "wf_run (of_nat (p * PAGE)) N"
    unfolding wf_run_def u word_unat_eq_iff using b assms(2,4) by auto
qed

text \<open>A request served from below a bound.\<close>

lemma AllocatePages_below:
  assumes "wf_map m" "N \<noteq> 0" "unat N \<le> 4503599627370496"
    and "T = AllocateMaxAddress \<and> M = M' \<or> T = AllocateAnyPages \<and> M = - 1"
    and "mt = EfiRuntimeServicesCode \<or> mt = EfiRuntimeServicesData"
  shows "if fits m (unat N) M = {} then SmmAllocatePages T mt N M' m = Some (EFI_OUT_OF_RESOURCES, - 1, m)
    else \<exists>m'. SmmAllocatePages T mt N M' m = Some (EFI_SUCCESS, of_nat (Max (fits m (unat N) M) * PAGE), m') \<and>
      wf_map m' \<and> free_pages m' = free_pages m - {Max (fits m (unat N) M) ..< Max (fits m (unat N) M) + unat N}"
proof -
  have N: "0 < unat N" using assms(2) by (simp add: unat_gt_0)
  have eq: "SmmAllocatePages T mt N M' m =
     map_option (\<lambda>(m', a). (if a = - 1 then EFI_OUT_OF_RESOURCES else EFI_SUCCESS, a, m'))
           (InternalAllocMaxAddress m N M)"
    using assms(3-) alloc_guard [of N] by (auto simp: SmmAllocatePages_def SmmInternalAllocatePages_def)
  show ?thesis
  proof (cases "fits m (unat N) M = {}")
    case True
    then show ?thesis using InternalAllocMaxAddress_none [OF assms(1) N] eq by simp
  next
    case False
    have "Max (fits m (unat N) M) \<in> fits m (unat N) M"
      by (rule Max_in [OF _ False]) (rule finite_fits [OF assms(1) N])
    then have "of_nat (Max (fits m (unat N) M) * PAGE) \<noteq> (- 1 :: UINTN)"
      using page_addr(4) [OF assms(1) N] by (simp add: fits_def)
    then show ?thesis using InternalAllocMaxAddress_some [OF assms(1) N False] eq False by auto
  qed
qed

lemma AllocatePages_address:
  assumes "wf_map m" "N \<noteq> 0" "unat A mod PAGE = 0" "unat A + unat N * PAGE < 18446744073709551616"
    and "mt = EfiRuntimeServicesCode \<or> mt = EfiRuntimeServicesData"
  shows "if page_run A N \<subseteq> free_pages m
    then \<exists>m'. SmmAllocatePages AllocateAddress mt N A m = Some (EFI_SUCCESS, A, m') \<and> wf_map m' \<and>
           free_pages m' = free_pages m - page_run A N
    else SmmAllocatePages AllocateAddress mt N A m = Some (EFI_NOT_FOUND, NOT A, m)"
proof -
  have "0 < unat N" using assms(2) by (simp add: unat_gt_0)
  note spec = InternalAllocAddress_spec [OF assms(1) this assms(3,4)]
  have "unat N \<le> 4503599627370496" using assms(4) by simp
  then have "SmmAllocatePages AllocateAddress mt N A m =
    map_option (\<lambda>(m', a). (if a \<noteq> A then EFI_NOT_FOUND else EFI_SUCCESS, a, m')) (InternalAllocAddress m N A)"
    using assms(5) alloc_guard [of N] by (auto simp: SmmAllocatePages_def SmmInternalAllocatePages_def)
  then show ?thesis using spec by (auto simp: page_run_def split: if_splits)
qed

lemma AllocatePages_unaligned:
  assumes "unat A mod PAGE \<noteq> 0"
  shows "\<exists>s b. SmmAllocatePages AllocateAddress mt N A m = Some (s, b, m) \<and> s \<noteq> EFI_SUCCESS"
  using assms by (auto simp: SmmAllocatePages_def SmmInternalAllocatePages_def InternalAllocAddress_def)

lemma smm_alloc_law:
  assumes "wf_map m" "valid_request r N" "smm_alloc r N m = Some (a, m')"
  shows "wf_map m' \<and> wf_run a N \<and> page_run a N \<subseteq> free_pages m \<and> free_pages m' = free_pages m - page_run a N"
proof -
  obtain T M where r: "r = (T, M)" by fastforce
  have N: "N \<noteq> 0" "0 < unat N" using assms(2) by (auto simp: valid_request_def unat_gt_0)
  have S: "SmmAllocatePages T EfiRuntimeServicesData N M m = Some (EFI_SUCCESS, a, m')"
    using assms(3) r by (auto simp: smm_alloc_def split: option.splits prod.splits if_splits)
  then have le: "unat N \<le> 4503599627370496"
    using alloc_guard [of N] by (auto simp: SmmAllocatePages_def SmmInternalAllocatePages_def split: if_splits)
  have below: ?thesis if "T = AllocateMaxAddress \<and> B = M \<or> T = AllocateAnyPages \<and> B = - 1" for B
  proof -
    let ?F = "fits m (unat N) B"
    note spec = AllocatePages_below [OF assms(1) N(1) le that, of EfiRuntimeServicesData]
    then have ne: "?F \<noteq> {}" using S by auto
    have "Max ?F \<in> ?F" by (rule Max_in [OF finite_fits [OF assms(1) N(2)] ne])
    moreover define p where "p = Max ?F"
    ultimately have p: "{p ..< p + unat N} \<subseteq> free_pages m" by (simp add: fits_def)
    have "a = of_nat (p * PAGE) \<and> wf_map m' \<and> free_pages m' = free_pages m - {p ..< p + unat N}"
      using spec ne S unfolding p_def by (auto simp del: of_nat_mult)
    then show ?thesis using page_addr(2,3) [OF assms(1) N(2) p refl] p by metis
  qed
  show ?thesis
  proof (cases T)
    case AllocateAddress
    then have al: "unat M mod PAGE = 0" using S AllocatePages_unaligned [of M EfiRuntimeServicesData N m] by auto
    have "unat M + unat N * PAGE < 18446744073709551616" using assms(2) r AllocateAddress by (simp add: valid_request_def)
    note spec = AllocatePages_address [OF assms(1) N(1) al this, of EfiRuntimeServicesData]
    moreover have "of_nat (unat M div PAGE * PAGE) = M" using al by (metis div_mult_mod_eq add_0_right of_nat_unat ucast_id)
    ultimately show ?thesis using S AllocateAddress page_addr(2) [OF assms(1) N(2), of "unat M div PAGE" N]
      by (auto simp: page_run_def split: if_splits simp del: of_nat_mult)
  qed (use below S in \<open>auto simp: SmmAllocatePages_def SmmInternalAllocatePages_def split: if_splits\<close>)
qed

lemma smm_release_law:
  assumes "wf_map m" "wf_run a N" "page_run a N \<inter> free_pages m = {}"
  shows "\<exists>m'. smm_release a N m = Some m' \<and> wf_map m' \<and> free_pages m' = free_pages m \<union> page_run a N"
  using SmmInternalFreePages_spec [of m a N] assms
  by (auto simp: wf_run_def page_run_def smm_release_def SmmFreePages_def)

interpretation smm_pages: page_allocator wf_map free_pages valid_request smm_alloc smm_release
  by unfold_locales (use smm_alloc_law smm_release_law wf_map_unique in blast)+


section \<open>Properties\<close>

lemmas page_eval = SmmAllocatePages_def SmmInternalAllocatePages_def InternalAllocAddress_def
  InternalAllocMaxAddress_def InternalAllocPagesOnOneNode_def Let_def EFI_PAGES_TO_SIZE_def
  TRUNCATE_TO_PAGES_def mask_eq_exp_minus_1

text \<open>C3. \<^verbatim>\<open>SmmAllocatePages\<close> for \<^verbatim>\<open>AllocateMaxAddress\<close> (and for \<^verbatim>\<open>AllocateAnyPages\<close>, which is the bound
  \<open>-1\<close>): on a well-formed list it fails with \<^verbatim>\<open>EFI_OUT_OF_RESOURCES\<close>, leaving the list alone, exactly when no
  run of \<open>N\<close> free pages ends at or below the bound; otherwise it returns the highest such run and
  removes exactly its pages, and the list stays well-formed.\<close>

theorem AllocatePages_highest_fit:
  assumes "wf_map m" "N \<noteq> 0" "unat N \<le> 4503599627370496"
    and "T = AllocateMaxAddress \<and> M = Memory \<or> T = AllocateAnyPages \<and> M = - 1"
    and "mt = EfiRuntimeServicesCode \<or> mt = EfiRuntimeServicesData"
  shows "if fits m (unat N) M = {}
    then SmmAllocatePages T mt N Memory m = Some (EFI_OUT_OF_RESOURCES, - 1, m)
    else let p = Max (fits m (unat N) M) in
      \<exists>m'. SmmAllocatePages T mt N Memory m = Some (EFI_SUCCESS, of_nat (p * PAGE), m') \<and> wf_map m' \<and>
           free_pages m' = free_pages m - {p ..< p + unat N}"
  unfolding Let_def by (rule AllocatePages_below [OF assms])

theorem AllocatePages_highest_fit_witness:
  "\<exists>p m'. SmmAllocatePages AllocateAnyPages EfiRuntimeServicesData 2 0 [mk_node 16 32] =
     Some (EFI_SUCCESS, of_nat (p * PAGE), m') \<and> wf_map m' \<and>
     free_pages m' = free_pages [mk_node 16 32] - {p ..< p + 2}"
proof -
  have "16 \<in> fits [mk_node 16 32] (unat (2 :: UINTN)) (- 1)" by (auto simp: fits_def unat_minus_1_64)
  then show ?thesis
    using AllocatePages_highest_fit [of "[mk_node 16 32]" 2 AllocateAnyPages "- 1" 0 EfiRuntimeServicesData]
    by (auto simp: Let_def simp del: of_nat_mult split: if_splits)
qed

text \<open>\<^verbatim>\<open>SmmAllocatePages\<close> for \<^verbatim>\<open>AllocateAddress\<close>: when the requested range does not wrap past the top
  of the address space, an aligned address is granted exactly when all its pages are free, exactly
  those pages are removed, and otherwise the status is \<^verbatim>\<open>EFI_NOT_FOUND\<close> and the list is unchanged.\<close>

theorem AllocatePages_at_address:
  assumes "wf_map m" "N \<noteq> 0" "unat A mod PAGE = 0" "unat A + unat N * PAGE < 18446744073709551616"
    and "mt = EfiRuntimeServicesCode \<or> mt = EfiRuntimeServicesData"
  shows "if page_run A N \<subseteq> free_pages m
    then \<exists>m'. SmmAllocatePages AllocateAddress mt N A m = Some (EFI_SUCCESS, A, m') \<and> wf_map m' \<and>
           free_pages m' = free_pages m - page_run A N
    else SmmAllocatePages AllocateAddress mt N A m = Some (EFI_NOT_FOUND, NOT A, m)"
  by (rule AllocatePages_address [OF assms])

theorem AllocatePages_at_address_witness:
  "\<exists>m'. SmmAllocatePages AllocateAddress EfiRuntimeServicesCode 4 0x12000 [mk_node 16 32] =
      Some (EFI_SUCCESS, 0x12000, m') \<and> wf_map m' \<and> free_pages m' = {16 ..< 32} - page_run 0x12000 4"
  using AllocatePages_at_address [of "[mk_node 16 32]" 4 "0x12000" EfiRuntimeServicesCode]
  by (auto simp: page_run_def)

text \<open>\<^verbatim>\<open>SmmFreePages\<close>: a misaligned address is refused; an aligned run is refused, with the list unchanged,
  exactly when one of its pages is already free; otherwise exactly its pages are added and the new node
  is merged with both neighbours it touches, so the list stays sorted with no two adjacent nodes.\<close>

theorem FreePages_exact:
  assumes "wf_map m" "A \<noteq> 0" "N \<noteq> 0" "unat A div PAGE + unat N < 4503599627370496"
  shows "if unat A mod PAGE \<noteq> 0 \<or> page_run A N \<inter> free_pages m \<noteq> {}
    then SmmFreePages A N m = (EFI_INVALID_PARAMETER, m)
    else \<exists>m'. SmmFreePages A N m = (EFI_SUCCESS, m') \<and> wf_map m' \<and> free_pages m' = free_pages m \<union> page_run A N"
proof (cases "unat A mod PAGE = 0")
  case True
  then show ?thesis using SmmInternalFreePages_spec [OF assms(1) True assms(2-)]
    by (simp add: SmmFreePages_def page_run_def)
next
  case False
  then show ?thesis by (auto simp: SmmFreePages_def SmmInternalFreePages_def)
qed

theorem FreePages_exact_witness:
  "\<exists>m'. SmmFreePages 0x20000 4 [mk_node 16 32] = (EFI_SUCCESS, m') \<and> wf_map m' \<and>
     free_pages m' = {16 ..< 32} \<union> page_run 0x20000 4"
  using FreePages_exact [of "[mk_node 16 32]" "0x20000" 4] by (simp add: page_run_def)

text \<open>Releasing what was just allocated restores the free list itself, node for node, for every
  allocation type and every split of the node the run was taken from.\<close>

theorem AllocatePages_FreePages_roundtrip:
  assumes "wf_map m" "valid_request (T, M) N"
    and "SmmAllocatePages T EfiRuntimeServicesData N M m = Some (EFI_SUCCESS, a, m')"
  shows "SmmFreePages a N m' = (EFI_SUCCESS, m)"
proof -
  have "smm_alloc (T, M) N m = Some (a, m')" using assms(3) by (simp add: smm_alloc_def)
  from smm_pages.alloc_release [OF assms(1,2) this] show ?thesis
    by (auto simp: smm_release_def split: prod.splits if_splits)
qed

theorem AllocatePages_FreePages_roundtrip_witness:
  "SmmFreePages 0x12000 4 [\<lparr>PageAddr = 0x10000, NumberOfPages = 2\<rparr>, \<lparr>PageAddr = 0x16000, NumberOfPages = 10\<rparr>]
    = (EFI_SUCCESS, [\<lparr>PageAddr = 0x10000, NumberOfPages = 16\<rparr>])"
proof (rule AllocatePages_FreePages_roundtrip)
  show "valid_request (AllocateAddress, 0x12000) 4" by (simp add: valid_request_def)
  show "SmmAllocatePages AllocateAddress EfiRuntimeServicesData 4 0x12000 [\<lparr>PageAddr = 0x10000, NumberOfPages = 16\<rparr>] =
      Some (EFI_SUCCESS, 0x12000, [\<lparr>PageAddr = 0x10000, NumberOfPages = 2\<rparr>, \<lparr>PageAddr = 0x16000, NumberOfPages = 10\<rparr>])"
    by (simp add: page_eval)
qed (simp add: wf_map_def wf_node_def pend_def pfn_def)

text \<open>
  Sequences of allocations and releases.  The state is the free list with the runs handed out so
  far; a release is of a run that is held.
\<close>

inductive page_step :: "memory_map \<times> (UINTN \<times> UINTN) set \<Rightarrow> memory_map \<times> (UINTN \<times> UINTN) set \<Rightarrow> bool" where
  step_alloc: "valid_request (T, M) N \<Longrightarrow>
     SmmAllocatePages T EfiRuntimeServicesData N M m = Some (EFI_SUCCESS, a, m') \<Longrightarrow>
     page_step (m, live) (m', insert (a, N) live)"
| step_free: "(a, N) \<in> live \<Longrightarrow> SmmFreePages a N m = (Status, m') \<Longrightarrow>
     page_step (m, live) (m', live - {(a, N)})"

inductive_cases page_stepE: "page_step (m, live) (m', live')"

lemma smm_release_iff: "smm_release a N m = Some m' \<longleftrightarrow> SmmFreePages a N m = (EFI_SUCCESS, m')"
  by (auto simp: smm_release_def split: prod.splits if_splits)

lemma smm_alloc_iff: "smm_alloc (T, M) N m = Some (a, m') \<longleftrightarrow>
    SmmAllocatePages T EfiRuntimeServicesData N M m = Some (EFI_SUCCESS, a, m')"
  by (auto simp: smm_alloc_def split: option.splits prod.splits if_splits)

lemma page_step_accounts:
  assumes "page_step (m, live) (m', live')" "smm_pages.accounts P m live"
  shows "smm_pages.accounts P m' live'"
  using assms(1)
  by (rule page_stepE)
    (use smm_pages.accounts_alloc [OF assms(2)] smm_pages.accounts_release [OF assms(2)]
      in \<open>fastforce simp: smm_alloc_iff smm_release_iff\<close>)+

lemma page_trace_accounts:
  assumes "page_step\<^sup>*\<^sup>* (m0, {}) (m, live)" and "wf_map m0"
  shows "smm_pages.accounts (free_pages m0) m live"
  using assms(1)
proof (induction rule: rtranclp_induct2)
  case refl
  show ?case using assms(2) by (simp add: smm_pages.accounts_def)
next
  case (step m live m' live')
  then show ?case using page_step_accounts by blast
qed

lemma sample_wf: "wf_map [\<lparr>PageAddr = 0x10000, NumberOfPages = 16\<rparr>]"
  by (simp add: wf_map_def wf_node_def pend_def pfn_def)

lemma sample_pages: "free_pages [\<lparr>PageAddr = 0x10000, NumberOfPages = 16\<rparr>] = {16 ..< 32}"
  by (simp add: node_pages_def pend_def pfn_def)

lemma sample_run: "page_step\<^sup>*\<^sup>* ([\<lparr>PageAddr = 0x10000, NumberOfPages = 16\<rparr>], {})
  ([\<lparr>PageAddr = 0x10000, NumberOfPages = 2\<rparr>, \<lparr>PageAddr = 0x16000, NumberOfPages = 10\<rparr>], {(0x12000, 4)})"
  using step_alloc [of AllocateAddress "0x12000" 4 "[\<lparr>PageAddr = 0x10000, NumberOfPages = 16\<rparr>]" _ _ "{}"]
  by (intro r_into_rtranclp) (simp add: page_eval valid_request_def)



text \<open>A held run can always be released: the release succeeds in every state a sequence of
  allocations and releases can reach.\<close>

theorem held_run_release_succeeds:
  assumes "page_step\<^sup>*\<^sup>* (m0, {}) (m, live)" and "wf_map m0" and "(a, N) \<in> live"
  shows "fst (SmmFreePages a N m) = EFI_SUCCESS"
  using smm_pages.accounts_release [OF page_trace_accounts [OF assms(1,2)] assms(3)]
  by (auto simp: smm_release_iff)

theorem held_run_release_succeeds_witness:
  "fst (SmmFreePages 0x12000 4
     [\<lparr>PageAddr = 0x10000, NumberOfPages = 2\<rparr>, \<lparr>PageAddr = 0x16000, NumberOfPages = 10\<rparr>]) = EFI_SUCCESS"
  by (rule held_run_release_succeeds [OF sample_run sample_wf]) simp

lemma wrapped_bottom: "(0 :: UINTN) < - 4503599627370494"
  by code_simp

lemma AddMemoryRegion_pages:
  assumes wf: "wf_map m"
    and attr: "Attributes AND (EFI_ALLOCATED OR EFI_NEEDS_TESTING OR EFI_NEEDS_ECC_INITIALIZATION) = 0"
    and base: "0 < unat MemBase" and top: "unat MemBase + unat MemLength < 18446744073709547520"
  defines "P \<equiv> {p. unat MemBase \<le> p * PAGE \<and> (p + 1) * PAGE \<le> unat MemBase + unat MemLength}"
  assumes ne: "P \<noteq> {}" and dis: "P \<inter> free_pages m = {}"
  shows "wf_map (SmmAddMemoryRegion MemBase MemLength Attributes m) \<and>
    free_pages (SmmAddMemoryRegion MemBase MemLength Attributes m) = free_pages m \<union> P"
proof -
  let ?B = "(MemBase + EFI_PAGE_MASK) AND NOT EFI_PAGE_MASK"
  define b where "b = (unat MemBase + 4095) div PAGE"
  define e where "e = (unat MemBase + unat MemLength) div PAGE"
  have mask: "unat EFI_PAGE_MASK = 4095" by (simp add: EFI_PAGE_MASK_def)
  have B: "unat ?B = b * PAGE"
    unfolding unat_and_not_page_mask b_def using top mask by (subst unat_add_noov) simp_all
  have P: "P = {b ..< e}"
  proof -
    have "unat MemBase \<le> p * PAGE \<longleftrightarrow> b \<le> p" for p unfolding b_def by auto
    moreover have "(p + 1) * PAGE \<le> unat MemBase + unat MemLength \<longleftrightarrow> p < e" for p
      using less_eq_div_iff_mult_less_eq [of PAGE "p + 1" "unat MemBase + unat MemLength"] by (simp add: e_def Suc_le_eq)
    ultimately show ?thesis by (auto simp: P_def)
  qed
  have be: "b < e" using ne P by auto
  have gap: "b * PAGE \<le> unat MemBase + unat MemLength" "unat MemBase \<le> b * PAGE"
    "e < 4503599627370496" using be top unfolding b_def e_def by linarith+
  have "unat (?B - MemBase) = b * PAGE - unat MemBase" using B gap by (simp add: unat_sub_noov)
  then have "unat (MemLength - (?B - MemBase)) = unat MemBase + unat MemLength - b * PAGE"
    using gap by (simp add: unat_sub_noov)
  then have N: "unat (TRUNCATE_TO_PAGES (MemLength - (?B - MemBase))) = e - b"
    by (simp add: e_def)
  have "wf_run ?B (TRUNCATE_TO_PAGES (MemLength - (?B - MemBase)))"
    using B N be gap base by (simp add: wf_run_def word_unat_eq_iff)
  moreover have run: "page_run ?B (TRUNCATE_TO_PAGES (MemLength - (?B - MemBase))) = P"
    using B N be P by (simp add: page_run_def)
  ultimately obtain m' where "smm_release ?B (TRUNCATE_TO_PAGES (MemLength - (?B - MemBase))) m = Some m'"
    "wf_map m'" "free_pages m' = free_pages m \<union> P"
    using smm_release_law [OF wf] dis by metis
  then show ?thesis using attr by (simp add: SmmAddMemoryRegion_def smm_release_iff Let_def)
qed

text \<open>The guard on the page count admits \<open>2 ^ 52\<close> pages, whose size wraps to zero: such a request at
  an address inside a free run reports success, leaves the requested page on the free list and
  gives the node below it a page count of nearly \<open>2 ^ 64\<close>.\<close>

theorem AllocateAddress_size_wrap:
  "SmmAllocatePages AllocateAddress EfiRuntimeServicesData 0x10000000000000 0x12000
     [\<lparr>PageAddr = 0x10000, NumberOfPages = 16\<rparr>] =
   Some (EFI_SUCCESS, 0x12000,
     [\<lparr>PageAddr = 0x10000, NumberOfPages = 0xFFF0000000000002\<rparr>, \<lparr>PageAddr = 0x12000, NumberOfPages = 14\<rparr>])"
  by (simp add: page_eval wrapped_bottom)

text \<open>\<^verbatim>\<open>SmmAddMemoryRegion\<close> of a usable region adds exactly the whole pages that lie inside the region:
  the base is rounded up, the end is rounded down.\<close>

theorem AddMemoryRegion_whole_pages:
  assumes "wf_map m" and "Attributes AND (EFI_ALLOCATED OR EFI_NEEDS_TESTING OR EFI_NEEDS_ECC_INITIALIZATION) = 0"
    and "0 < unat MemBase" and "unat MemBase + unat MemLength < 18446744073709547520"
    and "{p. unat MemBase \<le> p * PAGE \<and> (p + 1) * PAGE \<le> unat MemBase + unat MemLength} \<noteq> {}"
    and "{p. unat MemBase \<le> p * PAGE \<and> (p + 1) * PAGE \<le> unat MemBase + unat MemLength} \<inter> free_pages m = {}"
  shows "wf_map (SmmAddMemoryRegion MemBase MemLength Attributes m) \<and>
    free_pages (SmmAddMemoryRegion MemBase MemLength Attributes m) =
      free_pages m \<union> {p. unat MemBase \<le> p * PAGE \<and> (p + 1) * PAGE \<le> unat MemBase + unat MemLength}"
  by (rule AddMemoryRegion_pages [OF assms])

theorem AddMemoryRegion_whole_pages_witness:
  "free_pages (SmmAddMemoryRegion 0x10800 0x2800 0 []) = {p. 0x10800 \<le> p * PAGE \<and> (p + 1) * PAGE \<le> 0x13000}"
proof -
  have "\<exists>p. 33 \<le> 2 * p \<and> p \<le> (18 :: nat)" by (rule exI [of _ 17]) simp
  then show ?thesis using AddMemoryRegion_whole_pages [of "[]" 0 "0x10800" "0x2800"] by simp
qed

text \<open>An unaligned region that ends before the next page boundary makes the length wrap: instead of
  adding nothing, the function hands nearly \<open>2 ^ 52\<close> pages to the free list.\<close>

lemma AddMemoryRegion_underflow:
  "SmmAddMemoryRegion 0x10800 0x100 0 [] = [\<lparr>PageAddr = 0x11000, NumberOfPages = 0xFFFFFFFFFFFFF\<rparr>]"
  by (simp add: SmmAddMemoryRegion_def SmmFreePages_def SmmInternalFreePages_def page_eval EFI_PAGE_MASK_def)

end
