(* ===== verification/SmmPool.thy ===== *)
theory SmmPool
  imports SmmPage "HOL-Library.Multiset"
begin

text \<open>
  The SMM pool allocator, \<^verbatim>\<open>MdeModulePkg/Core/PiSmmCore/Pool.c\<close>, on top of the page allocator.

  The state holds the page list, the six lists \<^verbatim>\<open>mSmmPoolLists\<close> of free blocks of 64 to 2048 bytes as
  lists of block addresses, and the \<^verbatim>\<open>POOL_HEADER\<close> stored at each block address.  An access to
  \<^verbatim>\<open>mSmmPoolLists\<close> outside its six entries is the outcome \<open>None\<close>, and a pointer the code never
  assigned is the value \<open>None\<close> of an optional address.

  The accounting lemmas count, for every 64-byte granule of SMRAM, how many owners it has: the page
  list, a free block or a block handed out.  The count is kept at one by every operation.
\<close>

section \<open>Data\<close>

definition MIN_POOL_SHIFT :: nat where "MIN_POOL_SHIFT = 6"
definition MIN_POOL_SIZE :: UINTN where "MIN_POOL_SIZE = push_bit MIN_POOL_SHIFT 1"
definition MAX_POOL_SHIFT :: nat where "MAX_POOL_SHIFT = 12 - 1"
definition MAX_POOL_SIZE :: UINTN where "MAX_POOL_SIZE = push_bit MAX_POOL_SHIFT 1"
definition MAX_POOL_INDEX :: nat where "MAX_POOL_INDEX = MAX_POOL_SHIFT - MIN_POOL_SHIFT + 1"

record POOL_HEADER =
  Size :: UINTN
  Available :: bool

definition sizeof_POOL_HEADER :: UINTN where "sizeof_POOL_HEADER = 16"

record smm_memory =
  mSmmMemoryMap :: memory_map
  mSmmPoolLists :: "UINTN list list"
  PoolHeader :: "UINTN \<Rightarrow> POOL_HEADER"
  gLoadModuleAtFixAddressSmramBase :: EFI_PHYSICAL_ADDRESS

record EFI_SMRAM_DESCRIPTOR =
  PhysicalStart :: EFI_PHYSICAL_ADDRESS
  CpuStart :: EFI_PHYSICAL_ADDRESS
  PhysicalSize :: UINT64
  RegionState :: UINT64

section \<open>The bit scan of BaseLib\<close>

text \<open>The loop of \<^verbatim>\<open>HighBitSet32\<close> runs while the operand is positive as a signed 32-bit value.\<close>

fun HighBitSet32_loop :: "nat \<Rightarrow> UINT32 \<Rightarrow> int" where
  "HighBitSet32_loop 0 w = 0"
| "HighBitSet32_loop (Suc i) w =
    (if 0 <s w then HighBitSet32_loop i (push_bit 1 w) else int (Suc i))"

definition HighBitSet32 :: "UINT32 \<Rightarrow> int" where
  "HighBitSet32 Operand = (if Operand = 0 then - 1 else HighBitSet32_loop 31 Operand)"

section \<open>Initialisation\<close>

definition region_unusable :: "EFI_SMRAM_DESCRIPTOR \<Rightarrow> bool" where
  "region_unusable r \<longleftrightarrow>
    RegionState r AND (EFI_ALLOCATED OR EFI_NEEDS_TESTING OR EFI_NEEDS_ECC_INITIALIZATION) \<noteq> 0"

fun FixedAddress_scan ::
  "EFI_SMRAM_DESCRIPTOR list \<Rightarrow> nat \<Rightarrow> UINT64 \<Rightarrow> nat \<Rightarrow> nat" where
  "FixedAddress_scan [] Index MaxSize Current = Current"
| "FixedAddress_scan (r # rs) Index MaxSize Current =
    (if region_unusable r then FixedAddress_scan rs (Suc Index) MaxSize Current
     else if CpuStart r \<ge> 0x100000 \<and> CpuStart r + PhysicalSize r \<le> 0x100000000 \<and> PhysicalSize r \<ge> MaxSize
     then FixedAddress_scan rs (Suc Index) (PhysicalSize r) Index
     else FixedAddress_scan rs (Suc Index) MaxSize Current)"

fun AddMemoryRegions :: "EFI_SMRAM_DESCRIPTOR list \<Rightarrow> memory_map \<Rightarrow> memory_map" where
  "AddMemoryRegions [] m = m"
| "AddMemoryRegions (r # rs) m =
    AddMemoryRegions rs (SmmAddMemoryRegion (CpuStart r) (PhysicalSize r) (RegionState r) m)"

text \<open>
  The two PCDs are parameters.  With the fixed-address feature on and no SMRAM range the code reads
  and writes \<^verbatim>\<open>SmramRanges[0]\<close> of an empty array: no result.
\<close>

definition SmmInitializeMemoryServices ::
  "UINT64 \<Rightarrow> UINT32 \<Rightarrow> EFI_SMRAM_DESCRIPTOR list \<Rightarrow> smm_memory
    \<Rightarrow> (EFI_SMRAM_DESCRIPTOR list \<times> smm_memory) option" where
  "SmmInitializeMemoryServices FixAddressEnable SmmCodePageNumber SmramRanges s =
    (let s1 = s\<lparr>mSmmPoolLists := replicate MAX_POOL_INDEX []\<rparr> in
     if FixAddressEnable \<noteq> 0 then
       if SmramRanges = [] then None
       else let SmmCodeSize = push_bit 12 (ucast SmmCodePageNumber) :: UINT64;
                k = FixedAddress_scan SmramRanges 0 (0x40000 - 0x1000) 0;
                r = SmramRanges ! k;
                Ranges = SmramRanges[k := r\<lparr>CpuStart := CpuStart r + SmmCodeSize,
                                            PhysicalSize := PhysicalSize r - SmmCodeSize\<rparr>]
            in Some (Ranges, s1\<lparr>gLoadModuleAtFixAddressSmramBase := CpuStart r,
                               mSmmMemoryMap := AddMemoryRegions Ranges (mSmmMemoryMap s1)\<rparr>)
     else Some (SmramRanges, s1\<lparr>mSmmMemoryMap := AddMemoryRegions SmramRanges (mSmmMemoryMap s1)\<rparr>))"

section \<open>Allocation\<close>

definition set_hdr :: "UINTN \<Rightarrow> POOL_HEADER \<Rightarrow> smm_memory \<Rightarrow> smm_memory" where
  "set_hdr a h s = s\<lparr>PoolHeader := (PoolHeader s)(a := h)\<rparr>"

definition pool_push :: "nat \<Rightarrow> UINTN \<Rightarrow> smm_memory \<Rightarrow> smm_memory" where
  "pool_push i a s = s\<lparr>mSmmPoolLists := (mSmmPoolLists s)[i := a # mSmmPoolLists s ! i]\<rparr>"

definition pool_pop :: "nat \<Rightarrow> smm_memory \<Rightarrow> smm_memory" where
  "pool_pop i s = s\<lparr>mSmmPoolLists := (mSmmPoolLists s)[i := tl (mSmmPoolLists s ! i)]\<rparr>"

text \<open>
  The result is the status, the value of \<^verbatim>\<open>*FreePoolHdr\<close> and the new state.  \<^verbatim>\<open>Address\<close> is an output
  that \<^verbatim>\<open>AllocateAnyPages\<close> ignores on entry; \<open>0\<close> stands for it.
\<close>

function (sequential) InternalAllocPoolByIndex ::
  "nat \<Rightarrow> smm_memory \<Rightarrow> (EFI_STATUS \<times> UINTN option \<times> smm_memory) option" where
  "InternalAllocPoolByIndex PoolIndex s =
    (let done = (\<lambda>Hdr s'. Some (EFI_SUCCESS, Some Hdr,
           set_hdr Hdr \<lparr>Size = push_bit PoolIndex MIN_POOL_SIZE, Available = False\<rparr> s'))
     in if PoolIndex = MAX_POOL_INDEX then
          case SmmInternalAllocatePages AllocateAnyPages EfiRuntimeServicesData
                 (EFI_SIZE_TO_PAGES (push_bit 1 MAX_POOL_SIZE)) 0 (mSmmMemoryMap s) of
            None \<Rightarrow> None
          | Some (Status, Address, m) \<Rightarrow>
              if EFI_ERROR Status then Some (EFI_OUT_OF_RESOURCES, None, s\<lparr>mSmmMemoryMap := m\<rparr>)
              else done Address (s\<lparr>mSmmMemoryMap := m\<rparr>)
        else if PoolIndex > MAX_POOL_INDEX then None
        else if mSmmPoolLists s ! PoolIndex \<noteq> []
        then done (hd (mSmmPoolLists s ! PoolIndex)) (pool_pop PoolIndex s)
        else case InternalAllocPoolByIndex (Suc PoolIndex) s of
            None \<Rightarrow> None
          | Some (Status, None, s') \<Rightarrow> Some (Status, None, s')
          | Some (Status, Some Hdr, s') \<Rightarrow>
              if EFI_ERROR Status then Some (Status, Some Hdr, s')
              else let half = drop_bit 1 (Size (PoolHeader s' Hdr))
                   in done (Hdr + half)
                        (pool_push PoolIndex Hdr
                           (set_hdr Hdr \<lparr>Size = half, Available = True\<rparr> s')))"
  by pat_completeness auto
termination
  by (relation "measure (\<lambda>(i, s). Suc MAX_POOL_INDEX - i)") (auto simp: MAX_POOL_INDEX_def)

declare InternalAllocPoolByIndex.simps [simp del]

text \<open>The result is the status, the value of \<^verbatim>\<open>*Buffer\<close> where one is assigned, and the new state.\<close>

definition SmmInternalAllocatePool ::
  "EFI_MEMORY_TYPE \<Rightarrow> UINTN \<Rightarrow> smm_memory \<Rightarrow> (EFI_STATUS \<times> UINTN option \<times> smm_memory) option" where
  "SmmInternalAllocatePool PoolType RequestSize s =
    (if PoolType \<noteq> EfiRuntimeServicesCode \<and> PoolType \<noteq> EfiRuntimeServicesData
     then Some (EFI_INVALID_PARAMETER, None, s)
     else let Size1 = RequestSize + sizeof_POOL_HEADER in
       if Size1 > MAX_POOL_SIZE then
         let Pages = EFI_SIZE_TO_PAGES Size1 in
         case SmmInternalAllocatePages AllocateAnyPages PoolType Pages 0 (mSmmMemoryMap s) of
           None \<Rightarrow> None
         | Some (Status, Address, m) \<Rightarrow>
             if EFI_ERROR Status then Some (Status, None, s\<lparr>mSmmMemoryMap := m\<rparr>)
             else Some (Status, Some (Address + sizeof_POOL_HEADER),
                    set_hdr Address \<lparr>Size = EFI_PAGES_TO_SIZE Pages, Available = False\<rparr>
                      (s\<lparr>mSmmMemoryMap := m\<rparr>))
       else let Size2 = drop_bit MIN_POOL_SHIFT (Size1 + MIN_POOL_SIZE - 1);
                Index0 = word_of_int (HighBitSet32 (ucast Size2)) :: UINTN;
                PoolIndex = (if Size2 AND (Size2 - 1) \<noteq> 0 then Index0 + 1 else Index0)
            in case InternalAllocPoolByIndex (unat PoolIndex) s of
                 None \<Rightarrow> None
               | Some (Status, Hdr, s') \<Rightarrow>
                   Some (Status, map_option (\<lambda>h. h + sizeof_POOL_HEADER) Hdr, s'))"

definition SmmAllocatePool ::
  "EFI_MEMORY_TYPE \<Rightarrow> UINTN \<Rightarrow> smm_memory \<Rightarrow> (EFI_STATUS \<times> UINTN option \<times> smm_memory) option" where
  "SmmAllocatePool PoolType RequestSize s = SmmInternalAllocatePool PoolType RequestSize s"

section \<open>Release\<close>

text \<open>The \<^verbatim>\<open>UINTN\<close> cast of a negative index, and an index past the table, address no list: no result.\<close>

definition InternalFreePoolByIndex :: "UINTN \<Rightarrow> smm_memory \<Rightarrow> (EFI_STATUS \<times> smm_memory) option" where
  "InternalFreePoolByIndex FreePoolHdr s =
    (let h = PoolHeader s FreePoolHdr;
         PoolIndex = unat (word_of_int (HighBitSet32 (ucast (Size h)) - int MIN_POOL_SHIFT) :: UINTN);
         s1 = set_hdr FreePoolHdr (h\<lparr>Available := True\<rparr>) s
     in if PoolIndex < MAX_POOL_INDEX then Some (EFI_SUCCESS, pool_push PoolIndex FreePoolHdr s1)
        else None)"

definition SmmInternalFreePool :: "UINTN \<Rightarrow> smm_memory \<Rightarrow> (EFI_STATUS \<times> smm_memory) option" where
  "SmmInternalFreePool Buffer s =
    (if Buffer = 0 then Some (EFI_INVALID_PARAMETER, s)
     else let FreePoolHdr = Buffer - sizeof_POOL_HEADER in
       if Size (PoolHeader s FreePoolHdr) > MAX_POOL_SIZE then
         let (Status, m) = SmmInternalFreePages FreePoolHdr
               (EFI_SIZE_TO_PAGES (Size (PoolHeader s FreePoolHdr))) (mSmmMemoryMap s)
         in Some (Status, s\<lparr>mSmmMemoryMap := m\<rparr>)
       else InternalFreePoolByIndex FreePoolHdr s)"

definition SmmFreePool :: "UINTN \<Rightarrow> smm_memory \<Rightarrow> (EFI_STATUS \<times> smm_memory) option" where
  "SmmFreePool Buffer s = SmmInternalFreePool Buffer s"

section \<open>Accounting of granules\<close>

lemmas pool_consts = MIN_POOL_SHIFT_def MIN_POOL_SIZE_def MAX_POOL_SHIFT_def MAX_POOL_SIZE_def
  MAX_POOL_INDEX_def sizeof_POOL_HEADER_def

definition ind :: "nat set \<Rightarrow> nat \<Rightarrow> nat" where
  "ind S g = (if g \<in> S then 1 else 0)"

text \<open>A block is its address and its length in granules of 64 bytes.\<close>

definition gran :: "UINTN \<times> nat \<Rightarrow> nat set" where
  "gran x = {unat (fst x) div 64 ..< unat (fst x) div 64 + snd x}"

definition occ :: "(UINTN \<times> nat) multiset \<Rightarrow> nat \<Rightarrow> nat" where
  "occ M g = (\<Sum>x \<in># M. ind (gran x) g)"

definition pool_blocks :: "smm_memory \<Rightarrow> (UINTN \<times> nat) multiset" where
  "pool_blocks s = (\<Sum>i < 6. image_mset (\<lambda>a. (a, 2 ^ i)) (mset (mSmmPoolLists s ! i)))"

definition page_granules :: "nat set \<Rightarrow> nat set" where
  "page_granules S = {g. g div 64 \<in> S}"

definition free_occ :: "smm_memory \<Rightarrow> nat \<Rightarrow> nat" where
  "free_occ s g = ind (page_granules (free_pages (mSmmMemoryMap s))) g + occ (pool_blocks s) g"

definition wf_block :: "UINTN \<times> nat \<Rightarrow> bool" where
  "wf_block x \<longleftrightarrow> 0 < snd x \<and> fst x \<noteq> 0 \<and> min (64 * snd x) PAGE dvd unat (fst x) \<and> 64 dvd unat (fst x) \<and>
     unat (fst x) + 64 * snd x < 18446744073709551616"

definition pool_wf :: "smm_memory \<Rightarrow> bool" where
  "pool_wf s \<longleftrightarrow> wf_map (mSmmMemoryMap s) \<and> length (mSmmPoolLists s) = MAX_POOL_INDEX \<and>
     (\<forall>x \<in># pool_blocks s. wf_block x)"

lemma occ_simps [simp]:
  "occ {#} g = 0" "occ (add_mset x M) g = ind (gran x) g + occ M g" "occ (M + N) g = occ M g + occ N g"
  by (simp_all add: occ_def)

lemma MAX_POOL_INDEX_6: "MAX_POOL_INDEX = 6"
  by (simp add: pool_consts)

lemma pool_blocks_update:
  assumes "i < 6" "length (mSmmPoolLists s) = 6"
  shows "pool_blocks (s\<lparr>mSmmPoolLists := (mSmmPoolLists s)[i := xs]\<rparr>) +
      image_mset (\<lambda>a. (a, 2 ^ i)) (mset (mSmmPoolLists s ! i)) =
    pool_blocks s + image_mset (\<lambda>a. (a, 2 ^ i)) (mset xs)"
proof -
  let ?f = "\<lambda>l j. image_mset (\<lambda>a. (a, (2 :: nat) ^ j)) (mset (l ! j))"
  have fin: "finite {..<6 :: nat}" and mem: "i \<in> {..<6}" using assms by auto
  have "(\<Sum>j \<in> {..<6} - {i}. ?f ((mSmmPoolLists s)[i := xs]) j) = (\<Sum>j \<in> {..<6} - {i}. ?f (mSmmPoolLists s) j)"
    by (rule sum.cong) auto
  then show ?thesis
    using assms by (simp add: pool_blocks_def sum.remove [OF fin mem] ac_simps)
qed

lemma pool_push_blocks:
  assumes "i < 6" "length (mSmmPoolLists s) = 6"
  shows "pool_blocks (pool_push i a s) = add_mset (a, 2 ^ i) (pool_blocks s)"
  using pool_blocks_update [OF assms, of "a # mSmmPoolLists s ! i"] by (simp add: pool_push_def)

lemma pool_pop_blocks:
  assumes "i < 6" "length (mSmmPoolLists s) = 6" "mSmmPoolLists s ! i \<noteq> []"
  shows "pool_blocks s = add_mset (hd (mSmmPoolLists s ! i), 2 ^ i) (pool_blocks (pool_pop i s))"
  using pool_blocks_update [OF assms(1,2), of "tl (mSmmPoolLists s ! i)"] assms(3)
  by (cases "mSmmPoolLists s ! i") (simp_all add: pool_pop_def)

lemma set_hdr_simps [simp]:
  "mSmmMemoryMap (set_hdr a h s) = mSmmMemoryMap s" "mSmmPoolLists (set_hdr a h s) = mSmmPoolLists s"
  "pool_blocks (set_hdr a h s) = pool_blocks s" "PoolHeader (set_hdr a h s) = (PoolHeader s)(a := h)"
  by (simp_all add: set_hdr_def pool_blocks_def)

lemma pool_list_simps [simp]:
  "mSmmMemoryMap (pool_push i a s) = mSmmMemoryMap s" "PoolHeader (pool_push i a s) = PoolHeader s"
  "length (mSmmPoolLists (pool_push i a s)) = length (mSmmPoolLists s)"
  "mSmmMemoryMap (pool_pop i s) = mSmmMemoryMap s" "PoolHeader (pool_pop i s) = PoolHeader s"
  "length (mSmmPoolLists (pool_pop i s)) = length (mSmmPoolLists s)"
  "pool_blocks (s\<lparr>mSmmMemoryMap := m\<rparr>) = pool_blocks s"
  by (simp_all add: pool_push_def pool_pop_def pool_blocks_def)

text \<open>A run of pages is a block of 64 granules per page.\<close>

lemma page_run_block:
  assumes "wf_run a N"
  shows "gran (a, 64 * unat N) = page_granules (page_run a N)" "wf_block (a, 64 * unat N)"
proof -
  obtain q where q: "unat a = PAGE * q" using assms by (auto simp: wf_run_def)
  have N: "0 < unat N" and top: "q + unat N < 4503599627370496"
    using assms q by (auto simp: wf_run_def unat_gt_0)
  show "gran (a, 64 * unat N) = page_granules (page_run a N)"
    using q by (auto simp: gran_def page_granules_def page_run_def)
  have "min (64 * (64 * unat N)) PAGE = PAGE" using N by simp
  then show "wf_block (a, 64 * unat N)"
    using q N top assms by (auto simp: wf_block_def wf_run_def)
qed

lemma ind_diff: "B \<subseteq> A \<Longrightarrow> ind A g = ind (A - B) g + ind B g"
  by (auto simp: ind_def)

lemma page_granules_mono: "A \<subseteq> B \<Longrightarrow> page_granules A \<subseteq> page_granules B"
  and page_granules_diff: "page_granules (A - B) = page_granules A - page_granules B"
  and page_granules_un: "page_granules (A \<union> B) = page_granules A \<union> page_granules B"
  by (auto simp: page_granules_def)

lemma block_halves:
  assumes "wf_block (a, 2 * n)" "128 * n \<le> PAGE"
  shows "unat (a + of_nat (64 * n)) = unat a + 64 * n"
    "wf_block (a, n)" "wf_block (a + of_nat (64 * n), n)"
    "ind (gran (a, 2 * n)) g = ind (gran (a, n)) g + ind (gran (a + of_nat (64 * n), n)) g"
proof -
  have n: "0 < n" and top: "unat a + 128 * n < 18446744073709551616" and a: "a \<noteq> 0"
    and al: "64 dvd unat a" using assms by (auto simp: wf_block_def)
  have "128 * n dvd unat a" using assms by (simp add: wf_block_def)
  then have dn: "64 * n dvd unat a" by (rule dvd_trans [rotated]) simp
  have m: "min (64 * n) PAGE = 64 * n" using assms(2) by simp
  have "unat (of_nat (64 * n) :: UINTN) = 64 * n" using top by (intro unat_of_nat64) simp
  then show u: "unat (a + of_nat (64 * n)) = unat a + 64 * n"
    using top by (subst unat_add_noov) (simp_all del: of_nat_mult)
  show "wf_block (a, n)" using n top a al dn m by (simp add: wf_block_def)
  have "a + of_nat (64 * n) \<noteq> 0" using u n unfolding word_unat_eq_iff by simp
  then show "wf_block (a + of_nat (64 * n), n)" using n top dn al m u by (simp add: wf_block_def del: of_nat_mult)
  have "unat (a + of_nat (64 * n)) div 64 = unat a div 64 + n" unfolding u by simp
  then show "ind (gran (a, 2 * n)) g = ind (gran (a, n)) g + ind (gran (a + of_nat (64 * n), n)) g"
    by (auto simp: ind_def gran_def simp del: of_nat_mult)
qed

section \<open>Allocation by index\<close>

lemma push_bit_pool: "i \<le> 6 \<Longrightarrow> push_bit i MIN_POOL_SIZE = of_nat (64 * 2 ^ i)"
  by (simp add: pool_consts push_bit_eq_mult)

lemma drop_bit_pool:
  assumes "i \<le> 5" shows "drop_bit 1 (of_nat (64 * 2 ^ Suc i) :: UINTN) = of_nat (64 * 2 ^ i)"
proof -
  have "(2 :: nat) ^ i \<le> 2 ^ 5" using assms by (intro power_increasing) auto
  then have "unat (of_nat (64 * 2 ^ Suc i) :: UINTN) = 64 * 2 ^ Suc i" by (intro unat_of_nat64) simp
  then have "unat (drop_bit 1 (of_nat (64 * 2 ^ Suc i) :: UINTN)) = 64 * 2 ^ i"
    using unat_of_drop_bit [of 1 "of_nat (64 * 2 ^ Suc i)"] by (simp del: of_nat_mult)
  moreover have "unat (of_nat (64 * 2 ^ i) :: UINTN) = 64 * 2 ^ i"
    using \<open>2 ^ i \<le> 2 ^ 5\<close> by (intro unat_of_nat64) simp
  ultimately show ?thesis by (metis word_unat_eq_iff)
qed

text \<open>What a successful allocation by index does to the state.\<close>

definition took :: "smm_memory \<Rightarrow> UINTN \<times> nat \<Rightarrow> smm_memory \<Rightarrow> bool" where
  "took s x s' \<longleftrightarrow> pool_wf s' \<and> wf_block x \<and> (\<forall>g. free_occ s g = free_occ s' g + ind (gran x) g) \<and>
     PoolHeader s' (fst x) = \<lparr>Size = of_nat (64 * snd x), Available = False\<rparr> \<and>
     (\<forall>b. PoolHeader s' b \<noteq> PoolHeader s b \<longrightarrow> 0 < free_occ s (unat b div 64))"

lemma gran_start: "wf_block x \<Longrightarrow> unat (fst x) div 64 \<in> gran x"
  by (auto simp: gran_def wf_block_def)

lemma tookI:
  assumes "pool_wf s" "pool_wf s'" "wf_block x" "\<And>g. free_occ s g = free_occ s' g + ind (gran x) g"
    and "PoolHeader s' = PoolHeader s" and "h = of_nat (64 * snd x)"
  shows "took s x (set_hdr (fst x) \<lparr>Size = h, Available = False\<rparr> s')"
  using assms gran_start [OF assms(3)]
  by (auto simp: took_def pool_wf_def free_occ_def ind_def)

lemma AnyPages_cases:
  assumes "wf_map m" "N \<noteq> 0" "unat N \<le> 4503599627370496"
    and "mt = EfiRuntimeServicesCode \<or> mt = EfiRuntimeServicesData"
  obtains "SmmInternalAllocatePages AllocateAnyPages mt N M m = Some (EFI_OUT_OF_RESOURCES, - 1, m)"
  | a m' where "SmmInternalAllocatePages AllocateAnyPages mt N M m = Some (EFI_SUCCESS, a, m')"
     "wf_map m'" "wf_run a N" "page_run a N \<subseteq> free_pages m" "free_pages m' = free_pages m - page_run a N"
proof -
  have data: "SmmInternalAllocatePages AllocateAnyPages mt N M m = SmmAllocatePages AllocateAnyPages EfiRuntimeServicesData N M m"
    using assms(4) by (auto simp: SmmAllocatePages_def SmmInternalAllocatePages_def)
  have "valid_request (AllocateAnyPages, M) N" using assms(2) by (simp add: valid_request_def)
  note law = smm_pages.alloc_law [OF assms(1) this]
  have "SmmAllocatePages AllocateAnyPages EfiRuntimeServicesData N M m = Some (EFI_OUT_OF_RESOURCES, - 1, m) \<or>
     (\<exists>a m'. SmmAllocatePages AllocateAnyPages EfiRuntimeServicesData N M m = Some (EFI_SUCCESS, a, m'))"
    using AllocatePages_below [OF assms(1-3), of AllocateAnyPages "- 1" M EfiRuntimeServicesData]
    by (auto split: if_splits simp del: of_nat_mult)
  then show ?thesis using that law unfolding data smm_alloc_iff by blast
qed

lemma run_took:
  assumes "pool_wf s" "wf_map m'" "wf_run a N" "page_run a N \<subseteq> free_pages (mSmmMemoryMap s)"
    "free_pages m' = free_pages (mSmmMemoryMap s) - page_run a N" "h = of_nat (64 * (64 * unat N))"
  shows "took s (a, 64 * unat N) (set_hdr a \<lparr>Size = h, Available = False\<rparr> (s\<lparr>mSmmMemoryMap := m'\<rparr>))"
proof -
  note b = page_run_block [OF assms(3)]
  have "free_occ s g = free_occ (s\<lparr>mSmmMemoryMap := m'\<rparr>) g + ind (gran (a, 64 * unat N)) g" for g
    using ind_diff [OF page_granules_mono [OF assms(4)], of g] b(1) assms(5)
    by (simp add: free_occ_def page_granules_diff)
  moreover have "pool_wf (s\<lparr>mSmmMemoryMap := m'\<rparr>)" using assms(1,2) by (simp add: pool_wf_def)
  ultimately show ?thesis using tookI [OF assms(1) _ b(2)] assms(6) by simp
qed

lemma alloc_index_pages:
  assumes "pool_wf s"
  shows "InternalAllocPoolByIndex 6 s = Some (EFI_OUT_OF_RESOURCES, None, s) \<or>
    (\<exists>a s'. InternalAllocPoolByIndex 6 s = Some (EFI_SUCCESS, Some a, s') \<and> took s (a, 2 ^ 6) s')"
proof -
  have N: "EFI_SIZE_TO_PAGES (MAX_POOL_SIZE * 2) = 1"
    by (simp add: EFI_SIZE_TO_PAGES_def pool_consts EFI_PAGE_MASK_def)
  have wf: "wf_map (mSmmMemoryMap s)" using assms by (simp add: pool_wf_def)
  have h: "push_bit 6 MIN_POOL_SIZE = of_nat (64 * (64 * unat (1 :: UINTN)))" by (simp add: pool_consts)
  show ?thesis
  proof (rule AnyPages_cases [OF wf, of 1 EfiRuntimeServicesData 0])
    assume "SmmInternalAllocatePages AllocateAnyPages EfiRuntimeServicesData 1 0 (mSmmMemoryMap s) =
      Some (EFI_OUT_OF_RESOURCES, - 1, mSmmMemoryMap s)"
    then show ?thesis by (simp add: InternalAllocPoolByIndex.simps [of 6] MAX_POOL_INDEX_6 N)
  next
    fix a m'
    assume *: "SmmInternalAllocatePages AllocateAnyPages EfiRuntimeServicesData 1 0 (mSmmMemoryMap s) =
      Some (EFI_SUCCESS, a, m')" "wf_map m'" "wf_run a 1" "page_run a 1 \<subseteq> free_pages (mSmmMemoryMap s)"
      "free_pages m' = free_pages (mSmmMemoryMap s) - page_run a 1"
    show ?thesis using run_took [OF assms *(2-) h] *(1)
      by (simp add: InternalAllocPoolByIndex.simps [of 6] MAX_POOL_INDEX_6 N Let_def)
  qed simp_all
qed

text \<open>Splitting a block that was just taken: the lower half goes on the list, the upper half is returned.\<close>

lemma split_took:
  assumes t: "took s (a, 2 ^ Suc i) s'" and i: "i < 6"
  defines "half \<equiv> drop_bit 1 (Size (PoolHeader s' a))"
  shows "took s (a + half, 2 ^ i) (set_hdr (a + half) \<lparr>Size = of_nat (64 * 2 ^ i), Available = False\<rparr>
    (pool_push i a (set_hdr a \<lparr>Size = half, Available = True\<rparr> s')))"
proof -
  have half: "half = of_nat (64 * 2 ^ i)"
    using t i drop_bit_pool [of i] by (simp add: took_def half_def del: of_nat_mult)
  have "(2 :: nat) ^ i \<le> 2 ^ 5" using i by (intro power_increasing) auto
  then have le: "128 * 2 ^ i \<le> PAGE" by simp
  have "wf_block (a, 2 * 2 ^ i)" using t by (simp add: took_def)
  note hv = block_halves [OF this le, folded half]
  have wf': "pool_wf s'" "length (mSmmPoolLists s') = 6" using t by (auto simp: took_def pool_wf_def MAX_POOL_INDEX_6)
  note pb = pool_push_blocks [OF i, of "set_hdr a \<lparr>Size = half, Available = True\<rparr> s'" a]
  have fo: "free_occ s g = free_occ s' g + ind (gran (a, 2 * 2 ^ i)) g" for g
    using t by (simp add: took_def)
  have pos: "0 < free_occ s (unat b div 64)" if "b = a \<or> b = a + half" for b
    using that fo hv(4) gran_start [OF hv(2)] gran_start [OF hv(3)] by (auto simp: ind_def)
  let ?s = "set_hdr (a + half) \<lparr>Size = of_nat (64 * 2 ^ i), Available = False\<rparr>
    (pool_push i a (set_hdr a \<lparr>Size = half, Available = True\<rparr> s'))"
  have "pool_wf ?s" using wf' pb hv(2) by (auto simp: pool_wf_def)
  moreover have "free_occ s g = free_occ ?s g + ind (gran (a + half, 2 ^ i)) g" for g
    using fo [of g] hv(4) [of g] pb wf'(2) by (simp add: free_occ_def)
  moreover have "0 < free_occ s (unat b div 64)" if "PoolHeader ?s b \<noteq> PoolHeader s b" for b
    using that pos [of b] t by (cases "b = a \<or> b = a + half") (auto simp: took_def)
  ultimately show ?thesis using hv(3) unfolding took_def by simp
qed

lemma alloc_index:
  assumes "pool_wf s" "i \<le> 6"
  shows "InternalAllocPoolByIndex i s = Some (EFI_OUT_OF_RESOURCES, None, s) \<or>
    (\<exists>a s'. InternalAllocPoolByIndex i s = Some (EFI_SUCCESS, Some a, s') \<and> took s (a, 2 ^ i) s')"
  using assms(2)
proof (induction i rule: inc_induct)
  case base
  show ?case by (rule alloc_index_pages [OF assms(1)])
next
  case (step i)
  have len: "length (mSmmPoolLists s) = 6" using assms(1) by (simp add: pool_wf_def MAX_POOL_INDEX_6)
  have h: "push_bit i MIN_POOL_SIZE = of_nat (64 * 2 ^ i)" using step by (intro push_bit_pool) simp
  show ?case
  proof (cases "mSmmPoolLists s ! i = []")
    case False
    let ?a = "hd (mSmmPoolLists s ! i)"
    have eq: "InternalAllocPoolByIndex i s = Some (EFI_SUCCESS, Some ?a,
       set_hdr ?a \<lparr>Size = push_bit i MIN_POOL_SIZE, Available = False\<rparr> (pool_pop i s))"
      using False step by (simp add: InternalAllocPoolByIndex.simps [of i] MAX_POOL_INDEX_6)
    note b = pool_pop_blocks [OF _ len False]
    have "took s (?a, 2 ^ i) (set_hdr (fst (?a, 2 ^ i :: nat)) \<lparr>Size = push_bit i MIN_POOL_SIZE, Available = False\<rparr> (pool_pop i s))"
      using b step assms(1) h by (intro tookI) (auto simp: pool_wf_def free_occ_def)
    then show ?thesis using eq by simp
  next
    case True
    from step.IH show ?thesis
    proof
      assume "InternalAllocPoolByIndex (Suc i) s = Some (EFI_OUT_OF_RESOURCES, None, s)"
      then show ?thesis using True step by (simp add: InternalAllocPoolByIndex.simps [of i] MAX_POOL_INDEX_6)
    next
      assume "\<exists>a s'. InternalAllocPoolByIndex (Suc i) s = Some (EFI_SUCCESS, Some a, s') \<and> took s (a, 2 ^ Suc i) s'"
      then obtain a s' where r: "InternalAllocPoolByIndex (Suc i) s = Some (EFI_SUCCESS, Some a, s')"
        and t: "took s (a, 2 ^ Suc i) s'" by blast
      show ?thesis using split_took [OF t] r True step h
        by (simp add: InternalAllocPoolByIndex.simps [of i] MAX_POOL_INDEX_6 Let_def)
    qed
  qed
qed

lemma signed_pos32: "0 <s (w :: 32 word) \<longleftrightarrow> 0 < unat w \<and> unat w < 2147483648"
proof (cases "unat w < 2147483648")
  case True
  then have "sint w = uint w"
    unfolding sint_uint using order_trans [OF _ unsigned_greater_eq [of w], of "- 2147483648 :: int"]
    by (intro signed_take_bit_int_eq_self) (simp_all add: nat_less_iff flip: nat_uint_eq)
  then show ?thesis using True by (auto simp: word_sless_alt unat_gt_0 simp flip: nat_uint_eq)
next
  case False
  have u: "0 \<le> uint w" "uint w < 4294967296" "2147483648 \<le> uint w"
    using unsigned_less [of w, where 'a = int] False by (simp_all add: nat_less_iff not_less flip: nat_uint_eq)
  have "sint w = take_bit 32 (uint w) - 4294967296 * of_bool (bit (uint w) 31)"
    unfolding sint_uint by (simp add: signed_take_bit_eq_take_bit_minus)
  moreover have "take_bit 32 (uint w) = uint w" using u by (simp add: take_bit_int_eq_self)
  moreover have "sint w < 2147483648" using sint_lt [of w] by simp
  ultimately have "sint w \<le> 0" using u by (cases "bit (uint w) 31") auto
  then show ?thesis using False by (simp add: word_sless_alt)
qed

lemma HighBitSet32_loop_spec:
  assumes "0 < n" "n < 2 ^ Suc i" "i \<le> 31" "unat w = n * 2 ^ (31 - i)"
  shows "\<exists>k. HighBitSet32_loop i w = int k \<and> 2 ^ k \<le> n \<and> n < 2 ^ Suc k"
  using assms
proof (induction i arbitrary: w)
  case 0
  then show ?case by (intro exI [of _ 0]) simp
next
  case (Suc i)
  have p: "(2 :: nat) ^ (31 - i) = 2 * 2 ^ (31 - Suc i)" "(2 :: nat) ^ Suc i * 2 ^ (31 - Suc i) = 2147483648"
    using Suc.prems(3) by (simp_all flip: power_Suc power_add add: Suc_diff_Suc)
  have c: "0 <s w \<longleftrightarrow> n < 2 ^ Suc i"
    using Suc.prems(1,4) p(2) unfolding signed_pos32 by (metis nat_0_less_mult_iff zero_less_numeral zero_less_power mult_less_cancel2)
  show ?case
  proof (cases "n < 2 ^ Suc i")
    case True
    have "n * 2 ^ (31 - Suc i) < 2147483648" using True c Suc.prems(4) unfolding signed_pos32 by simp
    then have "unat (push_bit 1 w) = n * 2 ^ (31 - i)"
      using Suc.prems(4) p(1) by (simp add: push_bit_eq_mult unat_word_ariths)
    then show ?thesis using Suc.IH [of "push_bit 1 w"] Suc.prems True c by simp
  next
    case False
    then show ?thesis using Suc.prems c by (intro exI [of _ "Suc i"]) simp
  qed
qed

text \<open>\<^verbatim>\<open>HighBitSet32\<close> of BaseLib is the floor of the binary logarithm of a non-zero operand.\<close>

lemma HighBitSet32_log:
  assumes "w \<noteq> 0"
  shows "\<exists>k. HighBitSet32 w = int k \<and> 2 ^ k \<le> unat w \<and> unat w < 2 ^ Suc k"
proof -
  have "0 < unat w" "unat w < 2 ^ Suc 31" using assms unsigned_less [of w] by (auto simp: unat_gt_0)
  from HighBitSet32_loop_spec [OF this, of w] show ?thesis using assms by (simp add: HighBitSet32_def)
qed

section \<open>The pool services\<close>

text \<open>The list index for a request of \<open>w\<close> granules is the least power of two that holds it.\<close>

definition granule_index :: "UINTN \<Rightarrow> UINTN" where
  "granule_index w =
    (let Index0 = word_of_int (HighBitSet32 (ucast w)) in if w AND (w - 1) \<noteq> 0 then Index0 + 1 else Index0)"

lemma power_of_two_test:
  "\<forall>n \<in> {1 .. 32}. (of_nat n :: UINTN) AND (of_nat n - 1) = 0 \<longleftrightarrow> n \<in> {1, 2, 4, 8, 16, 32}"
proof -
  have *: "{1 .. 32 :: nat} = set [1 ..< 33]" by auto
  show ?thesis unfolding * by (simp add: upt_rec)
qed

lemma granule_index:
  assumes "0 < unat w" "unat w \<le> 32"
  shows "unat (granule_index w) \<le> 5 \<and> unat w \<le> 2 ^ unat (granule_index w) \<and> 2 ^ unat (granule_index w) < 2 * unat w"
proof -
  have u: "unat (ucast w :: UINT32) = unat w" using assms by (simp add: unsigned_ucast_eq take_bit_nat_eq_self)
  then have "(ucast w :: UINT32) \<noteq> 0" using assms by (metis unat_0 less_irrefl)
  then obtain k where k: "HighBitSet32 (ucast w) = int k" "2 ^ k \<le> unat w" "unat w < 2 ^ Suc k"
    using HighBitSet32_log [of "ucast w"] u by auto
  have k5: "k \<le> 5"
  proof (rule ccontr)
    assume "\<not> k \<le> 5"
    then have "(2 :: nat) ^ 6 \<le> 2 ^ k" by (intro power_increasing) auto
    then show False using k(2) assms(2) by simp
  qed
  have t: "w AND (w - 1) = 0 \<longleftrightarrow> unat w \<in> {1, 2, 4, 8, 16, 32}"
    using power_of_two_test assms by (metis atLeastAtMost_iff of_nat_unat ucast_id Suc_leI One_nat_def)
  have gi: "granule_index w = (if w AND (w - 1) \<noteq> 0 then of_nat (Suc k) else of_nat k)"
    using k(1) by (simp add: granule_index_def)
  have kk: "k \<in> {0, 1, 2, 3, 4, 5}" using k5 by auto
  have "unat (of_nat k :: UINTN) = k" "unat (of_nat (Suc k) :: UINTN) = Suc k"
    using k5 by (intro unat_of_nat64; simp)+
  then show ?thesis using kk k(2,3) gi t assms(2) by (auto split: if_splits)
qed

lemma index_fold:
  "SmmInternalAllocatePool T R s =
    (if T \<noteq> EfiRuntimeServicesCode \<and> T \<noteq> EfiRuntimeServicesData then Some (EFI_INVALID_PARAMETER, None, s)
     else let Size1 = R + 16 in
       if Size1 > 2048 then
         case SmmInternalAllocatePages AllocateAnyPages T (EFI_SIZE_TO_PAGES Size1) 0 (mSmmMemoryMap s) of
           None \<Rightarrow> None
         | Some (Status, Address, m) \<Rightarrow>
             if EFI_ERROR Status then Some (Status, None, s\<lparr>mSmmMemoryMap := m\<rparr>)
             else Some (Status, Some (Address + 16),
                    set_hdr Address \<lparr>Size = EFI_PAGES_TO_SIZE (EFI_SIZE_TO_PAGES Size1), Available = False\<rparr>
                      (s\<lparr>mSmmMemoryMap := m\<rparr>))
       else case InternalAllocPoolByIndex (unat (granule_index (drop_bit 6 (Size1 + 63)))) s of
                 None \<Rightarrow> None
               | Some (Status, Hdr, s') \<Rightarrow> Some (Status, map_option (\<lambda>h. h + 16) Hdr, s'))"
  unfolding SmmInternalAllocatePool_def pool_consts granule_index_def Let_def by (simp add: add.commute)

lemma round_up:
  "r < PAGE \<Longrightarrow> q * PAGE + r \<le> (q + (if r = 0 then 0 else 1)) * PAGE \<and>
     (q + (if r = 0 then 0 else 1)) * PAGE < q * PAGE + r + PAGE"
  by simp

lemma SIZE_TO_PAGES_bounds:
  assumes "0 < unat n"
  shows "unat n \<le> unat (EFI_SIZE_TO_PAGES n) * PAGE" "unat (EFI_SIZE_TO_PAGES n) * PAGE < unat n + PAGE"
    "unat (EFI_SIZE_TO_PAGES n) \<le> 4503599627370496" "EFI_SIZE_TO_PAGES n \<noteq> 0"
proof -
  have u: "unat (EFI_SIZE_TO_PAGES n) = unat n div PAGE + (if unat n mod PAGE = 0 then 0 else 1)"
  proof -
    have "unat (drop_bit 12 n) + 1 < 18446744073709551616" using unat_bound64 [of n] div_le_dividend [of "unat n" PAGE]
      by (simp only: unat_drop12)
    then show ?thesis by (simp add: EFI_SIZE_TO_PAGES_def unat_add_noov unat_drop12)
  qed
  have n: "unat n < 18446744073709551616" by simp
  have d: "unat n = unat n div PAGE * PAGE + unat n mod PAGE" "unat n mod PAGE < PAGE" by simp_all
  show 1: "unat n \<le> unat (EFI_SIZE_TO_PAGES n) * PAGE" "unat (EFI_SIZE_TO_PAGES n) * PAGE < unat n + PAGE"
    unfolding u using round_up [OF d(2), of "unat n div PAGE"] d(1) by simp_all
  have "unat n div PAGE < 4503599627370496" using n by (intro less_mult_imp_div_less) simp
  then show "unat (EFI_SIZE_TO_PAGES n) \<le> 4503599627370496" unfolding u by simp
  show "EFI_SIZE_TO_PAGES n \<noteq> 0" using 1(1) assms by (metis less_le_trans mult_0 unat_0 less_irrefl)
qed

text \<open>
  The invariant: every granule of \<open>P\<close> has exactly one owner among the page list, the free blocks and
  the blocks handed out, and no other granule has one; the header of a block handed out holds its size.
\<close>

definition held_block :: "smm_memory \<Rightarrow> UINTN \<times> nat \<Rightarrow> bool" where
  "held_block s x \<longleftrightarrow> wf_block x \<and> PoolHeader s (fst x) = \<lparr>Size = of_nat (64 * snd x), Available = False\<rparr> \<and>
     ((\<exists>i < 6. snd x = 2 ^ i) \<or> (\<exists>N. wf_run (fst x) N \<and> snd x = 64 * unat N))"

definition pool_inv :: "nat set \<Rightarrow> smm_memory \<Rightarrow> (UINTN \<times> nat) multiset \<Rightarrow> bool" where
  "pool_inv P s live \<longleftrightarrow> pool_wf s \<and> (\<forall>g. free_occ s g + occ live g = ind P g) \<and>
     (\<forall>x \<in># live. held_block s x)"

lemma occ_pos: "x \<in># M \<Longrightarrow> ind (gran x) g \<le> occ M g"
  by (metis insert_DiffM occ_simps(2) le_add1)

lemma took_inv:
  assumes inv: "pool_inv P s live" and t: "took s x s'"
    and sh: "(\<exists>i < 6. snd x = 2 ^ i) \<or> (\<exists>N. wf_run (fst x) N \<and> snd x = 64 * unat N)"
  shows "pool_inv P s' (add_mset x live)"
proof -
  have "held_block s' y" if y: "y \<in># live" for y
  proof -
    have h: "held_block s y" using inv y by (simp add: pool_inv_def)
    have "ind (gran y) (unat (fst y) div 64) = 1"
      using h gran_start [of y] by (simp add: held_block_def ind_def)
    then have "1 \<le> occ live (unat (fst y) div 64)" using occ_pos [OF y] by metis
    moreover have "free_occ s g + occ live g \<le> 1" for g using inv by (simp add: pool_inv_def ind_def)
    ultimately have "free_occ s (unat (fst y) div 64) = 0" by (metis add_leD1 add_le_same_cancel2 le_trans le_zero_eq add_le_mono1 le_add_same_cancel1 add.commute)
    then have "PoolHeader s' (fst y) = PoolHeader s (fst y)" using t by (metis less_irrefl took_def)
    then show ?thesis using h by (simp add: held_block_def)
  qed
  moreover have "held_block s' x" using t sh by (simp add: took_def held_block_def)
  moreover have "free_occ s' g + occ (add_mset x live) g = ind P g" for g
    using inv t by (simp add: pool_inv_def took_def add.assoc)
  ultimately show ?thesis using t by (auto simp: pool_inv_def took_def)
qed

lemma AllocatePool_cases:
  assumes inv: "pool_inv P s live" and fit: "unat R + 16 < 18446744073709551616"
    and T: "T = EfiRuntimeServicesCode \<or> T = EfiRuntimeServicesData"
  shows "SmmAllocatePool T R s = Some (EFI_OUT_OF_RESOURCES, None, s) \<or>
    (\<exists>a n s'. SmmAllocatePool T R s = Some (EFI_SUCCESS, Some (a + 16), s') \<and>
       pool_inv P s' (add_mset (a, n) live) \<and> unat R + 16 \<le> 64 * n)"
proof -
  have wf: "pool_wf s" "wf_map (mSmmMemoryMap s)" using inv by (auto simp: pool_inv_def pool_wf_def)
  have R: "unat (R + 16) = unat R + 16" using fit by (subst unat_add_noov) simp_all
  show ?thesis
  proof (cases "R + 16 > 2048")
    case True
    note p = SIZE_TO_PAGES_bounds [of "R + 16"]
    show ?thesis
    proof (rule AnyPages_cases [OF wf(2), of "EFI_SIZE_TO_PAGES (R + 16)" T 0])
      assume "SmmInternalAllocatePages AllocateAnyPages T (EFI_SIZE_TO_PAGES (R + 16)) 0 (mSmmMemoryMap s) =
        Some (EFI_OUT_OF_RESOURCES, - 1, mSmmMemoryMap s)"
      then show ?thesis using T True by (auto simp: SmmAllocatePool_def index_fold)
    next
      fix a m'
      let ?N = "EFI_SIZE_TO_PAGES (R + 16)"
      assume *: "SmmInternalAllocatePages AllocateAnyPages T ?N 0 (mSmmMemoryMap s) = Some (EFI_SUCCESS, a, m')"
        "wf_map m'" "wf_run a ?N" "page_run a ?N \<subseteq> free_pages (mSmmMemoryMap s)"
        "free_pages m' = free_pages (mSmmMemoryMap s) - page_run a ?N"
      have "EFI_PAGES_TO_SIZE ?N = of_nat (64 * (64 * unat ?N))"
        by (simp add: EFI_PAGES_TO_SIZE_def push_bit_eq_mult)
      note t = run_took [OF wf(1) *(2-) this]
      have "pool_inv P (set_hdr a \<lparr>Size = EFI_PAGES_TO_SIZE ?N, Available = False\<rparr> (s\<lparr>mSmmMemoryMap := m'\<rparr>))
        (add_mset (a, 64 * unat ?N) live)" using *(3) by (intro took_inv [OF inv t]) auto
      then show ?thesis using T True *(1) p(1) R by (auto simp: SmmAllocatePool_def index_fold)
    qed (use p R T in auto)
  next
    case False
    let ?w = "drop_bit 6 (R + 16 + 63)"
    have le: "unat R + 16 \<le> 2048" using False R by (simp add: word_less_nat_alt)
    then have "unat (R + 16 + 63) = unat R + 79" using R by (subst unat_add_noov) simp_all
    then have w: "unat ?w = (unat R + 79) div 64" using unat_of_drop_bit [of 6 "R + 16 + 63"] by simp
    note gi = granule_index [of ?w]
    have wb: "0 < unat ?w" "unat ?w \<le> 32" "unat R + 16 \<le> 64 * unat ?w" using w le by linarith+
    have fits: "unat (granule_index ?w) \<le> 5" "unat R + 16 \<le> 64 * 2 ^ unat (granule_index ?w)"
      using gi [OF wb(1,2)] wb(3) by linarith+
    have eq: "SmmAllocatePool T R s = (case InternalAllocPoolByIndex (unat (granule_index ?w)) s of
         None \<Rightarrow> None | Some (Status, Hdr, s') \<Rightarrow> Some (Status, map_option (\<lambda>h. h + 16) Hdr, s'))"
      using T False by (auto simp: SmmAllocatePool_def index_fold)
    from alloc_index [OF wf(1), of "unat (granule_index ?w)"] fits(1)
    consider "InternalAllocPoolByIndex (unat (granule_index ?w)) s = Some (EFI_OUT_OF_RESOURCES, None, s)"
      | a s' where "InternalAllocPoolByIndex (unat (granule_index ?w)) s = Some (EFI_SUCCESS, Some a, s')"
         "took s (a, 2 ^ unat (granule_index ?w)) s'" by auto
    then show ?thesis
    proof cases
      case 2
      have "\<exists>i<6. snd (a, 2 ^ unat (granule_index ?w) :: nat) = 2 ^ i"
        using fits(1) by (intro exI [of _ "unat (granule_index ?w)"]) simp
      then have "pool_inv P s' (add_mset (a, 2 ^ unat (granule_index ?w)) live)"
        by (intro took_inv [OF inv 2(2)]) blast
      then show ?thesis using eq 2(1) fits(2) by (intro disjI2 exI conjI) auto
    qed (use eq in simp)
  qed
qed

lemma page_granules_disjoint:
  assumes "wf_run a N" "\<And>g. ind (page_granules F) g + ind (gran (a, 64 * unat N)) g \<le> 1"
  shows "page_run a N \<inter> F = {}"
proof -
  have "\<not> (p \<in> page_run a N \<and> p \<in> F)" for p
    using assms(2) [of "p * 64"] page_run_block(1) [OF assms(1)]
    by (auto simp: ind_def page_granules_def split: if_splits)
  then show ?thesis by blast
qed

lemma SIZE_TO_PAGES_exact: "wf_run a N \<Longrightarrow> EFI_SIZE_TO_PAGES (of_nat (64 * (64 * unat N))) = N"
proof -
  assume "wf_run a N"
  then have u: "unat (of_nat (64 * (64 * unat N)) :: UINTN) = unat N * PAGE"
    by (subst unat_of_nat64) (simp_all add: wf_run_def)
  then have "drop_bit 12 (of_nat (64 * (64 * unat N)) :: UINTN) = N"
    unfolding word_unat_eq_iff unat_drop12 by simp
  moreover have "(of_nat (64 * (64 * unat N)) :: UINTN) AND EFI_PAGE_MASK = 0"
    unfolding and_page_mask_eq_0 u by simp
  ultimately show ?thesis by (simp add: EFI_SIZE_TO_PAGES_def)
qed

lemma free_index:
  assumes "i < 6"
  shows "unat (word_of_int (HighBitSet32 (ucast (of_nat (64 * 2 ^ i) :: UINTN)) - int MIN_POOL_SHIFT) :: UINTN) = i"
proof -
  have i: "i \<in> {0, 1, 2, 3, 4, 5}" using assms by auto
  have u: "unat (ucast (of_nat (64 * 2 ^ i) :: UINTN) :: UINT32) = 2 ^ (i + 6)" using i by auto
  then have "(ucast (of_nat (64 * 2 ^ i) :: UINTN) :: UINT32) \<noteq> 0" by (metis unat_0 power_not_zero zero_neq_numeral)
  from HighBitSet32_log [OF this] obtain k where
    k: "HighBitSet32 (ucast (of_nat (64 * 2 ^ i) :: UINTN)) = int k" "(2 :: nat) ^ k \<le> 2 ^ (i + 6)" "(2 :: nat) ^ (i + 6) < 2 ^ Suc k"
    unfolding u by blast
  then have "k = i + 6" by (simp add: less_Suc_eq_le flip: power_Suc)
  then show ?thesis unfolding k(1) using i by (auto simp: pool_consts)
qed

text \<open>What a release does to the state.\<close>

definition gave :: "smm_memory \<Rightarrow> UINTN \<times> nat \<Rightarrow> smm_memory \<Rightarrow> bool" where
  "gave s x s' \<longleftrightarrow> pool_wf s' \<and> (\<forall>g. free_occ s' g = free_occ s g + ind (gran x) g) \<and>
     (\<forall>b. b \<noteq> fst x \<longrightarrow> PoolHeader s' b = PoolHeader s b)"

lemma gave_inv:
  assumes inv: "pool_inv P s (add_mset x rest)" and g: "gave s x s'"
  shows "pool_inv P s' rest"
proof -
  have one: "free_occ s g + ind (gran x) g + occ rest g = ind P g" for g
    using inv by (simp add: pool_inv_def add.assoc)
  have "held_block s' y" if y: "y \<in># rest" for y
  proof -
    have hx: "held_block s x" and hy: "held_block s y" using inv y by (simp_all add: pool_inv_def)
    have "ind (gran y) (unat (fst y) div 64) = 1" "ind (gran x) (unat (fst x) div 64) = 1"
      using gran_start [of x] gran_start [of y] hx hy by (simp_all add: held_block_def ind_def)
    moreover have "ind (gran x) g + ind (gran y) g \<le> 1" for g
      using one [of g] occ_pos [OF y, of g] by (simp add: ind_def split: if_splits)
    ultimately have "fst y \<noteq> fst x" by (metis add_le_same_cancel1 not_one_le_zero)
    then show ?thesis using hy g by (simp add: held_block_def gave_def)
  qed
  then show ?thesis using g one by (auto simp: pool_inv_def gave_def)
qed

lemma FreePool_pages:
  assumes wf: "pool_wf s" and run: "wf_run a N" and one: "\<And>g. free_occ s g + ind (gran (a, 64 * unat N)) g \<le> 1"
    and hdr: "Size (PoolHeader s a) = of_nat (64 * (64 * unat N))" and nz: "a + 16 \<noteq> 0"
  shows "\<exists>s'. SmmFreePool (a + 16) s = Some (EFI_SUCCESS, s') \<and> gave s (a, 64 * unat N) s'"
proof -
  have u: "unat (of_nat (64 * (64 * unat N)) :: UINTN) = 64 * (64 * unat N)"
    using run by (intro unat_of_nat64) (simp add: wf_run_def)
  have big: "Size (PoolHeader s a) > MAX_POOL_SIZE"
    unfolding hdr word_less_nat_alt u using run unat_gt_0 [of N] by (simp add: pool_consts wf_run_def)
  have dis: "page_run a N \<inter> free_pages (mSmmMemoryMap s) = {}"
  proof (rule page_granules_disjoint [OF run])
    show "ind (page_granules (free_pages (mSmmMemoryMap s))) g + ind (gran (a, 64 * unat N)) g \<le> 1" for g
      using one [of g] by (simp add: free_occ_def)
  qed
  obtain m' where m': "SmmFreePages a N (mSmmMemoryMap s) = (EFI_SUCCESS, m')" "wf_map m'"
    "free_pages m' = free_pages (mSmmMemoryMap s) \<union> page_run a N"
    using smm_pages.release_law [OF _ run dis] wf by (auto simp: pool_wf_def smm_release_iff)
  have "SmmFreePool (a + 16) s = Some (EFI_SUCCESS, s\<lparr>mSmmMemoryMap := m'\<rparr>)"
    using big nz m'(1) hdr SIZE_TO_PAGES_exact [OF run]
    by (simp add: SmmFreePool_def SmmInternalFreePool_def sizeof_POOL_HEADER_def SmmFreePages_def del: of_nat_mult)
  moreover have "gave s (a, 64 * unat N) (s\<lparr>mSmmMemoryMap := m'\<rparr>)"
    using wf m' one dis page_run_block(1) [OF run]
    by (auto simp: gave_def pool_wf_def free_occ_def page_granules_un ind_def page_granules_def)
  ultimately show ?thesis by blast
qed

lemma FreePool_small:
  assumes wf: "pool_wf s" and i: "i < 6" and blk: "wf_block (a, 2 ^ i)"
    and hdr: "Size (PoolHeader s a) = of_nat (64 * 2 ^ i)" and nz: "a + 16 \<noteq> 0"
  shows "\<exists>s'. SmmFreePool (a + 16) s = Some (EFI_SUCCESS, s') \<and> gave s (a, 2 ^ i) s'"
proof -
  have p: "(2 :: nat) ^ i \<le> 2 ^ 5" using i by (intro power_increasing) auto
  have u: "unat (of_nat (64 * 2 ^ i) :: UINTN) = 64 * 2 ^ i"
    using p by (intro unat_of_nat64) simp
  have small: "\<not> Size (PoolHeader s a) > MAX_POOL_SIZE"
    unfolding hdr word_less_nat_alt u using p by (simp add: pool_consts)
  have len: "length (mSmmPoolLists s) = 6" using wf by (simp add: pool_wf_def MAX_POOL_INDEX_6)
  let ?s = "pool_push i a (set_hdr a ((PoolHeader s a)\<lparr>Available := True\<rparr>) s)"
  have "SmmFreePool (a + 16) s = Some (EFI_SUCCESS, ?s)"
    using small nz free_index [OF i] i hdr
    by (simp add: SmmFreePool_def SmmInternalFreePool_def sizeof_POOL_HEADER_def
        InternalFreePoolByIndex_def Let_def MAX_POOL_INDEX_6 del: of_nat_mult)
  moreover have "gave s (a, 2 ^ i) ?s"
    using wf blk pool_push_blocks [OF i, of "set_hdr a ((PoolHeader s a)\<lparr>Available := True\<rparr>) s" a] len
    by (auto simp: gave_def pool_wf_def free_occ_def)
  ultimately show ?thesis by blast
qed

lemma FreePool_held:
  assumes inv: "pool_inv P s live" and x: "(a, n) \<in># live"
  shows "\<exists>s'. SmmFreePool (a + 16) s = Some (EFI_SUCCESS, s') \<and> pool_inv P s' (live - {#(a, n)#})"
proof -
  have h: "wf_block (a, n)" "Size (PoolHeader s a) = of_nat (64 * n)"
    "(\<exists>i < 6. n = 2 ^ i) \<or> (\<exists>N. wf_run a N \<and> n = 64 * unat N)"
    using inv x by (auto simp: pool_inv_def held_block_def dest!: bspec)
  obtain rest where rest: "live = add_mset (a, n) rest" using x by (meson mset_add)
  have wf: "pool_wf s" using inv by (simp add: pool_inv_def)
  have one: "free_occ s g + ind (gran (a, n)) g \<le> 1" for g
  proof -
    have "free_occ s g + ind (gran (a, n)) g + occ rest g = ind P g"
      using inv rest by (simp add: pool_inv_def add.assoc)
    then show ?thesis by (simp add: ind_def split: if_splits)
  qed
  have "unat (a + 16) = unat a + 16" using h(1) by (subst unat_add_noov) (auto simp: wf_block_def)
  then have nz: "a + 16 \<noteq> 0" by (metis add_is_0 unat_0 zero_neq_numeral)
  have "\<exists>s'. SmmFreePool (a + 16) s = Some (EFI_SUCCESS, s') \<and> gave s (a, n) s'"
    using h(3) FreePool_pages [OF wf _ _ _ nz] FreePool_small [OF wf _ _ _ nz] h(1,2) one by blast
  then show ?thesis using gave_inv inv rest by auto
qed

section \<open>Properties\<close>

text \<open>
  Sequences of pool allocations and releases, with the blocks handed out so far.  A request whose size
  plus header wraps is excluded; a release is of a block that is held.
\<close>

inductive pool_step :: "smm_memory \<times> (UINTN \<times> nat) multiset \<Rightarrow> smm_memory \<times> (UINTN \<times> nat) multiset \<Rightarrow> bool" where
  pool_alloc: "unat R < 18446744073709551600 \<Longrightarrow> SmmAllocatePool T R s = Some (EFI_SUCCESS, Some Buffer, s') \<Longrightarrow>
     pool_step (s, live) (s', add_mset (Buffer - 16, unat (Size (PoolHeader s' (Buffer - 16))) div 64) live)"
| pool_fail: "unat R < 18446744073709551600 \<Longrightarrow> SmmAllocatePool T R s = Some (Status, Buffer, s') \<Longrightarrow>
     EFI_ERROR Status \<Longrightarrow> pool_step (s, live) (s', live)"
| pool_free: "(a, n) \<in># live \<Longrightarrow> SmmFreePool (a + 16) s = Some (Status, s') \<Longrightarrow>
     pool_step (s, live) (s', live - {#(a, n)#})"

inductive_cases pool_stepE: "pool_step (s, live) (s', live')"

lemma AllocatePool_bad_type:
  "T \<noteq> EfiRuntimeServicesCode \<Longrightarrow> T \<noteq> EfiRuntimeServicesData \<Longrightarrow>
    SmmAllocatePool T R s = Some (EFI_INVALID_PARAMETER, None, s)"
  by (simp add: SmmAllocatePool_def SmmInternalAllocatePool_def)

lemma held_size:
  assumes "held_block s (a, n)" shows "unat (Size (PoolHeader s a)) div 64 = n"
proof -
  have "unat (of_nat (64 * n) :: UINTN) = 64 * n" using assms by (intro unat_of_nat64) (simp add: held_block_def wf_block_def)
  then show ?thesis using assms by (simp add: held_block_def del: of_nat_mult)
qed

lemma pool_step_inv:
  assumes "pool_step (s, live) (s', live')" "pool_inv P s live"
  shows "pool_inv P s' live'"
  using assms(1)
proof (rule pool_stepE)
  fix R T Buffer
  let ?n = "unat (Size (PoolHeader s' (Buffer - 16))) div 64"
  assume *: "live' = add_mset (Buffer - 16, ?n) live" "unat R < 18446744073709551600"
    "SmmAllocatePool T R s = Some (EFI_SUCCESS, Some Buffer, s')"
  have T: "T = EfiRuntimeServicesCode \<or> T = EfiRuntimeServicesData"
    using AllocatePool_bad_type [of T R s] *(3) by auto
  from AllocatePool_cases [OF assms(2) _ T, of R] *(2) *(3) obtain a k
    where a: "Buffer = a + 16" "pool_inv P s' (add_mset (a, k) live)" by auto
  then have "?n = k" using held_size [of s' a k] by (simp add: pool_inv_def)
  then show ?thesis using a *(1) by simp
next
  fix R T Status Buffer
  assume *: "live' = live" "unat R < 18446744073709551600"
    "SmmAllocatePool T R s = Some (Status, Buffer, s')" "EFI_ERROR Status"
  have "s' = s"
    using AllocatePool_cases [OF assms(2), of R T] AllocatePool_bad_type [of T R s] *(2-4)
    by (cases "T = EfiRuntimeServicesCode \<or> T = EfiRuntimeServicesData") auto
  then show ?thesis using assms(2) *(1) by simp
next
  fix a n Status
  assume "live' = live - {#(a, n)#}" "(a, n) \<in># live" "SmmFreePool (a + 16) s = Some (Status, s')"
  then show ?thesis using FreePool_held [OF assms(2)] by fastforce
qed

lemma pool_trace_inv:
  assumes "pool_step\<^sup>*\<^sup>* (s0, {#}) (s, live)" "pool_inv P s0 {#}"
  shows "pool_inv P s live"
  using assms(1)
proof (induction rule: rtranclp_induct2)
  case refl
  show ?case by (rule assms(2))
next
  case (step s live s' live')
  then show ?case using pool_step_inv by blast
qed

lemma occ_disjoint:
  assumes "\<And>g. occ M g \<le> 1" "x \<in># M" "y \<in># M - {#x#}"
  shows "gran x \<inter> gran y = {}"
proof -
  obtain K where K: "M = add_mset x (add_mset y K)" using assms(2,3) by (metis insert_DiffM)
  have "ind (gran x) g + ind (gran y) g \<le> 1" for g using assms(1) [of g] K by simp
  then show ?thesis by (force simp: ind_def split: if_splits)
qed

text \<open>The state after initialisation with the one SMRAM region the witnesses use: one free page.\<close>

definition sample_pool :: smm_memory where
  "sample_pool = \<lparr>mSmmMemoryMap = [\<lparr>PageAddr = 0x10000, NumberOfPages = 1\<rparr>],
     mSmmPoolLists = replicate 6 [], PoolHeader = (\<lambda>a. \<lparr>Size = 0, Available = False\<rparr>),
     gLoadModuleAtFixAddressSmramBase = 0\<rparr>"

lemma pool_blocks_empty: "mSmmPoolLists s = replicate 6 [] \<Longrightarrow> pool_blocks s = {#}"
  by (simp add: pool_blocks_def)

lemma sample_pool_inv: "pool_inv (page_granules {16}) sample_pool {#}"
  using pool_blocks_empty [of sample_pool]
  by (auto simp: pool_inv_def pool_wf_def free_occ_def sample_pool_def MAX_POOL_INDEX_6 wf_map_def wf_node_def
      pend_def pfn_def node_pages_def page_granules_def ind_def)

lemma sample_alloc:
  obtains a n s' where "SmmAllocatePool EfiRuntimeServicesData 4000 sample_pool = Some (EFI_SUCCESS, Some (a + 16), s')"
    "pool_inv (page_granules {16}) s' {#(a, n)#}"
proof -
  have "SmmAllocatePool EfiRuntimeServicesData 4000 sample_pool \<noteq> Some (EFI_OUT_OF_RESOURCES, None, sample_pool)"
    by (simp add: SmmAllocatePool_def index_fold sample_pool_def page_eval EFI_SIZE_TO_PAGES_def EFI_PAGE_MASK_def)
  then show ?thesis using AllocatePool_cases [OF sample_pool_inv, of 4000 EfiRuntimeServicesData] that by auto
qed



text \<open>\<^verbatim>\<open>SmmAllocatePool\<close>, for a request whose size with header does not wrap: it either reports
  \<^verbatim>\<open>EFI_OUT_OF_RESOURCES\<close> and changes nothing, or returns a buffer behind the header of a block that is
  large enough, that nobody else owns and that is now accounted as handed out.\<close>

theorem AllocatePool_block:
  assumes "pool_inv P s live" and "unat R < 18446744073709551600"
    and "T = EfiRuntimeServicesCode \<or> T = EfiRuntimeServicesData"
  shows "SmmAllocatePool T R s = Some (EFI_OUT_OF_RESOURCES, None, s) \<or>
    (\<exists>a n s'. SmmAllocatePool T R s = Some (EFI_SUCCESS, Some (a + 16), s') \<and>
       pool_inv P s' (add_mset (a, n) live) \<and> unat R + 16 \<le> 64 * n)"
  using AllocatePool_cases [OF assms(1) _ assms(3), of R] assms(2) by simp

theorem AllocatePool_block_witness:
  "SmmAllocatePool EfiRuntimeServicesData 100 sample_pool = Some (EFI_OUT_OF_RESOURCES, None, sample_pool) \<or>
    (\<exists>a n s'. SmmAllocatePool EfiRuntimeServicesData 100 sample_pool = Some (EFI_SUCCESS, Some (a + 16), s') \<and>
       pool_inv (page_granules {16}) s' {#(a, n)#} \<and> unat (100 :: UINTN) + 16 \<le> 64 * n)"
  by (rule AllocatePool_block [OF sample_pool_inv]) simp_all

text \<open>\<^verbatim>\<open>SmmFreePool\<close> of a held block always succeeds and gives exactly its granules back, to the list of
  its size or to the page allocator.\<close>

theorem FreePool_returns_block:
  assumes "pool_inv P s live" and "(a, n) \<in># live"
  shows "\<exists>s'. SmmFreePool (a + 16) s = Some (EFI_SUCCESS, s') \<and> pool_inv P s' (live - {#(a, n)#}) \<and>
    (\<forall>g. free_occ s' g = free_occ s g + ind (gran (a, n)) g)"
proof -
  obtain s' where s': "SmmFreePool (a + 16) s = Some (EFI_SUCCESS, s')" "pool_inv P s' (live - {#(a, n)#})"
    using FreePool_held [OF assms] by blast
  have "live = add_mset (a, n) (live - {#(a, n)#})" using assms(2) by simp
  then have 1: "occ live g = ind (gran (a, n)) g + occ (live - {#(a, n)#}) g" for g by (metis occ_simps(2))
  have 2: "free_occ s g + occ live g = free_occ s' g + occ (live - {#(a, n)#}) g" for g
    using assms(1) s'(2) by (simp add: pool_inv_def)
  have "free_occ s' g = free_occ s g + ind (gran (a, n)) g" for g
    using 1 [of g] 2 [of g] by linarith
  then show ?thesis using s' by blast
qed

theorem FreePool_returns_block_witness:
  "\<exists>a s s'. SmmAllocatePool EfiRuntimeServicesData 4000 sample_pool = Some (EFI_SUCCESS, Some (a + 16), s) \<and>
     SmmFreePool (a + 16) s = Some (EFI_SUCCESS, s') \<and> pool_inv (page_granules {16}) s' {#}"
proof (rule sample_alloc)
  fix a n s'
  assume *: "SmmAllocatePool EfiRuntimeServicesData 4000 sample_pool = Some (EFI_SUCCESS, Some (a + 16), s')"
    "pool_inv (page_granules {16}) s' {#(a, n)#}"
  show ?thesis using FreePool_returns_block [OF *(2), of a n] *(1) by auto
qed

text \<open>A request of at least \<open>2 ^ 64 - 15\<close> bytes wraps when the header size is added: it is served with
  a 64-byte block.  A request of exactly \<open>2 ^ 64 - 16\<close> bytes indexes the pool lists at \<open>-1\<close>.\<close>

theorem AllocatePool_size_wrap:
  assumes "length (mSmmPoolLists s) = 6" and "mSmmPoolLists s ! 0 = a # as"
  shows "fst (the (SmmAllocatePool EfiRuntimeServicesData (- 1) s)) = EFI_SUCCESS \<and>
    fst (snd (the (SmmAllocatePool EfiRuntimeServicesData (- 1) s))) = Some (a + 16) \<and>
    SmmAllocatePool EfiRuntimeServicesData (- 16) s = None"
proof -
  have one: "granule_index 1 = 0" using granule_index [of 1] by (cases "unat (granule_index 1)") (auto simp: word_unat_eq_iff)
  have zero: "unat (granule_index 0) = 18446744073709551615"
    by (simp add: granule_index_def HighBitSet32_def unat_minus_1_64)
  have out: "InternalAllocPoolByIndex 18446744073709551615 s = None"
    by (simp add: InternalAllocPoolByIndex.simps MAX_POOL_INDEX_6)
  show ?thesis using assms
    by (simp add: SmmAllocatePool_def index_fold one zero out InternalAllocPoolByIndex.simps [of 0] MAX_POOL_INDEX_6)
qed

theorem AllocatePool_size_wrap_witness:
  "fst (the (SmmAllocatePool EfiRuntimeServicesData (- 1) (pool_push 0 0x4000 sample_pool))) = EFI_SUCCESS"
  using AllocatePool_size_wrap [of "pool_push 0 0x4000 sample_pool"] by (simp add: pool_push_def sample_pool_def)

text \<open>The pages a descriptor contributes, and the descriptors the platform is expected to pass.\<close>

definition region_pages :: "EFI_SMRAM_DESCRIPTOR \<Rightarrow> nat set" where
  "region_pages r = (if region_unusable r then {} else
     {p. unat (CpuStart r) \<le> p * PAGE \<and> (p + 1) * PAGE \<le> unat (CpuStart r) + unat (PhysicalSize r)})"

definition good_region :: "EFI_SMRAM_DESCRIPTOR \<Rightarrow> bool" where
  "good_region r \<longleftrightarrow> region_unusable r \<or> (0 < unat (CpuStart r) \<and> region_pages r \<noteq> {} \<and>
     unat (CpuStart r) + unat (PhysicalSize r) < 18446744073709547520)"

lemma AddMemoryRegions_pages:
  assumes "wf_map m" "\<forall>r \<in> set rs. good_region r \<and> region_pages r \<inter> free_pages m = {}"
    "sorted_wrt (\<lambda>r r'. region_pages r \<inter> region_pages r' = {}) rs"
  shows "wf_map (AddMemoryRegions rs m) \<and> free_pages (AddMemoryRegions rs m) = free_pages m \<union> \<Union>(region_pages ` set rs)"
  using assms
proof (induction rs arbitrary: m)
  case (Cons r rs)
  let ?m = "SmmAddMemoryRegion (CpuStart r) (PhysicalSize r) (RegionState r) m"
  have m: "wf_map ?m \<and> free_pages ?m = free_pages m \<union> region_pages r"
  proof (cases "region_unusable r")
    case True
    then show ?thesis using Cons.prems(1) by (simp add: SmmAddMemoryRegion_def region_unusable_def region_pages_def)
  next
    case False
    then show ?thesis
      using AddMemoryRegion_pages [OF Cons.prems(1), of "RegionState r" "CpuStart r" "PhysicalSize r"] Cons.prems(2)
      by (simp add: region_unusable_def region_pages_def good_region_def)
  qed
  have "\<forall>q \<in> set rs. good_region q \<and> region_pages q \<inter> free_pages ?m = {}"
    using m Cons.prems(2,3) by fastforce
  then have "wf_map (AddMemoryRegions rs ?m) \<and> free_pages (AddMemoryRegions rs ?m) = free_pages ?m \<union> \<Union>(region_pages ` set rs)"
    using m Cons.prems(3) by (intro Cons.IH) auto
  then show ?case using m by auto
qed simp

text \<open>\<^verbatim>\<open>SmmInitializeMemoryServices\<close> without fixed-address loading, on disjoint SMRAM regions: it establishes
  the pool invariant over exactly the whole pages of the usable regions, with nothing handed out.\<close>

theorem InitializeMemoryServices_inv:
  assumes "\<forall>r \<in> set rs. good_region r" and "sorted_wrt (\<lambda>r r'. region_pages r \<inter> region_pages r' = {}) rs"
    and "mSmmMemoryMap s = []"
  shows "\<exists>s'. SmmInitializeMemoryServices 0 n rs s = Some (rs, s') \<and>
    pool_inv (page_granules (\<Union>(region_pages ` set rs))) s' {#}"
proof -
  let ?s = "s\<lparr>mSmmPoolLists := replicate MAX_POOL_INDEX [], mSmmMemoryMap := AddMemoryRegions rs []\<rparr>"
  have "SmmInitializeMemoryServices 0 n rs s = Some (rs, ?s)"
    using assms(3) by (simp add: SmmInitializeMemoryServices_def Let_def)
  moreover have "pool_inv (page_granules (\<Union>(region_pages ` set rs))) ?s {#}"
    using AddMemoryRegions_pages [of "[]" rs] assms(1,2) pool_blocks_empty [of ?s]
    by (simp add: pool_inv_def pool_wf_def free_occ_def MAX_POOL_INDEX_6)
  ultimately show ?thesis by blast
qed

theorem InitializeMemoryServices_inv_witness:
  "\<exists>s'. SmmInitializeMemoryServices 0 0
      [\<lparr>PhysicalStart = 0x10000, CpuStart = 0x10000, PhysicalSize = 0x2000, RegionState = 0\<rparr>]
      (sample_pool\<lparr>mSmmMemoryMap := []\<rparr>) =
    Some ([\<lparr>PhysicalStart = 0x10000, CpuStart = 0x10000, PhysicalSize = 0x2000, RegionState = 0\<rparr>], s') \<and>
    pool_inv (page_granules (region_pages
      \<lparr>PhysicalStart = 0x10000, CpuStart = 0x10000, PhysicalSize = 0x2000, RegionState = 0\<rparr>)) s' {#}"
proof -
  let ?r = "\<lparr>PhysicalStart = 0x10000, CpuStart = 0x10000, PhysicalSize = 0x2000, RegionState = 0\<rparr>"
  have "16 \<in> region_pages ?r" by (simp add: region_pages_def region_unusable_def)
  then have "good_region ?r" by (auto simp: good_region_def)
  then show ?thesis using InitializeMemoryServices_inv [of "[?r]" "sample_pool\<lparr>mSmmMemoryMap := []\<rparr>" 0] by simp
qed

end
