(* ===== verification/SmmConfigTable.thy ===== *)
theory SmmConfigTable
  imports SmmPool
begin

text \<open>
  The configuration table of the SMM system table,
  \<^verbatim>\<open>MdeModulePkg/Core/PiSmmCore/InstallConfigurationTable.c\<close>.

  The state holds the pool, the address of the table buffer, the entries stored in it, the size the
  buffer was allocated with and the variable \<^verbatim>\<open>mSmmSystemTableAllocateSize\<close>.  The last two are
  distinct: the code only keeps the variable, and a write past the real size of the buffer is the
  outcome \<open>None\<close>.

  The lemmas show that the table behaves as a finite map from GUIDs to pointers while the variable
  tells the size of the buffer, that every successful operation keeps that, and that a failed
  allocation breaks it.
\<close>

section \<open>Definitions\<close>

record smst_state =
  Smram :: smm_memory
  SmmConfigurationTable :: UINTN
  ConfigEntries :: "(EFI_GUID \<times> UINTN) list"
  ConfigBytes :: UINTN
  mSmmSystemTableAllocateSize :: UINTN

definition CONFIG_TABLE_SIZE_INCREASED :: UINTN where "CONFIG_TABLE_SIZE_INCREASED = 0x10"

definition sizeof_EFI_CONFIGURATION_TABLE :: UINTN where "sizeof_EFI_CONFIGURATION_TABLE = 24"

text \<open>\<^verbatim>\<open>AllocatePool\<close> and \<^verbatim>\<open>FreePool\<close> of the SMM core: NULL is \<open>0\<close>.\<close>

definition InternalAllocatePool :: "EFI_MEMORY_TYPE \<Rightarrow> UINTN \<Rightarrow> smm_memory \<Rightarrow> (UINTN \<times> smm_memory) option" where
  "InternalAllocatePool MemoryType AllocationSize s =
    (case SmmAllocatePool MemoryType AllocationSize s of
       None \<Rightarrow> None
     | Some (Status, Memory, s') \<Rightarrow>
         Some (if EFI_ERROR Status then 0 else (case Memory of None \<Rightarrow> 0 | Some a \<Rightarrow> a), s'))"

definition AllocatePool :: "UINTN \<Rightarrow> smm_memory \<Rightarrow> (UINTN \<times> smm_memory) option" where
  "AllocatePool AllocationSize s = InternalAllocatePool EfiRuntimeServicesData AllocationSize s"

text \<open>The buffers released here come from \<^verbatim>\<open>SmmAllocatePool\<close>, so the SMRAM branch is the one taken.\<close>

definition FreePool :: "UINTN \<Rightarrow> smm_memory \<Rightarrow> smm_memory option" where
  "FreePool Buffer s = map_option snd (SmmFreePool Buffer s)"

fun ConfigTable_find :: "EFI_GUID \<Rightarrow> (EFI_GUID \<times> UINTN) list \<Rightarrow> nat" where
  "ConfigTable_find Guid [] = 0"
| "ConfigTable_find Guid (e # es) = (if Guid = fst e then 0 else Suc (ConfigTable_find Guid es))"

text \<open>Storing entry number \<open>Index\<close>: it has to lie inside the buffer.\<close>

definition ConfigTable_store :: "nat \<Rightarrow> EFI_GUID \<Rightarrow> UINTN \<Rightarrow> smst_state \<Rightarrow> (EFI_STATUS \<times> smst_state) option" where
  "ConfigTable_store Index Guid Table s =
    (if SmmConfigurationTable s \<noteq> 0 \<and> (Index + 1) * 24 \<le> unat (ConfigBytes s)
     then Some (EFI_SUCCESS, s\<lparr>ConfigEntries := ConfigEntries s @ [(Guid, Table)]\<rparr>)
     else None)"

definition SmmInstallConfigurationTable ::
  "EFI_GUID option \<Rightarrow> UINTN \<Rightarrow> smst_state \<Rightarrow> (EFI_STATUS \<times> smst_state) option" where
  "SmmInstallConfigurationTable GuidPtr Table s =
    (case GuidPtr of
       None \<Rightarrow> Some (EFI_INVALID_PARAMETER, s)
     | Some Guid \<Rightarrow>
         let es = ConfigEntries s; Index = ConfigTable_find Guid es in
         if Index < length es then
           if Table \<noteq> 0 then Some (EFI_SUCCESS, s\<lparr>ConfigEntries := es[Index := (fst (es ! Index), Table)]\<rparr>)
           else Some (EFI_SUCCESS, s\<lparr>ConfigEntries := take Index es @ drop (Suc Index) es\<rparr>)
         else if Table = 0 then Some (EFI_NOT_FOUND, s)
         else if of_nat Index * sizeof_EFI_CONFIGURATION_TABLE \<ge> mSmmSystemTableAllocateSize s then
           let NewSize = mSmmSystemTableAllocateSize s +
                 CONFIG_TABLE_SIZE_INCREASED * sizeof_EFI_CONFIGURATION_TABLE in
           case AllocatePool NewSize (Smram s) of
             None \<Rightarrow> None
           | Some (ConfigurationTable, p) \<Rightarrow>
               if ConfigurationTable = 0
               then Some (EFI_OUT_OF_RESOURCES, s\<lparr>Smram := p, mSmmSystemTableAllocateSize := NewSize\<rparr>)
               else case (if SmmConfigurationTable s \<noteq> 0 then FreePool (SmmConfigurationTable s) p else Some p) of
                      None \<Rightarrow> None
                    | Some p' \<Rightarrow> ConfigTable_store Index Guid Table
                        (s\<lparr>Smram := p', SmmConfigurationTable := ConfigurationTable, ConfigBytes := NewSize,
                           mSmmSystemTableAllocateSize := NewSize\<rparr>)
         else ConfigTable_store Index Guid Table s)"

text \<open>The lookup loop that readers of the table use.\<close>

fun ConfigTable_lookup :: "EFI_GUID \<Rightarrow> (EFI_GUID \<times> UINTN) list \<Rightarrow> UINTN option" where
  "ConfigTable_lookup Guid [] = None"
| "ConfigTable_lookup Guid (e # es) = (if fst e = Guid then Some (snd e) else ConfigTable_lookup Guid es)"

section \<open>The table as a map\<close>

lemma lookup_map_of [simp]: "ConfigTable_lookup g es = map_of es g"
  by (induction es) auto

lemma find_found: "ConfigTable_find g es < length es \<longleftrightarrow> g \<in> fst ` set es"
  by (induction es) auto

lemma find_nth: "g \<in> fst ` set es \<Longrightarrow> fst (es ! ConfigTable_find g es) = g"
  by (induction es) auto

lemma find_le: "ConfigTable_find g es \<le> length es"
  by (induction es) auto

lemma find_absent: "g \<notin> fst ` set es \<Longrightarrow> ConfigTable_find g es = length es"
  by (induction es) auto

lemma map_of_update:
  "g \<in> fst ` set es \<Longrightarrow> map_of (es[ConfigTable_find g es := (g, v)]) = (map_of es)(g \<mapsto> v)"
proof (induction es)
  case (Cons e es)
  then show ?case by (cases "g = fst e") (auto simp: fun_eq_iff)
qed simp

lemma map_of_delete:
  "distinct (map fst es) \<Longrightarrow> g \<in> fst ` set es \<Longrightarrow>
    map_of (take (ConfigTable_find g es) es @ drop (Suc (ConfigTable_find g es)) es) = (map_of es)(g := None)"
proof (induction es)
  case (Cons e es)
  show ?case
  proof (cases "g = fst e")
    case True
    then have "map_of es g = None" using Cons.prems(1) by (simp add: map_of_eq_None_iff)
    then show ?thesis using True by (auto simp: fun_eq_iff)
  next
    case False
    then show ?thesis using Cons by (auto simp: fun_eq_iff)
  qed
qed simp

definition config_wf :: "smst_state \<Rightarrow> bool" where
  "config_wf s \<longleftrightarrow> distinct (map fst (ConfigEntries s)) \<and> ConfigBytes s = mSmmSystemTableAllocateSize s \<and>
     24 * length (ConfigEntries s) \<le> unat (ConfigBytes s) \<and> 24 dvd unat (ConfigBytes s) \<and>
     (SmmConfigurationTable s = 0 \<longrightarrow> ConfigBytes s = 0)"

text \<open>The table buffer is a block the pool has handed out.\<close>

definition table_held :: "smst_state \<Rightarrow> (UINTN \<times> nat) multiset \<Rightarrow> bool" where
  "table_held s live \<longleftrightarrow> (SmmConfigurationTable s \<noteq> 0 \<longrightarrow> (\<exists>n. (SmmConfigurationTable s - 16, n) \<in># live))"

lemma AllocatePool_result:
  assumes "pool_inv P p live" "unat R < 18446744073709551600"
  shows "AllocatePool R p = Some (0, p) \<or>
    (\<exists>a n p'. AllocatePool R p = Some (a + 16, p') \<and> a + 16 \<noteq> 0 \<and> pool_inv P p' (add_mset (a, n) live))"
proof -
  consider "SmmAllocatePool EfiRuntimeServicesData R p = Some (EFI_OUT_OF_RESOURCES, None, p)"
    | a n p' where "SmmAllocatePool EfiRuntimeServicesData R p = Some (EFI_SUCCESS, Some (a + 16), p')"
      "pool_inv P p' (add_mset (a, n) live)"
    using AllocatePool_cases [OF assms(1), of R EfiRuntimeServicesData] assms(2) by auto
  then show ?thesis
  proof cases
    case 2
    then have "wf_block (a, n)" by (simp add: pool_inv_def held_block_def)
    then have "unat (a + 16) = unat a + 16" by (subst unat_add_noov) (auto simp: wf_block_def)
    then have "a + 16 \<noteq> 0" by (metis add_is_0 unat_0 zero_neq_numeral)
    then show ?thesis using 2 by (auto simp: AllocatePool_def InternalAllocatePool_def)
  qed (simp add: AllocatePool_def InternalAllocatePool_def)
qed

lemma FreePool_result:
  assumes "pool_inv P p live" "(b - 16, n) \<in># live"
  shows "\<exists>p'. FreePool b p = Some p' \<and> pool_inv P p' (live - {#(b - 16, n)#})"
  using FreePool_held [OF assms] by (auto simp: FreePool_def)

lemma grow_size:
  assumes "config_wf s" "unat (mSmmSystemTableAllocateSize s) < 4294967296"
  shows "unat (mSmmSystemTableAllocateSize s + CONFIG_TABLE_SIZE_INCREASED * sizeof_EFI_CONFIGURATION_TABLE)
    = unat (mSmmSystemTableAllocateSize s) + 384"
  using assms(2) by (simp add: CONFIG_TABLE_SIZE_INCREASED_def sizeof_EFI_CONFIGURATION_TABLE_def unat_add_noov)

lemma index_full:
  assumes "config_wf s" "unat (mSmmSystemTableAllocateSize s) < 4294967296"
  shows "of_nat (length (ConfigEntries s)) * sizeof_EFI_CONFIGURATION_TABLE \<ge> mSmmSystemTableAllocateSize s \<longleftrightarrow>
    24 * length (ConfigEntries s) = unat (mSmmSystemTableAllocateSize s)"
proof -
  have le: "24 * length (ConfigEntries s) \<le> unat (mSmmSystemTableAllocateSize s)"
    using assms(1) by (auto simp: config_wf_def)
  have "unat (of_nat (24 * length (ConfigEntries s)) :: UINTN) = 24 * length (ConfigEntries s)"
    using le assms(2) by (intro unat_of_nat64) simp
  then have "unat (of_nat (length (ConfigEntries s)) * sizeof_EFI_CONFIGURATION_TABLE) = 24 * length (ConfigEntries s)"
    by (simp add: sizeof_EFI_CONFIGURATION_TABLE_def mult.commute)
  then show ?thesis using le by (auto simp: word_le_nat_alt)
qed

lemma store_ok:
  assumes "SmmConfigurationTable s \<noteq> 0" "(length (ConfigEntries s) + 1) * 24 \<le> unat (ConfigBytes s)"
    "distinct (map fst (ConfigEntries s))" "g \<notin> fst ` set (ConfigEntries s)"
    "ConfigBytes s = mSmmSystemTableAllocateSize s" "24 dvd unat (ConfigBytes s)"
  shows "\<exists>s'. ConfigTable_store (length (ConfigEntries s)) g T s = Some (EFI_SUCCESS, s') \<and> config_wf s' \<and>
    map_of (ConfigEntries s') = (map_of (ConfigEntries s))(g \<mapsto> T) \<and> Smram s' = Smram s \<and>
    SmmConfigurationTable s' = SmmConfigurationTable s"
proof -
  have "map_of (ConfigEntries s) g = None" using assms(4) by (simp add: map_of_eq_None_iff)
  then have "map_of (ConfigEntries s @ [(g, T)]) = (map_of (ConfigEntries s))(g \<mapsto> T)"
    by (auto simp: map_add_def fun_eq_iff split: option.splits)
  then show ?thesis using assms by (simp add: ConfigTable_store_def config_wf_def)
qed

definition install_spec :: "EFI_GUID \<Rightarrow> UINTN \<Rightarrow> (EFI_GUID \<rightharpoonup> UINTN) \<Rightarrow> (EFI_GUID \<rightharpoonup> UINTN)" where
  "install_spec g T tbl = (if T = 0 then tbl(g := None) else tbl(g \<mapsto> T))"

lemma install_add:
  assumes wf: "config_wf s" and sz: "unat (mSmmSystemTableAllocateSize s) < 4294967296"
    and inv: "pool_inv P (Smram s) live" and held: "table_held s live"
    and T: "T \<noteq> 0" and new: "g \<notin> fst ` set (ConfigEntries s)"
  shows "\<exists>st s'. SmmInstallConfigurationTable (Some g) T s = Some (st, s') \<and>
    (st = EFI_SUCCESS \<and> config_wf s' \<and> (\<exists>live'. pool_inv P (Smram s') live' \<and> table_held s' live') \<and>
       map_of (ConfigEntries s') = (map_of (ConfigEntries s))(g \<mapsto> T) \<or>
     st = EFI_OUT_OF_RESOURCES \<and> ConfigEntries s' = ConfigEntries s)"
proof -
  let ?n = "length (ConfigEntries s)"
  note find = find_absent [OF new]
  let ?new = "mSmmSystemTableAllocateSize s + CONFIG_TABLE_SIZE_INCREASED * sizeof_EFI_CONFIGURATION_TABLE"
  note gs = grow_size [OF wf sz] and full = index_full [OF wf sz]
  have d: "distinct (map fst (ConfigEntries s))" "ConfigBytes s = mSmmSystemTableAllocateSize s"
    "24 * ?n \<le> unat (ConfigBytes s)" "24 dvd unat (ConfigBytes s)" "SmmConfigurationTable s = 0 \<Longrightarrow> ConfigBytes s = 0"
    using wf by (auto simp: config_wf_def)
  show ?thesis
  proof (cases "24 * ?n = unat (mSmmSystemTableAllocateSize s)")
    case False
    then have room: "(?n + 1) * 24 \<le> unat (ConfigBytes s)" using d(2-4) by (auto simp: dvd_def)
    then have "SmmConfigurationTable s \<noteq> 0" using d(5) by fastforce
    from store_ok [OF this room d(1) new d(2) d(4), of T] obtain s' where
      s': "ConfigTable_store ?n g T s = Some (EFI_SUCCESS, s')" "config_wf s'"
        "map_of (ConfigEntries s') = (map_of (ConfigEntries s))(g \<mapsto> T)" "Smram s' = Smram s"
        "SmmConfigurationTable s' = SmmConfigurationTable s" by blast
    moreover have "table_held s' live" using held s'(5) by (simp add: table_held_def)
    ultimately show ?thesis
      using False full T find inv by (auto simp: SmmInstallConfigurationTable_def Let_def)
  next
    case True
    have "unat ?new < 18446744073709551600" using gs sz by simp
    from AllocatePool_result [OF inv this] consider "AllocatePool ?new (Smram s) = Some (0, Smram s)"
      | a n p where "AllocatePool ?new (Smram s) = Some (a + 16, p)" "a + 16 \<noteq> 0" "pool_inv P p (add_mset (a, n) live)"
      by blast
    then show ?thesis
    proof cases
      case 1
      then show ?thesis using True full T find by (simp add: SmmInstallConfigurationTable_def Let_def)
    next
      case 2
      have "\<exists>p' live'. (if SmmConfigurationTable s \<noteq> 0 then FreePool (SmmConfigurationTable s) p else Some p) = Some p' \<and>
        pool_inv P p' live' \<and> (a, n) \<in># live'"
      proof (cases "SmmConfigurationTable s = 0")
        case False
        then obtain k where k: "(SmmConfigurationTable s - 16, k) \<in># live" using held by (auto simp: table_held_def)
        then have "\<exists>p'. FreePool (SmmConfigurationTable s) p = Some p' \<and>
          pool_inv P p' (add_mset (a, n) live - {#(SmmConfigurationTable s - 16, k)#})"
          by (intro FreePool_result [OF 2(3)]) simp
        moreover have "(a, n) \<in># add_mset (a, n) live - {#(SmmConfigurationTable s - 16, k)#}"
          using k by (cases "(a, n) = (SmmConfigurationTable s - 16, k)") auto
        ultimately show ?thesis using False by auto
      qed (use 2(3) in auto)
      then obtain p' live' where p': "(if SmmConfigurationTable s \<noteq> 0 then FreePool (SmmConfigurationTable s) p else Some p) = Some p'"
        "pool_inv P p' live'" "(a, n) \<in># live'" by blast
      let ?s = "s\<lparr>Smram := p', SmmConfigurationTable := a + 16, ConfigBytes := ?new, mSmmSystemTableAllocateSize := ?new\<rparr>"
      have "24 dvd unat ?new" using gs d(2,4) by simp
      then have "\<exists>s'. ConfigTable_store (length (ConfigEntries ?s)) g T ?s = Some (EFI_SUCCESS, s') \<and> config_wf s' \<and>
        map_of (ConfigEntries s') = (map_of (ConfigEntries ?s))(g \<mapsto> T) \<and> Smram s' = Smram ?s \<and>
        SmmConfigurationTable s' = SmmConfigurationTable ?s"
        using 2(2) gs True d(1) new by (intro store_ok) simp_all
      then obtain s' where s': "ConfigTable_store ?n g T ?s = Some (EFI_SUCCESS, s')" "config_wf s'"
        "map_of (ConfigEntries s') = (map_of (ConfigEntries s))(g \<mapsto> T)" "Smram s' = p'"
        "SmmConfigurationTable s' = a + 16" by auto
      have "SmmInstallConfigurationTable (Some g) T s = Some (EFI_SUCCESS, s')"
        using True full T find 2(1,2) p'(1) s'(1) by (simp add: SmmInstallConfigurationTable_def Let_def)
      then show ?thesis using s' p'(2,3) by (auto simp: table_held_def)
    qed
  qed
qed
section \<open>Properties\<close>

text \<open>\<^verbatim>\<open>SmmInstallConfigurationTable\<close> implements a finite map: on a table in order it never writes outside
  the buffer, and it either updates the map (add, modify, or delete for a NULL table) and keeps the
  table in order, or reports \<^verbatim>\<open>EFI_NOT_FOUND\<close> for the deletion of an absent entry, or
  \<^verbatim>\<open>EFI_OUT_OF_RESOURCES\<close> with the entries unchanged.\<close>

theorem InstallConfigurationTable_map:
  assumes "config_wf s" and "unat (mSmmSystemTableAllocateSize s) < 4294967296"
    and "pool_inv P (Smram s) live" and "table_held s live"
  shows "\<exists>st s'. SmmInstallConfigurationTable (Some g) T s = Some (st, s') \<and>
    (st = EFI_SUCCESS \<and> config_wf s' \<and> (\<exists>live'. pool_inv P (Smram s') live' \<and> table_held s' live') \<and>
       map_of (ConfigEntries s') = install_spec g T (map_of (ConfigEntries s)) \<or>
     st = EFI_NOT_FOUND \<and> T = 0 \<and> map_of (ConfigEntries s) g = None \<and> s' = s \<or>
     st = EFI_OUT_OF_RESOURCES \<and> ConfigEntries s' = ConfigEntries s)"
proof (cases "g \<in> fst ` set (ConfigEntries s)")
  case True
  let ?i = "ConfigTable_find g (ConfigEntries s)"
  have lt: "?i < length (ConfigEntries s)" using True by (simp add: find_found)
  have d: "distinct (map fst (ConfigEntries s))" using assms(1) by (simp add: config_wf_def)
  have keys: "map fst ((ConfigEntries s)[?i := (g, T)]) = map fst (ConfigEntries s)"
    using find_nth [OF True] lt by (metis fst_conv list_update_id map_update nth_map)
  have sub: "distinct (map fst (take ?i (ConfigEntries s) @ drop (Suc ?i) (ConfigEntries s)))"
    using d lt by (subst (asm) id_take_nth_drop [OF lt]) auto
  show ?thesis
    using lt True d keys sub assms map_of_update [OF True, of T] map_of_delete [OF d True] find_nth [OF True]
    by (auto simp: SmmInstallConfigurationTable_def Let_def install_spec_def config_wf_def table_held_def)
next
  case False
  show ?thesis
  proof (cases "T = 0")
    case True
    then show ?thesis using False find_absent [OF False]
      by (simp add: SmmInstallConfigurationTable_def Let_def map_of_eq_None_iff)
  next
    case T: False
    then show ?thesis using install_add [OF assms T False] by (auto simp: install_spec_def)
  qed
qed

definition sample_smst :: smst_state where
  "sample_smst = \<lparr>Smram = sample_pool, SmmConfigurationTable = 0, ConfigEntries = [], ConfigBytes = 0,
     mSmmSystemTableAllocateSize = 0\<rparr>"

theorem InstallConfigurationTable_map_witness:
  "\<exists>st s'. SmmInstallConfigurationTable (Some 7) 0x1000 sample_smst = Some (st, s') \<and>
    (st = EFI_SUCCESS \<and> map_of (ConfigEntries s') = install_spec 7 0x1000 Map.empty \<or>
     st = EFI_OUT_OF_RESOURCES \<and> ConfigEntries s' = [])"
  using InstallConfigurationTable_map [of sample_smst "page_granules {16}" "{#}" 7 "0x1000"] sample_pool_inv
  by (auto simp: sample_smst_def config_wf_def table_held_def)

text \<open>When the table is full and the pool cannot serve the larger one, the first addition reports
  \<^verbatim>\<open>EFI_OUT_OF_RESOURCES\<close> but has already raised \<^verbatim>\<open>mSmmSystemTableAllocateSize\<close>; the next addition skips the
  reallocation and writes past the end of the old buffer.\<close>

theorem InstallConfigurationTable_failed_grow:
  assumes "config_wf s" and "unat (mSmmSystemTableAllocateSize s) < 4294967296"
    and "24 * length (ConfigEntries s) = unat (ConfigBytes s)" and "T \<noteq> 0" and "map_of (ConfigEntries s) g = None"
    and "AllocatePool (mSmmSystemTableAllocateSize s + CONFIG_TABLE_SIZE_INCREASED * sizeof_EFI_CONFIGURATION_TABLE)
       (Smram s) = Some (0, Smram s)"
  shows "\<exists>s'. SmmInstallConfigurationTable (Some g) T s = Some (EFI_OUT_OF_RESOURCES, s') \<and>
    SmmInstallConfigurationTable (Some g) T s' = None"
proof -
  let ?n = "length (ConfigEntries s)"
  let ?new = "mSmmSystemTableAllocateSize s + CONFIG_TABLE_SIZE_INCREASED * sizeof_EFI_CONFIGURATION_TABLE"
  let ?s = "s\<lparr>mSmmSystemTableAllocateSize := ?new\<rparr>"
  have find: "ConfigTable_find g (ConfigEntries s) = ?n"
    using assms(5) by (intro find_absent) (simp add: map_of_eq_None_iff)
  have b: "ConfigBytes s = mSmmSystemTableAllocateSize s" using assms(1) by (simp add: config_wf_def)
  have sz: "unat (of_nat ?n * sizeof_EFI_CONFIGURATION_TABLE) = 24 * ?n"
  proof -
    have "unat (of_nat (24 * ?n) :: UINTN) = 24 * ?n" using assms(2,3) b by (intro unat_of_nat64) simp
    then show ?thesis by (simp add: sizeof_EFI_CONFIGURATION_TABLE_def mult.commute)
  qed
  have "SmmInstallConfigurationTable (Some g) T s = Some (EFI_OUT_OF_RESOURCES, ?s)"
    using index_full [OF assms(1,2)] assms(3-) b find by (simp add: SmmInstallConfigurationTable_def Let_def)
  moreover have "\<not> ?new \<le> of_nat ?n * sizeof_EFI_CONFIGURATION_TABLE"
    unfolding word_le_nat_alt sz grow_size [OF assms(1,2)] using assms(3) b by simp
  then have "SmmInstallConfigurationTable (Some g) T ?s = None"
    using find assms(3,4) by (simp add: SmmInstallConfigurationTable_def Let_def ConfigTable_store_def)
  ultimately show ?thesis by blast
qed

text \<open>A pool with no memory at all, as the witness of the failing allocation.\<close>

definition empty_smst :: smst_state where
  "empty_smst = sample_smst\<lparr>Smram := sample_pool\<lparr>mSmmMemoryMap := []\<rparr>\<rparr>"

lemma empty_pool_index: "InternalAllocPoolByIndex i (Smram empty_smst) =
    (if i \<le> 6 then Some (EFI_OUT_OF_RESOURCES, None, Smram empty_smst) else None)"
proof (cases "i \<le> 6")
  case True
  then show ?thesis
  proof (induction i rule: inc_induct)
    case base
    show ?case
      by (simp add: InternalAllocPoolByIndex.simps [of 6] MAX_POOL_INDEX_6 empty_smst_def sample_smst_def sample_pool_def
          SmmInternalAllocatePages_def EFI_SIZE_TO_PAGES_def pool_consts EFI_PAGE_MASK_def page_eval)
  next
    case (step i)
    then show ?case
      by (simp add: InternalAllocPoolByIndex.simps [of i] MAX_POOL_INDEX_6 empty_smst_def sample_smst_def sample_pool_def)
  qed
qed (simp add: InternalAllocPoolByIndex.simps [of i] MAX_POOL_INDEX_6)

theorem InstallConfigurationTable_failed_grow_witness:
  "\<exists>s'. SmmInstallConfigurationTable (Some 7) 0x1000 empty_smst = Some (EFI_OUT_OF_RESOURCES, s') \<and>
    SmmInstallConfigurationTable (Some 7) 0x1000 s' = None"
proof (rule InstallConfigurationTable_failed_grow)
  have i: "unat (granule_index 7) \<le> 6" using granule_index [of 7] by simp
  have z: "mSmmSystemTableAllocateSize empty_smst + CONFIG_TABLE_SIZE_INCREASED * sizeof_EFI_CONFIGURATION_TABLE = 384"
    by (simp add: empty_smst_def sample_smst_def CONFIG_TABLE_SIZE_INCREASED_def sizeof_EFI_CONFIGURATION_TABLE_def)
  show "AllocatePool (mSmmSystemTableAllocateSize empty_smst + CONFIG_TABLE_SIZE_INCREASED * sizeof_EFI_CONFIGURATION_TABLE)
     (Smram empty_smst) = Some (0, Smram empty_smst)"
    unfolding z AllocatePool_def InternalAllocatePool_def SmmAllocatePool_def index_fold
    using i by (simp add: empty_pool_index)
qed (simp_all add: empty_smst_def sample_smst_def config_wf_def)

end
