(* ===== verification/SmmMem.thy ===== *)
theory SmmMem
  imports SmmPool
begin

text \<open>
  The buffer checks of SMM drivers, \<^verbatim>\<open>MdePkg/Library/SmmMemLib/SmmMemLib.c\<close>.  The state is the list of
  SMRAM ranges the constructor reads from the SMM access protocol and the highest supported address.
  The number of address bits (from the CPU HOB or CPUID) and the descriptor list are parameters.

  The lemmas show that an accepted buffer lies below the limit and outside every SMRAM range, that a
  buffer with these properties is accepted, and that the copy services never write SMRAM through
  their non-SMRAM argument.
\<close>

record smm_mem_lib =
  mSmmMemLibInternalSmramRanges :: "EFI_SMRAM_DESCRIPTOR list"
  mSmmMemLibInternalMaximumSupportAddress :: EFI_PHYSICAL_ADDRESS

text \<open>\<open>cpu_hob\<close> is \<^verbatim>\<open>SizeOfMemorySpace\<close> of the CPU HOB if there is one; \<open>cpuid\<close> gives EAX for a leaf.\<close>

definition SmmMemLibInternalCalculateMaximumSupportAddress ::
  "UINT8 option \<Rightarrow> (UINT32 \<Rightarrow> UINT32) \<Rightarrow> EFI_PHYSICAL_ADDRESS" where
  "SmmMemLibInternalCalculateMaximumSupportAddress cpu_hob cpuid =
    (let bits0 = (case cpu_hob of
           Some n \<Rightarrow> n
         | None \<Rightarrow> if cpuid 0x80000000 \<ge> 0x80000008 then ucast (cpuid 0x80000008) else 36);
         PhysicalAddressBits = (if bits0 > 48 then 48 else bits0)
     in push_bit (unat PhysicalAddressBits) 1 - 1)"

definition range_overlap :: "EFI_PHYSICAL_ADDRESS \<Rightarrow> UINT64 \<Rightarrow> EFI_SMRAM_DESCRIPTOR \<Rightarrow> bool" where
  "range_overlap Buffer Length r \<longleftrightarrow>
    (Buffer \<ge> CpuStart r \<and> Buffer < CpuStart r + PhysicalSize r) \<or>
    (CpuStart r \<ge> Buffer \<and> CpuStart r < Buffer + Length)"

definition SmmIsBufferOutsideSmmValid :: "smm_mem_lib \<Rightarrow> EFI_PHYSICAL_ADDRESS \<Rightarrow> UINT64 \<Rightarrow> bool" where
  "SmmIsBufferOutsideSmmValid l Buffer Length =
    (let Max = mSmmMemLibInternalMaximumSupportAddress l in
     if Length > Max \<or> Buffer > Max \<or> (Length \<noteq> 0 \<and> Buffer > Max - (Length - 1)) then False
     else \<not> list_ex (range_overlap Buffer Length) (mSmmMemLibInternalSmramRanges l))"

definition SetMem :: "UINT64 \<Rightarrow> UINTN \<Rightarrow> UINT8 \<Rightarrow> memory \<Rightarrow> memory" where
  "SetMem dst len v m = (\<lambda>a. if a - dst < len then v else m a)"

definition SmmCopyMemToSmram ::
  "smm_mem_lib \<Rightarrow> UINT64 \<Rightarrow> UINT64 \<Rightarrow> UINTN \<Rightarrow> memory \<Rightarrow> EFI_STATUS \<times> memory" where
  "SmmCopyMemToSmram l dst src len m =
    (if \<not> SmmIsBufferOutsideSmmValid l src len then (EFI_SECURITY_VIOLATION, m)
     else (EFI_SUCCESS, CopyMem dst src len m))"

definition SmmCopyMemFromSmram ::
  "smm_mem_lib \<Rightarrow> UINT64 \<Rightarrow> UINT64 \<Rightarrow> UINTN \<Rightarrow> memory \<Rightarrow> EFI_STATUS \<times> memory" where
  "SmmCopyMemFromSmram l dst src len m =
    (if \<not> SmmIsBufferOutsideSmmValid l dst len then (EFI_SECURITY_VIOLATION, m)
     else (EFI_SUCCESS, CopyMem dst src len m))"

definition SmmCopyMem ::
  "smm_mem_lib \<Rightarrow> UINT64 \<Rightarrow> UINT64 \<Rightarrow> UINTN \<Rightarrow> memory \<Rightarrow> EFI_STATUS \<times> memory" where
  "SmmCopyMem l dst src len m =
    (if \<not> SmmIsBufferOutsideSmmValid l dst len then (EFI_SECURITY_VIOLATION, m)
     else if \<not> SmmIsBufferOutsideSmmValid l src len then (EFI_SECURITY_VIOLATION, m)
     else (EFI_SUCCESS, CopyMem dst src len m))"

definition SmmSetMem :: "smm_mem_lib \<Rightarrow> UINT64 \<Rightarrow> UINTN \<Rightarrow> UINT8 \<Rightarrow> memory \<Rightarrow> EFI_STATUS \<times> memory" where
  "SmmSetMem l dst len v m =
    (if \<not> SmmIsBufferOutsideSmmValid l dst len then (EFI_SECURITY_VIOLATION, m)
     else (EFI_SUCCESS, SetMem dst len v m))"

text \<open>The constructor, given the answers of the SMM access protocol and of the CPU queries.\<close>

definition SmmMemLibConstructor ::
  "EFI_SMRAM_DESCRIPTOR list \<Rightarrow> UINT8 option \<Rightarrow> (UINT32 \<Rightarrow> UINT32) \<Rightarrow> EFI_STATUS \<times> smm_mem_lib" where
  "SmmMemLibConstructor Capabilities cpu_hob cpuid =
    (EFI_SUCCESS, \<lparr>mSmmMemLibInternalSmramRanges = Capabilities,
       mSmmMemLibInternalMaximumSupportAddress =
         SmmMemLibInternalCalculateMaximumSupportAddress cpu_hob cpuid\<rparr>)"

section \<open>Accepted buffers\<close>

definition range_bytes :: "EFI_SMRAM_DESCRIPTOR \<Rightarrow> UINT64 set" where
  "range_bytes r = mem_range (CpuStart r) (PhysicalSize r)"

definition smram :: "smm_mem_lib \<Rightarrow> UINT64 set" where
  "smram l = \<Union>(range_bytes ` set (mSmmMemLibInternalSmramRanges l))"

definition wf_ranges :: "smm_mem_lib \<Rightarrow> bool" where
  "wf_ranges l \<longleftrightarrow> (\<forall>r \<in> set (mSmmMemLibInternalSmramRanges l).
     PhysicalSize r \<noteq> 0 \<and> unat (CpuStart r) + unat (PhysicalSize r) < 18446744073709551616) \<and>
     unat (mSmmMemLibInternalMaximumSupportAddress l) < 9223372036854775808"

text \<open>The three-way test on the limit says that the buffer ends at or below it.\<close>

lemma limit_test:
  fixes B L M :: UINT64
  shows "\<not> (L > M \<or> B > M \<or> (L \<noteq> 0 \<and> B > M - (L - 1))) \<longleftrightarrow>
    unat L \<le> unat M \<and> unat B \<le> unat M \<and> (L \<noteq> 0 \<longrightarrow> unat B + unat L \<le> unat M + 1)"
proof (cases "L \<noteq> 0 \<and> unat L \<le> unat M")
  case True
  then have "0 < unat L" by (simp add: unat_gt_0)
  then have "unat (L - 1) = unat L - 1" by (simp add: unat_sub_noov)
  then have "unat (M - (L - 1)) = unat M - (unat L - 1)"
    using unat_sub_noov [of "L - 1" M] True by linarith
  then show ?thesis using True \<open>0 < unat L\<close> by (auto simp: word_less_nat_alt)
next
  case False
  then show ?thesis by (auto simp: word_less_nat_alt)
qed

lemma overlap_iff:
  assumes "unat B + unat L < 18446744073709551616" "L \<noteq> 0" "PhysicalSize r \<noteq> 0"
    "unat (CpuStart r) + unat (PhysicalSize r) < 18446744073709551616"
  shows "range_overlap B L r \<longleftrightarrow> mem_range B L \<inter> range_bytes r \<noteq> {}"
proof -
  let ?S = "CpuStart r"
  have pos: "0 < unat L" "0 < unat (PhysicalSize r)" using assms(2,3) by (simp_all add: unat_gt_0)
  have in1: "a \<in> mem_range B L \<longleftrightarrow> unat B \<le> unat a \<and> unat a < unat B + unat L" for a
    using assms(1) by (intro mem_range_nat) simp
  have in2: "a \<in> range_bytes r \<longleftrightarrow> unat ?S \<le> unat a \<and> unat a < unat ?S + unat (PhysicalSize r)" for a
    unfolding range_bytes_def using assms(4) by (intro mem_range_nat) simp
  have "range_overlap B L r \<longleftrightarrow> (unat ?S \<le> unat B \<and> unat B < unat ?S + unat (PhysicalSize r)) \<or>
     (unat B \<le> unat ?S \<and> unat ?S < unat B + unat L)"
    using assms(1,4) by (simp add: range_overlap_def word_le_nat_alt word_less_nat_alt unat_add_noov)
  also have "\<dots> \<longleftrightarrow> mem_range B L \<inter> range_bytes r \<noteq> {}"
  proof
    assume "(unat ?S \<le> unat B \<and> unat B < unat ?S + unat (PhysicalSize r)) \<or>
     (unat B \<le> unat ?S \<and> unat ?S < unat B + unat L)"
    then have "B \<in> mem_range B L \<inter> range_bytes r \<or> ?S \<in> mem_range B L \<inter> range_bytes r"
      using in1 in2 pos by auto
    then show "mem_range B L \<inter> range_bytes r \<noteq> {}" by blast
  next
    assume "mem_range B L \<inter> range_bytes r \<noteq> {}"
    then obtain a where "a \<in> mem_range B L" "a \<in> range_bytes r" by blast
    then show "(unat ?S \<le> unat B \<and> unat B < unat ?S + unat (PhysicalSize r)) \<or>
     (unat B \<le> unat ?S \<and> unat ?S < unat B + unat L)"
      using in1 in2 by force
  qed
  finally show ?thesis .
qed

lemma outside_iff:
  assumes "wf_ranges l" "L \<noteq> 0"
  shows "SmmIsBufferOutsideSmmValid l B L \<longleftrightarrow>
    unat L \<le> unat (mSmmMemLibInternalMaximumSupportAddress l) \<and>
    unat B + unat L \<le> unat (mSmmMemLibInternalMaximumSupportAddress l) + 1 \<and> mem_range B L \<inter> smram l = {}"
proof -
  let ?M = "mSmmMemLibInternalMaximumSupportAddress l"
  have M: "unat ?M < 9223372036854775808" using assms(1) by (simp add: wf_ranges_def)
  have lim: "\<not> (L > ?M \<or> B > ?M \<or> (L \<noteq> 0 \<and> B > ?M - (L - 1))) \<longleftrightarrow>
     unat L \<le> unat ?M \<and> unat B + unat L \<le> unat ?M + 1"
    unfolding limit_test using assms(2) unat_gt_0 [of L] by auto
  have "(\<forall>r \<in> set (mSmmMemLibInternalSmramRanges l). \<not> range_overlap B L r) \<longleftrightarrow> mem_range B L \<inter> smram l = {}"
    if "unat L \<le> unat ?M \<and> unat B + unat L \<le> unat ?M + 1"
  proof -
    have "unat B + unat L < 18446744073709551616" using that M by simp
    then have "range_overlap B L r \<longleftrightarrow> mem_range B L \<inter> range_bytes r \<noteq> {}"
      if "r \<in> set (mSmmMemLibInternalSmramRanges l)" for r
      using that assms by (intro overlap_iff) (auto simp: wf_ranges_def)
    then show ?thesis unfolding smram_def by blast
  qed
  then show ?thesis
    unfolding SmmIsBufferOutsideSmmValid_def Let_def using lim by (auto simp: list_ex_iff)
qed

lemma outside_disjoint:
  assumes "wf_ranges l" "SmmIsBufferOutsideSmmValid l B L"
  shows "mem_range B L \<inter> smram l = {}"
proof (cases "L = 0")
  case True
  then show ?thesis by (simp add: mem_range_def)
next
  case False
  then show ?thesis using outside_iff [OF assms(1)] assms(2) by blast
qed

section \<open>Properties\<close>

text \<open>C40. \<^verbatim>\<open>SmmIsBufferOutsideSmmValid\<close> on well-formed, non-empty SMRAM ranges: a non-empty buffer is accepted
  exactly when it ends at or below the supported maximum and no byte of it lies in SMRAM.\<close>

theorem BufferOutsideSmm_exact:
  assumes "wf_ranges l" and "Length \<noteq> 0"
  shows "SmmIsBufferOutsideSmmValid l Buffer Length \<longleftrightarrow>
    unat Length \<le> unat (mSmmMemLibInternalMaximumSupportAddress l) \<and>
    unat Buffer + unat Length \<le> unat (mSmmMemLibInternalMaximumSupportAddress l) + 1 \<and>
    mem_range Buffer Length \<inter> smram l = {}"
  by (rule outside_iff [OF assms])

definition sample_lib :: smm_mem_lib where
  "sample_lib = \<lparr>mSmmMemLibInternalSmramRanges =
      [\<lparr>PhysicalStart = 0x7000, CpuStart = 0x7000, PhysicalSize = 0x1000, RegionState = 0\<rparr>],
     mSmmMemLibInternalMaximumSupportAddress = 0xFFFFFFFFF\<rparr>"

lemma sample_lib_wf: "wf_ranges sample_lib"
  by (simp add: wf_ranges_def sample_lib_def)

theorem BufferOutsideSmm_exact_witness:
  "SmmIsBufferOutsideSmmValid sample_lib 0x6000 0x1000 \<and> mem_range 0x6000 0x1000 \<inter> smram sample_lib = {}"
  using BufferOutsideSmm_exact [OF sample_lib_wf, of "0x1000" "0x6000"]
  by (simp add: SmmIsBufferOutsideSmmValid_def sample_lib_def range_overlap_def)

text \<open>The copy and fill services that take a destination outside SMRAM never change a byte of SMRAM,
  whatever addresses and lengths they are given.\<close>

theorem SmmMem_services_keep_smram:
  assumes "wf_ranges l" and "a \<in> smram l"
  shows "snd (SmmCopyMemFromSmram l dst src len m) a = m a \<and> snd (SmmCopyMem l dst src len m) a = m a \<and>
    snd (SmmSetMem l dst len v m) a = m a"
proof (cases "SmmIsBufferOutsideSmmValid l dst len")
  case True
  then have "\<not> a - dst < len" using outside_disjoint [OF assms(1) True] assms(2) by (auto simp: mem_range_def)
  then show ?thesis by (simp add: SmmCopyMemFromSmram_def SmmCopyMem_def SmmSetMem_def SetMem_def CopyMem_def)
next
  case False
  then show ?thesis by (simp add: SmmCopyMemFromSmram_def SmmCopyMem_def SmmSetMem_def)
qed

theorem SmmMem_services_keep_smram_witness:
  "snd (SmmSetMem sample_lib 0x6FFF 2 0xAA (\<lambda>a. 0)) 0x7000 = 0"
  using SmmMem_services_keep_smram [OF sample_lib_wf, of "0x7000" "0x6FFF" 0 2 "\<lambda>a. 0" "0xAA"]
  by (simp add: smram_def sample_lib_def range_bytes_def mem_range_def)

end
