(* ===== verification/LockBox.thy ===== *)
theory LockBox
  imports SmmConfigTable SmmMem
begin

text \<open>
  The lock box store of the SMM phase, \<^verbatim>\<open>MdeModulePkg/Library/SmmLockBoxLib/SmmLockBoxSmmLib.c\<close>.

  The state holds the SMM system table (with page and pool allocator below it), byte memory and the
  queue \<^verbatim>\<open>mLockBoxQueue\<close>.  All library instances share the queue of the instance that installed the
  configuration table entry, so there is one queue; it can be reached once the entry is there, and a
  walk without the entry follows a NULL pointer: the outcome \<open>None\<close>.  A \<^verbatim>\<open>SMM_LOCK_BOX_DATA\<close> lives in a
  pool block that nothing else addresses and is kept as a record.

  The abstract store maps a GUID to the saved bytes, the attributes and the address they came from.
  The lemmas show that each operation refines the operation of the same name on that map: other boxes
  keep their contents because the SMRAM runs of different boxes never overlap.
\<close>

section \<open>Data\<close>

definition SMM_LOCK_BOX_DATA_SIGNATURE :: UINT64 where
  "SMM_LOCK_BOX_DATA_SIGNATURE = 0x44584F424B434F4C"

definition SMM_LOCK_BOX_SIGNATURE_64 :: UINT64 where
  "SMM_LOCK_BOX_SIGNATURE_64 = 0x34365F424B434F4C"

record SMM_LOCK_BOX_CONTEXT =
  ContextSignature :: UINT64
  LockBoxDataAddress :: EFI_PHYSICAL_ADDRESS

record SMM_LOCK_BOX_DATA =
  BoxSignature :: UINT64
  BoxGuid :: EFI_GUID
  BoxBuffer :: EFI_PHYSICAL_ADDRESS
  BoxLength :: UINT64
  BoxAttributes :: UINT64
  BoxSmramBuffer :: EFI_PHYSICAL_ADDRESS

definition sizeof_SMM_LOCK_BOX_DATA :: UINTN where "sizeof_SMM_LOCK_BOX_DATA = 72"

definition LOCK_BOX_ATTRIBUTE_RESTORE_IN_PLACE :: UINT64 where
  "LOCK_BOX_ATTRIBUTE_RESTORE_IN_PLACE = 1"

definition gEfiSmmLockBoxCommunicationGuid :: EFI_GUID where
  "gEfiSmmLockBoxCommunicationGuid = 0x2a3cfebd27e84d0a8b79d688c2a3e1c0"

record lockbox_state =
  gSmst :: smst_state
  Memory :: memory
  mSmmLockBoxContext :: SMM_LOCK_BOX_CONTEXT
  mLockBoxQueue :: "SMM_LOCK_BOX_DATA list"

section \<open>Reaching the queue\<close>

definition InternalGetSmmLockBoxContext :: "lockbox_state \<Rightarrow> UINTN option" where
  "InternalGetSmmLockBoxContext s =
    ConfigTable_lookup gEfiSmmLockBoxCommunicationGuid (ConfigEntries (gSmst s))"

text \<open>\<open>ContextAddress\<close> and \<open>QueueAddress\<close> are the addresses of the two globals of the instance.\<close>

definition SmmLockBoxSmmConstructuor ::
  "UINTN \<Rightarrow> UINTN \<Rightarrow> lockbox_state \<Rightarrow> (EFI_STATUS \<times> lockbox_state) option" where
  "SmmLockBoxSmmConstructuor ContextAddress QueueAddress s =
    (case InternalGetSmmLockBoxContext s of
       Some SmmLockBoxContext \<Rightarrow> Some (EFI_SUCCESS, s)
     | None \<Rightarrow>
         let s1 = s\<lparr>mSmmLockBoxContext := \<lparr>ContextSignature = SMM_LOCK_BOX_SIGNATURE_64,
                      LockBoxDataAddress = QueueAddress\<rparr>\<rparr> in
         map_option (\<lambda>(Status, t). (Status, s1\<lparr>gSmst := t\<rparr>))
           (SmmInstallConfigurationTable (Some gEfiSmmLockBoxCommunicationGuid) ContextAddress (gSmst s1)))"

definition InternalGetLockBoxQueue :: "lockbox_state \<Rightarrow> SMM_LOCK_BOX_DATA list option" where
  "InternalGetLockBoxQueue s =
    (case InternalGetSmmLockBoxContext s of None \<Rightarrow> None | Some SmmLockBoxContext \<Rightarrow> Some (mLockBoxQueue s))"

fun LockBox_search :: "EFI_GUID \<Rightarrow> SMM_LOCK_BOX_DATA list \<Rightarrow> nat option" where
  "LockBox_search Guid [] = None"
| "LockBox_search Guid (b # bs) =
    (if BoxGuid b = Guid then Some 0 else map_option Suc (LockBox_search Guid bs))"

text \<open>The position of the box in the queue stands for the pointer that is returned.\<close>

definition InternalFindLockBoxByGuid :: "EFI_GUID \<Rightarrow> lockbox_state \<Rightarrow> nat option option" where
  "InternalFindLockBoxByGuid Guid s =
    (case InternalGetLockBoxQueue s of None \<Rightarrow> None | Some q \<Rightarrow> Some (LockBox_search Guid q))"

section \<open>Operations\<close>

definition SaveLockBox ::
  "EFI_GUID option \<Rightarrow> UINTN \<Rightarrow> UINTN \<Rightarrow> lockbox_state \<Rightarrow> (EFI_STATUS \<times> lockbox_state) option" where
  "SaveLockBox GuidPtr Buffer Length s =
    (case GuidPtr of
       None \<Rightarrow> Some (EFI_INVALID_PARAMETER, s)
     | Some Guid \<Rightarrow>
       if Buffer = 0 \<or> Length = 0 then Some (EFI_INVALID_PARAMETER, s)
       else case InternalFindLockBoxByGuid Guid s of
         None \<Rightarrow> None
       | Some (Some LockBox) \<Rightarrow> Some (EFI_ALREADY_STARTED, s)
       | Some None \<Rightarrow>
         (let p = Smram (gSmst s); Pages = EFI_SIZE_TO_PAGES Length in
          case SmmAllocatePages AllocateAnyPages EfiRuntimeServicesData Pages 0 (mSmmMemoryMap p) of
            None \<Rightarrow> None
          | Some (Status, SmramBuffer, m) \<Rightarrow>
            let p1 = p\<lparr>mSmmMemoryMap := m\<rparr> in
            if EFI_ERROR Status then Some (EFI_OUT_OF_RESOURCES, s\<lparr>gSmst := (gSmst s)\<lparr>Smram := p1\<rparr>\<rparr>)
            else case SmmAllocatePool EfiRuntimeServicesData sizeof_SMM_LOCK_BOX_DATA p1 of
              None \<Rightarrow> None
            | Some (Status2, LockBox, p2) \<Rightarrow>
              if EFI_ERROR Status2 then
                Some (EFI_OUT_OF_RESOURCES, s\<lparr>gSmst := (gSmst s)\<lparr>Smram :=
                  p2\<lparr>mSmmMemoryMap := snd (SmmFreePages SmramBuffer Pages (mSmmMemoryMap p2))\<rparr>\<rparr>\<rparr>)
              else
                Some (EFI_SUCCESS,
                  s\<lparr>gSmst := (gSmst s)\<lparr>Smram := p2\<rparr>,
                    Memory := CopyMem SmramBuffer Buffer Length (Memory s),
                    mLockBoxQueue := mLockBoxQueue s @
                      [\<lparr>BoxSignature = SMM_LOCK_BOX_DATA_SIGNATURE, BoxGuid = Guid, BoxBuffer = Buffer,
                        BoxLength = Length, BoxAttributes = 0, BoxSmramBuffer = SmramBuffer\<rparr>]\<rparr>)))"

definition SetLockBoxAttributes ::
  "EFI_GUID option \<Rightarrow> UINT64 \<Rightarrow> lockbox_state \<Rightarrow> (EFI_STATUS \<times> lockbox_state) option" where
  "SetLockBoxAttributes GuidPtr Attributes s =
    (case GuidPtr of
       None \<Rightarrow> Some (EFI_INVALID_PARAMETER, s)
     | Some Guid \<Rightarrow>
       if Attributes AND NOT LOCK_BOX_ATTRIBUTE_RESTORE_IN_PLACE \<noteq> 0 then Some (EFI_INVALID_PARAMETER, s)
       else case InternalFindLockBoxByGuid Guid s of
         None \<Rightarrow> None
       | Some None \<Rightarrow> Some (EFI_NOT_FOUND, s)
       | Some (Some i) \<Rightarrow>
         Some (EFI_SUCCESS, s\<lparr>mLockBoxQueue :=
           (mLockBoxQueue s)[i := (mLockBoxQueue s ! i)\<lparr>BoxAttributes := Attributes\<rparr>]\<rparr>))"

definition UpdateLockBox ::
  "EFI_GUID option \<Rightarrow> UINTN \<Rightarrow> UINTN \<Rightarrow> UINTN \<Rightarrow> lockbox_state \<Rightarrow> (EFI_STATUS \<times> lockbox_state) option" where
  "UpdateLockBox GuidPtr Offset Buffer Length s =
    (case GuidPtr of
       None \<Rightarrow> Some (EFI_INVALID_PARAMETER, s)
     | Some Guid \<Rightarrow>
       if Buffer = 0 \<or> Length = 0 then Some (EFI_INVALID_PARAMETER, s)
       else case InternalFindLockBoxByGuid Guid s of
         None \<Rightarrow> None
       | Some None \<Rightarrow> Some (EFI_NOT_FOUND, s)
       | Some (Some i) \<Rightarrow>
         (let LockBox = mLockBoxQueue s ! i in
          if BoxLength LockBox < Offset + Length then Some (EFI_BUFFER_TOO_SMALL, s)
          else Some (EFI_SUCCESS,
            s\<lparr>Memory := CopyMem (BoxSmramBuffer LockBox + Offset) Buffer Length (Memory s)\<rparr>)))"

text \<open>\<open>LengthPtr\<close> is \<open>None\<close> for a NULL pointer; the second component of the result is \<^verbatim>\<open>*Length\<close> on return.\<close>

definition RestoreLockBox ::
  "EFI_GUID option \<Rightarrow> UINTN \<Rightarrow> UINTN option \<Rightarrow> lockbox_state
    \<Rightarrow> (EFI_STATUS \<times> UINTN option \<times> lockbox_state) option" where
  "RestoreLockBox GuidPtr Buffer LengthPtr s =
    (case GuidPtr of
       None \<Rightarrow> Some (EFI_INVALID_PARAMETER, LengthPtr, s)
     | Some Guid \<Rightarrow>
       if (Buffer = 0 \<and> LengthPtr \<noteq> None) \<or> (Buffer \<noteq> 0 \<and> LengthPtr = None)
       then Some (EFI_INVALID_PARAMETER, LengthPtr, s)
       else case InternalFindLockBoxByGuid Guid s of
         None \<Rightarrow> None
       | Some None \<Rightarrow> Some (EFI_NOT_FOUND, LengthPtr, s)
       | Some (Some i) \<Rightarrow>
         (let LockBox = mLockBoxQueue s ! i in
          if Buffer = 0 \<and> BoxAttributes LockBox AND LOCK_BOX_ATTRIBUTE_RESTORE_IN_PLACE = 0
          then Some (EFI_WRITE_PROTECTED, LengthPtr, s)
          else let RestoreBuffer = (if Buffer \<noteq> 0 then Buffer else BoxBuffer LockBox) in
            case LengthPtr of
              Some n \<Rightarrow>
                if n < BoxLength LockBox then Some (EFI_BUFFER_TOO_SMALL, Some (BoxLength LockBox), s)
                else Some (EFI_SUCCESS, Some (BoxLength LockBox),
                  s\<lparr>Memory := CopyMem RestoreBuffer (BoxSmramBuffer LockBox) (BoxLength LockBox) (Memory s)\<rparr>)
            | None \<Rightarrow> Some (EFI_SUCCESS, None,
                  s\<lparr>Memory := CopyMem RestoreBuffer (BoxSmramBuffer LockBox) (BoxLength LockBox) (Memory s)\<rparr>)))"

fun RestoreAll_loop :: "SMM_LOCK_BOX_DATA list \<Rightarrow> memory \<Rightarrow> memory" where
  "RestoreAll_loop [] m = m"
| "RestoreAll_loop (b # bs) m =
    RestoreAll_loop bs
      (if BoxAttributes b AND LOCK_BOX_ATTRIBUTE_RESTORE_IN_PLACE \<noteq> 0
       then CopyMem (BoxBuffer b) (BoxSmramBuffer b) (BoxLength b) m else m)"

definition RestoreAllLockBoxInPlace :: "lockbox_state \<Rightarrow> (EFI_STATUS \<times> lockbox_state) option" where
  "RestoreAllLockBoxInPlace s =
    (case InternalGetLockBoxQueue s of
       None \<Rightarrow> None
     | Some q \<Rightarrow> Some (EFI_SUCCESS, s\<lparr>Memory := RestoreAll_loop q (Memory s)\<rparr>))"

section \<open>The abstract store and the invariant\<close>

type_synonym lockbox_store = "EFI_GUID \<rightharpoonup> UINT8 list \<times> UINT64 \<times> EFI_PHYSICAL_ADDRESS"

definition box_value :: "memory \<Rightarrow> SMM_LOCK_BOX_DATA \<Rightarrow> UINT8 list \<times> UINT64 \<times> EFI_PHYSICAL_ADDRESS" where
  "box_value m b = (mem_bytes (BoxSmramBuffer b) (BoxLength b) m, BoxAttributes b, BoxBuffer b)"

definition store :: "lockbox_state \<Rightarrow> lockbox_store" where
  "store s = map_of (map (\<lambda>b. (BoxGuid b, box_value (Memory s) b)) (mLockBoxQueue s))"

definition box_pages :: "SMM_LOCK_BOX_DATA \<Rightarrow> nat set" where
  "box_pages b = page_run (BoxSmramBuffer b) (EFI_SIZE_TO_PAGES (BoxLength b))"

definition box_range :: "SMM_LOCK_BOX_DATA \<Rightarrow> UINT64 set" where
  "box_range b = mem_range (BoxSmramBuffer b) (BoxLength b)"

definition box_ok :: "SMM_LOCK_BOX_DATA \<Rightarrow> bool" where
  "box_ok b \<longleftrightarrow> BoxLength b \<noteq> 0 \<and> wf_run (BoxSmramBuffer b) (EFI_SIZE_TO_PAGES (BoxLength b))"

definition lockbox_inv :: "lockbox_state \<Rightarrow> bool" where
  "lockbox_inv s \<longleftrightarrow> InternalGetSmmLockBoxContext s \<noteq> None \<and> distinct (map BoxGuid (mLockBoxQueue s)) \<and>
     (\<forall>b \<in> set (mLockBoxQueue s). box_ok b) \<and>
     sorted_wrt (\<lambda>b c. box_pages b \<inter> box_pages c = {}) (mLockBoxQueue s) \<and>
     (\<exists>P live. pool_inv P (Smram (gSmst s)) live \<and>
        (\<forall>b \<in> set (mLockBoxQueue s). page_granules (box_pages b) \<inter> P = {}))"

lemma box_range_pages:
  assumes "box_ok b" "a \<in> box_range b" shows "unat a div PAGE \<in> box_pages b"
proof -
  let ?B = "unat (BoxSmramBuffer b)" and ?N = "unat (EFI_SIZE_TO_PAGES (BoxLength b))"
  have L: "0 < unat (BoxLength b)" using assms(1) by (simp add: box_ok_def unat_gt_0)
  have w: "?B mod PAGE = 0" "?B div PAGE + ?N < 4503599627370496" using assms(1) by (auto simp: box_ok_def wf_run_def)
  have B: "?B div PAGE * PAGE = ?B" using div_mult_mod_eq [of ?B PAGE] w(1) by simp
  have le: "?B + unat (BoxLength b) \<le> (?B div PAGE + ?N) * PAGE"
    unfolding add_mult_distrib B using SIZE_TO_PAGES_bounds(1) [OF L] by simp
  have "(?B div PAGE + ?N) * PAGE < 4503599627370496 * PAGE" using w(2) by (intro mult_strict_right_mono) simp_all
  then have "a \<in> mem_range (BoxSmramBuffer b) (BoxLength b) \<longleftrightarrow> ?B \<le> unat a \<and> unat a < ?B + unat (BoxLength b)"
    using le by (intro mem_range_nat) simp
  then have a: "?B \<le> unat a" "unat a < (?B div PAGE + ?N) * PAGE" using assms(2) le by (auto simp: box_range_def)
  have "unat a div PAGE < ?B div PAGE + ?N" by (rule less_mult_imp_div_less [OF a(2)])
  moreover have "?B div PAGE \<le> unat a div PAGE" by (rule div_le_mono [OF a(1)])
  ultimately show ?thesis by (simp add: box_pages_def page_run_def)
qed

lemma box_range_disjoint:
  "box_ok b \<Longrightarrow> box_ok c \<Longrightarrow> box_pages b \<inter> box_pages c = {} \<Longrightarrow> box_range b \<inter> box_range c = {}"
  using box_range_pages by blast

lemma boxes_disjoint:
  assumes "lockbox_inv s" "i < length (mLockBoxQueue s)" "j < length (mLockBoxQueue s)" "i \<noteq> j"
  shows "box_range (mLockBoxQueue s ! i) \<inter> box_range (mLockBoxQueue s ! j) = {}"
proof -
  let ?q = "mLockBoxQueue s"
  have "box_pages (?q ! i) \<inter> box_pages (?q ! j) = {}"
    using assms unfolding lockbox_inv_def sorted_wrt_iff_nth_less by (metis Int_commute linorder_neqE_nat)
  then show ?thesis using assms by (intro box_range_disjoint) (auto simp: lockbox_inv_def)
qed

lemma LockBox_search_Some:
  "LockBox_search g q = Some i \<Longrightarrow> i < length q \<and> BoxGuid (q ! i) = g"
  by (induction q arbitrary: i) (auto split: if_splits)

lemma LockBox_search_None: "LockBox_search g q = None \<longleftrightarrow> g \<notin> BoxGuid ` set q"
  by (induction q) auto

lemma store_None: "store s g = None \<longleftrightarrow> LockBox_search g (mLockBoxQueue s) = None"
  by (simp add: store_def map_of_eq_None_iff LockBox_search_None image_image)

lemma store_nth:
  assumes "distinct (map BoxGuid (mLockBoxQueue s))" "i < length (mLockBoxQueue s)"
  shows "store s (BoxGuid (mLockBoxQueue s ! i)) = Some (box_value (Memory s) (mLockBoxQueue s ! i))"
  unfolding store_def by (rule map_of_is_SomeI) (use assms in \<open>auto simp: o_def\<close>)

lemma find_cases:
  assumes "lockbox_inv s"
  obtains "InternalFindLockBoxByGuid g s = Some None" "store s g = None"
  | i where "InternalFindLockBoxByGuid g s = Some (Some i)" "i < length (mLockBoxQueue s)"
      "BoxGuid (mLockBoxQueue s ! i) = g" "store s g = Some (box_value (Memory s) (mLockBoxQueue s ! i))"
proof -
  have q: "InternalGetLockBoxQueue s = Some (mLockBoxQueue s)"
    using assms by (auto simp: lockbox_inv_def InternalGetLockBoxQueue_def split: option.splits)
  show ?thesis
  proof (cases "LockBox_search g (mLockBoxQueue s)")
    case None
    then show ?thesis using that(1) q by (simp add: InternalFindLockBoxByGuid_def store_None)
  next
    case (Some i)
    then show ?thesis using that(2) [of i] q LockBox_search_Some [OF Some] store_nth [of s i] assms
      by (simp add: InternalFindLockBoxByGuid_def lockbox_inv_def)
  qed
qed

text \<open>A change of memory that leaves the bytes of the other boxes alone changes one entry of the store.\<close>

lemma store_update:
  assumes inv: "lockbox_inv s" and i: "i < length (mLockBoxQueue s)"
    and g: "map BoxGuid q' = map BoxGuid (mLockBoxQueue s)"
    and other: "\<And>j. j < length (mLockBoxQueue s) \<Longrightarrow> j \<noteq> i \<Longrightarrow>
      box_value (Memory s') (q' ! j) = box_value (Memory s) (mLockBoxQueue s ! j)"
    and q': "mLockBoxQueue s' = q'"
  shows "store s' = (store s)(BoxGuid (mLockBoxQueue s ! i) \<mapsto> box_value (Memory s') (q' ! i))"
proof
  fix g'
  let ?q = "mLockBoxQueue s"
  have d: "distinct (map BoxGuid ?q)" "distinct (map BoxGuid q')" using inv g by (simp_all add: lockbox_inv_def)
  have len: "length q' = length ?q" using g by (metis length_map)
  have gj: "BoxGuid (q' ! j) = BoxGuid (?q ! j)" if "j < length ?q" for j using g that len by (metis nth_map)
  show "store s' g' = ((store s)(BoxGuid (?q ! i) \<mapsto> box_value (Memory s') (q' ! i))) g'"
  proof (cases "g' \<in> BoxGuid ` set ?q")
    case True
    then obtain j where j: "j < length ?q" "g' = BoxGuid (?q ! j)" by (auto simp: in_set_conv_nth)
    have "store s' g' = Some (box_value (Memory s') (q' ! j))"
      using store_nth [of s' j] d(2) q' len j gj by simp
    moreover have "store s g' = Some (box_value (Memory s) (?q ! j))" using store_nth [OF d(1) j(1)] j(2) by simp
    moreover have "BoxGuid (?q ! j) = BoxGuid (?q ! i) \<longleftrightarrow> j = i"
      using d(1) i j(1) by (metis nth_eq_iff_index_eq length_map nth_map)
    ultimately show ?thesis using other [of j] j by auto
  next
    case False
    moreover have "BoxGuid ` set q' = BoxGuid ` set ?q" using g by (metis list.set_map)
    ultimately have "store s' g' = None" "store s g' = None" using q' by (simp_all add: store_None LockBox_search_None)
    moreover have "g' \<noteq> BoxGuid (?q ! i)" using False i by auto
    ultimately show ?thesis by simp
  qed
qed

section \<open>Saving\<close>

text \<open>Taking pages out of the allocator removes their granules from what the pool accounts for.\<close>

lemma alloc_pages_inv:
  assumes inv: "pool_inv P p live" and m': "wf_map m'" "wf_run a N" "page_run a N \<subseteq> free_pages (mSmmMemoryMap p)"
    "free_pages m' = free_pages (mSmmMemoryMap p) - page_run a N"
  shows "pool_inv (P - page_granules (page_run a N)) (p\<lparr>mSmmMemoryMap := m'\<rparr>) live"
    "page_granules (page_run a N) \<subseteq> P"
proof -
  let ?R = "page_granules (page_run a N)" and ?F = "page_granules (free_pages (mSmmMemoryMap p))"
  have own: "ind ?F g + occ (pool_blocks p) g + occ live g = ind P g" for g
    using inv by (simp add: pool_inv_def free_occ_def)
  have sub: "?R \<subseteq> ?F" by (rule page_granules_mono [OF m'(3)])
  show RP: "?R \<subseteq> P"
  proof
    fix g assume "g \<in> ?R"
    then have "ind ?F g = 1" using sub by (auto simp: ind_def)
    then show "g \<in> P" using own [of g] by (auto simp: ind_def split: if_splits)
  qed
  have "ind (page_granules (free_pages m')) g + occ (pool_blocks p) g + occ live g = ind (P - ?R) g" for g
    using own [of g] ind_diff [OF sub, of g] ind_diff [OF RP, of g] m'(4) by (simp add: page_granules_diff)
  moreover have "pool_wf (p\<lparr>mSmmMemoryMap := m'\<rparr>)" using inv m'(1) by (simp add: pool_inv_def pool_wf_def)
  ultimately show "pool_inv (P - ?R) (p\<lparr>mSmmMemoryMap := m'\<rparr>) live"
    using inv by (simp add: pool_inv_def free_occ_def held_block_def)
qed

lemma page_granules_disjoint_iff: "page_granules A \<inter> page_granules B = {} \<longleftrightarrow> A \<inter> B = {}"
proof
  assume *: "page_granules A \<inter> page_granules B = {}"
  have "\<not> (p \<in> A \<and> p \<in> B)" for p using * by (auto simp: page_granules_def disjoint_iff dest: spec [of _ "p * 64"])
  then show "A \<inter> B = {}" by blast
qed (auto simp: page_granules_def)

text \<open>Appending a box whose pages no other box has.\<close>

lemma append_box:
  fixes B :: UINT64
  assumes inv: "lockbox_inv s" and new: "store s (BoxGuid b) = None" and ok: "box_ok b"
    and dis: "\<And>c. c \<in> set (mLockBoxQueue s) \<Longrightarrow> box_pages c \<inter> box_pages b = {}"
    and pool: "pool_inv P p live" "\<And>c. c \<in> set (mLockBoxQueue s @ [b]) \<Longrightarrow> page_granules (box_pages c) \<inter> P = {}"
  defines "s' \<equiv> s\<lparr>gSmst := (gSmst s)\<lparr>Smram := p\<rparr>, Memory := CopyMem (BoxSmramBuffer b) B (BoxLength b) (Memory s),
      mLockBoxQueue := mLockBoxQueue s @ [b]\<rparr>"
  shows "lockbox_inv s'"
    and "store s' = (store s)(BoxGuid b \<mapsto> (mem_bytes B (BoxLength b) (Memory s), BoxAttributes b, BoxBuffer b))"
proof -
  have "\<exists>P live. pool_inv P (Smram (gSmst s')) live \<and> (\<forall>c\<in>set (mLockBoxQueue s'). page_granules (box_pages c) \<inter> P = {})"
    using pool by (intro exI [of _ P] exI [of _ live]) (auto simp: s'_def)
  then show "lockbox_inv s'"
    using inv ok dis new by (auto simp: s'_def lockbox_inv_def InternalGetSmmLockBoxContext_def sorted_wrt_append
             store_None LockBox_search_None)
  have keep: "box_value (CopyMem (BoxSmramBuffer b) B (BoxLength b) (Memory s)) c = box_value (Memory s) c"
    if c: "c \<in> set (mLockBoxQueue s)" for c
  proof -
    have "box_ok c" using inv c by (simp add: lockbox_inv_def)
    from box_range_disjoint [OF this ok dis [OF c]] show ?thesis
      by (simp add: box_value_def box_range_def mem_bytes_CopyMem_other)
  qed
  have "store s' = map_of (map (\<lambda>c. (BoxGuid c, box_value (Memory s) c)) (mLockBoxQueue s) @
     [(BoxGuid b, (mem_bytes B (BoxLength b) (Memory s), BoxAttributes b, BoxBuffer b))])"
    using keep by (simp add: s'_def store_def box_value_def mem_bytes_CopyMem cong: map_cong)
  also have "\<dots> = (store s)(BoxGuid b \<mapsto> (mem_bytes B (BoxLength b) (Memory s), BoxAttributes b, BoxBuffer b))"
    using new by (auto simp: store_def map_add_def fun_eq_iff split: option.splits)
  finally show "store s' = (store s)(BoxGuid b \<mapsto> (mem_bytes B (BoxLength b) (Memory s), BoxAttributes b, BoxBuffer b))" .
qed

lemma SaveLockBox_new:
  assumes inv: "lockbox_inv s" and B: "B \<noteq> 0" and L: "L \<noteq> 0" and new: "store s g = None"
  shows "SaveLockBox (Some g) B L s = Some (EFI_OUT_OF_RESOURCES, s) \<or>
    (\<exists>s'. SaveLockBox (Some g) B L s = Some (EFI_SUCCESS, s') \<and> lockbox_inv s' \<and>
       store s' = (store s)(g \<mapsto> (mem_bytes B L (Memory s), 0, B)))"
proof -
  let ?p = "Smram (gSmst s)" and ?N = "EFI_SIZE_TO_PAGES L"
  obtain P live where P: "pool_inv P ?p live" "\<And>b. b \<in> set (mLockBoxQueue s) \<Longrightarrow> page_granules (box_pages b) \<inter> P = {}"
    using inv by (auto simp: lockbox_inv_def)
  have wf: "wf_map (mSmmMemoryMap ?p)" using P(1) by (simp add: pool_inv_def pool_wf_def)
  have find: "InternalFindLockBoxByGuid g s = Some None"
    using find_cases [OF inv, of g] new by force
  have "0 < unat L" using L by (simp add: unat_gt_0)
  note N = SIZE_TO_PAGES_bounds [OF this]
  show ?thesis
  proof (rule AnyPages_cases [OF wf N(4,3), of EfiRuntimeServicesData 0])
    assume "SmmInternalAllocatePages AllocateAnyPages EfiRuntimeServicesData ?N 0 (mSmmMemoryMap ?p) =
      Some (EFI_OUT_OF_RESOURCES, - 1, mSmmMemoryMap ?p)"
    then show ?thesis using B L find by (simp add: SaveLockBox_def Let_def SmmAllocatePages_def)
  next
    fix a m'
    assume A: "SmmInternalAllocatePages AllocateAnyPages EfiRuntimeServicesData ?N 0 (mSmmMemoryMap ?p) = Some (EFI_SUCCESS, a, m')"
      "wf_map m'" "wf_run a ?N" "page_run a ?N \<subseteq> free_pages (mSmmMemoryMap ?p)"
      "free_pages m' = free_pages (mSmmMemoryMap ?p) - page_run a ?N"
    let ?p1 = "?p\<lparr>mSmmMemoryMap := m'\<rparr>" and ?P = "P - page_granules (page_run a ?N)"
    note ap = alloc_pages_inv [OF P(1) A(2-)]
    have sz: "unat sizeof_SMM_LOCK_BOX_DATA < 18446744073709551600" by (simp add: sizeof_SMM_LOCK_BOX_DATA_def)
    have pre: "SmmAllocatePages AllocateAnyPages EfiRuntimeServicesData ?N 0 (mSmmMemoryMap ?p) = Some (EFI_SUCCESS, a, m')"
      using A(1) by (simp add: SmmAllocatePages_def)
    from AllocatePool_cases [OF ap(1), of sizeof_SMM_LOCK_BOX_DATA EfiRuntimeServicesData] sz
    consider "SmmAllocatePool EfiRuntimeServicesData sizeof_SMM_LOCK_BOX_DATA ?p1 = Some (EFI_OUT_OF_RESOURCES, None, ?p1)"
      | c n p2 where "SmmAllocatePool EfiRuntimeServicesData sizeof_SMM_LOCK_BOX_DATA ?p1 = Some (EFI_SUCCESS, Some (c + 16), p2)"
         "pool_inv ?P p2 (add_mset (c, n) live)" by auto
    then show ?thesis
    proof cases
      case 1
      have "smm_release a ?N m' = Some (mSmmMemoryMap ?p)"
        using smm_pages.alloc_release [OF wf, of "(AllocateAnyPages, 0)" ?N a m'] pre N(4)
        by (simp add: smm_alloc_iff valid_request_def)
      then show ?thesis using B L find pre 1 by (simp add: SaveLockBox_def Let_def smm_release_iff)
    next
      case 2
      let ?b = "\<lparr>BoxSignature = SMM_LOCK_BOX_DATA_SIGNATURE, BoxGuid = g, BoxBuffer = B,
                        BoxLength = L, BoxAttributes = 0, BoxSmramBuffer = a\<rparr>"
      let ?s = "s\<lparr>gSmst := (gSmst s)\<lparr>Smram := p2\<rparr>, Memory := CopyMem a B L (Memory s), mLockBoxQueue := mLockBoxQueue s @ [?b]\<rparr>"
      have eq: "SaveLockBox (Some g) B L s = Some (EFI_SUCCESS, ?s)"
        using B L find pre 2(1) by (simp add: SaveLockBox_def Let_def)
      have ok: "box_ok ?b" "box_pages ?b = page_run a ?N" using L A(3) by (simp_all add: box_ok_def box_pages_def)
      have dis: "box_pages b \<inter> box_pages ?b = {}" if "b \<in> set (mLockBoxQueue s)" for b
        using P(2) [OF that] ap(2) ok(2) by (subst page_granules_disjoint_iff [symmetric]) auto
      have out: "page_granules (box_pages c) \<inter> ?P = {}" if "c \<in> set (mLockBoxQueue s @ [?b])" for c
        using that P(2) ok(2) by auto
      have nb: "store s (BoxGuid ?b) = None" using new by simp
      have "lockbox_inv ?s" "store ?s = (store s)(g \<mapsto> (mem_bytes B L (Memory s), 0, B))"
        using append_box [OF inv nb ok(1) dis 2(2) out, of B] by simp_all
      then show ?thesis using eq by blast
    qed
  qed simp
qed

section \<open>Updating and restoring\<close>

definition splice :: "nat \<Rightarrow> 'a list \<Rightarrow> 'a list \<Rightarrow> 'a list" where
  "splice off new xs = take off xs @ new @ drop (off + length new) xs"

lemma mem_range_sub:
  assumes "unat off + unat n \<le> unat l"
  shows "mem_range (b + off) n \<subseteq> mem_range b l"
proof
  fix a assume "a \<in> mem_range (b + off) n"
  then have lt: "unat (a - b - off) < unat n" by (simp add: mem_range_def word_less_nat_alt diff_diff_eq)
  have "a - b = (a - b - off) + off" by simp
  moreover have "unat ((a - b - off) + off) = unat (a - b - off) + unat off"
    using lt assms unat_bound64 [of l] by (intro unat_add_noov) linarith
  ultimately show "a \<in> mem_range b l" using lt assms by (simp add: mem_range_def word_less_nat_alt)
qed

lemma mem_bytes_splice:
  assumes "unat off + unat n \<le> unat l"
  shows "mem_bytes b l (CopyMem (b + off) src n m) = splice (unat off) (mem_bytes src n m) (mem_bytes b l m)"
proof (rule nth_equalityI)
  show "length (mem_bytes b l (CopyMem (b + off) src n m)) =
    length (splice (unat off) (mem_bytes src n m) (mem_bytes b l m))" using assms by (simp add: splice_def)
next
  fix i assume "i < length (mem_bytes b l (CopyMem (b + off) src n m))"
  then have i: "i < unat l" by simp
  have ui: "unat (of_nat i :: UINT64) = i" using i unat_bound64 [of l] by (intro unat_of_nat64) linarith
  have e: "b + of_nat i - (b + off) = of_nat i - off" by simp
  have L: "mem_bytes b l (CopyMem (b + off) src n m) ! i =
    (if (of_nat i :: UINT64) - off < n then m (src + (of_nat i - off)) else m (b + of_nat i))"
    using i by (simp add: mem_bytes_def CopyMem_def e)
  have R: "splice (unat off) (mem_bytes src n m) (mem_bytes b l m) ! i =
    (if i < unat off then m (b + of_nat i) else if i < unat off + unat n then m (src + of_nat (i - unat off)) else m (b + of_nat i))"
    using i assms by (auto simp: splice_def nth_append mem_bytes_def)
  show "mem_bytes b l (CopyMem (b + off) src n m) ! i = splice (unat off) (mem_bytes src n m) (mem_bytes b l m) ! i"
  proof (cases "unat off \<le> i")
    case True
    then have u: "unat ((of_nat i :: UINT64) - off) = i - unat off" using ui by (simp add: unat_sub_noov)
    then have "(of_nat i :: UINT64) - off = of_nat (i - unat off)" by (metis of_nat_unat ucast_id)
    then show ?thesis unfolding L R using True u by (auto simp: word_less_nat_alt)
  next
    case False
    then have "unat ((of_nat i :: UINT64) - off) = 18446744073709551616 + i - unat off"
      using ui by (simp add: unat_sub_if' word_le_nat_alt)
    then have "\<not> (of_nat i :: UINT64) - off < n"
      unfolding word_less_nat_alt using assms unat_bound64 [of l] by linarith
    then show ?thesis unfolding L R using False by simp
  qed
qed

lemma UpdateLockBox_found:
  assumes inv: "lockbox_inv s" and B: "B \<noteq> 0" and L: "L \<noteq> 0" and nov: "unat Off + unat L < 18446744073709551616"
    and g: "store s g = Some (bs, attr, org)"
  shows "UpdateLockBox (Some g) Off B L s =
     (if length bs < unat Off + unat L then Some (EFI_BUFFER_TOO_SMALL, s)
      else Some (EFI_SUCCESS, snd (the (UpdateLockBox (Some g) Off B L s)))) \<and>
    (unat Off + unat L \<le> length bs \<longrightarrow>
      lockbox_inv (snd (the (UpdateLockBox (Some g) Off B L s))) \<and>
      store (snd (the (UpdateLockBox (Some g) Off B L s))) =
        (store s)(g \<mapsto> (splice (unat Off) (mem_bytes B L (Memory s)) bs, attr, org)))"
proof -
  obtain i where i: "InternalFindLockBoxByGuid g s = Some (Some i)" "i < length (mLockBoxQueue s)"
      "BoxGuid (mLockBoxQueue s ! i) = g" "store s g = Some (box_value (Memory s) (mLockBoxQueue s ! i))"
    using find_cases [OF inv, of g] g by force
  let ?b = "mLockBoxQueue s ! i"
  have bs: "bs = mem_bytes (BoxSmramBuffer ?b) (BoxLength ?b) (Memory s)" "attr = BoxAttributes ?b" "org = BoxBuffer ?b"
    using g i(4) by (simp_all add: box_value_def)
  have guard: "BoxLength ?b < Off + L \<longleftrightarrow> length bs < unat Off + unat L"
    using nov bs(1) by (simp add: word_less_nat_alt unat_add_noov)
  let ?s = "s\<lparr>Memory := CopyMem (BoxSmramBuffer ?b + Off) B L (Memory s)\<rparr>"
  have eq: "UpdateLockBox (Some g) Off B L s = (if length bs < unat Off + unat L then Some (EFI_BUFFER_TOO_SMALL, s) else Some (EFI_SUCCESS, ?s))"
    using B L i(1) guard by (simp add: UpdateLockBox_def Let_def)
  have "lockbox_inv ?s" using inv by (simp add: lockbox_inv_def InternalGetSmmLockBoxContext_def)
  moreover have "store ?s = (store s)(g \<mapsto> (splice (unat Off) (mem_bytes B L (Memory s)) bs, attr, org))"
    if le: "unat Off + unat L \<le> length bs"
  proof -
    have fit: "unat Off + unat L \<le> unat (BoxLength ?b)" using le bs(1) by simp
    have "store ?s = (store s)(BoxGuid ?b \<mapsto> box_value (Memory ?s) ?b)"
    proof (rule store_update [OF inv i(2) refl])
      fix j assume "j < length (mLockBoxQueue s)" "j \<noteq> i"
      then have "box_range (mLockBoxQueue s ! j) \<inter> box_range ?b = {}" using boxes_disjoint [OF inv] i(2) by blast
      then have "mem_range (BoxSmramBuffer (mLockBoxQueue s ! j)) (BoxLength (mLockBoxQueue s ! j)) \<inter> mem_range (BoxSmramBuffer ?b + Off) L = {}"
        using mem_range_sub [OF fit] by (auto simp: box_range_def)
      then show "box_value (Memory ?s) (mLockBoxQueue s ! j) = box_value (Memory s) (mLockBoxQueue s ! j)"
        by (simp add: box_value_def mem_bytes_CopyMem_other)
    qed simp
    then show ?thesis using i(3) bs mem_bytes_splice [OF fit] by (simp add: box_value_def)
  qed
  ultimately show ?thesis using eq by auto
qed

text \<open>Writing outside every box keeps the store.\<close>

lemma store_outside:
  assumes "\<And>b. b \<in> set (mLockBoxQueue s) \<Longrightarrow> box_range b \<inter> mem_range dst len = {}"
  shows "store (s\<lparr>Memory := CopyMem dst src len (Memory s)\<rparr>) = store s"
  using assms by (auto simp: store_def box_value_def box_range_def mem_bytes_CopyMem_other cong: map_cong)

lemma RestoreLockBox_found:
  assumes inv: "lockbox_inv s" and g: "store s g = Some (bs, attr, org)"
  shows "\<exists>src n. unat n = length bs \<and> mem_bytes src n (Memory s) = bs \<and>
    (B \<noteq> 0 \<longrightarrow> RestoreLockBox (Some g) B (Some l) s =
       (if unat l < length bs then Some (EFI_BUFFER_TOO_SMALL, Some n, s)
        else Some (EFI_SUCCESS, Some n, s\<lparr>Memory := CopyMem B src n (Memory s)\<rparr>))) \<and>
    RestoreLockBox (Some g) 0 None s =
       (if attr AND LOCK_BOX_ATTRIBUTE_RESTORE_IN_PLACE = 0 then Some (EFI_WRITE_PROTECTED, None, s)
        else Some (EFI_SUCCESS, None, s\<lparr>Memory := CopyMem org src n (Memory s)\<rparr>))"
proof -
  obtain i where i: "InternalFindLockBoxByGuid g s = Some (Some i)" 
     "store s g = Some (box_value (Memory s) (mLockBoxQueue s ! i))"
    using find_cases [OF inv, of g] g by force
  let ?b = "mLockBoxQueue s ! i"
  have bs: "bs = mem_bytes (BoxSmramBuffer ?b) (BoxLength ?b) (Memory s)" "attr = BoxAttributes ?b" "org = BoxBuffer ?b"
    using g i(2) by (simp_all add: box_value_def)
  show ?thesis using i(1) bs
    by (intro exI [of _ "BoxSmramBuffer ?b"] exI [of _ "BoxLength ?b"])
      (auto simp: RestoreLockBox_def Let_def word_less_nat_alt)
qed

lemma RestoreAll_loop_frame:
  assumes "\<And>b. b \<in> set q \<Longrightarrow> BoxAttributes b AND LOCK_BOX_ATTRIBUTE_RESTORE_IN_PLACE \<noteq> 0 \<Longrightarrow>
    R \<inter> mem_range (BoxBuffer b) (BoxLength b) = {}" and "a \<in> R"
  shows "RestoreAll_loop q m a = m a"
  using assms(1)
proof (induction q arbitrary: m)
  case (Cons b q)
  then show ?case using assms(2) by (auto simp: CopyMem_outside disjoint_iff)
qed simp

lemma mem_bytes_frame: "(\<And>a. a \<in> mem_range b l \<Longrightarrow> m' a = m a) \<Longrightarrow> mem_bytes b l m' = mem_bytes b l m"
  using offset_in_mem_range [of _ l b] by (auto simp: mem_bytes_def)

text \<open>The destinations of the boxes to restore are apart from each other and from every box.\<close>

definition restorable :: "SMM_LOCK_BOX_DATA list \<Rightarrow> bool" where
  "restorable q \<longleftrightarrow>
    sorted_wrt (\<lambda>b c. mem_range (BoxBuffer b) (BoxLength b) \<inter> mem_range (BoxBuffer c) (BoxLength c) = {}) q \<and>
    (\<forall>b \<in> set q. \<forall>c \<in> set q. box_range b \<inter> mem_range (BoxBuffer c) (BoxLength c) = {})"

lemma RestoreAll_loop_restores:
  assumes "restorable q" "b \<in> set q" "BoxAttributes b AND LOCK_BOX_ATTRIBUTE_RESTORE_IN_PLACE \<noteq> 0"
  shows "mem_bytes (BoxBuffer b) (BoxLength b) (RestoreAll_loop q m) = mem_bytes (BoxSmramBuffer b) (BoxLength b) m"
  using assms(1,2)
proof (induction q arbitrary: m)
  case (Cons c q)
  let ?m = "if BoxAttributes c AND LOCK_BOX_ATTRIBUTE_RESTORE_IN_PLACE \<noteq> 0
     then CopyMem (BoxBuffer c) (BoxSmramBuffer c) (BoxLength c) m else m"
  have rq: "restorable q" using Cons.prems(1) by (auto simp: restorable_def)
  show ?case
  proof (cases "b \<in> set q")
    case True
    have "mem_range (BoxSmramBuffer b) (BoxLength b) \<inter> mem_range (BoxBuffer c) (BoxLength c) = {}"
      using Cons.prems(1) True by (auto simp: restorable_def box_range_def)
    then have "mem_bytes (BoxSmramBuffer b) (BoxLength b) ?m = mem_bytes (BoxSmramBuffer b) (BoxLength b) m"
      by (simp add: mem_bytes_CopyMem_other)
    then show ?thesis using Cons.IH [OF rq True, of ?m] by simp
  next
    case False
    then have bc: "b = c" using Cons.prems(2) by simp
    have "RestoreAll_loop q ?m a = ?m a" if "a \<in> mem_range (BoxBuffer b) (BoxLength b)" for a
      by (rule RestoreAll_loop_frame [OF _ that]) (use Cons.prems(1) bc in \<open>auto simp: restorable_def\<close>)
    then have "mem_bytes (BoxBuffer b) (BoxLength b) (RestoreAll_loop q ?m) = mem_bytes (BoxBuffer b) (BoxLength b) ?m"
      by (rule mem_bytes_frame)
    also have "\<dots> = mem_bytes (BoxSmramBuffer b) (BoxLength b) m"
      using bc assms(3) by (simp add: mem_bytes_CopyMem)
    finally show ?thesis by simp
  qed
qed simp

section \<open>Properties\<close>

text \<open>A state with one box of sixteen bytes, for the witnesses.\<close>

definition sample_box :: SMM_LOCK_BOX_DATA where
  "sample_box = \<lparr>BoxSignature = SMM_LOCK_BOX_DATA_SIGNATURE, BoxGuid = 5, BoxBuffer = 0x2000, BoxLength = 16,
     BoxAttributes = 1, BoxSmramBuffer = 0x20000\<rparr>"

definition sample_lockbox :: lockbox_state where
  "sample_lockbox = \<lparr>gSmst = sample_smst\<lparr>ConfigEntries := [(gEfiSmmLockBoxCommunicationGuid, 0x3000)]\<rparr>,
     Memory = (\<lambda>a. ucast a), mSmmLockBoxContext = \<lparr>ContextSignature = SMM_LOCK_BOX_SIGNATURE_64,
     LockBoxDataAddress = 0x3100\<rparr>, mLockBoxQueue = [sample_box]\<rparr>"

lemma sample_box_pages: "box_pages sample_box = {32}" "box_ok sample_box"
proof -
  have "EFI_SIZE_TO_PAGES 16 = 1" by (simp add: EFI_SIZE_TO_PAGES_def EFI_PAGE_MASK_def)
  then show "box_pages sample_box = {32}" "box_ok sample_box"
    by (auto simp: box_pages_def sample_box_def page_run_def box_ok_def wf_run_def)
qed

lemma sample_lockbox_inv: "lockbox_inv sample_lockbox"
proof -
  have "page_granules {32} \<inter> page_granules {16} = {}" by (simp add: page_granules_disjoint_iff)
  then show ?thesis
    using sample_pool_inv sample_box_pages
    by (auto simp: lockbox_inv_def sample_lockbox_def InternalGetSmmLockBoxContext_def sample_smst_def)
qed

lemma sample_store: "store sample_lockbox 5 = Some (mem_bytes 0x20000 16 (\<lambda>a. ucast a), 1, 0x2000)"
  "store sample_lockbox 6 = None"
  by (simp_all add: store_def sample_lockbox_def sample_box_def box_value_def)

text \<open>C1. \<^verbatim>\<open>SaveLockBox\<close> refines insertion into the abstract store: a GUID that is present is refused with
  \<^verbatim>\<open>EFI_ALREADY_STARTED\<close>; otherwise the call either fails with \<^verbatim>\<open>EFI_OUT_OF_RESOURCES\<close> and leaves the whole
  state as it was (the pages are given back when the pool is exhausted), or adds exactly the saved
  bytes under the GUID with every other box unchanged.\<close>

theorem SaveLockBox_refines:
  assumes "lockbox_inv s" and "Buffer \<noteq> 0" and "Length \<noteq> 0"
  shows "if store s g \<noteq> None then SaveLockBox (Some g) Buffer Length s = Some (EFI_ALREADY_STARTED, s)
    else SaveLockBox (Some g) Buffer Length s = Some (EFI_OUT_OF_RESOURCES, s) \<or>
      (\<exists>s'. SaveLockBox (Some g) Buffer Length s = Some (EFI_SUCCESS, s') \<and> lockbox_inv s' \<and>
         store s' = (store s)(g \<mapsto> (mem_bytes Buffer Length (Memory s), 0, Buffer)))"
proof (cases "store s g")
  case None
  then show ?thesis using SaveLockBox_new [OF assms None] by simp
next
  case (Some v)
  then have "\<exists>i. InternalFindLockBoxByGuid g s = Some (Some i)"
    by (rule_tac find_cases [OF assms(1), of g]) auto
  then show ?thesis using Some assms(2,3) by (auto simp: SaveLockBox_def)
qed

theorem SaveLockBox_refines_witness:
  "SaveLockBox (Some 6) 0x4000 100 sample_lockbox = Some (EFI_OUT_OF_RESOURCES, sample_lockbox) \<or>
      (\<exists>s'. SaveLockBox (Some 6) 0x4000 100 sample_lockbox = Some (EFI_SUCCESS, s') \<and> lockbox_inv s' \<and>
         store s' = (store sample_lockbox)(6 \<mapsto> (mem_bytes 0x4000 100 (Memory sample_lockbox), 0, 0x4000)))"
  using SaveLockBox_refines [OF sample_lockbox_inv, of "0x4000" 100 6] by (simp add: sample_store)





text \<open>\<^verbatim>\<open>RestoreAllLockBoxInPlace\<close>: when the original buffers are apart from each other and from the boxes,
  every box with the restore-in-place attribute has its saved bytes back at the original address,
  in whatever order the queue is walked.\<close>

theorem RestoreAll_restores_every_box:
  assumes "lockbox_inv s" and "restorable (mLockBoxQueue s)"
  shows "\<exists>m'. RestoreAllLockBoxInPlace s = Some (EFI_SUCCESS, s\<lparr>Memory := m'\<rparr>) \<and>
    (\<forall>b \<in> set (mLockBoxQueue s). BoxAttributes b AND LOCK_BOX_ATTRIBUTE_RESTORE_IN_PLACE \<noteq> 0 \<longrightarrow>
       mem_bytes (BoxBuffer b) (BoxLength b) m' = mem_bytes (BoxSmramBuffer b) (BoxLength b) (Memory s))"
proof -
  have "InternalGetLockBoxQueue s = Some (mLockBoxQueue s)"
    using assms(1) by (auto simp: lockbox_inv_def InternalGetLockBoxQueue_def split: option.splits)
  then show ?thesis using RestoreAll_loop_restores [OF assms(2)]
    by (intro exI [of _ "RestoreAll_loop (mLockBoxQueue s) (Memory s)"]) (simp add: RestoreAllLockBoxInPlace_def)
qed

theorem RestoreAll_restores_every_box_witness:
  "\<exists>m'. RestoreAllLockBoxInPlace sample_lockbox = Some (EFI_SUCCESS, sample_lockbox\<lparr>Memory := m'\<rparr>) \<and>
     mem_bytes 0x2000 16 m' = mem_bytes 0x20000 16 (\<lambda>a. ucast a)"
proof -
  have "a \<notin> mem_range 0x20000 16 \<or> a \<notin> mem_range 0x2000 16" for a :: UINT64
    by (subst mem_range_nat, simp)+ auto
  then have "restorable (mLockBoxQueue sample_lockbox)"
    by (auto simp: restorable_def sample_lockbox_def sample_box_def box_range_def)
  from RestoreAll_restores_every_box [OF sample_lockbox_inv this] show ?thesis
    by (auto simp: sample_lockbox_def sample_box_def LOCK_BOX_ATTRIBUTE_RESTORE_IN_PLACE_def)
qed

text \<open>The bound check of \<^verbatim>\<open>UpdateLockBox\<close> adds \<open>Offset\<close> and \<open>Length\<close> modulo \<open>2 ^ 64\<close>: an offset near the top of the
  address space passes it, and the update writes below the SMRAM buffer of the box.\<close>

theorem UpdateLockBox_offset_wrap:
  "\<exists>s'. UpdateLockBox (Some 5) (- 8) 0x4000 8 sample_lockbox = Some (EFI_SUCCESS, s') \<and>
     Memory s' = CopyMem 0x1FFF8 0x4000 8 (Memory sample_lockbox)"
  by (simp add: UpdateLockBox_def InternalFindLockBoxByGuid_def InternalGetLockBoxQueue_def
      InternalGetSmmLockBoxContext_def sample_lockbox_def sample_smst_def sample_box_def Let_def)

end
