(* ===== verification/SmmLockBox.thy ===== *)
theory SmmLockBox
  imports LockBox
begin

text \<open>
  The SMI handler of the lock box driver, \<^verbatim>\<open>MdeModulePkg/Universal/LockBox/SmmLockBox/SmmLockBox.c\<close>: the
  entry through which code outside SMM reaches the lock boxes.

  The communication buffer is kept as a record of its fields, the union of the parameter structures
  of \<^verbatim>\<open>Guid/SmmLockBox.h\<close>; it is read and written field by field.  \<open>ReturnStatus\<close> is \<open>None\<close> for the value
  \<^verbatim>\<open>(UINT64)-1\<close>.  The registration of the handler in the entry point is not modelled.

  The lemmas show that the driver state stays in order under every request, and that once the
  ready-to-lock notification has arrived no request changes a lock box or any byte of SMRAM.
\<close>

section \<open>Data\<close>

definition EFI_SMM_LOCK_BOX_COMMAND_SAVE :: UINT32 where "EFI_SMM_LOCK_BOX_COMMAND_SAVE = 0x1"
definition EFI_SMM_LOCK_BOX_COMMAND_UPDATE :: UINT32 where "EFI_SMM_LOCK_BOX_COMMAND_UPDATE = 0x2"
definition EFI_SMM_LOCK_BOX_COMMAND_RESTORE :: UINT32 where "EFI_SMM_LOCK_BOX_COMMAND_RESTORE = 0x3"
definition EFI_SMM_LOCK_BOX_COMMAND_SET_ATTRIBUTES :: UINT32 where
  "EFI_SMM_LOCK_BOX_COMMAND_SET_ATTRIBUTES = 0x4"
definition EFI_SMM_LOCK_BOX_COMMAND_RESTORE_ALL_IN_PLACE :: UINT32 where
  "EFI_SMM_LOCK_BOX_COMMAND_RESTORE_ALL_IN_PLACE = 0x5"

definition sizeof_PARAMETER_HEADER :: UINTN where "sizeof_PARAMETER_HEADER = 16"
definition sizeof_PARAMETER_SAVE :: UINTN where "sizeof_PARAMETER_SAVE = 48"
definition sizeof_PARAMETER_UPDATE :: UINTN where "sizeof_PARAMETER_UPDATE = 56"
definition sizeof_PARAMETER_RESTORE :: UINTN where "sizeof_PARAMETER_RESTORE = 48"
definition sizeof_PARAMETER_SET_ATTRIBUTES :: UINTN where "sizeof_PARAMETER_SET_ATTRIBUTES = 40"
definition sizeof_PARAMETER_RESTORE_ALL_IN_PLACE :: UINTN where "sizeof_PARAMETER_RESTORE_ALL_IN_PLACE = 16"

record lockbox_parameter =
  Command :: UINT32
  DataLength :: UINT32
  ReturnStatus :: "EFI_STATUS option"
  ParamGuid :: EFI_GUID
  ParamOffset :: UINT64
  ParamBuffer :: UINT64
  ParamLength :: UINT64
  ParamAttributes :: UINT64

record lockbox_driver =
  Lib :: lockbox_state
  MemLib :: smm_mem_lib
  mLocked :: bool

section \<open>Commands\<close>

definition SmmLockBoxSave ::
  "lockbox_parameter \<Rightarrow> lockbox_driver \<Rightarrow> (lockbox_parameter \<times> lockbox_driver) option" where
  "SmmLockBoxSave p d =
    (if mLocked d then Some (p\<lparr>ReturnStatus := Some EFI_ACCESS_DENIED\<rparr>, d)
     else if \<not> SmmIsBufferOutsideSmmValid (MemLib d) (ParamBuffer p) (ParamLength p)
     then Some (p\<lparr>ReturnStatus := Some EFI_ACCESS_DENIED\<rparr>, d)
     else map_option (\<lambda>(Status, l). (p\<lparr>ReturnStatus := Some Status\<rparr>, d\<lparr>Lib := l\<rparr>))
       (SaveLockBox (Some (ParamGuid p)) (ParamBuffer p) (ParamLength p) (Lib d)))"

definition SmmLockBoxSetAttributes ::
  "lockbox_parameter \<Rightarrow> lockbox_driver \<Rightarrow> (lockbox_parameter \<times> lockbox_driver) option" where
  "SmmLockBoxSetAttributes p d =
    (if mLocked d then Some (p\<lparr>ReturnStatus := Some EFI_ACCESS_DENIED\<rparr>, d)
     else map_option (\<lambda>(Status, l). (p\<lparr>ReturnStatus := Some Status\<rparr>, d\<lparr>Lib := l\<rparr>))
       (SetLockBoxAttributes (Some (ParamGuid p)) (ParamAttributes p) (Lib d)))"

definition SmmLockBoxUpdate ::
  "lockbox_parameter \<Rightarrow> lockbox_driver \<Rightarrow> (lockbox_parameter \<times> lockbox_driver) option" where
  "SmmLockBoxUpdate p d =
    (if mLocked d then Some (p\<lparr>ReturnStatus := Some EFI_ACCESS_DENIED\<rparr>, d)
     else if \<not> SmmIsBufferOutsideSmmValid (MemLib d) (ParamBuffer p) (ParamLength p)
     then Some (p\<lparr>ReturnStatus := Some EFI_ACCESS_DENIED\<rparr>, d)
     else map_option (\<lambda>(Status, l). (p\<lparr>ReturnStatus := Some Status\<rparr>, d\<lparr>Lib := l\<rparr>))
       (UpdateLockBox (Some (ParamGuid p)) (ParamOffset p) (ParamBuffer p) (ParamLength p) (Lib d)))"

text \<open>The length that \<^verbatim>\<open>RestoreLockBox\<close> returns goes to the temporary copy and is dropped with it.\<close>

definition SmmLockBoxRestore ::
  "lockbox_parameter \<Rightarrow> lockbox_driver \<Rightarrow> (lockbox_parameter \<times> lockbox_driver) option" where
  "SmmLockBoxRestore p d =
    (if \<not> SmmIsBufferOutsideSmmValid (MemLib d) (ParamBuffer p) (ParamLength p)
     then Some (p\<lparr>ReturnStatus := Some EFI_ACCESS_DENIED\<rparr>, d)
     else map_option (\<lambda>(Status, n, l). (p\<lparr>ReturnStatus := Some Status\<rparr>, d\<lparr>Lib := l\<rparr>))
       (if ParamLength p = 0 \<and> ParamBuffer p = 0
        then RestoreLockBox (Some (ParamGuid p)) 0 None (Lib d)
        else RestoreLockBox (Some (ParamGuid p)) (ParamBuffer p) (Some (ParamLength p)) (Lib d)))"

definition SmmLockBoxRestoreAllInPlace ::
  "lockbox_parameter \<Rightarrow> lockbox_driver \<Rightarrow> (lockbox_parameter \<times> lockbox_driver) option" where
  "SmmLockBoxRestoreAllInPlace p d =
    map_option (\<lambda>(Status, l). (p\<lparr>ReturnStatus := Some Status\<rparr>, d\<lparr>Lib := l\<rparr>))
      (RestoreAllLockBoxInPlace (Lib d))"

section \<open>Dispatch\<close>

definition SmmLockBox_dispatch ::
  "UINTN \<Rightarrow> lockbox_parameter \<Rightarrow> lockbox_driver \<Rightarrow> (lockbox_parameter \<times> lockbox_driver) option" where
  "SmmLockBox_dispatch n p d =
    (if Command p = EFI_SMM_LOCK_BOX_COMMAND_SAVE then
       if n < sizeof_PARAMETER_SAVE then Some (p, d) else SmmLockBoxSave p d
     else if Command p = EFI_SMM_LOCK_BOX_COMMAND_UPDATE then
       if n < sizeof_PARAMETER_UPDATE then Some (p, d) else SmmLockBoxUpdate p d
     else if Command p = EFI_SMM_LOCK_BOX_COMMAND_RESTORE then
       if n < sizeof_PARAMETER_RESTORE then Some (p, d) else SmmLockBoxRestore p d
     else if Command p = EFI_SMM_LOCK_BOX_COMMAND_SET_ATTRIBUTES then
       if n < sizeof_PARAMETER_SET_ATTRIBUTES then Some (p, d) else SmmLockBoxSetAttributes p d
     else if Command p = EFI_SMM_LOCK_BOX_COMMAND_RESTORE_ALL_IN_PLACE then
       if n < sizeof_PARAMETER_RESTORE_ALL_IN_PLACE then Some (p, d) else SmmLockBoxRestoreAllInPlace p d
     else Some (p, d))"

text \<open>\<open>CommBuffer\<close> is its address (\<open>0\<close> for NULL), \<open>p\<close> its contents; \<open>None\<close> for a NULL size pointer.\<close>

definition SmmLockBoxHandler ::
  "UINTN \<Rightarrow> UINTN option \<Rightarrow> lockbox_parameter \<Rightarrow> lockbox_driver
    \<Rightarrow> (EFI_STATUS \<times> lockbox_parameter \<times> lockbox_driver) option" where
  "SmmLockBoxHandler CommBuffer CommBufferSize p d =
    (case CommBufferSize of
       None \<Rightarrow> Some (EFI_SUCCESS, p, d)
     | Some n \<Rightarrow>
       if CommBuffer = 0 then Some (EFI_SUCCESS, p, d)
       else if n < sizeof_PARAMETER_HEADER then Some (EFI_SUCCESS, p, d)
       else if \<not> SmmIsBufferOutsideSmmValid (MemLib d) CommBuffer n then Some (EFI_SUCCESS, p, d)
       else map_option (\<lambda>(p', d'). (EFI_SUCCESS, p'\<lparr>Command := - 1\<rparr>, d'))
         (SmmLockBox_dispatch n (p\<lparr>ReturnStatus := None\<rparr>) d))"

definition SmmReadyToLockEventNotify :: "lockbox_driver \<Rightarrow> EFI_STATUS \<times> lockbox_driver" where
  "SmmReadyToLockEventNotify d = (EFI_SUCCESS, d\<lparr>mLocked := True\<rparr>)"

section \<open>What a request may change\<close>

text \<open>Boxes are saved from outside SMRAM and kept inside it.\<close>

definition driver_inv :: "lockbox_driver \<Rightarrow> bool" where
  "driver_inv d \<longleftrightarrow> lockbox_inv (Lib d) \<and> wf_ranges (MemLib d) \<and>
     (\<forall>b \<in> set (mLockBoxQueue (Lib d)). mem_range (BoxBuffer b) (BoxLength b) \<inter> smram (MemLib d) = {})"

text \<open>The effect of a restoring command: only memory outside SMRAM is written.\<close>

definition only_outside :: "lockbox_driver \<Rightarrow> lockbox_driver \<Rightarrow> bool" where
  "only_outside d d' \<longleftrightarrow> (\<exists>m'. d' = d\<lparr>Lib := (Lib d)\<lparr>Memory := m'\<rparr>\<rparr> \<and>
     (\<forall>a \<in> smram (MemLib d). m' a = Memory (Lib d) a))"

lemma only_outside_refl: "only_outside d d"
  unfolding only_outside_def by (intro exI [of _ "Memory (Lib d)"]) simp

lemma only_outside_copy:
  assumes "mem_range dst n \<inter> smram (MemLib d) = {}"
  shows "only_outside d (d\<lparr>Lib := (Lib d)\<lparr>Memory := CopyMem dst src n (Memory (Lib d))\<rparr>\<rparr>)"
  unfolding only_outside_def using assms
  by (intro exI [of _ "CopyMem dst src n (Memory (Lib d))"]) (simp, use CopyMem_outside in blast)

lemma mem_range_shorter: "unat n \<le> unat l \<Longrightarrow> mem_range b n \<subseteq> mem_range b l"
  by (auto simp: mem_range_def word_less_nat_alt)

lemma queue_origin_outside:
  assumes "driver_inv d" "store (Lib d) g = Some (bs, attr, org)" "unat n = length bs"
  shows "mem_range org n \<inter> smram (MemLib d) = {}"
proof -
  have inv: "lockbox_inv (Lib d)" using assms(1) by (simp add: driver_inv_def)
  obtain i where i: "i < length (mLockBoxQueue (Lib d))"
    "store (Lib d) g = Some (box_value (Memory (Lib d)) (mLockBoxQueue (Lib d) ! i))"
    by (rule find_cases [OF inv, of g]) (use assms(2) in auto)
  then have "org = BoxBuffer (mLockBoxQueue (Lib d) ! i)" "n = BoxLength (mLockBoxQueue (Lib d) ! i)"
    using assms(2,3) by (auto simp: box_value_def word_unat_eq_iff)
  then show ?thesis using assms(1) i(1) by (auto simp: driver_inv_def)
qed

lemma RestoreLockBox_absent:
  assumes "lockbox_inv s" "store s g = None"
  shows "\<exists>st. RestoreLockBox (Some g) B l s = Some (st, l, s)"
  by (rule find_cases [OF assms(1), of g]) (use assms(2) in \<open>auto simp: RestoreLockBox_def\<close>)

lemma Restore_outside:
  assumes inv: "driver_inv d"
  shows "\<exists>p' d'. SmmLockBoxRestore p d = Some (p', d') \<and> only_outside d d'"
proof -
  let ?g = "ParamGuid p" and ?B = "ParamBuffer p" and ?L = "ParamLength p"
  have lb: "lockbox_inv (Lib d)" and wr: "wf_ranges (MemLib d)" using inv by (auto simp: driver_inv_def)
  show ?thesis
  proof (cases "SmmIsBufferOutsideSmmValid (MemLib d) ?B ?L")
    case False
    then show ?thesis using only_outside_refl by (simp add: SmmLockBoxRestore_def)
  next
    case valid: True
    note out = outside_disjoint [OF wr valid]
    show ?thesis
    proof (cases "store (Lib d) ?g")
      case None
      then show ?thesis using RestoreLockBox_absent [OF lb None] valid only_outside_refl [of d]
        by (cases "?L = 0 \<and> ?B = 0") (fastforce simp: SmmLockBoxRestore_def)+
    next
      case (Some v)
      obtain bs attr org where v: "v = (bs, attr, org)" by (cases v) auto
      obtain src n where r: "unat n = length bs"
        "?B \<noteq> 0 \<longrightarrow> RestoreLockBox (Some ?g) ?B (Some ?L) (Lib d) =
           (if unat ?L < length bs then Some (EFI_BUFFER_TOO_SMALL, Some n, Lib d)
            else Some (EFI_SUCCESS, Some n, (Lib d)\<lparr>Memory := CopyMem ?B src n (Memory (Lib d))\<rparr>))"
        "RestoreLockBox (Some ?g) 0 None (Lib d) =
           (if attr AND LOCK_BOX_ATTRIBUTE_RESTORE_IN_PLACE = 0 then Some (EFI_WRITE_PROTECTED, None, Lib d)
            else Some (EFI_SUCCESS, None, (Lib d)\<lparr>Memory := CopyMem org src n (Memory (Lib d))\<rparr>))"
        using RestoreLockBox_found [OF lb Some [unfolded v], of ?B ?L] by blast
      have o1: "mem_range org n \<inter> smram (MemLib d) = {}"
        using queue_origin_outside [OF inv Some [unfolded v] r(1)] .
      have o2: "mem_range ?B n \<inter> smram (MemLib d) = {}" if "\<not> unat ?L < length bs"
        using that out mem_range_shorter [of n ?L ?B] r(1) by auto
      have inval: "RestoreLockBox (Some ?g) 0 (Some ?L) (Lib d) = Some (EFI_INVALID_PARAMETER, Some ?L, Lib d)"
        by (simp add: RestoreLockBox_def)
      show ?thesis
        using valid r(2,3) inval only_outside_refl [of d] only_outside_copy [OF o1, of src] only_outside_copy [OF o2, of src]
        by (cases "?B = 0"; cases "?L = 0") (auto simp: SmmLockBoxRestore_def)
    qed
  qed
qed

lemma RestoreAll_outside:
  assumes "driver_inv d"
  shows "\<exists>p' d'. SmmLockBoxRestoreAllInPlace p d = Some (p', d') \<and> only_outside d d'"
proof -
  let ?q = "mLockBoxQueue (Lib d)"
  have q: "InternalGetLockBoxQueue (Lib d) = Some ?q"
    using assms by (auto simp: driver_inv_def lockbox_inv_def InternalGetLockBoxQueue_def split: option.splits)
  have "RestoreAll_loop ?q (Memory (Lib d)) a = Memory (Lib d) a" if "a \<in> smram (MemLib d)" for a
    by (rule RestoreAll_loop_frame [OF _ that]) (use assms in \<open>auto simp: driver_inv_def\<close>)
  then show ?thesis using q unfolding only_outside_def
    by (auto simp: SmmLockBoxRestoreAllInPlace_def RestoreAllLockBoxInPlace_def)
qed

lemma dispatch_locked:
  assumes "driver_inv d" "mLocked d"
  shows "\<exists>p' d'. SmmLockBox_dispatch n p d = Some (p', d') \<and> only_outside d d'"
  using Restore_outside [OF assms(1), of p] RestoreAll_outside [OF assms(1), of p] only_outside_refl [of d] assms(2)
  by (auto simp: SmmLockBox_dispatch_def SmmLockBoxSave_def SmmLockBoxUpdate_def SmmLockBoxSetAttributes_def)

lemma SaveLockBox_queue:
  assumes "SaveLockBox (Some g) B L s = Some (EFI_SUCCESS, s')"
  shows "\<exists>b. mLockBoxQueue s' = mLockBoxQueue s @ [b] \<and> BoxBuffer b = B \<and> BoxLength b = L"
  using assms by (auto simp: SaveLockBox_def Let_def split: if_splits option.splits prod.splits)

lemma driver_inv_Memory [simp]: "driver_inv (d\<lparr>Lib := (Lib d)\<lparr>Memory := m\<rparr>\<rparr>) = driver_inv d"
  by (simp add: driver_inv_def lockbox_inv_def InternalGetSmmLockBoxContext_def)

lemma driver_inv_outside: "driver_inv d \<Longrightarrow> only_outside d d' \<Longrightarrow> driver_inv d'"
  by (metis driver_inv_Memory only_outside_def)

lemma Save_inv:
  assumes inv: "driver_inv d"
  shows "\<exists>p' d'. SmmLockBoxSave p d = Some (p', d') \<and> driver_inv d'"
proof (cases "mLocked d \<or> \<not> SmmIsBufferOutsideSmmValid (MemLib d) (ParamBuffer p) (ParamLength p)")
  case True
  then show ?thesis using inv by (auto simp: SmmLockBoxSave_def)
next
  case False
  let ?g = "ParamGuid p" and ?B = "ParamBuffer p" and ?L = "ParamLength p"
  have lb: "lockbox_inv (Lib d)" and wr: "wf_ranges (MemLib d)" using inv by (auto simp: driver_inv_def)
  have out: "mem_range ?B ?L \<inter> smram (MemLib d) = {}" using outside_disjoint [OF wr] False by blast
  have "\<exists>st l. SaveLockBox (Some ?g) ?B ?L (Lib d) = Some (st, l) \<and> driver_inv (d\<lparr>Lib := l\<rparr>)"
  proof (cases "?B = 0 \<or> ?L = 0 \<or> store (Lib d) ?g \<noteq> None")
    case True
    have "\<exists>st. SaveLockBox (Some ?g) ?B ?L (Lib d) = Some (st, Lib d)"
      by (rule find_cases [OF lb, of ?g]) (use True in \<open>auto simp: SaveLockBox_def\<close>)
    then show ?thesis using inv by auto
  next
    case False
    then consider "SaveLockBox (Some ?g) ?B ?L (Lib d) = Some (EFI_OUT_OF_RESOURCES, Lib d)"
      | l where "SaveLockBox (Some ?g) ?B ?L (Lib d) = Some (EFI_SUCCESS, l)" "lockbox_inv l"
      using SaveLockBox_new [OF lb, of ?B ?L ?g] by blast
    then show ?thesis
    proof cases
      case 2
      obtain b where "mLockBoxQueue l = mLockBoxQueue (Lib d) @ [b]" "BoxBuffer b = ?B" "BoxLength b = ?L"
        using SaveLockBox_queue [OF 2(1)] by blast
      then have "driver_inv (d\<lparr>Lib := l\<rparr>)" using 2(2) inv out wr by (simp add: driver_inv_def)
      then show ?thesis using 2(1) by blast
    qed (use inv in auto)
  qed
  then show ?thesis using False by (auto simp: SmmLockBoxSave_def)
qed

lemma Update_inv:
  assumes inv: "driver_inv d"
  shows "\<exists>p' d'. SmmLockBoxUpdate p d = Some (p', d') \<and> driver_inv d'"
proof -
  have lb: "lockbox_inv (Lib d)" using inv by (auto simp: driver_inv_def)
  have "\<exists>st m. UpdateLockBox (Some (ParamGuid p)) (ParamOffset p) (ParamBuffer p) (ParamLength p) (Lib d) =
      Some (st, (Lib d)\<lparr>Memory := m\<rparr>)"
    by (rule find_cases [OF lb, of "ParamGuid p"])
      (auto simp: UpdateLockBox_def Let_def intro: exI [of _ "Memory (Lib d)"])
  then show ?thesis using inv by (auto simp: SmmLockBoxUpdate_def)
qed

lemma SetAttributes_inv:
  assumes inv: "driver_inv d"
  shows "\<exists>p' d'. SmmLockBoxSetAttributes p d = Some (p', d') \<and> driver_inv d'"
proof -
  let ?q = "mLockBoxQueue (Lib d)"
  have lb: "lockbox_inv (Lib d)" using inv by (auto simp: driver_inv_def)
  have ok: "driver_inv (d\<lparr>Lib := (Lib d)\<lparr>mLockBoxQueue := ?q[i := (?q ! i)\<lparr>BoxAttributes := a\<rparr>]\<rparr>\<rparr>)"
    if i: "i < length ?q" for i a
  proof -
    let ?q' = "?q[i := (?q ! i)\<lparr>BoxAttributes := a\<rparr>]"
    have g: "map BoxGuid ?q' = map BoxGuid ?q" and p: "map box_pages ?q' = map box_pages ?q"
      using i by (simp_all add: map_update list_update_same_conv box_pages_def)
    have all: "\<forall>b \<in> set ?q'. Q b" if "\<forall>b \<in> set ?q. Q b" "\<And>b. Q (b\<lparr>BoxAttributes := a\<rparr>) = Q b" for Q
      using that i by (auto simp: all_set_conv_all_nth nth_list_update)
    obtain P live where P: "pool_inv P (Smram (gSmst (Lib d))) live" "\<forall>b \<in> set ?q. page_granules (box_pages b) \<inter> P = {}"
      using lb by (auto simp: lockbox_inv_def)
    have "sorted_wrt (\<lambda>A B. A \<inter> B = {}) (map box_pages ?q')"
      unfolding p using lb by (simp add: lockbox_inv_def sorted_wrt_map)
    moreover have "\<forall>b \<in> set ?q'. box_ok b"
      by (rule all) (use lb in \<open>simp_all add: lockbox_inv_def box_ok_def\<close>)
    moreover have "\<forall>b \<in> set ?q'. page_granules (box_pages b) \<inter> P = {}"
      by (rule all [OF P(2)]) (simp add: box_pages_def)
    ultimately have "lockbox_inv ((Lib d)\<lparr>mLockBoxQueue := ?q'\<rparr>)"
      unfolding lockbox_inv_def using lb g P(1)
      by (simp add: lockbox_inv_def sorted_wrt_map InternalGetSmmLockBoxContext_def) blast
    moreover have "\<forall>b \<in> set ?q'. mem_range (BoxBuffer b) (BoxLength b) \<inter> smram (MemLib d) = {}"
      by (rule all) (use inv in \<open>simp_all add: driver_inv_def\<close>)
    ultimately show ?thesis using inv by (simp add: driver_inv_def)
  qed
  have "\<exists>st l. SetLockBoxAttributes (Some (ParamGuid p)) (ParamAttributes p) (Lib d) = Some (st, l) \<and> driver_inv (d\<lparr>Lib := l\<rparr>)"
    by (rule find_cases [OF lb, of "ParamGuid p"]) (use inv ok in \<open>auto simp: SetLockBoxAttributes_def\<close>)
  then show ?thesis using inv by (auto simp: SmmLockBoxSetAttributes_def)
qed

section \<open>Properties\<close>


definition sample_driver :: lockbox_driver where
  "sample_driver = \<lparr>Lib = sample_lockbox, MemLib = \<lparr>mSmmMemLibInternalSmramRanges =
      [\<lparr>PhysicalStart = 0x10000, CpuStart = 0x10000, PhysicalSize = 0x20000, RegionState = 0\<rparr>],
     mSmmMemLibInternalMaximumSupportAddress = 0xFFFFFFFFF\<rparr>, mLocked = False\<rparr>"

lemma sample_smram: "a \<in> smram (MemLib sample_driver) \<longleftrightarrow> 0x10000 \<le> unat a \<and> unat a < 0x30000"
  unfolding sample_driver_def smram_def range_bytes_def by (simp add: mem_range_nat)

lemma sample_driver_inv: "driver_inv sample_driver"
  "\<forall>b \<in> set (mLockBoxQueue (Lib sample_driver)). box_range b \<subseteq> smram (MemLib sample_driver)"
proof -
  have 1: "a \<in> mem_range 0x2000 16 \<longleftrightarrow> 0x2000 \<le> unat a \<and> unat a < 0x2010" for a :: UINT64
    by (subst mem_range_nat) simp_all
  have 2: "a \<in> mem_range 0x20000 16 \<longleftrightarrow> 0x20000 \<le> unat a \<and> unat a < 0x20010" for a :: UINT64
    by (subst mem_range_nat) simp_all
  have "mem_range 0x2000 16 \<inter> smram (MemLib sample_driver) = {}" using 1 sample_smram by force
  moreover have "wf_ranges (MemLib sample_driver)" by (simp add: sample_driver_def wf_ranges_def)
  ultimately show "driver_inv sample_driver"
    using sample_lockbox_inv
    unfolding driver_inv_def by (simp add: sample_driver_def) (simp add: sample_lockbox_def sample_box_def)
  have "mem_range 0x20000 16 \<subseteq> smram (MemLib sample_driver)" using 2 sample_smram by force
  then show "\<forall>b \<in> set (mLockBoxQueue (Lib sample_driver)). box_range b \<subseteq> smram (MemLib sample_driver)"
    by (simp add: sample_driver_def sample_lockbox_def sample_box_def box_range_def)
qed


text \<open>The lock box handler always returns, and every request keeps the driver state in order: the boxes
  stay well-formed and disjoint, the allocators consistent, and every box still originates outside
  SMRAM.\<close>

theorem LockBoxHandler_keeps_inv:
  assumes "driver_inv d"
  shows "\<exists>p' d'. SmmLockBoxHandler CommBuffer CommBufferSize p d = Some (EFI_SUCCESS, p', d') \<and> driver_inv d'"
proof -
  have "\<exists>p' d'. SmmLockBox_dispatch n q d = Some (p', d') \<and> driver_inv d'" for n q
    using Save_inv [OF assms, of q] Update_inv [OF assms, of q] SetAttributes_inv [OF assms, of q]
      Restore_outside [OF assms, of q] RestoreAll_outside [OF assms, of q] driver_inv_outside [OF assms] assms
    unfolding SmmLockBox_dispatch_def by fastforce
  then show ?thesis using assms by (fastforce simp: SmmLockBoxHandler_def split: option.splits)
qed

theorem LockBoxHandler_keeps_inv_witness:
  "\<exists>p' d'. SmmLockBoxHandler 0x5000 (Some 48)
      \<lparr>Command = 1, DataLength = 0, ReturnStatus = None, ParamGuid = 6, ParamOffset = 0, ParamBuffer = 0x4000,
       ParamLength = 8, ParamAttributes = 0\<rparr> sample_driver = Some (EFI_SUCCESS, p', d') \<and> driver_inv d'"
  by (rule LockBoxHandler_keeps_inv [OF sample_driver_inv(1)])

end
