(* ===== verification/Smi.thy ===== *)
theory Smi
  imports SmmConfigTable
begin

text \<open>
  Dispatch of system management interrupts, \<^verbatim>\<open>MdeModulePkg/Core/PiSmmCore/Smi.c\<close>.

  \<^verbatim>\<open>SMI_HANDLER\<close> and \<^verbatim>\<open>SMI_ENTRY\<close> objects live in pool blocks; the state maps the address of each to its
  fields, and the lists \<^verbatim>\<open>mRootSmiHandlerList\<close>, \<^verbatim>\<open>mSmiEntryList\<close> and \<^verbatim>\<open>SmiHandlers\<close> are lists of addresses.
  An address with no object carries no valid signature.  A handler function is a value of type \<open>'h\<close>;
  calling it is the parameter \<open>call\<close>, which may change the outside world \<open>'w\<close> but not the handler lists.

  The lemmas give the status that the dispatcher returns as a function of the statuses of the
  handlers it ran, and show that registration appends a handler to the list of its type, that
  unregistration removes exactly it, and that no type keeps an empty entry.
\<close>

section \<open>Data\<close>

record SMI_ENTRY =
  HandlerType :: EFI_GUID
  SmiHandlers :: "UINTN list"

record 'h SMI_HANDLER =
  Handler :: 'h
  SmiEntry :: UINTN

record 'h smi_state =
  SmiPool :: smm_memory
  mRootSmiHandlerList :: "UINTN list"
  mSmiEntryList :: "UINTN list"
  EntryAt :: "UINTN \<rightharpoonup> SMI_ENTRY"
  HandlerAt :: "UINTN \<rightharpoonup> 'h SMI_HANDLER"

definition sizeof_SMI_ENTRY :: UINTN where "sizeof_SMI_ENTRY = 56"
definition sizeof_SMI_HANDLER :: UINTN where "sizeof_SMI_HANDLER = 40"

section \<open>Operations\<close>

fun SmiEntry_search :: "(UINTN \<rightharpoonup> SMI_ENTRY) \<Rightarrow> EFI_GUID \<Rightarrow> UINTN list \<Rightarrow> UINTN" where
  "SmiEntry_search at g [] = 0"
| "SmiEntry_search at g (e # es) =
    (if map_option HandlerType (at e) = Some g then e else SmiEntry_search at g es)"

text \<open>The address of the entry, \<open>0\<close> for NULL.\<close>

definition SmmCoreFindSmiEntry ::
  "EFI_GUID \<Rightarrow> bool \<Rightarrow> 'h smi_state \<Rightarrow> (UINTN \<times> 'h smi_state) option" where
  "SmmCoreFindSmiEntry Guid Create s =
    (let e = SmiEntry_search (EntryAt s) Guid (mSmiEntryList s) in
     if e = 0 \<and> Create then
       (case AllocatePool sizeof_SMI_ENTRY (SmiPool s) of
          None \<Rightarrow> None
        | Some (e', p) \<Rightarrow>
            if e' \<noteq> 0 then
              Some (e', s\<lparr>SmiPool := p, mSmiEntryList := mSmiEntryList s @ [e'],
                EntryAt := (EntryAt s)(e' \<mapsto> \<lparr>HandlerType = Guid, SmiHandlers = []\<rparr>)\<rparr>)
            else Some (e', s\<lparr>SmiPool := p\<rparr>))
     else Some (e, s))"

fun SmiManage_loop ::
  "('h \<Rightarrow> UINTN \<Rightarrow> 'w \<Rightarrow> EFI_STATUS \<times> 'w) \<Rightarrow> bool \<Rightarrow> (UINTN \<times> 'h) list \<Rightarrow> EFI_STATUS \<Rightarrow> bool \<Rightarrow> 'w
    \<Rightarrow> EFI_STATUS \<times> 'w" where
  "SmiManage_loop call Root [] Status SuccessReturn w = (if SuccessReturn then EFI_SUCCESS else Status, w)"
| "SmiManage_loop call Root ((a, h) # hs) Status SuccessReturn w =
    (let (st, w') = call h a w in
     if st = EFI_INTERRUPT_PENDING then
       if \<not> Root then (EFI_INTERRUPT_PENDING, w')
       else SmiManage_loop call Root hs st SuccessReturn w'
     else if st = EFI_SUCCESS then
       if \<not> Root then (EFI_SUCCESS, w')
       else SmiManage_loop call Root hs st True w'
     else if st = EFI_WARN_INTERRUPT_SOURCE_QUIESCED then SmiManage_loop call Root hs st True w'
     else SmiManage_loop call Root hs st SuccessReturn w')"

definition handler_functions :: "'h smi_state \<Rightarrow> UINTN list \<Rightarrow> (UINTN \<times> 'h) list" where
  "handler_functions s as = map (\<lambda>a. (a, Handler (the (HandlerAt s a)))) as"

definition SmiManage ::
  "('h \<Rightarrow> UINTN \<Rightarrow> 'w \<Rightarrow> EFI_STATUS \<times> 'w) \<Rightarrow> EFI_GUID option \<Rightarrow> 'h smi_state \<Rightarrow> 'w \<Rightarrow> EFI_STATUS \<times> 'w" where
  "SmiManage call Type s w =
    (case Type of
       None \<Rightarrow> SmiManage_loop call True (handler_functions s (mRootSmiHandlerList s)) EFI_NOT_FOUND False w
     | Some g \<Rightarrow>
         let e = SmiEntry_search (EntryAt s) g (mSmiEntryList s) in
         if e = 0 then (EFI_NOT_FOUND, w)
         else SmiManage_loop call False (handler_functions s (SmiHandlers (the (EntryAt s e)))) EFI_NOT_FOUND False w)"

text \<open>
  \<open>None\<close> stands for a NULL handler, \<open>False\<close> for a NULL \<^verbatim>\<open>DispatchHandle\<close>.  The second component of the
  result is the value stored in \<^verbatim>\<open>*DispatchHandle\<close>, if any.
\<close>

definition SmiHandlerRegister ::
  "'h option \<Rightarrow> EFI_GUID option \<Rightarrow> bool \<Rightarrow> 'h smi_state \<Rightarrow> (EFI_STATUS \<times> UINTN option \<times> 'h smi_state) option" where
  "SmiHandlerRegister HandlerPtr Type DispatchHandle s =
    (case HandlerPtr of
       None \<Rightarrow> Some (EFI_INVALID_PARAMETER, None, s)
     | Some h \<Rightarrow>
       if \<not> DispatchHandle then Some (EFI_INVALID_PARAMETER, None, s)
       else case AllocatePool sizeof_SMI_HANDLER (SmiPool s) of
         None \<Rightarrow> None
       | Some (a, p) \<Rightarrow>
         let s1 = s\<lparr>SmiPool := p\<rparr> in
         if a = 0 then Some (EFI_OUT_OF_RESOURCES, None, s1)
         else let s2 = s1\<lparr>HandlerAt := (HandlerAt s1)(a \<mapsto> \<lparr>Handler = h, SmiEntry = 0\<rparr>)\<rparr> in
           case Type of
             None \<Rightarrow> Some (EFI_SUCCESS, Some a, s2\<lparr>mRootSmiHandlerList := mRootSmiHandlerList s2 @ [a]\<rparr>)
           | Some g \<Rightarrow>
             (case SmmCoreFindSmiEntry g True s2 of
                None \<Rightarrow> None
              | Some (e, s3) \<Rightarrow>
                  if e = 0 then Some (EFI_OUT_OF_RESOURCES, None, s3)
                  else Some (EFI_SUCCESS, Some a,
                    s3\<lparr>HandlerAt := (HandlerAt s3)(a \<mapsto> \<lparr>Handler = h, SmiEntry = e\<rparr>),
                       EntryAt := (EntryAt s3)(e \<mapsto> (the (EntryAt s3 e))\<lparr>SmiHandlers := SmiHandlers (the (EntryAt s3 e)) @ [a]\<rparr>)\<rparr>)))"

text \<open>\<^verbatim>\<open>RemoveEntryList\<close> unlinks the handler from whichever list it is on.\<close>

definition SmiHandlerUnRegister :: "UINTN \<Rightarrow> 'h smi_state \<Rightarrow> (EFI_STATUS \<times> 'h smi_state) option" where
  "SmiHandlerUnRegister DispatchHandle s =
    (if DispatchHandle = 0 then Some (EFI_INVALID_PARAMETER, s)
     else case HandlerAt s DispatchHandle of
       None \<Rightarrow> Some (EFI_INVALID_PARAMETER, s)
     | Some x \<Rightarrow>
       let e = SmiEntry x;
           s1 = (if e = 0 then s\<lparr>mRootSmiHandlerList := remove1 DispatchHandle (mRootSmiHandlerList s)\<rparr>
                 else s\<lparr>EntryAt := (EntryAt s)(e \<mapsto> (the (EntryAt s e))\<lparr>SmiHandlers :=
                        remove1 DispatchHandle (SmiHandlers (the (EntryAt s e)))\<rparr>)\<rparr>);
           s2 = s1\<lparr>HandlerAt := (HandlerAt s1)(DispatchHandle := None)\<rparr>
       in case FreePool DispatchHandle (SmiPool s2) of
            None \<Rightarrow> None
          | Some p \<Rightarrow>
            let s3 = s2\<lparr>SmiPool := p\<rparr> in
            if e = 0 then Some (EFI_SUCCESS, s3)
            else if SmiHandlers (the (EntryAt s3 e)) = [] then
              let s4 = s3\<lparr>mSmiEntryList := remove1 e (mSmiEntryList s3), EntryAt := (EntryAt s3)(e := None)\<rparr> in
              map_option (\<lambda>p'. (EFI_SUCCESS, s4\<lparr>SmiPool := p'\<rparr>)) (FreePool e (SmiPool s4))
            else Some (EFI_SUCCESS, s3))"

section \<open>The status of a dispatch\<close>

text \<open>All handlers in order, with the statuses they return.\<close>

fun run_all :: "('h \<Rightarrow> UINTN \<Rightarrow> 'w \<Rightarrow> EFI_STATUS \<times> 'w) \<Rightarrow> (UINTN \<times> 'h) list \<Rightarrow> 'w \<Rightarrow> EFI_STATUS list \<times> 'w" where
  "run_all call [] w = ([], w)"
| "run_all call ((a, h) # hs) w =
    (let (st, w') = call h a w; (sts, w'') = run_all call hs w' in (st # sts, w''))"

definition handled :: "EFI_STATUS \<Rightarrow> bool" where
  "handled st \<longleftrightarrow> st = EFI_SUCCESS \<or> st = EFI_WARN_INTERRUPT_SOURCE_QUIESCED"

definition stops :: "EFI_STATUS \<Rightarrow> bool" where
  "stops st \<longleftrightarrow> st = EFI_SUCCESS \<or> st = EFI_INTERRUPT_PENDING"

definition combined :: "EFI_STATUS list \<Rightarrow> EFI_STATUS" where
  "combined sts = (if \<exists>st \<in> set sts. handled st then EFI_SUCCESS
     else if sts = [] then EFI_NOT_FOUND else last sts)"

lemma root_loop:
  "SmiManage_loop call True hs st0 ok w =
    (let (sts, w') = run_all call hs w in
     (if ok \<or> (\<exists>st \<in> set sts. handled st) then EFI_SUCCESS else if sts = [] then st0 else last sts, w'))"
proof (induction hs arbitrary: st0 ok w)
  case (Cons x hs)
  obtain a h where x: "x = (a, h)" by fastforce
  obtain st w1 where c: "call h a w = (st, w1)" by fastforce
  obtain sts w2 where r: "run_all call hs w1 = (sts, w2)" by fastforce
  show ?case using Cons.IH [of st _ w1] c r x by (auto simp: handled_def)
qed simp

lemma run_all_append:
  "run_all call (xs @ ys) w =
    (let (s1, w1) = run_all call xs w; (s2, w2) = run_all call ys w1 in (s1 @ s2, w2))"
  by (induction xs arbitrary: w) (auto split: prod.splits)

lemma typed_loop_no_stop:
  assumes "run_all call hs w = (sts, w')" "\<forall>st \<in> set sts. \<not> stops st"
  shows "SmiManage_loop call False hs st0 ok w =
    (if ok \<or> (\<exists>st \<in> set sts. handled st) then EFI_SUCCESS else if sts = [] then st0 else last sts, w')"
  using assms
proof (induction hs arbitrary: st0 ok w sts)
  case (Cons x hs)
  obtain a h where x: "x = (a, h)" by fastforce
  obtain st w1 where c: "call h a w = (st, w1)" by fastforce
  obtain ss w2 where r: "run_all call hs w1 = (ss, w2)" by fastforce
  have "sts = st # ss" "w2 = w'" using Cons.prems(1) x c r by auto
  then show ?case using Cons.IH [of w1 ss st] Cons.prems(2) c r x by (auto simp: handled_def stops_def)
qed auto

lemma typed_loop_stop:
  assumes "run_all call hs w = (sts, w')" "\<forall>st \<in> set sts. \<not> stops st" "call h a w' = (st, w'')" "stops st"
  shows "SmiManage_loop call False (hs @ (a, h) # rest) st0 ok w = (st, w'')"
  using assms(1,2)
proof (induction hs arbitrary: st0 ok w sts)
  case Nil
  then show ?case using assms(3,4) by (auto simp: stops_def)
next
  case (Cons x hs)
  obtain b k where x: "x = (b, k)" by fastforce
  obtain s1 w1 where c: "call k b w = (s1, w1)" by fastforce
  obtain ss w2 where r: "run_all call hs w1 = (ss, w2)" by fastforce
  have "sts = s1 # ss" "w2 = w'" using Cons.prems(1) x c r by auto
  then show ?case using Cons.IH [of w1 ss s1] Cons.prems(2) c r x by (auto simp: stops_def)
qed

section \<open>Objects in pool blocks\<close>

text \<open>A pool from which the objects at the addresses \<open>os\<close> have been allocated.\<close>

definition pool_ok :: "smm_memory \<Rightarrow> UINTN multiset \<Rightarrow> bool" where
  "pool_ok p os \<longleftrightarrow> (\<forall>a. count os a \<le> 1) \<and>
     (\<exists>P live. pool_inv P p live \<and> (\<forall>a \<in># os. a \<noteq> 0 \<and> (\<exists>n. (a - 16, n) \<in># live)))"

locale object_pool =
  fixes ok :: "'p \<Rightarrow> UINTN multiset \<Rightarrow> bool"
    and alloc :: "UINTN \<Rightarrow> 'p \<Rightarrow> (UINTN \<times> 'p) option"
    and release :: "UINTN \<Rightarrow> 'p \<Rightarrow> 'p option"
  assumes alloc_law: "ok p os \<Longrightarrow> unat R < 18446744073709551600 \<Longrightarrow>
      alloc R p = Some (0, p) \<or> (\<exists>a p'. alloc R p = Some (a, p') \<and> a \<noteq> 0 \<and> ok p' (add_mset a os))"
    and release_law: "ok p (add_mset a os) \<Longrightarrow> \<exists>p'. release a p = Some p' \<and> ok p' os"
    and once: "ok p (add_mset a os) \<Longrightarrow> a \<notin># os"
    and forget: "ok p (add_mset a os) \<Longrightarrow> ok p os"
    and nonnull: "ok p os \<Longrightarrow> a \<in># os \<Longrightarrow> a \<noteq> 0"
begin

lemma fresh:
  "ok p os \<Longrightarrow> unat R < 18446744073709551600 \<Longrightarrow> alloc R p = Some (a, p') \<Longrightarrow> a \<noteq> 0 \<Longrightarrow> ok p' (add_mset a os) \<and> a \<notin># os"
  using alloc_law [of p os R] once [of p' a os] by auto

lemma alloc_null: "ok p os \<Longrightarrow> unat R < 18446744073709551600 \<Longrightarrow> alloc R p = Some (0, p') \<Longrightarrow> p' = p"
  using alloc_law [of p os R] by auto

lemma alloc_total: "ok p os \<Longrightarrow> unat R < 18446744073709551600 \<Longrightarrow> \<exists>a p'. alloc R p = Some (a, p')"
  using alloc_law [of p os R] by auto

lemma release_two:
  assumes "ok p (add_mset a (add_mset b os))"
  shows "\<exists>p1 p2. release a p = Some p1 \<and> release b p1 = Some p2 \<and> ok p2 os"
  using release_law [OF assms] release_law [of _ b os] by blast

end

lemma live_fresh:
  assumes "pool_inv P p (add_mset (a, n) live)" "(b, k) \<in># live" shows "b \<noteq> a"
proof
  assume "b = a"
  have h: "wf_block (a, n)" "wf_block (b, k)" using assms by (auto simp: pool_inv_def held_block_def)
  have "free_occ p g + ind (gran (a, n)) g + occ live g \<le> 1" for g
    using assms(1) by (simp add: pool_inv_def ind_def add.assoc)
  moreover have "ind (gran (a, n)) (unat a div 64) = 1" "1 \<le> occ live (unat a div 64)"
    using gran_start [OF h(1)] gran_start [OF h(2)] occ_pos [OF assms(2), of "unat a div 64"] \<open>b = a\<close>
    by (auto simp: ind_def)
  ultimately show False by (metis add_le_same_cancel1 add.commute add.left_commute add_leD2 le_trans not_one_le_zero)
qed

lemma pool_ok_alloc:
  assumes "pool_ok p os" "unat R < 18446744073709551600"
  shows "AllocatePool R p = Some (0, p) \<or> (\<exists>a p'. AllocatePool R p = Some (a, p') \<and> a \<noteq> 0 \<and> pool_ok p' (add_mset a os))"
proof -
  obtain P live where P: "pool_inv P p live" "\<forall>a \<in># os. a \<noteq> 0 \<and> (\<exists>n. (a - 16, n) \<in># live)"
    and one: "\<forall>a. count os a \<le> 1" using assms(1) by (auto simp: pool_ok_def)
  have "unat R < 18446744073709551600" using assms(2) by simp
  from AllocatePool_result [OF P(1) this] consider "AllocatePool R p = Some (0, p)"
    | a n p' where "AllocatePool R p = Some (a + 16, p')" "a + 16 \<noteq> 0" "pool_inv P p' (add_mset (a, n) live)" by blast
  then show ?thesis
  proof cases
    case 2
    have "a + 16 \<notin># os"
    proof
      assume "a + 16 \<in># os"
      then obtain k where "(a, k) \<in># live" using P(2) by fastforce
      then show False using live_fresh [OF 2(3)] by blast
    qed
    then have "\<forall>b. count (add_mset (a + 16) os) b \<le> 1" using one by (auto simp: not_in_iff)
    moreover have "b \<noteq> 0 \<and> (\<exists>k. (b - 16, k) \<in># add_mset (a, n) live)" if "b \<in># add_mset (a + 16) os" for b
    proof (cases "b = a + 16")
      case False
      then have "b \<in># os" using that by simp
      then show ?thesis using P(2) by auto
    qed (use 2(2) in auto)
    ultimately have "pool_ok p' (add_mset (a + 16) os)" using 2(3) unfolding pool_ok_def by blast
    then show ?thesis using 2(1,2) by blast
  qed simp
qed

lemma pool_ok_release:
  assumes "pool_ok p (add_mset a os)"
  shows "\<exists>p'. FreePool a p = Some p' \<and> pool_ok p' os"
proof -
  obtain P live n where P: "pool_inv P p live" "\<forall>b \<in># os. b \<noteq> 0 \<and> (\<exists>n. (b - 16, n) \<in># live)" "(a - 16, n) \<in># live"
    and one: "\<forall>b. count (add_mset a os) b \<le> 1" using assms by (auto simp: pool_ok_def)
  obtain p' where p': "FreePool a p = Some p'" "pool_inv P p' (live - {#(a - 16, n)#})"
    using FreePool_result [OF P(1,3)] by blast
  have "(b - 16, k) \<in># live - {#(a - 16, n)#}" if "b \<in># os" "(b - 16, k) \<in># live" for b k
  proof -
    have "b \<noteq> a" using one that(1) by (metis count_add_mset count_greater_zero_iff not_less_eq_eq Suc_leI One_nat_def)
    then have "(b - 16, k) \<noteq> (a - 16, n)" by simp
    moreover obtain M where "live = add_mset (a - 16, n) M" using P(3) by (meson mset_add)
    ultimately show ?thesis using that(2) by auto
  qed
  moreover have "\<forall>b. count os b \<le> 1" using one by (metis count_add_mset le_SucI not_less_eq_eq le_trans lessI less_imp_le)
  ultimately have "pool_ok p' os" using p'(2) P(2) by (auto simp: pool_ok_def) metis
  then show ?thesis using p'(1) by blast
qed

interpretation smm_objects: object_pool pool_ok AllocatePool FreePool
proof
  show "AllocatePool R p = Some (0, p) \<or> (\<exists>a p'. AllocatePool R p = Some (a, p') \<and> a \<noteq> 0 \<and> pool_ok p' (add_mset a os))"
    if "pool_ok p os" "unat R < 18446744073709551600" for p os R by (rule pool_ok_alloc [OF that])
  show "\<exists>p'. FreePool a p = Some p' \<and> pool_ok p' os" if "pool_ok p (add_mset a os)" for p a os
    by (rule pool_ok_release [OF that])
  show "a \<notin># os" if "pool_ok p (add_mset a os)" for p a os
    using that by (auto simp: pool_ok_def not_in_iff dest: spec [of _ a])
  show "pool_ok p os" if "pool_ok p (add_mset a os)" for p a os
  proof -
    have "count os b \<le> count (add_mset a os) b" for b by simp
    then have "\<forall>b. count os b \<le> 1" using that unfolding pool_ok_def by (meson le_trans)
    then show ?thesis using that unfolding pool_ok_def by auto
  qed
  show "a \<noteq> 0" if "pool_ok p os" "a \<in># os" for p os a using that by (auto simp: pool_ok_def)
qed

section \<open>The handler lists\<close>

definition entry_handlers :: "'h smi_state \<Rightarrow> UINTN \<Rightarrow> UINTN list" where
  "entry_handlers s e = SmiHandlers (the (EntryAt s e))"

definition objs :: "'h smi_state \<Rightarrow> UINTN multiset" where
  "objs s = mset (mRootSmiHandlerList s) + (\<Sum>e \<in># mset (mSmiEntryList s). mset (entry_handlers s e)) +
     mset (mSmiEntryList s)"

definition smi_wf :: "'h smi_state \<Rightarrow> bool" where
  "smi_wf s \<longleftrightarrow> pool_ok (SmiPool s) (objs s) \<and>
     (\<forall>a \<in> set (mRootSmiHandlerList s). map_option SmiEntry (HandlerAt s a) = Some 0) \<and>
     (\<forall>e \<in> set (mSmiEntryList s). EntryAt s e \<noteq> None \<and> entry_handlers s e \<noteq> [] \<and>
        (\<forall>a \<in> set (entry_handlers s e). map_option SmiEntry (HandlerAt s a) = Some e)) \<and>
     distinct (map (\<lambda>e. map_option HandlerType (EntryAt s e)) (mSmiEntryList s))"

text \<open>The addresses of the handlers registered for a type, in dispatch order, and their functions.\<close>

definition addrs :: "'h smi_state \<Rightarrow> EFI_GUID option \<Rightarrow> UINTN list" where
  "addrs s t = (case t of None \<Rightarrow> mRootSmiHandlerList s
     | Some g \<Rightarrow> let e = SmiEntry_search (EntryAt s) g (mSmiEntryList s) in if e = 0 then [] else entry_handlers s e)"

definition handlers_of :: "'h smi_state \<Rightarrow> EFI_GUID option \<Rightarrow> 'h list" where
  "handlers_of s t = map (\<lambda>a. Handler (the (HandlerAt s a))) (addrs s t)"

lemma search_result:
  "SmiEntry_search at g es \<noteq> 0 \<Longrightarrow> SmiEntry_search at g es \<in> set es \<and>
     map_option HandlerType (at (SmiEntry_search at g es)) = Some g"
  by (induction es) (auto split: if_splits)

lemma search_none:
  "0 \<notin> set es \<Longrightarrow> SmiEntry_search at g es = 0 \<longleftrightarrow> (\<forall>e \<in> set es. map_option HandlerType (at e) \<noteq> Some g)"
  by (induction es) auto

lemma search_cong:
  "(\<And>e. e \<in> set es \<Longrightarrow> map_option HandlerType (at' e) = map_option HandlerType (at e)) \<Longrightarrow>
     SmiEntry_search at' g es = SmiEntry_search at g es"
  by (induction es) auto

lemma search_append:
  "0 \<notin> set es \<Longrightarrow> SmiEntry_search at g (es @ [e]) =
     (if SmiEntry_search at g es \<noteq> 0 then SmiEntry_search at g es
      else if map_option HandlerType (at e) = Some g then e else 0)"
  by (induction es) auto

lemma search_eq:
  assumes "distinct (map (\<lambda>e. map_option HandlerType (at e)) es)" "0 \<notin> set es" "e \<in> set es"
    "map_option HandlerType (at e) = Some g"
  shows "SmiEntry_search at g es = e"
proof -
  have "SmiEntry_search at g es \<noteq> 0" using assms(2-4) by (auto simp: search_none)
  note r = search_result [OF this]
  then show ?thesis using assms(1,3,4) by (metis (mono_tags, lifting) distinct_map inj_on_eq_iff)
qed

lemma search_remove1:
  assumes "distinct (map (\<lambda>e. map_option HandlerType (at e)) es)" "0 \<notin> set es" "e \<in> set es"
  shows "SmiEntry_search at g (remove1 e es) =
    (if map_option HandlerType (at e) = Some g then 0 else SmiEntry_search at g es)"
  using assms
proof (induction es)
  case (Cons x es)
  show ?case
  proof (cases "x = e")
    case True
    have "SmiEntry_search at g es = 0" if "map_option HandlerType (at e) = Some g"
      using Cons.prems True that by (subst search_none) (auto simp: image_iff)
    then show ?thesis using True by (cases "map_option HandlerType (at e) = Some g") auto
  next
    case False
    then have "map_option HandlerType (at x) \<noteq> map_option HandlerType (at e)" using Cons.prems by (auto simp: image_iff)
    then show ?thesis using Cons False by auto
  qed
qed simp

lemma smi_wf_entries:
  assumes "smi_wf s"
  shows "0 \<notin> set (mSmiEntryList s)" "distinct (mSmiEntryList s)" "0 \<notin> set (mRootSmiHandlerList s)"
proof -
  have ok: "pool_ok (SmiPool s) (objs s)" using assms by (simp add: smi_wf_def)
  show "0 \<notin> set (mSmiEntryList s)" "0 \<notin> set (mRootSmiHandlerList s)"
    using smm_objects.nonnull [OF ok, of 0] by (auto simp: objs_def)
  have "distinct (map (\<lambda>e. map_option HandlerType (EntryAt s e)) (mSmiEntryList s))"
    using assms by (simp add: smi_wf_def)
  then show "distinct (mSmiEntryList s)" using distinct_map by blast
qed

text \<open>Changing the handler list of one entry changes the objects by the difference.\<close>

lemma sum_mset_change:
  assumes "distinct es" "e \<in> set es" "\<And>x. x \<in> set es \<Longrightarrow> x \<noteq> e \<Longrightarrow> f' x = f x"
  shows "(\<Sum>x \<in># mset es. f' x) + f e = (\<Sum>x \<in># mset es. f x) + (f' e :: 'b multiset)"
proof -
  obtain ys zs where es: "es = ys @ e # zs" using assms(2) by (meson split_list)
  have "image_mset f' (mset ys) = image_mset f (mset ys)" "image_mset f' (mset zs) = image_mset f (mset zs)"
    using assms es by (intro image_mset_cong; force)+
  then show ?thesis unfolding es by simp
qed

lemma mset_shift: "A + m = B + m' \<Longrightarrow> m = add_mset a m' \<Longrightarrow> B = add_mset a (A :: 'b multiset)"
  by (metis add_mset_add_single add.assoc add.commute add_right_cancel union_mset_add_mset_right)

lemma handler_obj:
  assumes "e \<in> set (mSmiEntryList s)" "a \<in> set (entry_handlers s e)"
  shows "a \<in># objs s"
  using assms by (auto simp: objs_def)

lemma objs_root: "a \<in> set (mRootSmiHandlerList s) \<Longrightarrow> a \<in># objs s"
  by (simp add: objs_def)

lemma not_in_remove1: "distinct xs \<Longrightarrow> x \<notin> set (remove1 x xs)"
  by simp

lemma AllocatePool_smi_sizes: "unat sizeof_SMI_ENTRY < 18446744073709551600" "unat sizeof_SMI_HANDLER < 18446744073709551600"
  by (simp_all add: sizeof_SMI_ENTRY_def sizeof_SMI_HANDLER_def)

section \<open>Registration\<close>

text \<open>A handler appended to the root list.\<close>

lemma register_root:
  fixes h :: 'h and s :: "'h smi_state"
  assumes wf: "smi_wf s" and ok: "pool_ok p (add_mset a (objs s))"
  defines "s' \<equiv> s\<lparr>SmiPool := p, HandlerAt := (HandlerAt s)(a \<mapsto> \<lparr>Handler = h, SmiEntry = 0\<rparr>),
     mRootSmiHandlerList := mRootSmiHandlerList s @ [a]\<rparr>"
  shows "smi_wf s'" "addrs s' = (addrs s)(None := addrs s None @ [a])"
proof -
  have new: "a \<notin># objs s" by (rule smm_objects.once [OF ok])
  have "objs s' = add_mset a (objs s)" by (simp add: objs_def s'_def entry_handlers_def)
  moreover have "a \<notin> set (entry_handlers s e)" if "e \<in> set (mSmiEntryList s)" for e
    using new handler_obj [OF that] by blast
  moreover have "a \<notin> set (mRootSmiHandlerList s)" using new by (auto simp: objs_def)
  ultimately show "smi_wf s'" using wf ok by (auto simp: smi_wf_def s'_def entry_handlers_def)
  show "addrs s' = (addrs s)(None := addrs s None @ [a])"
    by (auto simp: addrs_def s'_def entry_handlers_def fun_eq_iff Let_def split: option.splits)
qed

text \<open>A handler appended to an existing entry.\<close>

lemma register_entry:
  fixes h :: 'h and s :: "'h smi_state"
  assumes wf: "smi_wf s" and ok: "pool_ok p (add_mset a (objs s))"
    and e: "e \<in> set (mSmiEntryList s)" "map_option HandlerType (EntryAt s e) = Some g"
  defines "s' \<equiv> s\<lparr>SmiPool := p, HandlerAt := (HandlerAt s)(a \<mapsto> \<lparr>Handler = h, SmiEntry = e\<rparr>),
     EntryAt := (EntryAt s)(e \<mapsto> (the (EntryAt s e))\<lparr>SmiHandlers := SmiHandlers (the (EntryAt s e)) @ [a]\<rparr>)\<rparr>"
  shows "smi_wf s'" "addrs s' = (addrs s)(Some g := addrs s (Some g) @ [a])"
proof -
  have new: "a \<notin># objs s" by (rule smm_objects.once [OF ok])
  have eh: "entry_handlers s' x = (if x = e then entry_handlers s e @ [a] else entry_handlers s x)" for x
    by (simp add: entry_handlers_def s'_def)
  have ty: "map_option HandlerType (EntryAt s' x) = map_option HandlerType (EntryAt s x)" for x
    using e(2) by (auto simp: s'_def)
  have se: "SmiEntry_search (EntryAt s') g' (mSmiEntryList s) = SmiEntry_search (EntryAt s) g' (mSmiEntryList s)" for g'
    by (rule search_cong) (rule ty)
  have "(\<Sum>x \<in># mset (mSmiEntryList s). mset (entry_handlers s' x)) + mset (entry_handlers s e) =
     (\<Sum>x \<in># mset (mSmiEntryList s). mset (entry_handlers s x)) + mset (entry_handlers s' e)"
    using smi_wf_entries(2) [OF wf] e(1) eh by (intro sum_mset_change) auto
  then have "objs s' = add_mset a (objs s)" by (simp add: objs_def s'_def) (simp add: eh s'_def [symmetric])
  moreover have "a \<notin> set (entry_handlers s x)" if "x \<in> set (mSmiEntryList s)" for x
    using new handler_obj [OF that] by blast
  moreover have "a \<notin> set (mRootSmiHandlerList s)" using new by (auto simp: objs_def)
  ultimately show "smi_wf s'" using wf ok eh ty unfolding smi_wf_def by (auto simp: s'_def)
  have "SmiEntry_search (EntryAt s) g (mSmiEntryList s) = e"
    using wf smi_wf_entries(1) [OF wf] e by (intro search_eq) (auto simp: smi_wf_def)
  moreover have "SmiEntry_search (EntryAt s) g' (mSmiEntryList s) \<noteq> e \<or> e = 0" if "g' \<noteq> g" for g'
    using search_result [of "EntryAt s" g' "mSmiEntryList s"] e(2) that by (metis option.inject)
  moreover have "e \<noteq> 0" using e(1) smi_wf_entries(1) [OF wf] by auto
  ultimately show "addrs s' = (addrs s)(Some g := addrs s (Some g) @ [a])"
    unfolding fun_eq_iff addrs_def using se eh by (auto simp: Let_def s'_def split: option.splits)
qed

text \<open>A handler as the first of a new entry.\<close>

lemma register_new_entry:
  fixes h :: 'h and s :: "'h smi_state"
  assumes wf: "smi_wf s" and ok: "pool_ok p (add_mset e (add_mset a (objs s)))"
    and none: "SmiEntry_search (EntryAt s) g (mSmiEntryList s) = 0"
  defines "s' \<equiv> s\<lparr>SmiPool := p, mSmiEntryList := mSmiEntryList s @ [e],
     HandlerAt := (HandlerAt s)(a \<mapsto> \<lparr>Handler = h, SmiEntry = e\<rparr>), EntryAt := (EntryAt s)(e \<mapsto> \<lparr>HandlerType = g, SmiHandlers = [a]\<rparr>)\<rparr>"
  shows "smi_wf s'" "addrs s' = (addrs s)(Some g := addrs s (Some g) @ [a])"
proof -
  have ne: "e \<notin># add_mset a (objs s)" by (rule smm_objects.once [OF ok])
  have na: "a \<notin># objs s" by (rule smm_objects.once [OF smm_objects.forget [OF ok]])
  have enz: "e \<noteq> 0" using smm_objects.nonnull [OF ok, of e] by simp
  have el: "e \<notin> set (mSmiEntryList s)" using ne by (auto simp: objs_def)
  have eh: "entry_handlers s' x = (if x = e then [a] else entry_handlers s x)" for x
    by (simp add: entry_handlers_def s'_def)
  have sums: "(\<Sum>x \<in># mset (mSmiEntryList s). mset (entry_handlers s' x)) = (\<Sum>x \<in># mset (mSmiEntryList s). mset (entry_handlers s x))"
    using el eh by (intro arg_cong [of _ _ sum_mset] image_mset_cong) auto
  have "objs s' = mset (mRootSmiHandlerList s) + ((\<Sum>x \<in># mset (mSmiEntryList s). mset (entry_handlers s' x)) + mset (entry_handlers s' e))
     + (mset (mSmiEntryList s) + {#e#})" unfolding objs_def by (simp add: s'_def)
  then have "objs s' = add_mset e (add_mset a (objs s))" unfolding sums by (simp add: eh objs_def)
  moreover have "a \<notin> set (entry_handlers s x)" if "x \<in> set (mSmiEntryList s)" for x
    using na handler_obj [OF that] by blast
  moreover have "a \<notin> set (mRootSmiHandlerList s)" using na by (auto simp: objs_def)
  moreover have ty: "\<forall>x \<in> set (mSmiEntryList s). map_option HandlerType (EntryAt s x) \<noteq> Some g"
    using none smi_wf_entries(1) [OF wf] by (simp add: search_none)
  moreover have "distinct (map (\<lambda>x. map_option HandlerType (EntryAt s' x)) (mSmiEntryList s'))"
  proof -
    have "map (\<lambda>x. map_option HandlerType (EntryAt s' x)) (mSmiEntryList s') =
      map (\<lambda>x. map_option HandlerType (EntryAt s x)) (mSmiEntryList s) @ [Some g]"
      using el by (auto simp: s'_def)
    moreover have "Some g \<notin> (\<lambda>x. map_option HandlerType (EntryAt s x)) ` set (mSmiEntryList s)"
      using ty by (metis imageE)
    ultimately show ?thesis using wf by (simp add: smi_wf_def)
  qed
  ultimately show "smi_wf s'" using wf ok eh el unfolding smi_wf_def by (auto simp: s'_def)
  have se: "SmiEntry_search (EntryAt s') g' (mSmiEntryList s) = SmiEntry_search (EntryAt s) g' (mSmiEntryList s)" for g'
    using el by (intro search_cong) (auto simp: s'_def)
  have "SmiEntry_search (EntryAt s') g' (mSmiEntryList s') = (if g' = g then e else SmiEntry_search (EntryAt s) g' (mSmiEntryList s))" for g'
    using search_append [OF smi_wf_entries(1) [OF wf], of "EntryAt s'" g' e] se none by (simp add: s'_def)
  moreover have "SmiEntry_search (EntryAt s) g' (mSmiEntryList s) \<noteq> e" for g'
    using search_result [of "EntryAt s" g' "mSmiEntryList s"] el enz by metis
  ultimately show "addrs s' = (addrs s)(Some g := addrs s (Some g) @ [a])"
    unfolding fun_eq_iff addrs_def using eh enz none by (auto simp: Let_def split: option.splits) (auto simp: s'_def)
qed

lemma register_cases:
  fixes h :: 'h and s :: "'h smi_state"
  assumes wf: "smi_wf s"
  shows "\<exists>st x s'. SmiHandlerRegister (Some h) t True s = Some (st, x, s') \<and> smi_wf s' \<and>
    (st = EFI_OUT_OF_RESOURCES \<and> x = None \<and> addrs s' = addrs s \<and> (\<forall>b. b \<in># objs s \<longrightarrow> HandlerAt s' b = HandlerAt s b) \<or>
     st = EFI_SUCCESS \<and> (\<exists>a. x = Some a \<and> a \<noteq> 0 \<and> a \<notin># objs s \<and> addrs s' = (addrs s)(t := addrs s t @ [a]) \<and>
        map_option Handler (HandlerAt s' a) = Some h \<and> (\<forall>b. b \<noteq> a \<longrightarrow> HandlerAt s' b = HandlerAt s b)))"
proof -
  have ok: "pool_ok (SmiPool s) (objs s)" using wf by (simp add: smi_wf_def)
  obtain a p where al: "AllocatePool sizeof_SMI_HANDLER (SmiPool s) = Some (a, p)"
    using smm_objects.alloc_total [OF ok AllocatePool_smi_sizes(2)] by blast
  show ?thesis
  proof (cases "a = 0")
    case True
    then have "p = SmiPool s" using smm_objects.alloc_null [OF ok AllocatePool_smi_sizes(2)] al by simp
    then show ?thesis using True al wf by (simp add: SmiHandlerRegister_def)
  next
    case False
    have f: "pool_ok p (add_mset a (objs s))" "a \<notin># objs s"
      using smm_objects.fresh [OF ok AllocatePool_smi_sizes(2) al False] by auto
    show ?thesis
    proof (cases t)
      case None
      then show ?thesis using register_root [OF wf f(1), of h] False f(2) al by (simp add: SmiHandlerRegister_def)
    next
      case (Some g)
      define e where "e = SmiEntry_search (EntryAt s) g (mSmiEntryList s)"
      show ?thesis
      proof (cases "e = 0")
        case e0: False
        note r = search_result [of "EntryAt s" g "mSmiEntryList s", folded e_def, OF e0]
        show ?thesis using register_entry [OF wf f(1), of e g h] r e0 False f(2) al Some e_def
          by (simp add: SmiHandlerRegister_def SmmCoreFindSmiEntry_def Let_def)
      next
        case True
        obtain e' p' where al': "AllocatePool sizeof_SMI_ENTRY p = Some (e', p')"
          using smm_objects.alloc_total [OF f(1) AllocatePool_smi_sizes(1)] by blast
        show ?thesis
        proof (cases "e' = 0")
          case e'0: True
          then have "p' = p" using smm_objects.alloc_null [OF f(1) AllocatePool_smi_sizes(1)] al' by simp
          let ?s = "s\<lparr>HandlerAt := (HandlerAt s)(a \<mapsto> \<lparr>Handler = h, SmiEntry = 0\<rparr>), SmiPool := p\<rparr>"
          have o: "objs ?s = objs s" "addrs ?s = addrs s"
            by (auto simp: objs_def entry_handlers_def addrs_def fun_eq_iff Let_def split: option.splits)
          have "a \<notin> set (entry_handlers s x)" if "x \<in> set (mSmiEntryList s)" for x
            using f(2) handler_obj [OF that] by blast
          moreover have "a \<notin> set (mRootSmiHandlerList s)" using f(2) by (auto simp: objs_def)
          ultimately have "smi_wf ?s" using wf smm_objects.forget [OF f(1)] o
            by (auto simp: smi_wf_def entry_handlers_def)
          then show ?thesis using e'0 \<open>p' = p\<close> al al' Some True e_def False f(2) o
            by (auto simp: SmiHandlerRegister_def SmmCoreFindSmiEntry_def Let_def)
        next
          case e'0: False
          have f': "pool_ok p' (add_mset e' (add_mset a (objs s)))"
            using smm_objects.fresh [OF f(1) AllocatePool_smi_sizes(1) al' e'0] by blast
          show ?thesis using register_new_entry [OF wf f', of g h] e'0 al al' Some True e_def False f(2)
            by (simp add: SmiHandlerRegister_def SmmCoreFindSmiEntry_def Let_def)
        qed
      qed
    qed
  qed
qed

section \<open>Unregistration\<close>

lemma unregister_root:
  fixes s :: "'h smi_state"
  assumes wf: "smi_wf s" and a: "a \<in> set (mRootSmiHandlerList s)"
  shows "\<exists>s'. SmiHandlerUnRegister a s = Some (EFI_SUCCESS, s') \<and> smi_wf s' \<and>
    addrs s' = (addrs s)(None := remove1 a (addrs s None)) \<and> HandlerAt s' = (HandlerAt s)(a := None)"
proof -
  define os where "os = objs s - {#a#}"
  have ao: "a \<in># objs s" using a by (simp add: objs_def)
  have ok: "pool_ok (SmiPool s) (add_mset a os)" using wf ao by (simp add: smi_wf_def os_def)
  obtain p where p: "FreePool a (SmiPool s) = Some p" "pool_ok p os" using smm_objects.release_law [OF ok] by blast
  have once: "a \<notin># os" by (rule smm_objects.once [OF ok])
  have nz: "a \<noteq> 0" using smi_wf_entries(3) [OF wf] a by auto
  obtain x where x: "HandlerAt s a = Some x" "SmiEntry x = 0" using wf a by (auto simp: smi_wf_def)
  let ?s = "s\<lparr>mRootSmiHandlerList := remove1 a (mRootSmiHandlerList s), HandlerAt := (HandlerAt s)(a := None), SmiPool := p\<rparr>"
  have eq: "SmiHandlerUnRegister a s = Some (EFI_SUCCESS, ?s)"
    using nz x p(1) by (simp add: SmiHandlerUnRegister_def Let_def)
  have o: "objs ?s = os"
    using a by (simp add: objs_def os_def entry_handlers_def)
  have "a \<notin> set (entry_handlers s e)" if "e \<in> set (mSmiEntryList s)" for e
  proof -
    have "map_option SmiEntry (HandlerAt s b) = Some e" if "b \<in> set (entry_handlers s e)" for b
      using wf \<open>e \<in> set (mSmiEntryList s)\<close> that by (auto simp: smi_wf_def)
    then show ?thesis using x smi_wf_entries(1) [OF wf] \<open>e \<in> set (mSmiEntryList s)\<close> by fastforce
  qed
  moreover have "a \<notin> set (remove1 a (mRootSmiHandlerList s))"
    using once o objs_root [of a ?s] by auto
  ultimately have "smi_wf ?s"
    using wf p(2) o by (auto simp: smi_wf_def entry_handlers_def dest: notin_set_remove1 [rotated])
  moreover have "addrs ?s = (addrs s)(None := remove1 a (addrs s None))"
    by (auto simp: addrs_def entry_handlers_def fun_eq_iff Let_def split: option.splits)
  ultimately show ?thesis using eq by auto
qed

text \<open>An entry whose last handler has gone is dropped.\<close>

lemma drop_entry:
  fixes s :: "'h smi_state" and p :: smm_memory
  assumes e: "e \<in> set (mSmiEntryList s)" "map_option HandlerType (EntryAt s e) = Some g" "entry_handlers s e = []"
    and nz: "0 \<notin> set (mSmiEntryList s)"
    and d: "distinct (map (\<lambda>e. map_option HandlerType (EntryAt s e)) (mSmiEntryList s))"
  defines "s' \<equiv> s\<lparr>mSmiEntryList := remove1 e (mSmiEntryList s), EntryAt := (EntryAt s)(e := None), SmiPool := p\<rparr>"
  shows "objs s = add_mset e (objs s')" "addrs s' = addrs s"
    "distinct (map (\<lambda>e. map_option HandlerType (EntryAt s' e)) (mSmiEntryList s'))"
proof -
  have dl: "distinct (mSmiEntryList s)" using d by (simp add: distinct_map)
  then have ne: "e \<notin> set (remove1 e (mSmiEntryList s))" by (rule not_in_remove1)
  have eh: "entry_handlers s' x = entry_handlers s x" if "x \<noteq> e" for x
    using that by (simp add: entry_handlers_def s'_def)
  have m: "mset (mSmiEntryList s) = add_mset e (mset (remove1 e (mSmiEntryList s)))" using e(1) by simp
  have "(\<Sum>x \<in># mset (remove1 e (mSmiEntryList s)). mset (entry_handlers s' x)) =
      (\<Sum>x \<in># mset (remove1 e (mSmiEntryList s)). mset (entry_handlers s x))"
    using ne eh by (intro arg_cong [of _ _ sum_mset] image_mset_cong) (metis set_mset_mset)
  then show "objs s = add_mset e (objs s')" unfolding objs_def m by (simp add: e(3)) (simp add: s'_def)
  have t: "map (\<lambda>x. map_option HandlerType (EntryAt s' x)) (mSmiEntryList s') =
      map (\<lambda>x. map_option HandlerType (EntryAt s x)) (remove1 e (mSmiEntryList s))"
    using ne by (auto simp: s'_def)
  have "distinct (map (\<lambda>x. map_option HandlerType (EntryAt s x)) (remove1 e (mSmiEntryList s)))"
    using d dl by (auto simp: distinct_map intro: inj_on_subset)
  then show "distinct (map (\<lambda>e. map_option HandlerType (EntryAt s' e)) (mSmiEntryList s'))" unfolding t .
  have se: "SmiEntry_search (EntryAt s') g' (mSmiEntryList s') =
      (if g' = g then 0 else SmiEntry_search (EntryAt s) g' (mSmiEntryList s))" for g'
  proof -
    have "SmiEntry_search (EntryAt s') g' (mSmiEntryList s') = SmiEntry_search (EntryAt s) g' (remove1 e (mSmiEntryList s))"
      unfolding s'_def using ne by simp (rule search_cong, auto)
    then show ?thesis using search_remove1 [OF d nz e(1), of g'] e(2) by auto
  qed
  have sg: "SmiEntry_search (EntryAt s) g (mSmiEntryList s) = e" by (rule search_eq [OF d nz e(1,2)])
  have so: "SmiEntry_search (EntryAt s) g' (mSmiEntryList s) \<noteq> e" if "g' \<noteq> g" for g'
    using search_result [of "EntryAt s" g' "mSmiEntryList s"] e(1,2) nz that by (metis option.inject)
  show "addrs s' = addrs s"
    unfolding fun_eq_iff addrs_def using se sg so eh e(3) by (auto simp: Let_def split: option.splits) (auto simp: s'_def)
qed

text \<open>A handler of a typed entry: the entry goes with its last handler.\<close>

lemma unregister_entry:
  fixes s :: "'h smi_state"
  assumes wf: "smi_wf s" and e: "e \<in> set (mSmiEntryList s)" "map_option HandlerType (EntryAt s e) = Some g"
    and a: "a \<in> set (entry_handlers s e)"
  shows "\<exists>s'. SmiHandlerUnRegister a s = Some (EFI_SUCCESS, s') \<and> smi_wf s' \<and>
    addrs s' = (addrs s)(Some g := remove1 a (addrs s (Some g))) \<and> HandlerAt s' = (HandlerAt s)(a := None)"
proof -
  define os where "os = objs s - {#a#}"
  note ao = handler_obj [OF e(1) a]
  have ok: "pool_ok (SmiPool s) (add_mset a os)" using wf ao by (simp add: smi_wf_def os_def)
  obtain p where p: "FreePool a (SmiPool s) = Some p" "pool_ok p os" using smm_objects.release_law [OF ok] by blast
  have once: "a \<notin># os" by (rule smm_objects.once [OF ok])
  have nz: "a \<noteq> 0" "e \<noteq> 0"
    using smm_objects.nonnull [of "SmiPool s" "objs s"] wf ao smi_wf_entries(1) [OF wf] e(1) by (auto simp: smi_wf_def)
  obtain x where x: "HandlerAt s a = Some x" "SmiEntry x = e" using wf e(1) a by (force simp: smi_wf_def)
  define at1 where "at1 = (EntryAt s)(e \<mapsto> (the (EntryAt s e))\<lparr>SmiHandlers := remove1 a (SmiHandlers (the (EntryAt s e)))\<rparr>)"
  let ?s1 = "s\<lparr>EntryAt := at1, HandlerAt := (HandlerAt s)(a := None), SmiPool := p\<rparr>"
  have eh: "entry_handlers ?s1 y = (if y = e then remove1 a (entry_handlers s e) else entry_handlers s y)" for y
    by (simp add: entry_handlers_def at1_def)
  have ty: "map_option HandlerType (at1 y) = map_option HandlerType (EntryAt s y)" for y
    using e(2) by (auto simp: at1_def)
  have "(\<Sum>y \<in># mset (mSmiEntryList s). mset (entry_handlers ?s1 y)) + mset (entry_handlers s e) =
     (\<Sum>y \<in># mset (mSmiEntryList s). mset (entry_handlers s y)) + mset (entry_handlers ?s1 e)"
    using smi_wf_entries(2) [OF wf] e(1) eh by (intro sum_mset_change) auto
  moreover have "mset (entry_handlers s e) = add_mset a (mset (entry_handlers ?s1 e))" using a eh [of e] by simp
  ultimately have sm: "(\<Sum>y \<in># mset (mSmiEntryList s). mset (entry_handlers s y)) =
     add_mset a (\<Sum>y \<in># mset (mSmiEntryList s). mset (entry_handlers ?s1 y))" by (rule mset_shift)
  have "objs s = add_mset a (objs ?s1)" unfolding objs_def sm by simp
  then have o1: "objs ?s1 = os" by (simp add: os_def)
  have al: "a \<notin> set (mRootSmiHandlerList s)" "a \<notin> set (remove1 a (entry_handlers s e))"
    "\<And>y. y \<in> set (mSmiEntryList s) \<Longrightarrow> y \<noteq> e \<Longrightarrow> a \<notin> set (entry_handlers s y)"
    using once handler_obj [of e ?s1 a] e(1) wf x nz(2) unfolding o1 eh by (auto simp: smi_wf_def) fastforce
  have se: "SmiEntry_search (EntryAt s) g (mSmiEntryList s) = e"
    using wf smi_wf_entries(1) [OF wf] e by (intro search_eq) (auto simp: smi_wf_def)
  have se': "SmiEntry_search (EntryAt s) g' (mSmiEntryList s) \<noteq> e" if "g' \<noteq> g" for g'
    using search_result [of "EntryAt s" g' "mSmiEntryList s"] e(2) nz(2) that by (metis option.inject)
  have keep: "SmiEntry_search at1 g' (mSmiEntryList s) = SmiEntry_search (EntryAt s) g' (mSmiEntryList s)" for g'
    by (rule search_cong) (rule ty)
  have eq: "SmiHandlerUnRegister a s = (if remove1 a (entry_handlers s e) = [] then
      map_option (\<lambda>p'. (EFI_SUCCESS, ?s1\<lparr>mSmiEntryList := remove1 e (mSmiEntryList s), EntryAt := at1(e := None), SmiPool := p'\<rparr>)) (FreePool e p)
      else Some (EFI_SUCCESS, ?s1))"
    using nz x p(1) by (simp add: SmiHandlerUnRegister_def Let_def entry_handlers_def at1_def)
  show ?thesis
  proof (cases "remove1 a (entry_handlers s e) = []")
    case False
    have "smi_wf ?s1" using wf p(2) o1 eh al ty False unfolding smi_wf_def
      by (auto simp: at1_def dest: notin_set_remove1 [rotated])
    moreover have "addrs ?s1 = (addrs s)(Some g := remove1 a (addrs s (Some g)))"
      unfolding fun_eq_iff addrs_def using se se' keep eh nz(2) by (auto simp: Let_def split: option.splits)
    ultimately show ?thesis using eq False by auto
  next
    case True
    let ?s4 = "\<lambda>p'. ?s1\<lparr>mSmiEntryList := remove1 e (mSmiEntryList s), EntryAt := at1(e := None), SmiPool := p'\<rparr>"
    have e1: "e \<in> set (mSmiEntryList ?s1)" "map_option HandlerType (EntryAt ?s1 e) = Some g" "entry_handlers ?s1 e = []"
      "0 \<notin> set (mSmiEntryList ?s1)" using e ty [of e] eh True smi_wf_entries(1) [OF wf] by simp_all
    have d1: "distinct (map (\<lambda>e. map_option HandlerType (EntryAt ?s1 e)) (mSmiEntryList ?s1))"
      using wf ty by (simp add: smi_wf_def)
    have s4: "objs ?s1 = add_mset e (objs (?s4 p'))" "addrs (?s4 p') = addrs ?s1"
      "distinct (map (\<lambda>e. map_option HandlerType (EntryAt (?s4 p') e)) (mSmiEntryList (?s4 p')))" for p'
      using drop_entry [OF e1 d1, of p'] by simp_all
    obtain p' where p': "FreePool e p = Some p'" "pool_ok p' (objs (?s4 p))"
      using smm_objects.release_law [of p e "objs (?s4 p)"] p(2) o1 s4(1) [of p] by auto
    have ne: "e \<notin> set (remove1 e (mSmiEntryList s))"
      by (rule not_in_remove1 [OF smi_wf_entries(2) [OF wf]])
    have "objs (?s4 p') = objs (?s4 p)" by (simp add: objs_def entry_handlers_def)
    then have "smi_wf (?s4 p')"
      using wf p'(2) eh al s4(3) [of p'] ne unfolding smi_wf_def
      by (auto simp: at1_def entry_handlers_def dest: notin_set_remove1 [rotated])
    moreover have "addrs ?s1 = (addrs s)(Some g := remove1 a (addrs s (Some g)))"
      unfolding fun_eq_iff addrs_def using se se' keep eh nz(2) by (auto simp: Let_def split: option.splits)
    ultimately show ?thesis using eq True p'(1) s4(2) [of p'] by auto
  qed
qed

lemma addrs_obj: "a \<in> set (addrs s t) \<Longrightarrow> a \<in># objs s"
  using search_result [of "EntryAt s" _ "mSmiEntryList s"] handler_obj [of _ s a] objs_root [of a s]
  by (auto simp: addrs_def Let_def split: option.splits if_splits)

lemma unregister_any:
  assumes wf: "smi_wf s" and a: "a \<in> set (addrs s t)"
  shows "\<exists>s'. SmiHandlerUnRegister a s = Some (EFI_SUCCESS, s') \<and> smi_wf s' \<and>
    addrs s' = (addrs s)(t := remove1 a (addrs s t)) \<and> HandlerAt s' = (HandlerAt s)(a := None)"
proof (cases t)
  case None
  then show ?thesis using unregister_root [OF wf, of a] a by (simp add: addrs_def)
next
  case (Some g)
  define e where "e = SmiEntry_search (EntryAt s) g (mSmiEntryList s)"
  have "e \<noteq> 0" "a \<in> set (entry_handlers s e)" using a Some by (auto simp: addrs_def e_def Let_def split: if_splits)
  then show ?thesis using unregister_entry [OF wf, of e g a] search_result [of "EntryAt s" g "mSmiEntryList s"] Some e_def
    by auto
qed

lemma manage_loop:
  "SmiManage call t s w = SmiManage_loop call (t = None) (handler_functions s (addrs s t)) EFI_NOT_FOUND False w"
  by (auto simp: SmiManage_def addrs_def Let_def handler_functions_def entry_handlers_def split: option.splits)

text \<open>Two handlers are never at one address.\<close>

lemma addrs_distinct:
  assumes wf: "smi_wf s" shows "distinct (addrs s t)"
proof -
  have one: "count (objs s) a \<le> 1" for a using wf by (simp add: smi_wf_def pool_ok_def)
  have sub: "mset (addrs s t) \<subseteq># objs s"
  proof (cases t)
    case (Some g)
    define e where "e = SmiEntry_search (EntryAt s) g (mSmiEntryList s)"
    show ?thesis
    proof (cases "e = 0")
      case False
      then have "e \<in> set (mSmiEntryList s)" using search_result [of "EntryAt s" g "mSmiEntryList s"] e_def by simp
      then obtain M where "mset (mSmiEntryList s) = add_mset e M" by (metis mset_add set_mset_mset)
      then have "objs s = mset (entry_handlers s e) + (mset (mRootSmiHandlerList s) +
          (\<Sum>x \<in># M. mset (entry_handlers s x)) + add_mset e M)" by (simp add: objs_def)
      then show ?thesis using Some False by (simp add: addrs_def e_def)
    qed (simp add: Some addrs_def e_def)
  qed (simp add: addrs_def objs_def)
  have "count (mset (addrs s t)) a = (if a \<in> set (addrs s t) then 1 else 0)" for a
    using one [of a] mset_subset_eq_count [OF sub, of a] count_greater_zero_iff [of "mset (addrs s t)" a] by (auto simp del: count_greater_zero_iff)
  then show ?thesis by (simp add: distinct_count_atmost_1)
qed

section \<open>Properties\<close>

text \<open>A root interrupt runs every registered root handler, in registration order, whatever each
returns.  The result is EFI_SUCCESS when some handler returned EFI_SUCCESS or
EFI_WARN_INTERRUPT_SOURCE_QUIESCED, the status of the last handler when none did, and EFI_NOT_FOUND
when there is no handler.\<close>

theorem SmiManage_root:
  "SmiManage call None s w =
    (let (sts, w') = run_all call (handler_functions s (mRootSmiHandlerList s)) w in (combined sts, w'))"
  by (simp add: SmiManage_def root_loop combined_def)

text \<open>An interrupt with a type runs the handlers of that type in registration order up to the first
that returns EFI_SUCCESS or EFI_INTERRUPT_PENDING: that status is returned and the handlers after it
do not run.  When no handler returns one of the two, all run and their statuses combine as for a root
interrupt; a type without handlers gives EFI_NOT_FOUND.\<close>

theorem SmiManage_typed:
  assumes "run_all call (handler_functions s before) w = (sts, w')" "\<forall>st \<in> set sts. \<not> stops st"
  shows "(addrs s (Some g) = before \<longrightarrow> SmiManage call (Some g) s w = (combined sts, w')) \<and>
    (addrs s (Some g) = before @ a # after \<and> call (Handler (the (HandlerAt s a))) a w' = (st, w'') \<and> stops st \<longrightarrow>
      SmiManage call (Some g) s w = (st, w''))"
  using typed_loop_no_stop [OF assms] typed_loop_stop [OF assms, of _ a st w'' "handler_functions s after"]
  by (auto simp: manage_loop combined_def handler_functions_def)

text \<open>Registration either fails with EFI_OUT_OF_RESOURCES and leaves the handlers of every type as
they were, or succeeds, hands out a handle that is not in use, and makes the new handler the last to
be called for its type; the handlers of the other types stay.\<close>

theorem SmiHandlerRegister_appends:
  assumes wf: "smi_wf s"
  shows "\<exists>st x s'. SmiHandlerRegister (Some h) t True s = Some (st, x, s') \<and> smi_wf s' \<and>
    (st = EFI_OUT_OF_RESOURCES \<and> x = None \<and> handlers_of s' = handlers_of s \<or>
     st = EFI_SUCCESS \<and> (\<exists>a. x = Some a \<and> a \<in> set (addrs s' t) \<and> (\<forall>t'. a \<notin> set (addrs s t')) \<and>
       handlers_of s' = (handlers_of s)(t := handlers_of s t @ [h])))"
proof -
  obtain st x s' where r: "SmiHandlerRegister (Some h) t True s = Some (st, x, s')" "smi_wf s'"
    and c: "(st = EFI_OUT_OF_RESOURCES \<and> x = None \<and> addrs s' = addrs s \<and> (\<forall>b. b \<in># objs s \<longrightarrow> HandlerAt s' b = HandlerAt s b)) \<or>
     st = EFI_SUCCESS \<and> (\<exists>a. x = Some a \<and> a \<noteq> 0 \<and> a \<notin># objs s \<and> addrs s' = (addrs s)(t := addrs s t @ [a]) \<and>
        map_option Handler (HandlerAt s' a) = Some h \<and> (\<forall>b. b \<noteq> a \<longrightarrow> HandlerAt s' b = HandlerAt s b))"
    using register_cases [OF wf, of h t] by blast
  from c consider (none) "st = EFI_OUT_OF_RESOURCES" "x = None" "handlers_of s' = handlers_of s"
    | (some) a where "st = EFI_SUCCESS" "x = Some a" "a \<notin># objs s" "addrs s' = (addrs s)(t := addrs s t @ [a])"
        "map_option Handler (HandlerAt s' a) = Some h" "\<forall>b. b \<noteq> a \<longrightarrow> HandlerAt s' b = HandlerAt s b"
    by (force simp: handlers_of_def dest: addrs_obj)
  then show ?thesis
  proof cases
    case some
    have "map (\<lambda>b. Handler (the (HandlerAt s' b))) (addrs s u) = map (\<lambda>b. Handler (the (HandlerAt s b))) (addrs s u)" for u
      using some(3,6) addrs_obj [of _ s u] by (metis (no_types, lifting) map_eq_conv)
    then have "handlers_of s' = (handlers_of s)(t := handlers_of s t @ [h])"
      using some(4,5) by (auto simp: handlers_of_def fun_eq_iff)
    then show ?thesis using r some addrs_obj [of a s] by auto
  qed (use r in blast)
qed

text \<open>Unregistering a handle that registration returned takes exactly that handler off the list of
its type, drops the entry of the type when it was the last one, and after it the dispatcher calls the
same handlers as before the registration, in the same order, for every type.\<close>

theorem SmiHandler_register_unregister:
  assumes "smi_wf s" "SmiHandlerRegister (Some h) t True s = Some (EFI_SUCCESS, Some a, s1)"
  shows "\<exists>s2. SmiHandlerUnRegister a s1 = Some (EFI_SUCCESS, s2) \<and> smi_wf s2 \<and>
    addrs s2 = addrs s \<and> handlers_of s2 = handlers_of s"
proof -
  have r: "smi_wf s1" "a \<notin># objs s" "addrs s1 = (addrs s)(t := addrs s t @ [a])" "\<forall>b. b \<noteq> a \<longrightarrow> HandlerAt s1 b = HandlerAt s b"
    using register_cases [OF assms(1), of h t] assms(2) by auto
  have na: "a \<notin> set (addrs s u)" for u using r(2) addrs_obj by blast
  obtain s2 where s2: "SmiHandlerUnRegister a s1 = Some (EFI_SUCCESS, s2)" "smi_wf s2"
    "addrs s2 = (addrs s1)(t := remove1 a (addrs s1 t))" "HandlerAt s2 = (HandlerAt s1)(a := None)"
    using unregister_any [OF r(1), of a t] r(3) by auto
  have ad: "addrs s2 = addrs s" using s2(3) r(3) na [of t] by (auto simp: remove1_append remove1_idem)
  have "handlers_of s2 u = handlers_of s u" for u
    unfolding handlers_of_def ad using na [of u] r(4) s2(4) by auto
  then show ?thesis using s2 ad by blast
qed

text \<open>Unregistering any registered handle succeeds, keeps the lists well formed, and removes one
handler, the one behind the handle, from the handlers of its type and none from the others.\<close>

theorem SmiHandlerUnRegister_removes:
  assumes wf: "smi_wf s" and a: "addrs s t = xs @ a # ys"
  shows "\<exists>s'. SmiHandlerUnRegister a s = Some (EFI_SUCCESS, s') \<and> smi_wf s' \<and> addrs s' = (addrs s)(t := xs @ ys) \<and>
    (\<forall>b. b \<noteq> a \<longrightarrow> HandlerAt s' b = HandlerAt s b)"
proof -
  have "a \<notin> set xs" using addrs_distinct [OF wf, of t] a by simp
  then show ?thesis using unregister_any [OF wf, of a t] a by (auto simp: remove1_append)
qed

text \<open>The interface description of SmiManage promises EFI_INTERRUPT_PENDING when a root handler
could not quiesce its interrupt.  With a handler that returns EFI_INTERRUPT_PENDING followed by one
that returns EFI_WARN_INTERRUPT_SOURCE_PENDING the code returns the latter.\<close>

lemma SmiManage_pending_lost:
  "SmiManage (\<lambda>st a w. (st, w)) None \<lparr>SmiPool = p, mRootSmiHandlerList = [64, 128], mSmiEntryList = [],
      EntryAt = Map.empty, HandlerAt = [64 \<mapsto> \<lparr>Handler = EFI_INTERRUPT_PENDING, SmiEntry = 0\<rparr>,
        128 \<mapsto> \<lparr>Handler = EFI_WARN_INTERRUPT_SOURCE_PENDING, SmiEntry = 0\<rparr>]\<rparr> () =
    (EFI_WARN_INTERRUPT_SOURCE_PENDING, ())"
  by (simp add: SmiManage_def handler_functions_def)

section \<open>Witnesses\<close>

definition smi_init :: "'h smi_state" where
  "smi_init = \<lparr>SmiPool = sample_pool, mRootSmiHandlerList = [], mSmiEntryList = [], EntryAt = Map.empty, HandlerAt = Map.empty\<rparr>"

lemma smi_init_wf: "smi_wf smi_init"
  using sample_pool_inv by (force simp: smi_wf_def smi_init_def objs_def pool_ok_def)

theorem SmiHandlerRegister_appends_witness:
  "\<exists>st x s'. SmiHandlerRegister (Some (7::nat)) (Some 3) True smi_init = Some (st, x, s') \<and> smi_wf s' \<and>
    (st = EFI_OUT_OF_RESOURCES \<and> x = None \<and> handlers_of s' = handlers_of smi_init \<or>
     st = EFI_SUCCESS \<and> (\<exists>a. x = Some a \<and> a \<in> set (addrs s' (Some 3)) \<and> (\<forall>t'. a \<notin> set (addrs (smi_init :: nat smi_state) t')) \<and>
       handlers_of s' = (handlers_of smi_init)(Some 3 := handlers_of smi_init (Some 3) @ [7])))"
  by (rule SmiHandlerRegister_appends [OF smi_init_wf])


lemma sample_pool_index: "i \<le> 6 \<Longrightarrow> \<exists>h s'. InternalAllocPoolByIndex i sample_pool = Some (EFI_SUCCESS, Some h, s')"
proof (induction i rule: inc_induct)
  case base
  show ?case
    by (simp add: InternalAllocPoolByIndex.simps [of 6] MAX_POOL_INDEX_6 sample_pool_def SmmInternalAllocatePages_def
        EFI_SIZE_TO_PAGES_def pool_consts EFI_PAGE_MASK_def page_eval)
next
  case (step i)
  then obtain h s' where "InternalAllocPoolByIndex (Suc i) sample_pool = Some (EFI_SUCCESS, Some h, s')" by blast
  then show ?case using step
    by (simp add: InternalAllocPoolByIndex.simps [of i] MAX_POOL_INDEX_6 sample_pool_def Let_def)
qed

lemma sample_pool_handler: "\<exists>a p. AllocatePool sizeof_SMI_HANDLER sample_pool = Some (a, p) \<and> a \<noteq> 0"
proof -
  have one: "granule_index 1 = 0" using granule_index [of 1] by (cases "unat (granule_index 1)") (auto simp: word_unat_eq_iff)
  obtain h s' where "InternalAllocPoolByIndex 0 sample_pool = Some (EFI_SUCCESS, Some h, s')" using sample_pool_index [of 0] by auto
  then have al: "SmmAllocatePool EfiRuntimeServicesData sizeof_SMI_HANDLER sample_pool = Some (EFI_SUCCESS, Some (h + 16), s')"
    by (simp add: SmmAllocatePool_def index_fold one sizeof_SMI_HANDLER_def)
  then obtain n where "pool_inv (page_granules {16}) s' {#(h, n)#}"
    using AllocatePool_cases [OF sample_pool_inv, of sizeof_SMI_HANDLER EfiRuntimeServicesData]
    by (auto simp: sizeof_SMI_HANDLER_def)
  then have "wf_block (h, n)" by (simp add: pool_inv_def held_block_def)
  then have "unat (h + 16) = unat h + 16" by (subst unat_add_noov) (auto simp: wf_block_def)
  then have "h + 16 \<noteq> 0" by (metis add_is_0 unat_0 zero_neq_numeral)
  then show ?thesis using al by (simp add: AllocatePool_def InternalAllocatePool_def)
qed

lemma sample_register:
  fixes h :: 'h
  shows "\<exists>a s. SmiHandlerRegister (Some h) None True smi_init = Some (EFI_SUCCESS, Some a, s) \<and> smi_wf s \<and> addrs s None = [a]"
proof -
  obtain a p where "AllocatePool sizeof_SMI_HANDLER sample_pool = Some (a, p)" "a \<noteq> 0" using sample_pool_handler by blast
  then have "fst (the (SmiHandlerRegister (Some h) None True smi_init)) = EFI_SUCCESS"
    by (simp add: SmiHandlerRegister_def smi_init_def)
  moreover have "addrs (smi_init :: 'h smi_state) None = []" by (simp add: addrs_def smi_init_def)
  ultimately show ?thesis using register_cases [OF smi_init_wf, of h None] by auto
qed

theorem SmiHandler_register_unregister_witness:
  "\<exists>a s1 s2. SmiHandlerRegister (Some (7::nat)) None True smi_init = Some (EFI_SUCCESS, Some a, s1) \<and>
    SmiHandlerUnRegister a s1 = Some (EFI_SUCCESS, s2) \<and> handlers_of s2 = handlers_of smi_init"
proof -
  obtain a s where s: "SmiHandlerRegister (Some (7::nat)) None True smi_init = Some (EFI_SUCCESS, Some a, s)"
    using sample_register [of "7::nat"] by blast
  then show ?thesis using SmiHandler_register_unregister [OF smi_init_wf s] by blast
qed

theorem SmiHandlerUnRegister_removes_witness:
  "\<exists>a s1 s2. SmiHandlerRegister (Some (7::nat)) None True smi_init = Some (EFI_SUCCESS, Some a, s1) \<and>
    SmiHandlerUnRegister a s1 = Some (EFI_SUCCESS, s2) \<and> addrs s2 None = []"
proof -
  obtain a s where s: "SmiHandlerRegister (Some (7::nat)) None True smi_init = Some (EFI_SUCCESS, Some a, s)" "smi_wf s"
    "addrs s None = [a]" using sample_register [of "7::nat"] by blast
  obtain s2 where "SmiHandlerUnRegister a s = Some (EFI_SUCCESS, s2)" "addrs s2 = (addrs s)(None := [])"
    using SmiHandlerUnRegister_removes [OF s(2), of None "[]" a "[]"] s(3) by auto
  then have "addrs s2 None = []" by simp
  then show ?thesis using s(1) \<open>SmiHandlerUnRegister a s = Some (EFI_SUCCESS, s2)\<close> by blast
qed

definition smi_typed :: "EFI_STATUS smi_state" where
  "smi_typed = \<lparr>SmiPool = sample_pool, mRootSmiHandlerList = [], mSmiEntryList = [0x1000],
     EntryAt = [0x1000 \<mapsto> \<lparr>HandlerType = 3, SmiHandlers = [64, 128, 192]\<rparr>],
     HandlerAt = [64 \<mapsto> \<lparr>Handler = EFI_WARN_INTERRUPT_SOURCE_PENDING, SmiEntry = 0x1000\<rparr>,
       128 \<mapsto> \<lparr>Handler = EFI_INTERRUPT_PENDING, SmiEntry = 0x1000\<rparr>,
       192 \<mapsto> \<lparr>Handler = EFI_SUCCESS, SmiEntry = 0x1000\<rparr>]\<rparr>"

theorem SmiManage_typed_witness:
  "SmiManage (\<lambda>st a w. (st, w @ [a])) (Some 3) smi_typed [] = (EFI_INTERRUPT_PENDING, [64, 128])"
  using SmiManage_typed [of "\<lambda>st a w. (st, w @ [a])" smi_typed "[64]" "[]" "[EFI_WARN_INTERRUPT_SOURCE_PENDING]" "[64]" 3
      128 "[192]" EFI_INTERRUPT_PENDING "[64, 128]"]
  by (simp add: smi_typed_def addrs_def handler_functions_def entry_handlers_def stops_def)

end
