(* ===== verification/SmmDepex.thy ===== *)
theory SmmDepex
  imports Smi
begin

text \<open>
  The evaluator of dependency expressions, \<^verbatim>\<open>MdeModulePkg/Core/PiSmmCore/Dependency.c\<close>, with the
  preprocessing step of \<^verbatim>\<open>Dispatcher.c\<close> that decides whether it is used.

  A dependency expression is a string of opcodes in postfix form.  The evaluator runs it on a stack of
  booleans in a pool block that grows on demand, and patches the expression: once a protocol has been
  found its PUSH is replaced by an opcode that pushes TRUE without a search.  Looking a protocol up, in
  the SMM database and then in the UEFI one, is a pair of parameters.  An assertion that fails has no
  effect, as in a release build.

  The lemmas relate the byte code to an abstract syntax: on every well-formed expression the evaluator
  returns its truth value and leaves the expression with the found protocols marked, it never reports
  TRUE for an expression that is false even when memory runs out, and on every byte string at all it
  ends without leaving the stack.
\<close>

section \<open>Data\<close>

definition EFI_DEP_BEFORE :: UINT8 where "EFI_DEP_BEFORE = 0x00"
definition EFI_DEP_AFTER :: UINT8 where "EFI_DEP_AFTER = 0x01"
definition EFI_DEP_PUSH :: UINT8 where "EFI_DEP_PUSH = 0x02"
definition EFI_DEP_AND :: UINT8 where "EFI_DEP_AND = 0x03"
definition EFI_DEP_OR :: UINT8 where "EFI_DEP_OR = 0x04"
definition EFI_DEP_NOT :: UINT8 where "EFI_DEP_NOT = 0x05"
definition EFI_DEP_TRUE :: UINT8 where "EFI_DEP_TRUE = 0x06"
definition EFI_DEP_FALSE :: UINT8 where "EFI_DEP_FALSE = 0x07"
definition EFI_DEP_END :: UINT8 where "EFI_DEP_END = 0x08"
definition EFI_DEP_REPLACE_TRUE :: UINT8 where "EFI_DEP_REPLACE_TRUE = 0xff"

lemmas dep_ops = EFI_DEP_BEFORE_def EFI_DEP_AFTER_def EFI_DEP_PUSH_def EFI_DEP_AND_def EFI_DEP_OR_def EFI_DEP_NOT_def
  EFI_DEP_TRUE_def EFI_DEP_FALSE_def EFI_DEP_END_def EFI_DEP_REPLACE_TRUE_def

definition DEPEX_STACK_SIZE_INCREMENT :: UINTN where "DEPEX_STACK_SIZE_INCREMENT = 0x1000"

text \<open>
  The three pointers of the stack: its base (\<open>0\<close> for NULL), its end as the number of cells behind the base,
  and the stack pointer as an index.  The cells are the booleans of the block.
\<close>

record depex_stack =
  mDepexEvaluationStack :: UINTN
  StackCells :: "bool list"
  mDepexEvaluationStackPointer :: nat
  StackPool :: smm_memory

text \<open>
  The driver entry without its links and without the pointers that only the image loader reads.  \<open>zeroed_entry\<close>
  is the entry in a block that was just cleared.
\<close>

record EFI_SMM_DRIVER_ENTRY =
  FvHandle :: UINTN
  FileName :: EFI_GUID
  Depex :: "UINT8 list option"
  DepexSize :: UINTN
  Before :: bool
  After :: bool
  BeforeAfterGuid :: EFI_GUID
  Dependent :: bool
  Scheduled :: bool
  Initialized :: bool
  DepexProtocolError :: bool
  ImageHandle :: UINTN
  ImageEntryPoint :: UINTN
  ImageBuffer :: UINTN
  NumberOfPage :: UINTN

definition zeroed_entry :: EFI_SMM_DRIVER_ENTRY where
  "zeroed_entry = \<lparr>FvHandle = 0, FileName = 0, Depex = None, DepexSize = 0, Before = False, After = False,
     BeforeAfterGuid = 0, Dependent = False, Scheduled = False, Initialized = False, DepexProtocolError = False,
     ImageHandle = 0, ImageEntryPoint = 0, ImageBuffer = 0, NumberOfPage = 0\<rparr>"

section \<open>Operations\<close>

text \<open>The cells of a new block are unspecified; they are read only after they have been written.\<close>

definition GrowDepexStack :: "depex_stack \<Rightarrow> (EFI_STATUS \<times> depex_stack) option" where
  "GrowDepexStack s =
    (let NewSize = (if mDepexEvaluationStack s \<noteq> 0 then DEPEX_STACK_SIZE_INCREMENT + of_nat (length (StackCells s))
                 else DEPEX_STACK_SIZE_INCREMENT)
     in case AllocatePool NewSize (StackPool s) of
          None \<Rightarrow> None
        | Some (NewStack, p) \<Rightarrow>
          if NewStack = 0 then Some (EFI_OUT_OF_RESOURCES, s\<lparr>StackPool := p\<rparr>)
          else
            (if mDepexEvaluationStack s \<noteq> 0 then
               map_option (\<lambda>p'. (EFI_SUCCESS, s\<lparr>mDepexEvaluationStack := NewStack, StackPool := p',
                   StackCells := StackCells s @ replicate (unat NewSize - length (StackCells s)) False\<rparr>))
                 (FreePool (mDepexEvaluationStack s) p)
             else Some (EFI_SUCCESS, s\<lparr>mDepexEvaluationStack := NewStack, StackPool := p,
                   StackCells := replicate (unat NewSize) False\<rparr>)))"

definition PushBool :: "bool \<Rightarrow> depex_stack \<Rightarrow> (EFI_STATUS \<times> depex_stack) option" where
  "PushBool Value s =
    (let store = (\<lambda>s. s\<lparr>StackCells := (StackCells s)[mDepexEvaluationStackPointer s := Value],
                        mDepexEvaluationStackPointer := Suc (mDepexEvaluationStackPointer s)\<rparr>)
     in if mDepexEvaluationStackPointer s = length (StackCells s) then
          (case GrowDepexStack s of
             None \<Rightarrow> None
           | Some (Status, s') \<Rightarrow> if EFI_ERROR Status then Some (Status, s') else Some (EFI_SUCCESS, store s'))
        else if mDepexEvaluationStackPointer s > length (StackCells s) then None
        else Some (EFI_SUCCESS, store s))"

text \<open>The popped value is the second component; it is absent on underflow.\<close>

definition PopBool :: "depex_stack \<Rightarrow> EFI_STATUS \<times> bool option \<times> depex_stack" where
  "PopBool s =
    (if mDepexEvaluationStackPointer s = 0 then (EFI_ACCESS_DENIED, None, s)
     else let s' = s\<lparr>mDepexEvaluationStackPointer := mDepexEvaluationStackPointer s - 1\<rparr>
          in (EFI_SUCCESS, Some (StackCells s' ! mDepexEvaluationStackPointer s'), s'))"

text \<open>The GUID behind an opcode; \<open>None\<close> when the expression ends inside it.\<close>

definition guid_of_bytes :: "UINT8 list \<Rightarrow> EFI_GUID" where
  "guid_of_bytes bs = foldr (\<lambda>b g. push_bit 8 g OR ucast b) bs 0"

definition depex_guid :: "UINT8 list \<Rightarrow> nat \<Rightarrow> EFI_GUID option" where
  "depex_guid bs i = (if i + 16 < length bs then Some (guid_of_bytes (take 16 (drop (Suc i) bs))) else None)"

text \<open>
  The loop at the byte index \<open>i\<close>.  A value that is pushed continues at the index \<open>n\<close>; every failure of the
  stack ends the evaluation with FALSE.  The expression is returned as it has been patched.
\<close>

definition depex_push ::
  "bool \<Rightarrow> UINT8 list \<Rightarrow> depex_stack \<Rightarrow> (depex_stack \<Rightarrow> (bool \<times> UINT8 list \<times> depex_stack) option)
    \<Rightarrow> (bool \<times> UINT8 list \<times> depex_stack) option" where
  "depex_push v bs s next =
    (case PushBool v s of
       None \<Rightarrow> None
     | Some (Status, s') \<Rightarrow> if EFI_ERROR Status then Some (False, bs, s') else next s')"

lemma depex_push_cong [fundef_cong]:
  assumes "v = v'" "bs = bs'" "s = s'" "\<And>x. f x = g x"
  shows "depex_push v bs s f = depex_push v' bs' s' g"
proof -
  have "f = g" using assms(4) by (rule ext)
  then show ?thesis using assms(1-3) by simp
qed

function SmmDepex_loop ::
  "(EFI_GUID \<Rightarrow> EFI_STATUS) \<Rightarrow> (EFI_GUID \<Rightarrow> EFI_STATUS) \<Rightarrow> UINTN \<Rightarrow> nat \<Rightarrow> UINT8 list \<Rightarrow> depex_stack
    \<Rightarrow> (bool \<times> UINT8 list \<times> depex_stack) option" where
  "SmmDepex_loop SmmLocate BsLocate Limit i bs s =
    (if unat Limit \<le> i then Some (False, bs, s)
     else if length bs \<le> i then None
     else if bs ! i \<in> {EFI_DEP_BEFORE, EFI_DEP_AFTER, EFI_DEP_PUSH} then
       (case depex_guid bs i of
          None \<Rightarrow> None
        | Some g \<Rightarrow>
          let Status = SmmLocate g;
              Status = (if EFI_ERROR Status then BsLocate g else Status)
          in if EFI_ERROR Status
             then depex_push False bs s (SmmDepex_loop SmmLocate BsLocate Limit (i + 17) bs)
             else let bs' = bs[i := EFI_DEP_REPLACE_TRUE]
                  in depex_push True bs' s (SmmDepex_loop SmmLocate BsLocate Limit (i + 17) bs'))
     else if bs ! i \<in> {EFI_DEP_AND, EFI_DEP_OR} then
       (case PopBool s of
          (_, None, s1) \<Rightarrow> Some (False, bs, s1)
        | (_, Some Operator, s1) \<Rightarrow>
          (case PopBool s1 of
             (_, None, s2) \<Rightarrow> Some (False, bs, s2)
           | (_, Some Operator2, s2) \<Rightarrow>
               depex_push (if bs ! i = EFI_DEP_AND then Operator \<and> Operator2 else Operator \<or> Operator2) bs s2
                 (SmmDepex_loop SmmLocate BsLocate Limit (i + 1) bs)))
     else if bs ! i = EFI_DEP_NOT then
       (case PopBool s of
          (_, None, s1) \<Rightarrow> Some (False, bs, s1)
        | (_, Some Operator, s1) \<Rightarrow>
            depex_push (\<not> Operator) bs s1 (SmmDepex_loop SmmLocate BsLocate Limit (i + 1) bs))
     else if bs ! i = EFI_DEP_TRUE then depex_push True bs s (SmmDepex_loop SmmLocate BsLocate Limit (i + 1) bs)
     else if bs ! i = EFI_DEP_FALSE then depex_push False bs s (SmmDepex_loop SmmLocate BsLocate Limit (i + 1) bs)
     else if bs ! i = EFI_DEP_END then
       (case PopBool s of
          (_, None, s1) \<Rightarrow> Some (False, bs, s1)
        | (_, Some Operator, s1) \<Rightarrow> Some (Operator, bs, s1))
     else if bs ! i = EFI_DEP_REPLACE_TRUE then
       (case depex_guid bs i of
          None \<Rightarrow> None
        | Some g \<Rightarrow> depex_push True bs s (SmmDepex_loop SmmLocate BsLocate Limit (i + 17) bs))
     else Some (False, bs, s))"
  by pat_completeness auto
termination
  by (relation "measure (\<lambda>(_, _, Limit, i, _). unat Limit - i)") auto

declare SmmDepex_loop.simps [simp del]

definition SmmIsSchedulable ::
  "(EFI_GUID \<Rightarrow> EFI_STATUS) \<Rightarrow> (EFI_GUID \<Rightarrow> EFI_STATUS) \<Rightarrow> EFI_SMM_DRIVER_ENTRY \<Rightarrow> depex_stack
    \<Rightarrow> (bool \<times> EFI_SMM_DRIVER_ENTRY \<times> depex_stack) option" where
  "SmmIsSchedulable SmmLocate BsLocate DriverEntry s =
    (if After DriverEntry \<or> Before DriverEntry then Some (False, DriverEntry, s)
     else case Depex DriverEntry of
       None \<Rightarrow> Some (False, DriverEntry, s)
     | Some bs \<Rightarrow>
         map_option (\<lambda>(r, bs', s'). (r, DriverEntry\<lparr>Depex := Some bs'\<rparr>, s'))
           (SmmDepex_loop SmmLocate BsLocate (DepexSize DriverEntry) 0 bs (s\<lparr>mDepexEvaluationStackPointer := 0\<rparr>)))"

definition SmmPreProcessDepex :: "EFI_SMM_DRIVER_ENTRY \<Rightarrow> (EFI_STATUS \<times> EFI_SMM_DRIVER_ENTRY) option" where
  "SmmPreProcessDepex DriverEntry =
    (case Depex DriverEntry of
       None \<Rightarrow> None
     | Some [] \<Rightarrow> None
     | Some (op # bs) \<Rightarrow>
       let d1 = DriverEntry\<lparr>Dependent := True\<rparr>;
           d2 = (if op = EFI_DEP_BEFORE then d1\<lparr>Before := True\<rparr>
                 else if op = EFI_DEP_AFTER then d1\<lparr>After := True\<rparr> else d1)
       in if Before d2 \<or> After d2
          then map_option (\<lambda>g. (EFI_SUCCESS, d2\<lparr>BeforeAfterGuid := g\<rparr>)) (depex_guid (op # bs) 0)
          else Some (EFI_SUCCESS, d2))"

section \<open>The stack\<close>

text \<open>The block of the stack is held, and \<open>os\<close> are the other objects in the pool.\<close>

definition stack_ok :: "UINTN multiset \<Rightarrow> depex_stack \<Rightarrow> bool" where
  "stack_ok os s \<longleftrightarrow>
     pool_ok (StackPool s) (if mDepexEvaluationStack s = 0 then os else add_mset (mDepexEvaluationStack s) os) \<and>
     (mDepexEvaluationStack s = 0 \<longleftrightarrow> StackCells s = []) \<and>
     mDepexEvaluationStackPointer s \<le> length (StackCells s)"

definition pushed :: "bool \<Rightarrow> depex_stack \<Rightarrow> depex_stack \<Rightarrow> bool" where
  "pushed v s s' \<longleftrightarrow> mDepexEvaluationStackPointer s' = Suc (mDepexEvaluationStackPointer s) \<and>
     take (mDepexEvaluationStackPointer s) (StackCells s') = take (mDepexEvaluationStackPointer s) (StackCells s) \<and>
     StackCells s' ! mDepexEvaluationStackPointer s = v \<and> length (StackCells s) \<le> length (StackCells s')"

lemma Grow_result:
  assumes ok: "stack_ok os s" and small: "length (StackCells s) < 2 ^ 60"
  shows "GrowDepexStack s = Some (EFI_OUT_OF_RESOURCES, s) \<or>
    (\<exists>s'. GrowDepexStack s = Some (EFI_SUCCESS, s') \<and> stack_ok os s' \<and>
       mDepexEvaluationStackPointer s' = mDepexEvaluationStackPointer s \<and>
       (\<exists>xs. StackCells s' = StackCells s @ xs \<and> length xs = 4096))"
proof -
  let ?n = "(if mDepexEvaluationStack s \<noteq> 0 then DEPEX_STACK_SIZE_INCREMENT + of_nat (length (StackCells s))
     else DEPEX_STACK_SIZE_INCREMENT) :: UINTN"
  let ?os = "if mDepexEvaluationStack s = 0 then os else add_mset (mDepexEvaluationStack s) os"
  have pool: "pool_ok (StackPool s) ?os" and e: "mDepexEvaluationStack s = 0 \<longleftrightarrow> StackCells s = []"
    and le: "mDepexEvaluationStackPointer s \<le> length (StackCells s)"
    using ok by (auto simp: stack_ok_def)
  have "unat (of_nat (length (StackCells s)) :: UINTN) = length (StackCells s)"
    using small by (intro unat_of_nat64) simp
  then have u: "unat ?n = 4096 + length (StackCells s)"
    using small e by (cases "mDepexEvaluationStack s = 0") (simp_all add: DEPEX_STACK_SIZE_INCREMENT_def unat_add_noov)
  then have "unat ?n < 18446744073709551600" using small by simp
  from smm_objects.alloc_law [OF pool this]
  consider "AllocatePool ?n (StackPool s) = Some (0, StackPool s)"
    | a p where "AllocatePool ?n (StackPool s) = Some (a, p)" "a \<noteq> 0" "pool_ok p (add_mset a ?os)" by blast
  then show ?thesis
  proof cases
    case 1
    then show ?thesis by (simp add: GrowDepexStack_def Let_def)
  next
    case 2
    show ?thesis
    proof (cases "mDepexEvaluationStack s = 0")
      case True
      then show ?thesis using 2 u e le by (simp add: GrowDepexStack_def Let_def stack_ok_def)
    next
      case False
      then have "pool_ok p (add_mset (mDepexEvaluationStack s) (add_mset a os))" using 2(3) by (simp add: add_mset_commute)
      from smm_objects.release_law [OF this] obtain p' where
        "FreePool (mDepexEvaluationStack s) p = Some p'" "pool_ok p' (add_mset a os)" by blast
      then show ?thesis using False 2 u e le by (simp add: GrowDepexStack_def Let_def stack_ok_def)
    qed
  qed
qed

lemma Push_result:
  assumes ok: "stack_ok os s" and small: "mDepexEvaluationStackPointer s < 2 ^ 60"
  shows "(PushBool v s = Some (EFI_OUT_OF_RESOURCES, s) \<and> mDepexEvaluationStackPointer s = length (StackCells s)) \<or>
    (\<exists>s'. PushBool v s = Some (EFI_SUCCESS, s') \<and> stack_ok os s' \<and> pushed v s s')"
proof (cases "mDepexEvaluationStackPointer s = length (StackCells s)")
  case True
  then show ?thesis using Grow_result [OF ok] small
    by (fastforce simp: PushBool_def Let_def stack_ok_def pushed_def nth_append)
next
  case False
  then have "mDepexEvaluationStackPointer s < length (StackCells s)" using ok by (simp add: stack_ok_def)
  then show ?thesis using ok by (auto simp: PushBool_def Let_def stack_ok_def pushed_def)
qed

text \<open>A value that was pushed is what the next pop returns; the cells below stay.\<close>

lemma Pop_pushed:
  assumes "pushed v s s'" "stack_ok os s'"
  shows "PopBool s' = (EFI_SUCCESS, Some v, s'\<lparr>mDepexEvaluationStackPointer := mDepexEvaluationStackPointer s\<rparr>)"
    "stack_ok os (s'\<lparr>mDepexEvaluationStackPointer := mDepexEvaluationStackPointer s\<rparr>)"
  using assms by (auto simp: PopBool_def pushed_def stack_ok_def Let_def)

lemma Pop_result:
  assumes "stack_ok os s"
  shows "\<exists>s'. (PopBool s = (EFI_ACCESS_DENIED, None, s') \<and> stack_ok os s' \<or> (\<exists>v. PopBool s = (EFI_SUCCESS, Some v, s')) \<and> stack_ok os s') \<and>
    mDepexEvaluationStackPointer s' \<le> mDepexEvaluationStackPointer s"
  using assms by (auto simp: PopBool_def stack_ok_def Let_def)

section \<open>Dependency expressions\<close>

text \<open>A protocol carries the mark that it has been found.\<close>

datatype dep = Protocol EFI_GUID bool | DTrue | DFalse | DNot dep | DAnd dep dep | DOr dep dep

fun eval :: "(EFI_GUID \<Rightarrow> bool) \<Rightarrow> dep \<Rightarrow> bool" where
  "eval L (Protocol g c) \<longleftrightarrow> c \<or> L g"
| "eval L DTrue \<longleftrightarrow> True"
| "eval L DFalse \<longleftrightarrow> False"
| "eval L (DNot e) \<longleftrightarrow> \<not> eval L e"
| "eval L (DAnd a b) \<longleftrightarrow> eval L a \<and> eval L b"
| "eval L (DOr a b) \<longleftrightarrow> eval L a \<or> eval L b"

fun mark :: "(EFI_GUID \<Rightarrow> bool) \<Rightarrow> dep \<Rightarrow> dep" where
  "mark L (Protocol g c) = Protocol g (c \<or> L g)"
| "mark L DTrue = DTrue"
| "mark L DFalse = DFalse"
| "mark L (DNot e) = DNot (mark L e)"
| "mark L (DAnd a b) = DAnd (mark L a) (mark L b)"
| "mark L (DOr a b) = DOr (mark L a) (mark L b)"

definition guid_bytes :: "EFI_GUID \<Rightarrow> UINT8 list" where
  "guid_bytes g = map (\<lambda>k. ucast (drop_bit (8 * k) g)) [0 ..< 16]"

fun encode :: "dep \<Rightarrow> UINT8 list" where
  "encode (Protocol g c) = (if c then EFI_DEP_REPLACE_TRUE else EFI_DEP_PUSH) # guid_bytes g"
| "encode DTrue = [EFI_DEP_TRUE]"
| "encode DFalse = [EFI_DEP_FALSE]"
| "encode (DNot e) = encode e @ [EFI_DEP_NOT]"
| "encode (DAnd a b) = encode a @ encode b @ [EFI_DEP_AND]"
| "encode (DOr a b) = encode a @ encode b @ [EFI_DEP_OR]"

text \<open>The number of stack cells an expression needs.\<close>

fun depth :: "dep \<Rightarrow> nat" where
  "depth (Protocol g c) = 1"
| "depth DTrue = 1"
| "depth DFalse = 1"
| "depth (DNot e) = depth e"
| "depth (DAnd a b) = max (depth a) (Suc (depth b))"
| "depth (DOr a b) = max (depth a) (Suc (depth b))"

lemma guid_fold:
  "foldr (\<lambda>b g. push_bit 8 g OR ucast b) (map (\<lambda>k. ucast (drop_bit (8 * k) g) :: UINT8) [m ..< m + n]) 0 =
    take_bit (8 * n) (drop_bit (8 * m) (g :: EFI_GUID))"
proof (induction n arbitrary: m)
  case (Suc n)
  have "[m ..< m + Suc n] = m # [Suc m ..< Suc m + n]" by (simp add: upt_conv_Cons)
  then show ?case using Suc.IH [of "Suc m"]
    by (auto intro!: bit_word_eqI simp: bit_simps)
qed simp

lemma guid_roundtrip [simp]: "guid_of_bytes (guid_bytes g) = g"
  using guid_fold [of g 0 16] by (simp add: guid_of_bytes_def guid_bytes_def take_bit_length_eq [where 'a = 128, simplified])

lemma guid_bytes_length [simp]: "length (guid_bytes g) = 16"
  by (simp add: guid_bytes_def)

lemma mark_length [simp]: "length (encode (mark L e)) = length (encode e)"
  by (induction e) auto

lemma depth_pos: "0 < depth e"
  by (induction e) auto

lemma encode_pos: "0 < length (encode e)"
  by (induction e) auto


section \<open>Running an encoded expression\<close>

definition found :: "(EFI_GUID \<Rightarrow> EFI_STATUS) \<Rightarrow> (EFI_GUID \<Rightarrow> EFI_STATUS) \<Rightarrow> EFI_GUID \<Rightarrow> bool" where
  "found SmmLocate BsLocate g \<longleftrightarrow> \<not> EFI_ERROR (SmmLocate g) \<or> \<not> EFI_ERROR (BsLocate g)"

text \<open>Replacing the topmost value, and the two topmost ones, by another never needs more memory.\<close>

lemma replace_top:
  assumes "pushed v s s'" "stack_ok os s'"
  shows "\<exists>t. PushBool u (s'\<lparr>mDepexEvaluationStackPointer := mDepexEvaluationStackPointer s\<rparr>) = Some (EFI_SUCCESS, t) \<and>
    stack_ok os t \<and> pushed u s t"
proof -
  let ?n = "mDepexEvaluationStackPointer s"
  have "?n < length (StackCells s')" using assms by (simp add: pushed_def stack_ok_def)
  then show ?thesis using assms by (auto simp: PushBool_def Let_def pushed_def stack_ok_def)
qed

lemma pushed_twice:
  assumes "pushed v s s1" "pushed u s1 s2" "stack_ok os s2"
  shows "PopBool s2 = (EFI_SUCCESS, Some u, s2\<lparr>mDepexEvaluationStackPointer := mDepexEvaluationStackPointer s1\<rparr>)"
    "pushed v s (s2\<lparr>mDepexEvaluationStackPointer := mDepexEvaluationStackPointer s1\<rparr>)"
    "stack_ok os (s2\<lparr>mDepexEvaluationStackPointer := mDepexEvaluationStackPointer s1\<rparr>)"
proof -
  let ?n = "mDepexEvaluationStackPointer s"
  have t: "take (Suc ?n) (StackCells s2) = take (Suc ?n) (StackCells s1)" using assms(1,2) by (simp add: pushed_def)
  then have "take ?n (StackCells s2) = take ?n (StackCells s1)" by (metis min.absorb1 le_SucI order_refl take_take)
  moreover have "StackCells s2 ! ?n = StackCells s1 ! ?n" using t by (metis lessI nth_take)
  ultimately show "pushed v s (s2\<lparr>mDepexEvaluationStackPointer := mDepexEvaluationStackPointer s1\<rparr>)"
    using assms(1,2) by (simp add: pushed_def)
qed (use Pop_pushed [OF assms(2,3)] in simp_all)

text \<open>The outcome of a run that leaves one value on the stack, or runs out of memory.\<close>

definition leaves ::
  "UINTN multiset \<Rightarrow> depex_stack \<Rightarrow> nat \<Rightarrow> bool \<Rightarrow> (bool \<times> UINT8 list \<times> depex_stack) option
    \<Rightarrow> (depex_stack \<Rightarrow> (bool \<times> UINT8 list \<times> depex_stack) option) \<Rightarrow> bool" where
  "leaves os s d v r k \<longleftrightarrow>
    (\<exists>bs' s'. r = Some (False, bs', s') \<and> stack_ok os s' \<and> length (StackCells s) < mDepexEvaluationStackPointer s + d) \<or>
    (\<exists>s'. r = k s' \<and> stack_ok os s' \<and> pushed v s s')"

lemma leaves_push:
  assumes "stack_ok os s" "mDepexEvaluationStackPointer s < 2 ^ 60"
  shows "leaves os s 1 v (depex_push v bs s k) k"
  using Push_result [OF assms, of v] assms(1) by (auto simp: leaves_def depex_push_def)

lemma leaves_unary:
  assumes "leaves os s d v r k"
    and "\<And>s'. stack_ok os s' \<Longrightarrow> pushed v s s' \<Longrightarrow>
      k s' = depex_push u bs (s'\<lparr>mDepexEvaluationStackPointer := mDepexEvaluationStackPointer s\<rparr>) k'"
  shows "leaves os s d u r k'"
proof (cases "\<exists>bs' s'. r = Some (False, bs', s') \<and> stack_ok os s' \<and> length (StackCells s) < mDepexEvaluationStackPointer s + d")
  case False
  then obtain s' where s': "r = k s'" "stack_ok os s'" "pushed v s s'" using assms(1) by (auto simp: leaves_def)
  then show ?thesis using replace_top [OF s'(3,2), of u] assms(2) [OF s'(2,3)]
    by (auto simp: leaves_def depex_push_def)
qed (auto simp: leaves_def)

lemma leaves_binary:
  assumes a: "leaves os s d v r k"
    and b: "\<And>s'. stack_ok os s' \<Longrightarrow> pushed v s s' \<Longrightarrow> leaves os s' d' u (k s') k'"
    and c: "\<And>s' s''. stack_ok os s'' \<Longrightarrow> pushed v s s' \<Longrightarrow> pushed u s' s'' \<Longrightarrow>
      k' s'' = depex_push w bs (s''\<lparr>mDepexEvaluationStackPointer := mDepexEvaluationStackPointer s\<rparr>) k''"
  shows "leaves os s (max d (Suc d')) w r k''"
proof (cases "\<exists>bs' s'. r = Some (False, bs', s') \<and> stack_ok os s' \<and> length (StackCells s) < mDepexEvaluationStackPointer s + d")
  case True
  then show ?thesis by (fastforce simp: leaves_def)
next
  case False
  then obtain s' where s': "r = k s'" "stack_ok os s'" "pushed v s s'" using a by (auto simp: leaves_def)
  show ?thesis
  proof (cases "\<exists>bs' s''. k s' = Some (False, bs', s'') \<and> stack_ok os s'' \<and> length (StackCells s') < mDepexEvaluationStackPointer s' + d'")
    case True
    then show ?thesis using s' by (fastforce simp: leaves_def pushed_def)
  next
    case False
    then obtain s'' where s'': "k s' = k' s''" "stack_ok os s''" "pushed u s' s''"
      using b [OF s'(2,3)] by (auto simp: leaves_def)
    note p = pushed_twice [OF s'(3) s''(3,2)]
    show ?thesis using replace_top [OF p(2,3), of w] c [OF s''(2) s'(3) s''(3)] s'(1) s''(1)
      by (auto simp: leaves_def depex_push_def)
  qed
qed

lemma leaves_eq: "leaves os s d v r k \<Longrightarrow> r = r' \<Longrightarrow> (\<And>x. k x = k' x) \<Longrightarrow> leaves os s d v r' k'"
  by (simp add: leaves_def)

lemma run_protocol:
  assumes N: "unat N = length (pre @ encode (Protocol g c) @ post)" and ok: "stack_ok os s"
    and small: "mDepexEvaluationStackPointer s < 2 ^ 60"
  shows "leaves os s 1 (eval (found SL BL) (Protocol g c)) (SmmDepex_loop SL BL N (length pre) (pre @ encode (Protocol g c) @ post) s)
    (SmmDepex_loop SL BL N (length pre + 17) (pre @ encode (mark (found SL BL) (Protocol g c)) @ post))"
proof -
  let ?op = "if c then EFI_DEP_REPLACE_TRUE else EFI_DEP_PUSH"
  let ?bs = "pre @ (?op # guid_bytes g) @ post"
  have at: "?bs ! length pre = ?op" "length pre < unat N" using N by (simp_all add: nth_append)
  have g: "depex_guid ?bs (length pre) = Some g" by (simp add: depex_guid_def)
  have upd: "?bs[length pre := EFI_DEP_REPLACE_TRUE] = pre @ (EFI_DEP_REPLACE_TRUE # guid_bytes g) @ post"
    by (simp add: list_update_append)
  have "SmmDepex_loop SL BL N (length pre) ?bs s =
      depex_push (c \<or> found SL BL g) (pre @ encode (mark (found SL BL) (Protocol g c)) @ post) s
        (SmmDepex_loop SL BL N (length pre + 17) (pre @ encode (mark (found SL BL) (Protocol g c)) @ post))"
  proof (cases c)
    case True
    then show ?thesis using at g by (subst SmmDepex_loop.simps) (simp add: dep_ops)
  next
    case False
    then show ?thesis using at g upd
      by (subst SmmDepex_loop.simps) (simp add: dep_ops found_def Let_def)
  qed
  then show ?thesis using leaves_push [OF ok small] by simp
qed

lemma run_constant:
  assumes N: "unat N = length (pre @ encode e @ post)" and ok: "stack_ok os s"
    and small: "mDepexEvaluationStackPointer s < 2 ^ 60" and e: "e = DTrue \<or> e = DFalse"
  shows "leaves os s 1 (e = DTrue) (SmmDepex_loop SL BL N (length pre) (pre @ encode e @ post) s)
    (SmmDepex_loop SL BL N (length pre + 1) (pre @ encode e @ post))"
proof -
  have "SmmDepex_loop SL BL N (length pre) (pre @ encode e @ post) s =
      depex_push (e = DTrue) (pre @ encode e @ post) s (SmmDepex_loop SL BL N (length pre + 1) (pre @ encode e @ post))"
  proof (cases "e = DTrue")
    case True
    then show ?thesis using N by (subst SmmDepex_loop.simps) (simp add: dep_ops nth_append)
  next
    case False
    then have "e = DFalse" using e by simp
    then show ?thesis using N by (subst SmmDepex_loop.simps) (simp add: dep_ops nth_append)
  qed
  then show ?thesis using leaves_push [OF ok small] by simp
qed

lemma run_not:
  assumes N: "unat N = length (pre @ EFI_DEP_NOT # post)" and p: "stack_ok os s'" "pushed v s s'"
  shows "SmmDepex_loop SL BL N (length pre) (pre @ EFI_DEP_NOT # post) s' =
    depex_push (\<not> v) (pre @ EFI_DEP_NOT # post) (s'\<lparr>mDepexEvaluationStackPointer := mDepexEvaluationStackPointer s\<rparr>)
      (SmmDepex_loop SL BL N (length pre + 1) (pre @ EFI_DEP_NOT # post))"
  using N Pop_pushed [OF p(2,1)]
  by (subst SmmDepex_loop.simps) (auto simp: dep_ops nth_append)

lemma run_binary:
  assumes N: "unat N = length (pre @ op # post)" and p: "stack_ok os s''" "pushed v s s'" "pushed u s' s''"
    and op: "op = EFI_DEP_AND \<or> op = EFI_DEP_OR"
  shows "SmmDepex_loop SL BL N (length pre) (pre @ op # post) s'' =
    depex_push (if op = EFI_DEP_AND then v \<and> u else v \<or> u) (pre @ op # post)
      (s''\<lparr>mDepexEvaluationStackPointer := mDepexEvaluationStackPointer s\<rparr>)
      (SmmDepex_loop SL BL N (length pre + 1) (pre @ op # post))"
proof -
  note t = pushed_twice [OF p(2,3,1)]
  show ?thesis using N op t(1) Pop_pushed [OF t(2,3)]
    by (subst SmmDepex_loop.simps) (auto simp: dep_ops nth_append conj_commute disj_commute)
qed

lemma run_two:
  assumes a: "leaves os s d v r (SmmDepex_loop SL BL N (length pre) (pre @ rest))"
    and b: "\<And>s'. stack_ok os s' \<Longrightarrow> mDepexEvaluationStackPointer s' = Suc (mDepexEvaluationStackPointer s) \<Longrightarrow>
      leaves os s' d' u (SmmDepex_loop SL BL N (length pre) (pre @ rest) s') (SmmDepex_loop SL BL N (length pre') (pre' @ op # post))"
    and N: "unat N = length (pre' @ op # post)" and op: "op = EFI_DEP_AND \<or> op = EFI_DEP_OR"
  shows "leaves os s (max d (Suc d')) (if op = EFI_DEP_AND then v \<and> u else v \<or> u) r
    (SmmDepex_loop SL BL N (length pre' + 1) (pre' @ op # post))"
proof (rule leaves_binary [OF a])
  show "leaves os s' d' u (SmmDepex_loop SL BL N (length pre) (pre @ rest) s') (SmmDepex_loop SL BL N (length pre') (pre' @ op # post))"
    if "stack_ok os s'" "pushed v s s'" for s'
    using b [OF that(1)] that(2) by (simp add: pushed_def)
next
  show "SmmDepex_loop SL BL N (length pre') (pre' @ op # post) s'' =
       depex_push (if op = EFI_DEP_AND then v \<and> u else v \<or> u) (pre' @ op # post) (s''\<lparr>mDepexEvaluationStackPointer := mDepexEvaluationStackPointer s\<rparr>)
        (SmmDepex_loop SL BL N (length pre' + 1) (pre' @ op # post))"
    if "stack_ok os s''" "pushed v s s'" "pushed u s' s''" for s' s''
    by (rule run_binary [OF N that op])
qed

text \<open>An encoded expression anywhere in the code leaves its truth value on the stack and its protocols marked.\<close>

lemma run_encode:
  assumes "unat N = length (pre @ encode e @ post)" "stack_ok os s"
    "mDepexEvaluationStackPointer s \<le> length pre" "unat N < 2 ^ 60"
  shows "leaves os s (depth e) (eval (found SL BL) e) (SmmDepex_loop SL BL N (length pre) (pre @ encode e @ post) s)
    (SmmDepex_loop SL BL N (length pre + length (encode e)) (pre @ encode (mark (found SL BL) e) @ post))"
  using assms
proof (induction e arbitrary: pre post s)
  case (Protocol g c)
  then show ?case using run_protocol [of N pre g c post os s SL BL] by simp
next
  case DTrue
  then show ?case using run_constant [of N pre DTrue post os s SL BL] by simp
next
  case DFalse
  then show ?case using run_constant [of N pre DFalse post os s SL BL] by simp
next
  case (DNot e)
  let ?m = "encode (mark (found SL BL) e)"
  have "leaves os s (depth e) (eval (found SL BL) e) (SmmDepex_loop SL BL N (length pre) (pre @ encode e @ EFI_DEP_NOT # post) s)
    (SmmDepex_loop SL BL N (length pre + length (encode e)) (pre @ ?m @ EFI_DEP_NOT # post))"
    using DNot.prems DNot.IH [of pre "EFI_DEP_NOT # post" s] by simp
  then have "leaves os s (depth e) (\<not> eval (found SL BL) e) (SmmDepex_loop SL BL N (length pre) (pre @ encode e @ EFI_DEP_NOT # post) s)
    (SmmDepex_loop SL BL N (length (pre @ ?m) + 1) ((pre @ ?m) @ EFI_DEP_NOT # post))"
  proof (rule leaves_unary)
    fix s' assume "stack_ok os s'" "pushed (eval (found SL BL) e) s s'"
    then show "SmmDepex_loop SL BL N (length pre + length (encode e)) (pre @ ?m @ EFI_DEP_NOT # post) s' =
       depex_push (\<not> eval (found SL BL) e) ((pre @ ?m) @ EFI_DEP_NOT # post) (s'\<lparr>mDepexEvaluationStackPointer := mDepexEvaluationStackPointer s\<rparr>)
         (SmmDepex_loop SL BL N (length (pre @ ?m) + 1) ((pre @ ?m) @ EFI_DEP_NOT # post))"
      using run_not [of N "pre @ ?m" post os s' "eval (found SL BL) e" s SL BL] DNot.prems(1) by simp
  qed
  then show ?case by (simp add: add.assoc)
next
  case (DAnd a b)
  let ?a = "encode (mark (found SL BL) a)" and ?b = "encode (mark (found SL BL) b)"
  have "leaves os s (depth a) (eval (found SL BL) a)
      (SmmDepex_loop SL BL N (length pre) (pre @ encode a @ encode b @ EFI_DEP_AND # post) s)
      (SmmDepex_loop SL BL N (length (pre @ ?a)) ((pre @ ?a) @ encode b @ EFI_DEP_AND # post))"
    using DAnd.IH(1) [of pre "encode b @ EFI_DEP_AND # post" s] DAnd.prems by simp
  moreover have "leaves os s' (depth b) (eval (found SL BL) b)
      (SmmDepex_loop SL BL N (length (pre @ ?a)) ((pre @ ?a) @ encode b @ EFI_DEP_AND # post) s')
      (SmmDepex_loop SL BL N (length (pre @ ?a @ ?b)) ((pre @ ?a @ ?b) @ EFI_DEP_AND # post))"
    if "stack_ok os s'" "mDepexEvaluationStackPointer s' = Suc (mDepexEvaluationStackPointer s)" for s'
  proof -
    have "mDepexEvaluationStackPointer s' \<le> length (pre @ ?a)" using that(2) DAnd.prems(3) encode_pos [of a] unfolding length_append mark_length by linarith
    then show ?thesis using DAnd.IH(2) [of "pre @ ?a" "EFI_DEP_AND # post" s'] that(1) DAnd.prems by (simp add: add.assoc)
  qed
  ultimately have "leaves os s (max (depth a) (Suc (depth b)))
      (if EFI_DEP_AND = EFI_DEP_AND then eval (found SL BL) a \<and> eval (found SL BL) b else eval (found SL BL) a \<or> eval (found SL BL) b)
      (SmmDepex_loop SL BL N (length pre) (pre @ encode a @ encode b @ EFI_DEP_AND # post) s)
      (SmmDepex_loop SL BL N (length (pre @ ?a @ ?b) + 1) ((pre @ ?a @ ?b) @ EFI_DEP_AND # post))"
    by (rule run_two) (use DAnd.prems(1) in simp_all)
  then show ?case by simp
next
  case (DOr a b)
  let ?a = "encode (mark (found SL BL) a)" and ?b = "encode (mark (found SL BL) b)"
  have "leaves os s (depth a) (eval (found SL BL) a)
      (SmmDepex_loop SL BL N (length pre) (pre @ encode a @ encode b @ EFI_DEP_OR # post) s)
      (SmmDepex_loop SL BL N (length (pre @ ?a)) ((pre @ ?a) @ encode b @ EFI_DEP_OR # post))"
    using DOr.IH(1) [of pre "encode b @ EFI_DEP_OR # post" s] DOr.prems by simp
  moreover have "leaves os s' (depth b) (eval (found SL BL) b)
      (SmmDepex_loop SL BL N (length (pre @ ?a)) ((pre @ ?a) @ encode b @ EFI_DEP_OR # post) s')
      (SmmDepex_loop SL BL N (length (pre @ ?a @ ?b)) ((pre @ ?a @ ?b) @ EFI_DEP_OR # post))"
    if "stack_ok os s'" "mDepexEvaluationStackPointer s' = Suc (mDepexEvaluationStackPointer s)" for s'
  proof -
    have "mDepexEvaluationStackPointer s' \<le> length (pre @ ?a)" using that(2) DOr.prems(3) encode_pos [of a] unfolding length_append mark_length by linarith
    then show ?thesis using DOr.IH(2) [of "pre @ ?a" "EFI_DEP_OR # post" s'] that(1) DOr.prems by (simp add: add.assoc)
  qed
  ultimately have "leaves os s (max (depth a) (Suc (depth b)))
      (if EFI_DEP_OR = EFI_DEP_AND then eval (found SL BL) a \<and> eval (found SL BL) b else eval (found SL BL) a \<or> eval (found SL BL) b)
      (SmmDepex_loop SL BL N (length pre) (pre @ encode a @ encode b @ EFI_DEP_OR # post) s)
      (SmmDepex_loop SL BL N (length (pre @ ?a @ ?b) + 1) ((pre @ ?a @ ?b) @ EFI_DEP_OR # post))"
    by (rule run_two) (use DOr.prems(1) in simp_all)
  then show ?case by (simp add: EFI_DEP_OR_def EFI_DEP_AND_def)
qed

section \<open>Properties\<close>

lemma encode_hd: "hd (encode e) \<in> {EFI_DEP_PUSH, EFI_DEP_REPLACE_TRUE, EFI_DEP_TRUE, EFI_DEP_FALSE}"
proof (induction e)
  case (DNot e)
  then show ?case using encode_pos [of e] by (simp add: hd_append)
next
  case (DAnd a b)
  then show ?case using encode_pos [of a] by (simp add: hd_append)
next
  case (DOr a b)
  then show ?case using encode_pos [of a] by (simp add: hd_append)
qed simp_all

lemma eval_mark: "eval M (mark L e) = eval (\<lambda>g. L g \<or> M g) e"
  by (induction e) auto

text \<open>A driver entry that holds the encoding of an expression, as it is before preprocessing.\<close>

definition holds_depex :: "dep \<Rightarrow> EFI_SMM_DRIVER_ENTRY \<Rightarrow> bool" where
  "holds_depex e d \<longleftrightarrow> Depex d = Some (encode e @ [EFI_DEP_END]) \<and> DepexSize d = of_nat (Suc (length (encode e))) \<and>
     Suc (length (encode e)) < 2 ^ 60 \<and> \<not> Before d \<and> \<not> After d"

lemma preprocess_keeps:
  assumes "holds_depex e d"
  shows "SmmPreProcessDepex d = Some (EFI_SUCCESS, d\<lparr>Dependent := True\<rparr>)"
proof -
  obtain op bs where ob: "encode e @ [EFI_DEP_END] = op # bs" by (cases "encode e @ [EFI_DEP_END]") auto
  then have "op = hd (encode e)" using encode_pos [of e] by (metis hd_append2 length_greater_0_conv list.sel(1))
  then have "op \<noteq> EFI_DEP_BEFORE" "op \<noteq> EFI_DEP_AFTER" using encode_hd [of e] by (auto simp: dep_ops)
  then show ?thesis using assms ob by (simp add: SmmPreProcessDepex_def holds_depex_def Let_def)
qed

lemma schedulable_run:
  assumes d: "holds_depex e d" and ok: "stack_ok os s"
  shows "\<exists>r d' s'. SmmIsSchedulable SL BL d s = Some (r, d', s') \<and> stack_ok os s' \<and> (r \<longrightarrow> eval (found SL BL) e) \<and>
    (depth e \<le> length (StackCells s) \<longrightarrow> r = eval (found SL BL) e \<and>
      d' = d\<lparr>Depex := Some (encode (mark (found SL BL) e) @ [EFI_DEP_END])\<rparr>)"
proof -
  let ?s = "s\<lparr>mDepexEvaluationStackPointer := 0\<rparr>" and ?N = "DepexSize d"
  have N: "unat ?N = Suc (length (encode e))" using d unat_of_nat64 [of "Suc (length (encode e))"] by (simp add: holds_depex_def)
  have ok0: "stack_ok os ?s" using ok by (auto simp: stack_ok_def)
  have "leaves os ?s (depth e) (eval (found SL BL) e) (SmmDepex_loop SL BL ?N 0 (encode e @ [EFI_DEP_END]) ?s)
      (SmmDepex_loop SL BL ?N (length (encode e)) (encode (mark (found SL BL) e) @ [EFI_DEP_END]))"
    using run_encode [of ?N "[]" e "[EFI_DEP_END]" os ?s SL BL] N ok0 d by (simp add: holds_depex_def)
  moreover have "SmmDepex_loop SL BL ?N (length (encode e)) (encode (mark (found SL BL) e) @ [EFI_DEP_END]) s' =
      Some (v, encode (mark (found SL BL) e) @ [EFI_DEP_END], s'\<lparr>mDepexEvaluationStackPointer := 0\<rparr>) \<and>
      stack_ok os (s'\<lparr>mDepexEvaluationStackPointer := 0\<rparr>)" if "stack_ok os s'" "pushed v ?s s'" for v s'
    using Pop_pushed [OF that(2,1)] N
    by (subst SmmDepex_loop.simps) (simp add: dep_ops nth_append)
  ultimately show ?thesis using d
    by (fastforce simp: leaves_def SmmIsSchedulable_def holds_depex_def)
qed

text \<open>C7. A driver whose dependency section encodes an expression is preprocessed without being marked
BEFORE or AFTER.  The evaluator then always returns, never answers TRUE for an expression that the
installed protocols do not satisfy, even when the stack cannot be grown, and with a stack of the
depth of the expression answers exactly its truth value and leaves the section as the same expression
with the protocols it found marked.\<close>

theorem SmmIsSchedulable_correct:
  assumes "holds_depex e d" "stack_ok os s"
  shows "\<exists>d1 r d' s'. SmmPreProcessDepex d = Some (EFI_SUCCESS, d1) \<and> \<not> Before d1 \<and> \<not> After d1 \<and>
    SmmIsSchedulable SL BL d1 s = Some (r, d', s') \<and> stack_ok os s' \<and> (r \<longrightarrow> eval (found SL BL) e) \<and>
    (depth e \<le> length (StackCells s) \<longrightarrow> r = eval (found SL BL) e \<and>
      d' = d1\<lparr>Depex := Some (encode (mark (found SL BL) e) @ [EFI_DEP_END])\<rparr>)"
proof -
  have "holds_depex e (d\<lparr>Dependent := True\<rparr>)" using assms(1) by (simp add: holds_depex_def)
  from schedulable_run [OF this assms(2), of SL BL] show ?thesis
    using preprocess_keeps [OF assms(1)] assms(1) by (auto simp: holds_depex_def)
qed

text \<open>Patching is sound.  When protocols are only added between two evaluations, the evaluation of
the patched section gives the truth value of the original expression under the protocols present at
the second one: a protocol that was found once is not searched again, and no answer changes.\<close>

theorem SmmIsSchedulable_patch_sound:
  assumes "holds_depex e d" "stack_ok os s" "depth e \<le> length (StackCells s)"
    and more: "\<And>g. found SL BL g \<Longrightarrow> found SL' BL' g"
    and first: "SmmIsSchedulable SL BL d s = Some (r, d', s')"
    and s2: "stack_ok os' s2" "depth e \<le> length (StackCells s2)"
  shows "\<exists>d'' s''. SmmIsSchedulable SL' BL' d' s2 = Some (eval (found SL' BL') e, d'', s'')"
proof -
  let ?e = "mark (found SL BL) e"
  have d': "d' = d\<lparr>Depex := Some (encode ?e @ [EFI_DEP_END])\<rparr>"
    using schedulable_run [OF assms(1,2), of SL BL] assms(3) first by auto
  then have "holds_depex ?e d'" using assms(1) by (simp add: holds_depex_def)
  moreover have "depth ?e = depth e" by (induction e) auto
  moreover have "eval (found SL' BL') ?e = eval (found SL' BL') e"
  proof -
    have "(\<lambda>g. found SL BL g \<or> found SL' BL' g) = found SL' BL'" using more by auto
    then show ?thesis by (simp add: eval_mark)
  qed
  ultimately show ?thesis using schedulable_run [OF _ s2(1), of ?e d' SL' BL'] s2(2) by auto
qed


section \<open>Arbitrary byte strings\<close>

definition ends :: "UINTN multiset \<Rightarrow> nat \<Rightarrow> (bool \<times> UINT8 list \<times> depex_stack) option \<Rightarrow> bool" where
  "ends os n r \<longleftrightarrow> (\<exists>b bs' s'. r = Some (b, bs', s') \<and> stack_ok os s' \<and> length bs' = n)"

lemma ends_Some [simp]: "ends os n (Some (b, bs, s)) \<longleftrightarrow> stack_ok os s \<and> length bs = n"
  by (simp add: ends_def)

lemma ends_push:
  assumes "stack_ok os s" "mDepexEvaluationStackPointer s < 2 ^ 60" "length bs = n"
    and "\<And>s'. stack_ok os s' \<Longrightarrow> mDepexEvaluationStackPointer s' = Suc (mDepexEvaluationStackPointer s) \<Longrightarrow> ends os n (k s')"
  shows "ends os n (depex_push v bs s k)"
  using Push_result [OF assms(1,2), of v] assms by (auto simp: depex_push_def pushed_def)

lemma ends_pop:
  assumes "stack_ok os s" "length bs = n"
    and "\<And>v s'. stack_ok os s' \<Longrightarrow> mDepexEvaluationStackPointer s' \<le> mDepexEvaluationStackPointer s \<Longrightarrow> ends os n (f v s')"
  shows "ends os n (case PopBool s of (_, None, s1) \<Rightarrow> Some (False, bs, s1) | (_, Some v, s1) \<Rightarrow> f v s1)"
proof (cases "mDepexEvaluationStackPointer s = 0")
  case False
  have "stack_ok os (s\<lparr>mDepexEvaluationStackPointer := mDepexEvaluationStackPointer s - 1\<rparr>)"
    using assms(1) by (auto simp: stack_ok_def)
  then show ?thesis using False assms(3) by (simp add: PopBool_def Let_def)
qed (use assms in \<open>simp add: PopBool_def\<close>)

lemma ends_if: "(c \<Longrightarrow> ends os n A) \<Longrightarrow> (\<not> c \<Longrightarrow> ends os n B) \<Longrightarrow> ends os n (if c then A else B)"
  by simp

lemma run_total:
  assumes "unat N + 16 \<le> length bs" "length bs < 2 ^ 60" "stack_ok os s" "mDepexEvaluationStackPointer s \<le> i"
  shows "ends os (length bs) (SmmDepex_loop SL BL N i bs s)"
  using assms
proof (induction "unat N - i" arbitrary: i bs s rule: less_induct)
  case less
  note ok = less.prems(3) and ptr = less.prems(4)
  show ?case
  proof (cases "unat N \<le> i")
    case True
    then show ?thesis using ok by (simp add: SmmDepex_loop.simps [of SL BL N i bs s])
  next
    case False
    have small: "mDepexEvaluationStackPointer s < 2 ^ 60" using ptr False less.prems(1,2) by linarith
    have len: "i < length bs" using False less.prems(1) by linarith
    obtain g where g: "depex_guid bs i = Some g" using False less.prems(1) by (auto simp: depex_guid_def)
    have IH: "ends os (length bs') (SmmDepex_loop SL BL N j bs' s')"
      if "i < j" "length bs' = length bs" "stack_ok os s'" "mDepexEvaluationStackPointer s' \<le> j" for j bs' s'
      using less.hyps [of j bs' s'] that False less.prems(1,2) by linarith
    have push: "ends os (length bs) (depex_push v bs' s' (SmmDepex_loop SL BL N j bs'))"
      if "i < j" "length bs' = length bs" "stack_ok os s'" "mDepexEvaluationStackPointer s' \<le> mDepexEvaluationStackPointer s" for v j bs' s'
      using that ptr small IH [of j bs'] by (intro ends_push) auto
    show ?thesis
      unfolding SmmDepex_loop.simps [of SL BL N i bs s] g option.case Let_def
      by (intro ends_if ends_pop push) (use False len ok in \<open>auto intro: order_trans\<close>)
  qed
qed

lemma schedulable_ends:
  assumes "stack_ok os s" "Depex d = Some bs" "unat (DepexSize d) + 16 \<le> length bs" "length bs < 2 ^ 60"
  shows "\<exists>r bs' s'. SmmIsSchedulable SL BL d s = Some (r, d\<lparr>Depex := Some bs'\<rparr>, s') \<and> stack_ok os s' \<and> length bs' = length bs"
proof (cases "After d \<or> Before d")
  case True
  have "d\<lparr>Depex := Some bs\<rparr> = d" using assms(2) by (cases d) simp
  then have "SmmIsSchedulable SL BL d s = Some (False, d\<lparr>Depex := Some bs\<rparr>, s)" using True by (simp add: SmmIsSchedulable_def)
  then show ?thesis using assms(1) by blast
next
  case False
  have "stack_ok os (s\<lparr>mDepexEvaluationStackPointer := 0\<rparr>)" using assms(1) by (auto simp: stack_ok_def)
  from run_total [OF assms(3,4) this, of 0 SL BL] show ?thesis
    using False assms(2) by (auto simp: ends_def SmmIsSchedulable_def)
qed

text \<open>The evaluator is total on arbitrary dependency sections.  Whatever bytes a section holds, with
sixteen readable bytes behind it the evaluation ends, keeps the boolean stack well formed, with its
pointer inside its cells, pops nothing from an empty stack, and leaves a section of the same length.\<close>

theorem SmmIsSchedulable_total:
  assumes "stack_ok os s" "Depex d = Some bs" "unat (DepexSize d) + 16 \<le> length bs" "length bs < 2 ^ 60"
  shows "\<exists>r bs' s'. SmmIsSchedulable SL BL d s = Some (r, d\<lparr>Depex := Some bs'\<rparr>, s') \<and> stack_ok os s' \<and> length bs' = length bs"
  by (rule schedulable_ends [OF assms])

text \<open>A BEFORE opcode behind the first position is reported as an error that makes the result FALSE,
but the code falls through into the PUSH case: with the protocol installed such a section is accepted
and the opcode is patched.\<close>

theorem SmmIsSchedulable_before_is_push:
  assumes "\<not> EFI_ERROR (SL g)" "length cells = 4096"
  shows "SmmIsSchedulable SL BL (zeroed_entry\<lparr>Depex := Some ([EFI_DEP_TRUE, EFI_DEP_BEFORE] @ guid_bytes g @ [EFI_DEP_AND, EFI_DEP_END]),
      DepexSize := 20, Dependent := True\<rparr>)
      \<lparr>mDepexEvaluationStack = 0x1000, StackCells = cells, mDepexEvaluationStackPointer = 0, StackPool = p\<rparr> =
    Some (True, (zeroed_entry\<lparr>Depex := Some ([EFI_DEP_TRUE, EFI_DEP_REPLACE_TRUE] @ guid_bytes g @ [EFI_DEP_AND, EFI_DEP_END]),
      DepexSize := 20, Dependent := True\<rparr>),
      \<lparr>mDepexEvaluationStack = 0x1000, StackCells = cells[0 := True, 1 := True], mDepexEvaluationStackPointer = 0, StackPool = p\<rparr>)"
proof -
  have g: "depex_guid (EFI_DEP_TRUE # EFI_DEP_BEFORE # guid_bytes g @ [EFI_DEP_AND, EFI_DEP_END]) 1 = Some g"
    by (simp add: depex_guid_def)
  obtain c0 c1 cs where "cells = c0 # c1 # cs" using assms(2) by (metis Suc_length_conv numeral_eq_Suc pred_numeral_simps)
  then show ?thesis using assms g
    by (simp add: SmmIsSchedulable_def SmmDepex_loop.simps dep_ops depex_push_def PushBool_def PopBool_def nth_append zeroed_entry_def)
qed


section \<open>Witnesses\<close>

definition sample_stack :: depex_stack where
  "sample_stack = \<lparr>mDepexEvaluationStack = 0x10010, StackCells = replicate 4 False, mDepexEvaluationStackPointer = 0,
     StackPool = sample_pool\<lparr>mSmmMemoryMap := [], PoolHeader := (\<lambda>a. \<lparr>Size = 4096, Available = False\<rparr>)\<rparr>\<rparr>"

lemma sample_stack_ok: "stack_ok {#} sample_stack"
proof -
  let ?p = "sample_pool\<lparr>mSmmMemoryMap := [], PoolHeader := (\<lambda>a. \<lparr>Size = 4096, Available = False\<rparr>)\<rparr>"
  have w: "wf_block (0x10000, 64)" by (simp add: wf_block_def)
  have r: "wf_run 0x10000 1" by (simp add: wf_run_def)
  have "held_block ?p (0x10000, 64)" unfolding held_block_def using w r
    by (auto simp: intro!: exI [of _ 1])
  moreover have "pool_wf ?p" using pool_blocks_empty [of ?p] by (simp add: pool_wf_def sample_pool_def MAX_POOL_INDEX_6 wf_map_def)
  moreover have "free_occ ?p g + occ {#(0x10000, 64)#} g = ind (page_granules {16}) g" for g
    using pool_blocks_empty [of ?p]
    by (auto simp: free_occ_def occ_def ind_def gran_def page_granules_def sample_pool_def)
  ultimately have "pool_inv (page_granules {16}) ?p {#(0x10000, 64)#}" by (simp add: pool_inv_def)
  then have "pool_ok ?p {#0x10010#}" unfolding pool_ok_def by (intro conjI exI [of _ "page_granules {16}"] exI [of _ "{#(0x10000, 64)#}"]) auto
  then show ?thesis by (simp add: stack_ok_def sample_stack_def)
qed

definition sample_dep :: dep where
  "sample_dep = DOr (Protocol 1 False) (DAnd (Protocol 2 False) DTrue)"

definition sample_entry :: EFI_SMM_DRIVER_ENTRY where
  "sample_entry = (zeroed_entry\<lparr>Depex := Some (encode sample_dep @ [EFI_DEP_END]), DepexSize := 38, Dependent := False\<rparr>)"

definition sample_locate :: "EFI_GUID \<Rightarrow> EFI_STATUS" where
  "sample_locate g = (if g = 1 then EFI_SUCCESS else EFI_NOT_FOUND)"

lemma sample_holds: "holds_depex sample_dep sample_entry"
  by (simp add: holds_depex_def sample_entry_def sample_dep_def zeroed_entry_def)

theorem SmmIsSchedulable_correct_witness:
  "\<exists>d1 d' s'. SmmPreProcessDepex sample_entry = Some (EFI_SUCCESS, d1) \<and>
    SmmIsSchedulable sample_locate sample_locate d1 sample_stack = Some (True, d', s') \<and> stack_ok {#} s'"
  using SmmIsSchedulable_correct [OF sample_holds sample_stack_ok, of sample_locate sample_locate]
  by (auto simp: sample_dep_def sample_stack_def found_def sample_locate_def)

theorem SmmIsSchedulable_patch_sound_witness:
  "\<exists>r d' s' d'' s''. SmmIsSchedulable sample_locate sample_locate sample_entry sample_stack = Some (r, d', s') \<and>
    SmmIsSchedulable (\<lambda>g. EFI_SUCCESS) sample_locate d' sample_stack =
      Some (eval (found (\<lambda>g. EFI_SUCCESS) sample_locate) sample_dep, d'', s'')"
proof -
  have dep: "depth sample_dep \<le> length (StackCells sample_stack)" by (simp add: sample_dep_def sample_stack_def)
  obtain r d' s' where f: "SmmIsSchedulable sample_locate sample_locate sample_entry sample_stack = Some (r, d', s')"
    using schedulable_run [OF sample_holds sample_stack_ok, of sample_locate sample_locate] by blast
  from SmmIsSchedulable_patch_sound [OF sample_holds sample_stack_ok dep _ f sample_stack_ok dep, of "\<lambda>g. EFI_SUCCESS" sample_locate]
  show ?thesis using f by (auto simp: found_def)
qed

theorem SmmIsSchedulable_total_witness:
  "\<exists>r bs' s'. SmmIsSchedulable sample_locate sample_locate
      (zeroed_entry\<lparr>Depex := Some (replicate 20 EFI_DEP_AND), DepexSize := 4, Dependent := True\<rparr>)
      sample_stack =
    Some (r, (zeroed_entry\<lparr>Depex := Some bs', DepexSize := 4, Dependent := True\<rparr>), s') \<and>
      stack_ok {#} s' \<and> length bs' = 20"
  using SmmIsSchedulable_total [OF sample_stack_ok, of "zeroed_entry\<lparr>Depex := Some (replicate 20 EFI_DEP_AND), DepexSize := 4, Dependent := True\<rparr>" "replicate 20 EFI_DEP_AND" sample_locate sample_locate]
  by (simp add: zeroed_entry_def)

theorem SmmIsSchedulable_before_is_push_witness:
  "fst (the (SmmIsSchedulable sample_locate sample_locate
      (zeroed_entry\<lparr>Depex := Some ([EFI_DEP_TRUE, EFI_DEP_BEFORE] @ guid_bytes 1 @ [EFI_DEP_AND, EFI_DEP_END]),
      DepexSize := 20, Dependent := True\<rparr>)
      \<lparr>mDepexEvaluationStack = 0x1000, StackCells = replicate 4096 False, mDepexEvaluationStackPointer = 0, StackPool = sample_pool\<rparr>))"
  using SmmIsSchedulable_before_is_push [of sample_locate 1 "replicate 4096 False" sample_locate sample_pool]
  by (simp add: sample_locate_def)

end
