(* ===== verification/SmmProtocol.thy ===== *)
theory SmmProtocol
  imports Smi
begin

text \<open>
  The handle and protocol database of the SMM core: \<^verbatim>\<open>Handle.c\<close>, \<^verbatim>\<open>Locate.c\<close> and \<^verbatim>\<open>Notify.c\<close> of
  \<^verbatim>\<open>MdeModulePkg/Core/PiSmmCore\<close>.

  Handles, protocol entries, protocol interfaces and notification records are objects in pool blocks; the
  state maps the address of each live one to its fields, and the linked lists are lists of addresses.
  An address with no object carries no valid signature, and freeing an object takes its address off the
  map.  A pointer into the list of the interfaces of a protocol is the address of an interface, or \<open>0\<close>
  for the head of the list.  Calling a notification function is the parameter \<open>call\<close>, which may change
  the outside world \<open>'w\<close> but not the database.

  The lemmas relate the objects to one relation, which interface which handle offers for which protocol,
  and show how every operation changes it.
\<close>

section \<open>Data\<close>

record IHANDLE =
  HandleProtocols :: "UINTN list"
  LocateRequest :: UINTN

record PROTOCOL_ENTRY =
  ProtocolID :: EFI_GUID
  Protocols :: "UINTN list"
  Notify :: "UINTN list"

record PROTOCOL_INTERFACE =
  IfHandle :: UINTN
  IfProtocol :: UINTN
  Interface :: UINTN

record 'f PROTOCOL_NOTIFY =
  NotifyProtocol :: UINTN
  Function :: 'f
  Position :: UINTN

record 'f protocol_db =
  DbPool :: smm_memory
  mProtocolDatabase :: "UINTN list"
  gHandleList :: "UINTN list"
  mEfiLocateHandleRequest :: UINTN
  IHandleAt :: "UINTN \<rightharpoonup> IHANDLE"
  ProtEntryAt :: "UINTN \<rightharpoonup> PROTOCOL_ENTRY"
  InterfaceAt :: "UINTN \<rightharpoonup> PROTOCOL_INTERFACE"
  NotifyAt :: "UINTN \<rightharpoonup> 'f PROTOCOL_NOTIFY"

definition sizeof_IHANDLE :: UINTN where "sizeof_IHANDLE = 48"
definition sizeof_PROTOCOL_ENTRY :: UINTN where "sizeof_PROTOCOL_ENTRY = 72"
definition sizeof_PROTOCOL_INTERFACE :: UINTN where "sizeof_PROTOCOL_INTERFACE = 64"
definition sizeof_PROTOCOL_NOTIFY :: UINTN where "sizeof_PROTOCOL_NOTIFY = 48"

text \<open>Zeroing the new block has no effect on fields that are all assigned.\<close>

definition AllocateZeroPool :: "UINTN \<Rightarrow> smm_memory \<Rightarrow> (UINTN \<times> smm_memory) option" where
  "AllocateZeroPool AllocationSize s = InternalAllocatePool EfiRuntimeServicesData AllocationSize s"

section \<open>Handles and interfaces\<close>

definition SmmValidateHandle :: "UINTN \<Rightarrow> 'f protocol_db \<Rightarrow> EFI_STATUS" where
  "SmmValidateHandle UserHandle s =
    (if UserHandle = 0 then EFI_INVALID_PARAMETER
     else if IHandleAt s UserHandle = None then EFI_INVALID_PARAMETER
     else EFI_SUCCESS)"

fun ProtEntry_search :: "(UINTN \<rightharpoonup> PROTOCOL_ENTRY) \<Rightarrow> EFI_GUID \<Rightarrow> UINTN list \<Rightarrow> UINTN" where
  "ProtEntry_search at g [] = 0"
| "ProtEntry_search at g (e # es) =
    (if map_option ProtocolID (at e) = Some g then e else ProtEntry_search at g es)"

definition SmmFindProtocolEntry ::
  "EFI_GUID \<Rightarrow> bool \<Rightarrow> 'f protocol_db \<Rightarrow> (UINTN \<times> 'f protocol_db) option" where
  "SmmFindProtocolEntry g Create s =
    (let e = ProtEntry_search (ProtEntryAt s) g (mProtocolDatabase s) in
     if e = 0 \<and> Create then
       (case AllocatePool sizeof_PROTOCOL_ENTRY (DbPool s) of
          None \<Rightarrow> None
        | Some (e', p) \<Rightarrow>
            if e' \<noteq> 0 then
              Some (e', s\<lparr>DbPool := p, mProtocolDatabase := mProtocolDatabase s @ [e'],
                ProtEntryAt := (ProtEntryAt s)(e' \<mapsto> \<lparr>ProtocolID = g, Protocols = [], Notify = []\<rparr>)\<rparr>)
            else Some (e', s\<lparr>DbPool := p\<rparr>))
     else Some (e, s))"

fun Interface_search ::
  "(UINTN \<rightharpoonup> PROTOCOL_INTERFACE) \<Rightarrow> UINTN \<Rightarrow> UINTN \<Rightarrow> UINTN list \<Rightarrow> UINTN" where
  "Interface_search at e i [] = 0"
| "Interface_search at e i (a # as) =
    (if Interface (the (at a)) = i \<and> IfProtocol (the (at a)) = e then a else Interface_search at e i as)"

definition SmmFindProtocolInterface :: "UINTN \<Rightarrow> EFI_GUID \<Rightarrow> UINTN \<Rightarrow> 'f protocol_db \<Rightarrow> UINTN" where
  "SmmFindProtocolInterface Handle g i s =
    (let e = ProtEntry_search (ProtEntryAt s) g (mProtocolDatabase s) in
     if e \<noteq> 0 then Interface_search (InterfaceAt s) e i (HandleProtocols (the (IHandleAt s Handle))) else 0)"

fun Protocol_search ::
  "(UINTN \<rightharpoonup> PROTOCOL_ENTRY) \<Rightarrow> (UINTN \<rightharpoonup> PROTOCOL_INTERFACE) \<Rightarrow> EFI_GUID \<Rightarrow> UINTN list \<Rightarrow> UINTN" where
  "Protocol_search ents ifs g [] = 0"
| "Protocol_search ents ifs g (a # as) =
    (if ProtocolID (the (ents (IfProtocol (the (ifs a))))) = g then a else Protocol_search ents ifs g as)"

definition SmmGetProtocolInterface :: "UINTN \<Rightarrow> EFI_GUID \<Rightarrow> 'f protocol_db \<Rightarrow> UINTN" where
  "SmmGetProtocolInterface UserHandle g s =
    (if EFI_ERROR (SmmValidateHandle UserHandle s) then 0
     else Protocol_search (ProtEntryAt s) (InterfaceAt s) g (HandleProtocols (the (IHandleAt s UserHandle))))"

text \<open>
  \<open>None\<close> is a NULL protocol pointer, \<open>False\<close> a NULL interface pointer.  The second component is the value
  stored through the interface pointer, if any.
\<close>

definition SmmHandleProtocol ::
  "UINTN \<Rightarrow> EFI_GUID option \<Rightarrow> bool \<Rightarrow> 'f protocol_db \<Rightarrow> EFI_STATUS \<times> UINTN option" where
  "SmmHandleProtocol UserHandle Protocol InterfacePtr s =
    (case Protocol of
       None \<Rightarrow> (EFI_INVALID_PARAMETER, None)
     | Some g \<Rightarrow>
       if \<not> InterfacePtr then (EFI_INVALID_PARAMETER, None)
       else if EFI_ERROR (SmmValidateHandle UserHandle s) then (SmmValidateHandle UserHandle s, Some 0)
       else let Prot = SmmGetProtocolInterface UserHandle g s in
            if Prot = 0 then (EFI_UNSUPPORTED, Some 0)
            else (EFI_SUCCESS, Some (Interface (the (InterfaceAt s Prot)))))"

section \<open>Notification\<close>

definition SmmNotifyProtocol ::
  "('f \<Rightarrow> EFI_GUID \<Rightarrow> UINTN \<Rightarrow> UINTN \<Rightarrow> 'w \<Rightarrow> 'w) \<Rightarrow> UINTN \<Rightarrow> 'f protocol_db \<Rightarrow> 'w \<Rightarrow> 'w" where
  "SmmNotifyProtocol call Prot s w =
    (let p = the (InterfaceAt s Prot); e = the (ProtEntryAt s (IfProtocol p))
     in fold (\<lambda>n. call (Function (the (NotifyAt s n))) (ProtocolID e) (Interface p) (IfHandle p)) (Notify e) w)"

text \<open>The neighbours of a link in a circular list with the head \<open>0\<close>.\<close>

fun BackLink :: "UINTN \<Rightarrow> UINTN \<Rightarrow> UINTN list \<Rightarrow> UINTN" where
  "BackLink prev a [] = prev"
| "BackLink prev a (b # bs) = (if b = a then prev else BackLink b a bs)"

definition ForwardLink :: "UINTN \<Rightarrow> UINTN list \<Rightarrow> UINTN" where
  "ForwardLink a xs =
    (let rest = (if a = 0 then xs else tl (dropWhile (\<lambda>b. b \<noteq> a) xs)) in case rest of [] \<Rightarrow> 0 | b # _ \<Rightarrow> b)"

definition SmmRemoveInterfaceFromProtocol ::
  "UINTN \<Rightarrow> EFI_GUID \<Rightarrow> UINTN \<Rightarrow> 'f protocol_db \<Rightarrow> UINTN \<times> 'f protocol_db" where
  "SmmRemoveInterfaceFromProtocol Handle g i s =
    (let Prot = SmmFindProtocolInterface Handle g i s in
     if Prot \<noteq> 0 then
       let ea = IfProtocol (the (InterfaceAt s Prot)); e = the (ProtEntryAt s ea) in
       (Prot, s\<lparr>NotifyAt := (\<lambda>n. if n \<in> set (Notify e) \<and> map_option Position (NotifyAt s n) = Some Prot
                  then map_option (\<lambda>q. q\<lparr>Position := BackLink 0 Prot (Protocols e)\<rparr>) (NotifyAt s n)
                  else NotifyAt s n),
                ProtEntryAt := (ProtEntryAt s)(ea \<mapsto> e\<lparr>Protocols := remove1 Prot (Protocols e)\<rparr>)\<rparr>)
     else (0, s))"

fun Notify_search :: "(UINTN \<rightharpoonup> 'f PROTOCOL_NOTIFY) \<Rightarrow> (UINTN \<rightharpoonup> PROTOCOL_ENTRY) \<Rightarrow> EFI_GUID \<Rightarrow> 'f \<Rightarrow> UINTN list \<Rightarrow> UINTN" where
  "Notify_search at ents g f [] = 0"
| "Notify_search at ents g f (n # ns) =
    (if ProtocolID (the (ents (NotifyProtocol (the (at n))))) = g \<and> Function (the (at n)) = f then n
     else Notify_search at ents g f ns)"

text \<open>
  A NULL function is \<open>None\<close>.  The registration is \<open>None\<close> for a NULL pointer and otherwise the value behind it;
  the third component of the result is the value behind it afterwards.
\<close>

definition SmmRegisterProtocolNotify ::
  "EFI_GUID option \<Rightarrow> 'f option \<Rightarrow> UINTN option \<Rightarrow> 'f protocol_db \<Rightarrow> (EFI_STATUS \<times> UINTN option \<times> 'f protocol_db) option" where
  "SmmRegisterProtocolNotify Protocol FunctionPtr Registration s =
    (case (Protocol, Registration) of
       (Some g, Some r) \<Rightarrow>
         (case FunctionPtr of
            None \<Rightarrow>
              let e = ProtEntry_search (ProtEntryAt s) g (mProtocolDatabase s) in
              if e \<noteq> 0 \<and> r \<in> set (Notify (the (ProtEntryAt s e))) then
                let x = the (ProtEntryAt s e);
                    s1 = s\<lparr>ProtEntryAt := (ProtEntryAt s)(e \<mapsto> x\<lparr>Notify := remove1 r (Notify x)\<rparr>),
                           NotifyAt := (NotifyAt s)(r := None)\<rparr>
                in map_option (\<lambda>p. (EFI_SUCCESS, Some r, s1\<lparr>DbPool := p\<rparr>)) (FreePool r (DbPool s1))
              else Some (EFI_NOT_FOUND, Some r, s)
          | Some f \<Rightarrow>
              (case SmmFindProtocolEntry g True s of
                 None \<Rightarrow> None
               | Some (e, s1) \<Rightarrow>
                 if e = 0 then Some (EFI_OUT_OF_RESOURCES, Some r, s1)
                 else let x = the (ProtEntryAt s1 e);
                          n = Notify_search (NotifyAt s1) (ProtEntryAt s1) g f (Notify x) in
                   if n \<noteq> 0 then Some (EFI_SUCCESS, Some n, s1)
                   else case AllocatePool sizeof_PROTOCOL_NOTIFY (DbPool s1) of
                     None \<Rightarrow> None
                   | Some (n', p) \<Rightarrow>
                     if n' \<noteq> 0 then
                       Some (EFI_SUCCESS, Some n', s1\<lparr>DbPool := p,
                         NotifyAt := (NotifyAt s1)(n' \<mapsto> \<lparr>NotifyProtocol = e, Function = f,
                            Position = (if Protocols x = [] then 0 else last (Protocols x))\<rparr>),
                         ProtEntryAt := (ProtEntryAt s1)(e \<mapsto> x\<lparr>Notify := Notify x @ [n']\<rparr>)\<rparr>)
                     else Some (EFI_OUT_OF_RESOURCES, Some r, s1\<lparr>DbPool := p\<rparr>)))
     | _ \<Rightarrow> Some (EFI_INVALID_PARAMETER, Registration, s))"

section \<open>Installation\<close>

text \<open>
  \<open>None\<close> is a NULL handle or protocol pointer; \<open>Native\<close> says that the interface type is
  \<^verbatim>\<open>EFI_NATIVE_INTERFACE\<close>.  The second component of the result is the value of \<^verbatim>\<open>*UserHandle\<close> afterwards.
\<close>

definition SmmInstallProtocolInterfaceNotify ::
  "('f \<Rightarrow> EFI_GUID \<Rightarrow> UINTN \<Rightarrow> UINTN \<Rightarrow> 'w \<Rightarrow> 'w) \<Rightarrow> UINTN option \<Rightarrow> EFI_GUID option \<Rightarrow> bool \<Rightarrow> UINTN \<Rightarrow> bool
    \<Rightarrow> 'f protocol_db \<Rightarrow> 'w \<Rightarrow> (EFI_STATUS \<times> UINTN option \<times> 'f protocol_db \<times> 'w) option" where
  "SmmInstallProtocolInterfaceNotify call UserHandle Protocol Native i NotifyFlag s w =
    (case (UserHandle, Protocol) of
       (Some uh, Some g) \<Rightarrow>
       if \<not> Native then Some (EFI_INVALID_PARAMETER, UserHandle, s, w)
       else let Status = (if uh \<noteq> 0 then fst (SmmHandleProtocol uh Protocol True s) else EFI_OUT_OF_RESOURCES) in
       if uh \<noteq> 0 \<and> \<not> EFI_ERROR Status then Some (EFI_INVALID_PARAMETER, UserHandle, s, w)
       else (case SmmFindProtocolEntry g True s of
         None \<Rightarrow> None
       | Some (e, s1) \<Rightarrow>
         if e = 0 then Some (Status, UserHandle, s1, w)
         else (case AllocateZeroPool sizeof_PROTOCOL_INTERFACE (DbPool s1) of
           None \<Rightarrow> None
         | Some (Prot, p) \<Rightarrow>
           let s2 = s1\<lparr>DbPool := p\<rparr> in
           if Prot = 0 then Some (EFI_OUT_OF_RESOURCES, UserHandle, s2, w)
           else (case (if uh \<noteq> 0 then Some (uh, s2)
                 else (case AllocateZeroPool sizeof_IHANDLE (DbPool s2) of
                         None \<Rightarrow> None
                       | Some (h, p') \<Rightarrow>
                         if h = 0 then Some (0, s2\<lparr>DbPool := p'\<rparr>)
                         else Some (h, s2\<lparr>DbPool := p', gHandleList := gHandleList s2 @ [h],
                                IHandleAt := (IHandleAt s2)(h \<mapsto> \<lparr>HandleProtocols = [], LocateRequest = 0\<rparr>)\<rparr>))) of
             None \<Rightarrow> None
           | Some (h, s3) \<Rightarrow>
             if h = 0 then map_option (\<lambda>p. (EFI_OUT_OF_RESOURCES, UserHandle, s3\<lparr>DbPool := p\<rparr>, w)) (FreePool Prot (DbPool s3))
             else if EFI_ERROR (SmmValidateHandle h s3) then
               map_option (\<lambda>p. (SmmValidateHandle h s3, UserHandle, s3\<lparr>DbPool := p\<rparr>, w)) (FreePool Prot (DbPool s3))
             else
               let x = the (IHandleAt s3 h); y = the (ProtEntryAt s3 e);
                   s4 = s3\<lparr>InterfaceAt := (InterfaceAt s3)(Prot \<mapsto> \<lparr>IfHandle = h, IfProtocol = e, Interface = i\<rparr>),
                           IHandleAt := (IHandleAt s3)(h \<mapsto> x\<lparr>HandleProtocols := Prot # HandleProtocols x\<rparr>),
                           ProtEntryAt := (ProtEntryAt s3)(e \<mapsto> y\<lparr>Protocols := Protocols y @ [Prot]\<rparr>)\<rparr>
               in Some (EFI_SUCCESS, Some h, s4, if NotifyFlag then SmmNotifyProtocol call Prot s4 w else w))))
     | _ \<Rightarrow> Some (EFI_INVALID_PARAMETER, UserHandle, s, w))"

definition SmmInstallProtocolInterface ::
  "('f \<Rightarrow> EFI_GUID \<Rightarrow> UINTN \<Rightarrow> UINTN \<Rightarrow> 'w \<Rightarrow> 'w) \<Rightarrow> UINTN option \<Rightarrow> EFI_GUID option \<Rightarrow> bool \<Rightarrow> UINTN
    \<Rightarrow> 'f protocol_db \<Rightarrow> 'w \<Rightarrow> (EFI_STATUS \<times> UINTN option \<times> 'f protocol_db \<times> 'w) option" where
  "SmmInstallProtocolInterface call UserHandle Protocol Native i s w =
    SmmInstallProtocolInterfaceNotify call UserHandle Protocol Native i True s w"

definition SmmUninstallProtocolInterface ::
  "UINTN \<Rightarrow> EFI_GUID option \<Rightarrow> UINTN \<Rightarrow> 'f protocol_db \<Rightarrow> (EFI_STATUS \<times> 'f protocol_db) option" where
  "SmmUninstallProtocolInterface UserHandle Protocol i s =
    (case Protocol of
       None \<Rightarrow> Some (EFI_INVALID_PARAMETER, s)
     | Some g \<Rightarrow>
       if EFI_ERROR (SmmValidateHandle UserHandle s) then Some (SmmValidateHandle UserHandle s, s)
       else if SmmFindProtocolInterface UserHandle g i s = 0 then Some (EFI_NOT_FOUND, s)
       else
         let (Prot, s1) = SmmRemoveInterfaceFromProtocol UserHandle g i s;
             free = (if Prot \<noteq> 0 then
               let x = the (IHandleAt s1 UserHandle);
                   s2 = s1\<lparr>IHandleAt := (IHandleAt s1)(UserHandle \<mapsto> x\<lparr>HandleProtocols := remove1 Prot (HandleProtocols x)\<rparr>),
                           InterfaceAt := (InterfaceAt s1)(Prot := None)\<rparr>
               in map_option (\<lambda>p. (EFI_SUCCESS, s2\<lparr>DbPool := p\<rparr>)) (FreePool Prot (DbPool s2))
               else Some (EFI_NOT_FOUND, s1))
         in case free of
              None \<Rightarrow> None
            | Some (Status, s3) \<Rightarrow>
              if HandleProtocols (the (IHandleAt s3 UserHandle)) = [] then
                let s4 = s3\<lparr>IHandleAt := (IHandleAt s3)(UserHandle := None), gHandleList := remove1 UserHandle (gHandleList s3)\<rparr>
                in map_option (\<lambda>p. (Status, s4\<lparr>DbPool := p\<rparr>)) (FreePool UserHandle (DbPool s4))
              else Some (Status, s3))"

section \<open>Search\<close>

datatype EFI_LOCATE_SEARCH_TYPE = AllHandles | ByRegisterNotify | ByProtocol

text \<open>
  A position in the list of interfaces of a protocol, while a search runs, is the list of the links behind it.
  The search keeps overwriting \<^verbatim>\<open>*Interface\<close> with the interfaces it passes.
\<close>

fun SmmGetNextLocateByProtocol ::
  "UINTN list \<Rightarrow> UINTN \<Rightarrow> 'f protocol_db \<Rightarrow> UINTN \<times> UINTN \<times> UINTN list \<times> 'f protocol_db" where
  "SmmGetNextLocateByProtocol [] i s = (0, i, [], s)"
| "SmmGetNextLocateByProtocol (a # as) i s =
    (let p = the (InterfaceAt s a); h = IfHandle p; x = the (IHandleAt s h) in
     if LocateRequest x \<noteq> mEfiLocateHandleRequest s
     then (h, Interface p, as, s\<lparr>IHandleAt := (IHandleAt s)(h \<mapsto> x\<lparr>LocateRequest := mEfiLocateHandleRequest s\<rparr>)\<rparr>)
     else SmmGetNextLocateByProtocol as (Interface p) s)"

text \<open>The handle and interface behind the position of a notification record; \<open>None\<close> when the key is not one.\<close>

definition SmmGetNextLocateByRegisterNotify :: "UINTN \<Rightarrow> 'f protocol_db \<Rightarrow> (UINTN \<times> UINTN) option" where
  "SmmGetNextLocateByRegisterNotify SearchKey s =
    (if SearchKey \<noteq> 0 then
       (case NotifyAt s SearchKey of
          None \<Rightarrow> None
        | Some q \<Rightarrow>
          let a = ForwardLink (Position q) (Protocols (the (ProtEntryAt s (NotifyProtocol q)))) in
          if a \<noteq> 0 then Some (IfHandle (the (InterfaceAt s a)), Interface (the (InterfaceAt s a))) else Some (0, 0))
     else Some (0, 0))"

text \<open>The assignment of the next link to the position of the notification record.\<close>

definition Notify_advance :: "UINTN \<Rightarrow> 'f protocol_db \<Rightarrow> 'f protocol_db" where
  "Notify_advance n s = s\<lparr>NotifyAt := (NotifyAt s)(n := map_option (\<lambda>q. q\<lparr>Position :=
     ForwardLink (Position q) (Protocols (the (ProtEntryAt s (NotifyProtocol q))))\<rparr>) (NotifyAt s n))\<rparr>"

definition SmmLocateProtocol ::
  "EFI_GUID option \<Rightarrow> UINTN \<Rightarrow> bool \<Rightarrow> 'f protocol_db \<Rightarrow> (EFI_STATUS \<times> UINTN option \<times> 'f protocol_db) option" where
  "SmmLocateProtocol Protocol Registration InterfacePtr s =
    (if \<not> InterfacePtr then Some (EFI_INVALID_PARAMETER, None, s)
     else case Protocol of
       None \<Rightarrow> Some (EFI_NOT_FOUND, None, s)
     | Some g \<Rightarrow>
       let s1 = s\<lparr>mEfiLocateHandleRequest := mEfiLocateHandleRequest s + 1\<rparr> in
       if Registration = 0 then
         let e = ProtEntry_search (ProtEntryAt s1) g (mProtocolDatabase s1) in
         if e = 0 then Some (EFI_NOT_FOUND, Some 0, s1)
         else let (Handle, i, _, s2) = SmmGetNextLocateByProtocol (Protocols (the (ProtEntryAt s1 e))) 0 s1 in
              Some (if Handle = 0 then EFI_NOT_FOUND else EFI_SUCCESS, Some i, s2)
       else case SmmGetNextLocateByRegisterNotify Registration s1 of
              None \<Rightarrow> None
            | Some (Handle, i) \<Rightarrow>
              if Handle = 0 then Some (EFI_NOT_FOUND, Some i, s1)
              else Some (EFI_SUCCESS, Some i, Notify_advance Registration s1))"

lemma GetNext_shorter:
  "SmmGetNextLocateByProtocol as i s = (h, i', rest, s') \<Longrightarrow> h \<noteq> 0 \<Longrightarrow> length rest < length as"
  by (induction as arbitrary: i) (auto simp: Let_def intro: less_SucI split: if_splits)

text \<open>Repeating \<^verbatim>\<open>GetNext\<close> until it returns NULL.\<close>

function LocateByProtocol_all :: "UINTN list \<Rightarrow> 'f protocol_db \<Rightarrow> UINTN list \<times> 'f protocol_db" where
  "LocateByProtocol_all as s =
    (case SmmGetNextLocateByProtocol as 0 s of
       (h, i, rest, s') \<Rightarrow>
         if h = 0 then ([], s')
         else let (hs, s'') = LocateByProtocol_all rest s' in (h # hs, s''))"
  by pat_completeness auto
termination
  by (relation "measure (\<lambda>(as, s). length as)") (auto dest: GetNext_shorter [OF sym])

declare LocateByProtocol_all.simps [simp del]

fun ResultBuffer_store :: "UINTN \<Rightarrow> UINTN \<Rightarrow> UINTN list \<Rightarrow> UINTN \<times> UINTN list" where
  "ResultBuffer_store BufferSize ResultSize [] = (ResultSize, [])"
| "ResultBuffer_store BufferSize ResultSize (h # hs) =
    (let R = ResultSize + 8; (R', stored) = ResultBuffer_store BufferSize R hs
     in (R', if R \<le> BufferSize then h # stored else stored))"

text \<open>
  The search type is \<open>None\<close> when it is not a value of the enumeration, the buffer size \<open>None\<close> for a NULL pointer.
  The result is the status, the buffer size afterwards, the handles stored in the buffer, and the state.
\<close>

definition SmmLocateHandle ::
  "EFI_LOCATE_SEARCH_TYPE option \<Rightarrow> EFI_GUID option \<Rightarrow> UINTN \<Rightarrow> UINTN option \<Rightarrow> UINTN \<Rightarrow> 'f protocol_db
    \<Rightarrow> (EFI_STATUS \<times> UINTN option \<times> UINTN list \<times> 'f protocol_db) option" where
  "SmmLocateHandle SearchType Protocol SearchKey BufferSize Buffer s =
    (case BufferSize of
       None \<Rightarrow> Some (EFI_INVALID_PARAMETER, None, [], s)
     | Some n \<Rightarrow>
       if n > 0 \<and> Buffer = 0 then Some (EFI_INVALID_PARAMETER, BufferSize, [], s)
       else let s1 = s\<lparr>mEfiLocateHandleRequest := mEfiLocateHandleRequest s + 1\<rparr>;
                search = (case SearchType of
                   Some AllHandles \<Rightarrow> Inr (Some (gHandleList s, s1))
                 | Some ByRegisterNotify \<Rightarrow>
                     if SearchKey = 0 then Inl EFI_INVALID_PARAMETER
                     else Inr (map_option (\<lambda>(h, i). (if h = 0 then [] else [h], s1)) (SmmGetNextLocateByRegisterNotify SearchKey s1))
                 | Some ByProtocol \<Rightarrow>
                     (case Protocol of
                        None \<Rightarrow> Inl EFI_INVALID_PARAMETER
                      | Some g \<Rightarrow>
                        let e = ProtEntry_search (ProtEntryAt s) g (mProtocolDatabase s) in
                        if e = 0 then Inl EFI_NOT_FOUND
                        else Inr (Some (LocateByProtocol_all (Protocols (the (ProtEntryAt s e))) s1)))
                 | None \<Rightarrow> Inl EFI_INVALID_PARAMETER)
            in case search of
                 Inl st \<Rightarrow> Some (st, BufferSize, [], s)
               | Inr None \<Rightarrow> None
               | Inr (Some (hs, s2)) \<Rightarrow>
                 let (ResultSize, stored) = ResultBuffer_store n 0 hs in
                 if ResultSize = 0 then Some (EFI_NOT_FOUND, BufferSize, stored, s2)
                 else if ResultSize > n then Some (EFI_BUFFER_TOO_SMALL, Some ResultSize, stored, s2)
                 else Some (EFI_SUCCESS, Some ResultSize, stored,
                        if SearchType = Some ByRegisterNotify then Notify_advance SearchKey s2 else s2))"

text \<open>The result adds the number of handles and the address of the buffer.\<close>

definition SmmLocateHandleBuffer ::
  "EFI_LOCATE_SEARCH_TYPE option \<Rightarrow> EFI_GUID option \<Rightarrow> UINTN \<Rightarrow> bool \<Rightarrow> bool \<Rightarrow> 'f protocol_db
    \<Rightarrow> (EFI_STATUS \<times> UINTN \<times> UINTN \<times> UINTN list \<times> 'f protocol_db) option" where
  "SmmLocateHandleBuffer SearchType Protocol SearchKey NumberHandlesPtr BufferPtr s =
    (if \<not> NumberHandlesPtr \<or> \<not> BufferPtr then Some (EFI_INVALID_PARAMETER, 0, 0, [], s)
     else case SmmLocateHandle SearchType Protocol SearchKey (Some 0) 0 s of
       None \<Rightarrow> None
     | Some (Status, BufferSize, _, s1) \<Rightarrow>
       if EFI_ERROR Status \<and> Status \<noteq> EFI_BUFFER_TOO_SMALL
       then Some (if Status \<noteq> EFI_INVALID_PARAMETER then EFI_NOT_FOUND else Status, 0, 0, [], s1)
       else case AllocatePool (the BufferSize) (DbPool s1) of
         None \<Rightarrow> None
       | Some (Buffer, p) \<Rightarrow>
         let s2 = s1\<lparr>DbPool := p\<rparr> in
         if Buffer = 0 then Some (EFI_OUT_OF_RESOURCES, 0, 0, [], s2)
         else case SmmLocateHandle SearchType Protocol SearchKey BufferSize Buffer s2 of
           None \<Rightarrow> None
         | Some (Status', BufferSize', stored, s3) \<Rightarrow>
             Some (Status', if EFI_ERROR Status' then 0 else the BufferSize' div 8, Buffer, stored, s3))"

section \<open>The database in order\<close>

text \<open>The addresses of all objects, each of which is a pool block.\<close>

definition db_objs :: "'f protocol_db \<Rightarrow> UINTN set" where
  "db_objs s = dom (IHandleAt s) \<union> dom (ProtEntryAt s) \<union> dom (InterfaceAt s) \<union> dom (NotifyAt s)"

definition db_pool_ok :: "'f protocol_db \<Rightarrow> bool" where
  "db_pool_ok s \<longleftrightarrow> finite (db_objs s) \<and> pool_ok (DbPool s) (mset_set (db_objs s)) \<and>
     dom (IHandleAt s) \<inter> dom (ProtEntryAt s) = {} \<and> dom (IHandleAt s) \<inter> dom (InterfaceAt s) = {} \<and>
     dom (IHandleAt s) \<inter> dom (NotifyAt s) = {} \<and> dom (ProtEntryAt s) \<inter> dom (InterfaceAt s) = {} \<and>
     dom (ProtEntryAt s) \<inter> dom (NotifyAt s) = {} \<and> dom (InterfaceAt s) \<inter> dom (NotifyAt s) = {}"

definition handles_ok :: "'f protocol_db \<Rightarrow> bool" where
  "handles_ok s \<longleftrightarrow> distinct (gHandleList s) \<and> set (gHandleList s) = dom (IHandleAt s) \<and>
     (\<forall>h x. IHandleAt s h = Some x \<longrightarrow> HandleProtocols x \<noteq> [] \<and> distinct (HandleProtocols x) \<and>
        (\<forall>a. a \<in> set (HandleProtocols x) \<longleftrightarrow> (\<exists>p. InterfaceAt s a = Some p \<and> IfHandle p = h)))"

definition entries_ok :: "'f protocol_db \<Rightarrow> bool" where
  "entries_ok s \<longleftrightarrow> distinct (mProtocolDatabase s) \<and> set (mProtocolDatabase s) = dom (ProtEntryAt s) \<and>
     (\<forall>d e x y. ProtEntryAt s d = Some x \<longrightarrow> ProtEntryAt s e = Some y \<longrightarrow> ProtocolID x = ProtocolID y \<longrightarrow> d = e) \<and>
     (\<forall>e x. ProtEntryAt s e = Some x \<longrightarrow> distinct (Protocols x) \<and> distinct (Notify x) \<and>
        (\<forall>a. a \<in> set (Protocols x) \<longleftrightarrow> (\<exists>p. InterfaceAt s a = Some p \<and> IfProtocol p = e)) \<and>
        (\<forall>n. n \<in> set (Notify x) \<longleftrightarrow> (\<exists>q. NotifyAt s n = Some q \<and> NotifyProtocol q = e)))"

definition interfaces_ok :: "'f protocol_db \<Rightarrow> bool" where
  "interfaces_ok s \<longleftrightarrow>
     (\<forall>a p. InterfaceAt s a = Some p \<longrightarrow> IHandleAt s (IfHandle p) \<noteq> None \<and> ProtEntryAt s (IfProtocol p) \<noteq> None) \<and>
     (\<forall>a b p q. InterfaceAt s a = Some p \<longrightarrow> InterfaceAt s b = Some q \<longrightarrow> IfHandle p = IfHandle q \<longrightarrow>
        IfProtocol p = IfProtocol q \<longrightarrow> a = b)"

definition notifies_ok :: "'f protocol_db \<Rightarrow> bool" where
  "notifies_ok s \<longleftrightarrow> (\<forall>n q. NotifyAt s n = Some q \<longrightarrow> ProtEntryAt s (NotifyProtocol q) \<noteq> None \<and>
     (Position q = 0 \<or> Position q \<in> set (Protocols (the (ProtEntryAt s (NotifyProtocol q))))))"

definition db_ok :: "'f protocol_db \<Rightarrow> bool" where
  "db_ok s \<longleftrightarrow> db_pool_ok s \<and> handles_ok s \<and> entries_ok s \<and> interfaces_ok s \<and> notifies_ok s"

text \<open>Which interface a handle offers for a protocol.\<close>

definition offers :: "'f protocol_db \<Rightarrow> UINTN \<Rightarrow> EFI_GUID \<Rightarrow> UINTN \<Rightarrow> bool" where
  "offers s h g i \<longleftrightarrow> (\<exists>a p e. InterfaceAt s a = Some p \<and> IfHandle p = h \<and> Interface p = i \<and>
     ProtEntryAt s (IfProtocol p) = Some e \<and> ProtocolID e = g)"

text \<open>The interfaces of a protocol with their handles, in the order of installation.\<close>

definition provided :: "'f protocol_db \<Rightarrow> EFI_GUID \<Rightarrow> (UINTN \<times> UINTN) list" where
  "provided s g = (let e = ProtEntry_search (ProtEntryAt s) g (mProtocolDatabase s) in
     if e = 0 then [] else map (\<lambda>a. (IfHandle (the (InterfaceAt s a)), Interface (the (InterfaceAt s a))))
       (Protocols (the (ProtEntryAt s e))))"

lemma db_pool:
  assumes "db_ok s"
  shows "finite (db_objs s)" "pool_ok (DbPool s) (mset_set (db_objs s))" "0 \<notin> db_objs s"
proof -
  show *: "finite (db_objs s)" "pool_ok (DbPool s) (mset_set (db_objs s))" using assms by (auto simp: db_ok_def db_pool_ok_def)
  show "0 \<notin> db_objs s" using smm_objects.nonnull [OF *(2), of 0] *(1) by auto
qed

lemma entry_search_result:
  "ProtEntry_search at g es \<noteq> 0 \<Longrightarrow> ProtEntry_search at g es \<in> set es \<and>
     map_option ProtocolID (at (ProtEntry_search at g es)) = Some g"
  by (induction es) (auto split: if_splits)

lemma entry_search_none:
  "0 \<notin> set es \<Longrightarrow> ProtEntry_search at g es = 0 \<longleftrightarrow> (\<forall>e \<in> set es. map_option ProtocolID (at e) \<noteq> Some g)"
  by (induction es) auto

lemma entry_search_cong:
  "(\<And>e. e \<in> set es \<Longrightarrow> map_option ProtocolID (at' e) = map_option ProtocolID (at e)) \<Longrightarrow>
     ProtEntry_search at' g es = ProtEntry_search at g es"
  by (induction es) auto

text \<open>On a database in order the search finds the entry of a protocol exactly when there is one.\<close>

lemma find_entry:
  assumes "db_ok s"
  shows "ProtEntry_search (ProtEntryAt s) g (mProtocolDatabase s) = e \<and> e \<noteq> 0 \<longleftrightarrow>
    (\<exists>x. ProtEntryAt s e = Some x \<and> ProtocolID x = g)"
proof -
  let ?f = "ProtEntry_search (ProtEntryAt s) g (mProtocolDatabase s)"
  have set: "set (mProtocolDatabase s) = dom (ProtEntryAt s)"
    and inj: "\<And>d e x y. ProtEntryAt s d = Some x \<Longrightarrow> ProtEntryAt s e = Some y \<Longrightarrow> ProtocolID x = ProtocolID y \<Longrightarrow> d = e"
    using assms by (auto simp: db_ok_def entries_ok_def)
  have nz: "0 \<notin> set (mProtocolDatabase s)" using db_pool(3) [OF assms] set by (auto simp: db_objs_def)
  show ?thesis
  proof
    assume "?f = e \<and> e \<noteq> 0"
    then show "\<exists>x. ProtEntryAt s e = Some x \<and> ProtocolID x = g"
      using entry_search_result [of "ProtEntryAt s" g "mProtocolDatabase s"] by auto
  next
    assume "\<exists>x. ProtEntryAt s e = Some x \<and> ProtocolID x = g"
    then obtain x where x: "ProtEntryAt s e = Some x" "ProtocolID x = g" by blast
    then have e: "e \<in> set (mProtocolDatabase s)" using set by auto
    then have "?f \<noteq> 0" using entry_search_none [OF nz, of "ProtEntryAt s" g] x by auto
    then obtain y where "ProtEntryAt s ?f = Some y" "ProtocolID y = g"
      using entry_search_result [of "ProtEntryAt s" g "mProtocolDatabase s"] by auto
    then have "?f = e" using inj [of ?f _ e x] x by simp
    then show "?f = e \<and> e \<noteq> 0" using \<open>?f \<noteq> 0\<close> by simp
  qed
qed

lemma no_entry:
  assumes "db_ok s" "ProtEntry_search (ProtEntryAt s) g (mProtocolDatabase s) = 0" "ProtEntryAt s e = Some x"
  shows "ProtocolID x \<noteq> g"
  using find_entry [OF assms(1), of g e] assms(2,3) by auto

lemma entry_lists:
  assumes "db_ok s" "ProtEntryAt s e = Some x"
  shows "a \<in> set (Protocols x) \<longleftrightarrow> (\<exists>p. InterfaceAt s a = Some p \<and> IfProtocol p = e)"
    "n \<in> set (Notify x) \<longleftrightarrow> (\<exists>q. NotifyAt s n = Some q \<and> NotifyProtocol q = e)"
    "distinct (Protocols x)" "distinct (Notify x)"
  using assms unfolding db_ok_def entries_ok_def by blast+

lemma provided_offers:
  assumes "db_ok s"
  shows "(h, i) \<in> set (provided s g) \<longleftrightarrow> offers s h g i"
proof (cases "ProtEntry_search (ProtEntryAt s) g (mProtocolDatabase s) = 0")
  case True
  then show ?thesis using no_entry [OF assms True] by (auto simp: provided_def offers_def)
next
  case False
  then obtain e x where e: "ProtEntry_search (ProtEntryAt s) g (mProtocolDatabase s) = e" "e \<noteq> 0"
    "ProtEntryAt s e = Some x" "ProtocolID x = g"
    using find_entry [OF assms, of g "ProtEntry_search (ProtEntryAt s) g (mProtocolDatabase s)"] by auto
  have mem: "a \<in> set (Protocols x) \<longleftrightarrow> (\<exists>p. InterfaceAt s a = Some p \<and> IfProtocol p = e)" for a
    using entry_lists(1) [OF assms e(3)] by blast
  have only: "d = e" if "ProtEntryAt s d = Some y" "ProtocolID y = g" for d y
    using find_entry [OF assms, of g d] that e(1) by auto
  have "(h, i) \<in> set (provided s g) \<longleftrightarrow> (\<exists>a p. InterfaceAt s a = Some p \<and> IfProtocol p = e \<and> IfHandle p = h \<and> Interface p = i)"
    using e mem by (force simp: provided_def image_iff)
  also have "\<dots> \<longleftrightarrow> offers s h g i" unfolding offers_def using only e(3,4) by metis
  finally show ?thesis .
qed

text \<open>A handle offers at most one interface for a protocol.\<close>

lemma offers_unique:
  assumes "db_ok s" "offers s h g i" "offers s h g j" shows "i = j"
proof -
  obtain a p e where a: "InterfaceAt s a = Some p" "IfHandle p = h" "Interface p = i" "ProtEntryAt s (IfProtocol p) = Some e" "ProtocolID e = g"
    using assms(2) by (auto simp: offers_def)
  obtain b q d where b: "InterfaceAt s b = Some q" "IfHandle q = h" "Interface q = j" "ProtEntryAt s (IfProtocol q) = Some d" "ProtocolID d = g"
    using assms(3) by (auto simp: offers_def)
  have "IfProtocol p = IfProtocol q" using assms(1) a b unfolding db_ok_def entries_ok_def by metis
  then have "a = b" using assms(1) a b unfolding db_ok_def interfaces_ok_def by metis
  then show ?thesis using a b by simp
qed

section \<open>Lookup\<close>

lemma protocol_search_result:
  "Protocol_search ents ifs g as \<noteq> 0 \<Longrightarrow> Protocol_search ents ifs g as \<in> set as \<and>
     ProtocolID (the (ents (IfProtocol (the (ifs (Protocol_search ents ifs g as)))))) = g"
  by (induction as) (auto split: if_splits)

lemma protocol_search_none:
  "0 \<notin> set as \<Longrightarrow> Protocol_search ents ifs g as = 0 \<longleftrightarrow>
     (\<forall>a \<in> set as. ProtocolID (the (ents (IfProtocol (the (ifs a))))) \<noteq> g)"
  by (induction as) auto

lemma interface_nonnull:
  assumes "db_ok s" "InterfaceAt s a = Some p" shows "a \<noteq> 0"
  using db_pool(3) [OF assms(1)] assms(2) by (auto simp: db_objs_def)

lemma handle_nonnull:
  assumes "db_ok s" "IHandleAt s h = Some x" shows "h \<noteq> 0"
  using db_pool(3) [OF assms(1)] assms(2) by (auto simp: db_objs_def)

lemma interface_refs:
  assumes "db_ok s" "InterfaceAt s a = Some p"
  shows "\<exists>x. IHandleAt s (IfHandle p) = Some x" "\<exists>e. ProtEntryAt s (IfProtocol p) = Some e"
  using assms unfolding db_ok_def interfaces_ok_def by blast+

lemma handle_interfaces:
  assumes "db_ok s" "IHandleAt s h = Some x"
  shows "a \<in> set (HandleProtocols x) \<longleftrightarrow> (\<exists>p. InterfaceAt s a = Some p \<and> IfHandle p = h)"
  using assms unfolding db_ok_def handles_ok_def by blast

lemma get_interface:
  assumes ok: "db_ok s"
  shows "(\<exists>p e. InterfaceAt s a = Some p \<and> IfHandle p = h \<and> ProtEntryAt s (IfProtocol p) = Some e \<and> ProtocolID e = g) \<longleftrightarrow>
    SmmGetProtocolInterface h g s = a \<and> a \<noteq> 0"
proof (cases "IHandleAt s h")
  case None
  then have "SmmGetProtocolInterface h g s = 0" by (simp add: SmmGetProtocolInterface_def SmmValidateHandle_def)
  then show ?thesis using None interface_refs(1) [OF ok, of a] by force
next
  case (Some x)
  let ?f = "Protocol_search (ProtEntryAt s) (InterfaceAt s) g (HandleProtocols x)"
  note mem = handle_interfaces [OF ok Some]
  have f: "SmmGetProtocolInterface h g s = ?f"
    using Some handle_nonnull [OF ok Some] by (simp add: SmmGetProtocolInterface_def SmmValidateHandle_def)
  have ent: "ProtEntryAt s (IfProtocol p) \<noteq> None" if "InterfaceAt s b = Some p" for b p
    using interface_refs(2) [OF ok that] by blast
  have nz: "0 \<notin> set (HandleProtocols x)" using mem [of 0] interface_nonnull [OF ok] by blast
  have sound: "\<exists>p e. InterfaceAt s ?f = Some p \<and> IfHandle p = h \<and> ProtEntryAt s (IfProtocol p) = Some e \<and> ProtocolID e = g" if "?f \<noteq> 0"
    using protocol_search_result [OF that] mem [of ?f] ent by fastforce
  show ?thesis
  proof
    assume "\<exists>p e. InterfaceAt s a = Some p \<and> IfHandle p = h \<and> ProtEntryAt s (IfProtocol p) = Some e \<and> ProtocolID e = g"
    then obtain p e where p: "InterfaceAt s a = Some p" "IfHandle p = h" "ProtEntryAt s (IfProtocol p) = Some e" "ProtocolID e = g" by blast
    then have "a \<in> set (HandleProtocols x)" using mem by blast
    then have "?f \<noteq> 0" using protocol_search_none [OF nz, of "ProtEntryAt s" "InterfaceAt s" g] p by force
    then obtain q d where q: "InterfaceAt s ?f = Some q" "IfHandle q = h" "ProtEntryAt s (IfProtocol q) = Some d" "ProtocolID d = g"
      using sound by blast
    have "IfProtocol p = IfProtocol q" using ok p q unfolding db_ok_def entries_ok_def by metis
    then have "?f = a" using ok p q unfolding db_ok_def interfaces_ok_def by metis
    then show "SmmGetProtocolInterface h g s = a \<and> a \<noteq> 0" using f \<open>?f \<noteq> 0\<close> by simp
  next
    assume "SmmGetProtocolInterface h g s = a \<and> a \<noteq> 0"
    then show "\<exists>p e. InterfaceAt s a = Some p \<and> IfHandle p = h \<and> ProtEntryAt s (IfProtocol p) = Some e \<and> ProtocolID e = g"
      using f sound by simp
  qed
qed

lemma HandleProtocol_offers:
  assumes "db_ok s"
  shows "SmmHandleProtocol h (Some g) True s = (EFI_SUCCESS, Some i) \<longleftrightarrow> offers s h g i"
    "(\<nexists>i. offers s h g i) \<Longrightarrow> SmmHandleProtocol h (Some g) True s =
      (if IHandleAt s h = None then EFI_INVALID_PARAMETER else EFI_UNSUPPORTED, Some 0)"
proof -
  have v: "EFI_ERROR (SmmValidateHandle h s) \<longleftrightarrow> IHandleAt s h = None"
    using handle_nonnull [OF assms, of h] by (auto simp: SmmValidateHandle_def)
  have off: "offers s h g i \<longleftrightarrow> SmmGetProtocolInterface h g s \<noteq> 0 \<and> Interface (the (InterfaceAt s (SmmGetProtocolInterface h g s))) = i" for i
  proof -
    have "offers s h g i \<longleftrightarrow> (\<exists>a. SmmGetProtocolInterface h g s = a \<and> a \<noteq> 0 \<and> Interface (the (InterfaceAt s a)) = i)"
      unfolding offers_def using get_interface [OF assms, of _ h g] by (metis option.sel)
    then show ?thesis by simp
  qed
  have n: "IHandleAt s h = None \<Longrightarrow> SmmGetProtocolInterface h g s = 0" using v by (simp add: SmmGetProtocolInterface_def)
  show "SmmHandleProtocol h (Some g) True s = (EFI_SUCCESS, Some i) \<longleftrightarrow> offers s h g i"
    using v off n by (auto simp: SmmHandleProtocol_def SmmValidateHandle_def Let_def)
  show "(\<nexists>i. offers s h g i) \<Longrightarrow> SmmHandleProtocol h (Some g) True s =
      (if IHandleAt s h = None then EFI_INVALID_PARAMETER else EFI_UNSUPPORTED, Some 0)"
    using v off n by (auto simp: SmmHandleProtocol_def SmmValidateHandle_def Let_def)
qed

section \<open>Installation of an interface\<close>

lemma AllocatePool_db_sizes:
  "unat sizeof_IHANDLE < 18446744073709551600" "unat sizeof_PROTOCOL_ENTRY < 18446744073709551600"
  "unat sizeof_PROTOCOL_INTERFACE < 18446744073709551600" "unat sizeof_PROTOCOL_NOTIFY < 18446744073709551600"
  by (simp_all add: sizeof_IHANDLE_def sizeof_PROTOCOL_ENTRY_def sizeof_PROTOCOL_INTERFACE_def sizeof_PROTOCOL_NOTIFY_def)

lemma AllocateZeroPool_eq: "AllocateZeroPool = AllocatePool"
  by (simp add: fun_eq_iff AllocateZeroPool_def AllocatePool_def)

lemma provided_entry:
  assumes "db_ok s" "ProtEntryAt s e = Some x"
  shows "provided s (ProtocolID x) = map (\<lambda>a. (IfHandle (the (InterfaceAt s a)), Interface (the (InterfaceAt s a)))) (Protocols x)"
proof -
  have "ProtEntry_search (ProtEntryAt s) (ProtocolID x) (mProtocolDatabase s) = e \<and> e \<noteq> 0"
    using find_entry [OF assms(1), of "ProtocolID x" e] assms(2) by simp
  then show ?thesis using assms(2) by (simp add: provided_def)
qed

lemma provided_none:
  assumes "db_ok s" "\<And>e x. ProtEntryAt s e = Some x \<Longrightarrow> ProtocolID x \<noteq> g"
  shows "provided s g = []"
proof -
  have "ProtEntry_search (ProtEntryAt s) g (mProtocolDatabase s) = 0"
    using find_entry [OF assms(1), of g "ProtEntry_search (ProtEntryAt s) g (mProtocolDatabase s)"] assms(2) by auto
  then show ?thesis by (simp add: provided_def)
qed

text \<open>A fresh block is none of the objects of the database.\<close>

lemma fresh_object:
  assumes "finite S" "pool_ok p (mset_set S)" "unat R < 18446744073709551600" "AllocatePool R p = Some (a, p')" "a \<noteq> 0"
  shows "a \<notin> S" "pool_ok p' (mset_set (insert a S))"
proof -
  have f: "pool_ok p' (add_mset a (mset_set S)) \<and> a \<notin># mset_set S" by (rule smm_objects.fresh [OF assms(2-5)])
  then show "a \<notin> S" using assms(1) by simp
  then show "pool_ok p' (mset_set (insert a S))" using f assms(1) by simp
qed

lemma release_object:
  assumes "finite S" "pool_ok p (mset_set S)" "a \<in> S"
  shows "\<exists>p'. FreePool a p = Some p' \<and> pool_ok p' (mset_set (S - {a}))"
proof -
  have "pool_ok p (add_mset a (mset_set (S - {a})))"
    using assms by (metis finite_Diff mset_set.insert_remove insert_absorb)
  then show ?thesis by (rule smm_objects.release_law)
qed

lemma add_entry_ok:
  assumes ok: "db_ok s" and none: "ProtEntry_search (ProtEntryAt s) g (mProtocolDatabase s) = 0"
    and a: "a \<notin> db_objs s" "pool_ok p (mset_set (insert a (db_objs s)))"
  defines "s' \<equiv> s\<lparr>DbPool := p, mProtocolDatabase := mProtocolDatabase s @ [a],
     ProtEntryAt := (ProtEntryAt s)(a \<mapsto> \<lparr>ProtocolID = g, Protocols = [], Notify = []\<rparr>)\<rparr>"
  shows "db_ok s'" "offers s' = offers s" "provided s' = provided s"
proof -
  note no = no_entry [OF ok none]
  have ao: "IHandleAt s a = None" "ProtEntryAt s a = None" "InterfaceAt s a = None" "NotifyAt s a = None"
    using a(1) by (auto simp: db_objs_def)
  have objs: "db_objs s' = insert a (db_objs s)" by (auto simp: db_objs_def s'_def)
  have no_if: "IfProtocol p \<noteq> a" if "InterfaceAt s b = Some p" for b p
    using interface_refs(2) [OF ok that] ao(2) by auto
  have no_nf: "NotifyProtocol q \<noteq> a" if "NotifyAt s b = Some q" for b q
    using ok that ao(2) unfolding db_ok_def notifies_ok_def by force
  have "db_pool_ok s'"
    unfolding db_pool_ok_def objs using ok a ao by (auto simp: db_ok_def db_pool_ok_def s'_def)
  moreover have "handles_ok s'" using ok by (simp add: db_ok_def handles_ok_def s'_def)
  moreover have "entries_ok s'"
  proof -
    have e: "distinct (mProtocolDatabase s)" "set (mProtocolDatabase s) = dom (ProtEntryAt s)"
      using ok by (simp_all add: db_ok_def entries_ok_def)
    have "d = e" if "ProtEntryAt s d = Some x" "ProtEntryAt s e = Some y" "ProtocolID x = ProtocolID y" for d e x y
      using ok that unfolding db_ok_def entries_ok_def by blast
    then show ?thesis unfolding entries_ok_def using e ao(2) entry_lists [OF ok] no_if no_nf
      by (simp add: s'_def) (auto simp: s'_def dest: no)
  qed
  moreover have "interfaces_ok s'" using ok unfolding db_ok_def interfaces_ok_def by (simp add: s'_def)
  moreover have "notifies_ok s'" using ok no_nf unfolding db_ok_def notifies_ok_def by (auto simp: s'_def)
  ultimately show ok': "db_ok s'" by (simp add: db_ok_def)
  show "offers s' = offers s" unfolding offers_def using no_if by (auto simp: s'_def fun_eq_iff)
  show "provided s' = provided s"
  proof
    fix k
    show "provided s' k = provided s k"
    proof (cases "\<exists>e x. ProtEntryAt s e = Some x \<and> ProtocolID x = k")
      case True
      then obtain e x where x: "ProtEntryAt s e = Some x" "ProtocolID x = k" by blast
      then have "ProtEntryAt s' e = Some x" "InterfaceAt s' = InterfaceAt s" using ao(2) by (auto simp: s'_def)
      then show ?thesis using provided_entry [OF ok x(1)] provided_entry [OF ok'] x(2) by auto
    next
      case False
      have "provided s' k = []"
      proof (cases "k = g")
        case True
        then show ?thesis using provided_entry [OF ok', of a] by (simp add: s'_def)
      next
        case k: False
        show ?thesis using False k by (intro provided_none [OF ok']) (auto simp: s'_def split: if_splits)
      qed
      then show ?thesis using provided_none [OF ok, of k] False by auto
    qed
  qed
qed


text \<open>The part of a list behind a link, and what the neighbours of the link make of it.\<close>

definition after :: "UINTN \<Rightarrow> UINTN list \<Rightarrow> UINTN list" where
  "after a xs = (if a = 0 then xs else tl (dropWhile (\<lambda>b. b \<noteq> a) xs))"

lemma ForwardLink_after: "ForwardLink a xs = (case after a xs of [] \<Rightarrow> 0 | b # _ \<Rightarrow> b)"
  by (simp add: ForwardLink_def after_def Let_def)

lemma after_split: "after (last (0 # us)) (us @ vs) = vs" if "distinct (us @ vs)" "0 \<notin> set us"
proof (cases us rule: rev_cases)
  case (snoc ws a)
  then have "dropWhile (\<lambda>b. b \<noteq> a) (us @ vs) = a # vs" using that(1) by (simp add: dropWhile_append)
  then show ?thesis using snoc that(2) by (simp add: after_def)
qed (simp add: after_def)

lemma after_cases:
  assumes "distinct xs" "0 \<notin> set xs" "a = 0 \<or> a \<in> set xs"
  obtains us where "xs = us @ after a xs" "a = last (0 # us)"
proof (cases "a = 0")
  case True
  then show ?thesis using that [of "[]"] by (simp add: after_def)
next
  case False
  then obtain us vs where x: "xs = us @ a # vs" using assms(3) by (meson split_list)
  then have "after a xs = vs" using after_split [of "us @ [a]" vs] assms by simp
  then show ?thesis using that [of "us @ [a]"] x by simp
qed

lemma after_ForwardLink:
  assumes "distinct xs" "0 \<notin> set xs" "a = 0 \<or> a \<in> set xs" "after a xs = b # bs"
  shows "after b xs = bs"
proof (rule after_cases [OF assms(1-3)])
  fix us assume us: "xs = us @ after a xs" "a = last (0 # us)"
  then have "after (last (0 # us @ [b])) ((us @ [b]) @ bs) = bs" using assms by (intro after_split) auto
  then show ?thesis using us assms(4) by simp
qed

lemma after_snoc:
  assumes "distinct xs" "0 \<notin> set xs" "a = 0 \<or> a \<in> set xs" "b \<notin> set xs"
  shows "after a (xs @ [b]) = after a xs @ [b]"
proof (rule after_cases [OF assms(1-3)])
  fix us assume us: "xs = us @ after a xs" "a = last (0 # us)"
  have "distinct (us @ after a xs @ [b])" "0 \<notin> set us" using assms us(1) by (metis distinct_append append_assoc distinct1_rotate rotate1.simps(2) distinct.simps(2) Un_iff set_append)+
  from after_split [OF this] show ?thesis using us by (metis append_assoc)
qed

lemma after_last: "distinct xs \<Longrightarrow> 0 \<notin> set xs \<Longrightarrow> after (if xs = [] then 0 else last xs) xs = []"
  using after_split [of xs "[]"] by auto

lemma BackLink_split: "distinct (us @ b # vs) \<Longrightarrow> BackLink p b (us @ b # vs) = last (p # us)"
  by (induction us arbitrary: p) auto

lemma after_remove:
  assumes "distinct xs" "0 \<notin> set xs" "a = 0 \<or> a \<in> set xs" "b \<in> set xs"
  shows "after (if a = b then BackLink 0 b xs else a) (remove1 b xs) = remove1 b (after a xs)"
proof (rule after_cases [OF assms(1-3)])
  fix us assume us: "xs = us @ after a xs" "a = last (0 # us)"
  let ?vs = "after a xs"
  have d: "distinct (us @ ?vs)" "0 \<notin> set us" using assms us(1) by (metis, metis Un_iff set_append)
  show ?thesis
  proof (cases "b \<in> set us")
    case False
    then have "a \<noteq> b" using us(2) assms by (cases "us = []") auto
    moreover have "remove1 b xs = us @ remove1 b ?vs" using False us(1) by (metis remove1_append)
    moreover have "distinct (us @ remove1 b ?vs)" using d(1) by (auto simp: set_remove1_eq)
    ultimately show ?thesis using after_split [OF _ d(2), of "remove1 b ?vs"] us(2) by simp
  next
    case True
    then obtain ks ls where k: "us = ks @ b # ls" by (meson split_list)
    have bn: "b \<notin> set ?vs" "b \<notin> set ks" "b \<notin> set ls" using d(1) k by auto
    have r: "remove1 b xs = (ks @ ls) @ ?vs" using us(1) k bn by (metis True remove1_append remove1.simps(2) append_assoc)
    have "distinct ((ks @ ls) @ ?vs)" "0 \<notin> set (ks @ ls)" using d k by auto
    from after_split [OF this] have "after (last (0 # ks @ ls)) (remove1 b xs) = ?vs" using r by simp
    moreover have "(if a = b then BackLink 0 b xs else a) = last (0 # ks @ ls)"
    proof (cases "ls = []")
      case True
      then have "BackLink 0 b (ks @ b # ?vs) = last (0 # ks)" using d(1) k by (intro BackLink_split) simp
      then show ?thesis using True us k by simp
    next
      case False
      then show ?thesis using us(2) k bn(3) by auto
    qed
    ultimately show ?thesis using bn(1) by (simp add: remove1_idem)
  qed
qed


text \<open>The interfaces a registration has not been told of yet, and the protocol it watches.\<close>

definition pending :: "'f protocol_db \<Rightarrow> UINTN \<Rightarrow> (UINTN \<times> UINTN) list" where
  "pending s n = (case NotifyAt s n of None \<Rightarrow> [] | Some q \<Rightarrow>
     map (\<lambda>a. (IfHandle (the (InterfaceAt s a)), Interface (the (InterfaceAt s a))))
       (after (Position q) (Protocols (the (ProtEntryAt s (NotifyProtocol q))))))"

definition watches :: "'f protocol_db \<Rightarrow> UINTN \<Rightarrow> EFI_GUID \<Rightarrow> bool" where
  "watches s n g \<longleftrightarrow> (\<exists>q e. NotifyAt s n = Some q \<and> ProtEntryAt s (NotifyProtocol q) = Some e \<and> ProtocolID e = g)"

lemma set_after: "set (after a xs) \<subseteq> set xs"
proof -
  have "set (tl ys) \<subseteq> set ys" for ys :: "UINTN list" by (cases ys) auto
  then have "set (tl (dropWhile (\<lambda>b. b \<noteq> a) xs)) \<subseteq> set xs" by (meson set_dropWhileD subset_iff)
  then show ?thesis by (simp add: after_def)
qed

lemma notify_place:
  assumes ok: "db_ok s" and n: "NotifyAt s n = Some q"
  obtains y where "ProtEntryAt s (NotifyProtocol q) = Some y" "distinct (Protocols y)" "0 \<notin> set (Protocols y)"
    "Position q = 0 \<or> Position q \<in> set (Protocols y)"
proof -
  obtain y where y: "ProtEntryAt s (NotifyProtocol q) = Some y" "Position q = 0 \<or> Position q \<in> set (Protocols y)"
    using ok n unfolding db_ok_def notifies_ok_def by fastforce
  have "0 \<notin> set (Protocols y)" using entry_lists(1) [OF ok y(1), of 0] db_pool(3) [OF ok] by (auto simp: db_objs_def)
  then show ?thesis using that y entry_lists(3) [OF ok y(1)] by blast
qed

lemma pending_extended:
  assumes "db_ok s" "NotifyAt t = NotifyAt s" "InterfaceAt t = InterfaceAt s" "\<forall>d x. ProtEntryAt s d = Some x \<longrightarrow> ProtEntryAt t d = Some x"
  shows "pending t = pending s" "watches t = watches s"
proof -
  have e: "ProtEntryAt t (NotifyProtocol q) = ProtEntryAt s (NotifyProtocol q)" if "NotifyAt s n = Some q" for n q
  proof (rule notify_place [OF assms(1) that])
    fix y assume "ProtEntryAt s (NotifyProtocol q) = Some y"
    then show ?thesis using assms(4) by simp
  qed
  show "pending t = pending s"
  proof
    fix n show "pending t n = pending s n"
      by (cases "NotifyAt s n") (simp_all add: pending_def assms(2,3) e)
  qed
  show "watches t = watches s" unfolding watches_def assms(2) using e by (auto simp: fun_eq_iff)
qed

text \<open>The functions registered for a protocol, in the order in which they are called.\<close>

definition listeners :: "'f protocol_db \<Rightarrow> EFI_GUID \<Rightarrow> 'f list" where
  "listeners s g = (let e = ProtEntry_search (ProtEntryAt s) g (mProtocolDatabase s) in
     if e = 0 then [] else map (\<lambda>n. Function (the (NotifyAt s n))) (Notify (the (ProtEntryAt s e))))"

lemma find_or_create:
  assumes ok: "db_ok s"
  shows "\<exists>e s1. SmmFindProtocolEntry g True s = Some (e, s1) \<and> db_ok s1 \<and> offers s1 = offers s \<and> provided s1 = provided s \<and>
    IHandleAt s1 = IHandleAt s \<and> InterfaceAt s1 = InterfaceAt s \<and> NotifyAt s1 = NotifyAt s \<and>
    mEfiLocateHandleRequest s1 = mEfiLocateHandleRequest s \<and> listeners s1 = listeners s \<and>
    (\<forall>d x. ProtEntryAt s d = Some x \<longrightarrow> ProtEntryAt s1 d = Some x) \<and>
    (e = 0 \<and> s1 = s \<and> (\<nexists>d x. ProtEntryAt s d = Some x \<and> ProtocolID x = g) \<or>
     e \<noteq> 0 \<and> (\<exists>x. ProtEntryAt s1 e = Some x \<and> ProtocolID x = g \<and> (ProtEntryAt s e = Some x \<or> Notify x = [])))"
proof (cases "ProtEntry_search (ProtEntryAt s) g (mProtocolDatabase s) = 0")
  case False
  then show ?thesis using ok find_entry [OF ok, of g "ProtEntry_search (ProtEntryAt s) g (mProtocolDatabase s)"]
    by (auto simp: SmmFindProtocolEntry_def Let_def)
next
  case True
  note pool = db_pool(1,2) [OF ok]
  obtain a p where al: "AllocatePool sizeof_PROTOCOL_ENTRY (DbPool s) = Some (a, p)"
    using smm_objects.alloc_total [OF pool(2) AllocatePool_db_sizes(2)] by blast
  show ?thesis
  proof (cases "a = 0")
    case a: True
    then have "p = DbPool s" using smm_objects.alloc_null [OF pool(2) AllocatePool_db_sizes(2)] al by simp
    then show ?thesis using a al True ok no_entry [OF ok True] by (auto simp: SmmFindProtocolEntry_def Let_def)
  next
    case a: False
    note f = fresh_object [OF pool AllocatePool_db_sizes(2) al a]
    have "ProtEntryAt s a = None" using f(1) by (auto simp: db_objs_def)
    note add = add_entry_ok [OF ok True f]
    let ?s = "s\<lparr>DbPool := p, mProtocolDatabase := mProtocolDatabase s @ [a],
       ProtEntryAt := (ProtEntryAt s)(a \<mapsto> \<lparr>ProtocolID = g, Protocols = [], Notify = []\<rparr>)\<rparr>"
    have "listeners ?s k = listeners s k" for k
    proof (cases "k = g")
      case True
      have "ProtEntry_search (ProtEntryAt ?s) g (mProtocolDatabase ?s) = a" using find_entry [OF add(1), of g a] by simp
      then show ?thesis using \<open>ProtEntry_search (ProtEntryAt s) g (mProtocolDatabase s) = 0\<close> True
        by (simp add: listeners_def)
    next
      case False
      have nz: "0 \<notin> set (mProtocolDatabase s)" "a \<notin> set (mProtocolDatabase s)"
        using db_pool(3) [OF ok] f(1) ok by (auto simp: db_objs_def db_ok_def entries_ok_def)
      have "ProtEntry_search ((ProtEntryAt s)(a \<mapsto> \<lparr>ProtocolID = g, Protocols = [], Notify = []\<rparr>)) k (es @ [a]) =
          ProtEntry_search (ProtEntryAt s) k es" if "0 \<notin> set es" "a \<notin> set es" for es
        using that False by (induction es) auto
      from this [OF nz] show ?thesis using nz entry_search_result [of "ProtEntryAt s" k "mProtocolDatabase s"]
        by (auto simp: listeners_def Let_def)
    qed
    then have "listeners ?s = listeners s" by (rule ext)
    then show ?thesis using add \<open>ProtEntryAt s a = None\<close> al a True by (auto simp: SmmFindProtocolEntry_def Let_def)
  qed
qed

text \<open>
  The new interface \<open>a\<close> of the handle \<open>h\<close> for the protocol of the entry \<open>e\<close>.  The handle is either there
  already or added to the list of handles at the same time.
\<close>

definition linked :: "UINTN \<Rightarrow> UINTN \<Rightarrow> UINTN \<Rightarrow> UINTN \<Rightarrow> smm_memory \<Rightarrow> 'f protocol_db \<Rightarrow> 'f protocol_db" where
  "linked a h e i p s =
    (let x = (case IHandleAt s h of None \<Rightarrow> \<lparr>HandleProtocols = [], LocateRequest = 0\<rparr> | Some x \<Rightarrow> x);
         y = the (ProtEntryAt s e)
     in s\<lparr>DbPool := p, gHandleList := (if IHandleAt s h = None then gHandleList s @ [h] else gHandleList s),
          InterfaceAt := (InterfaceAt s)(a \<mapsto> \<lparr>IfHandle = h, IfProtocol = e, Interface = i\<rparr>),
          IHandleAt := (IHandleAt s)(h \<mapsto> x\<lparr>HandleProtocols := a # HandleProtocols x\<rparr>),
          ProtEntryAt := (ProtEntryAt s)(e \<mapsto> y\<lparr>Protocols := Protocols y @ [a]\<rparr>)\<rparr>)"

lemma linked_fields:
  "InterfaceAt (linked a h e i p s) b = (if b = a then Some \<lparr>IfHandle = h, IfProtocol = e, Interface = i\<rparr> else InterfaceAt s b)"
  "NotifyAt (linked a h e i p s) = NotifyAt s" "mProtocolDatabase (linked a h e i p s) = mProtocolDatabase s"
  "DbPool (linked a h e i p s) = p" "mEfiLocateHandleRequest (linked a h e i p s) = mEfiLocateHandleRequest s"
  "gHandleList (linked a h e i p s) = (if IHandleAt s h = None then gHandleList s @ [h] else gHandleList s)"
  "IHandleAt (linked a h e i p s) k = (if k = h then
     (case IHandleAt s h of None \<Rightarrow> Some \<lparr>HandleProtocols = [a], LocateRequest = 0\<rparr>
      | Some x \<Rightarrow> Some (x\<lparr>HandleProtocols := a # HandleProtocols x\<rparr>)) else IHandleAt s k)"
  "ProtEntryAt (linked a h e i p s) d = (if d = e then
     (let y = the (ProtEntryAt s e) in Some (y\<lparr>Protocols := Protocols y @ [a]\<rparr>)) else ProtEntryAt s d)"
  by (simp_all add: linked_def Let_def split: option.split)

lemma linked_handles:
  assumes ok: "db_ok s" and a: "InterfaceAt s a = None" and h: "IHandleAt s h = None \<Longrightarrow> h \<notin> set (gHandleList s)"
  shows "handles_ok (linked a h e i p s)"
proof -
  have g: "distinct (gHandleList s)" "set (gHandleList s) = dom (IHandleAt s)"
    using ok by (simp_all add: db_ok_def handles_ok_def)
  have hp: "HandleProtocols x \<noteq> [] \<and> distinct (HandleProtocols x)" if "IHandleAt s k = Some x" for k x
    using ok that unfolding db_ok_def handles_ok_def by blast
  have hf: "\<exists>x. IHandleAt s (IfHandle p) = Some x" if "InterfaceAt s b = Some p" for b p by (rule interface_refs(1) [OF ok that])
  have mem: "b \<in> set (HandleProtocols x) \<longleftrightarrow> (\<exists>p. InterfaceAt s b = Some p \<and> IfHandle p = k)" if "IHandleAt s k = Some x" for k x b
    by (rule handle_interfaces [OF ok that])
  show ?thesis unfolding handles_ok_def
  proof (intro conjI allI impI)
    show "distinct (gHandleList (linked a h e i p s))" using g(1) h by (simp add: linked_fields)
    show "set (gHandleList (linked a h e i p s)) = dom (IHandleAt (linked a h e i p s))"
      using g(2) by (auto simp: linked_fields dom_def split: option.splits if_splits)
  next
    fix k x assume k: "IHandleAt (linked a h e i p s) k = Some x"
    consider "k \<noteq> h" "IHandleAt s k = Some x"
      | "k = h" "IHandleAt s h = None" "x = \<lparr>HandleProtocols = [a], LocateRequest = 0\<rparr>"
      | x0 where "k = h" "IHandleAt s h = Some x0" "x = x0\<lparr>HandleProtocols := a # HandleProtocols x0\<rparr>"
      using k by (auto simp: linked_fields split: option.splits if_splits)
    note cases = this
    show "HandleProtocols x \<noteq> []" using cases hp by cases auto
    show "distinct (HandleProtocols x)" using cases
    proof cases
      case 3
      then show ?thesis using hp [OF 3(2)] mem [OF 3(2), of a] a by auto
    qed (use hp in auto)
    show "b \<in> set (HandleProtocols x) \<longleftrightarrow> (\<exists>q. InterfaceAt (linked a h e i p s) b = Some q \<and> IfHandle q = k)" for b
      using cases
    proof cases
      case 1
      then show ?thesis using mem [OF 1(2)] a by (auto simp: linked_fields)
    next
      case 2
      have "IfHandle q \<noteq> h" if "InterfaceAt s b = Some q" for q using hf [OF that] 2(2) by auto
      then show ?thesis using 2 by (auto simp: linked_fields)
    next
      case 3
      then show ?thesis using mem [OF 3(2)] a by (auto simp: linked_fields)
    qed
  qed
qed

lemma linked_entries:
  assumes ok: "db_ok s" and e: "ProtEntryAt s e = Some y" and a: "InterfaceAt s a = None"
  shows "entries_ok (linked a h e i p s)"
proof -
  let ?s = "linked a h e i p s"
  have g: "distinct (mProtocolDatabase s)" "set (mProtocolDatabase s) = dom (ProtEntryAt s)"
    using ok by (simp_all add: db_ok_def entries_ok_def)
  have inj: "d = d'" if "ProtEntryAt s d = Some x" "ProtEntryAt s d' = Some x'" "ProtocolID x = ProtocolID x'" for d d' x x'
    using ok that unfolding db_ok_def entries_ok_def by blast
  have id: "\<exists>x'. ProtEntryAt s d = Some x' \<and> ProtocolID x' = ProtocolID x \<and> Notify x' = Notify x \<and>
      Protocols x = (if d = e then Protocols x' @ [a] else Protocols x')" if "ProtEntryAt ?s d = Some x" for d x
    using that e by (auto simp: linked_fields Let_def split: if_splits)
  show ?thesis unfolding entries_ok_def
  proof (intro conjI allI impI)
    show "distinct (mProtocolDatabase ?s)" using g(1) by (simp add: linked_fields)
    show "set (mProtocolDatabase ?s) = dom (ProtEntryAt ?s)" using g(2) e by (auto simp: linked_fields dom_def Let_def)
    show "d = d'" if "ProtEntryAt ?s d = Some x" "ProtEntryAt ?s d' = Some x'" "ProtocolID x = ProtocolID x'" for d d' x x'
      using id [OF that(1)] id [OF that(2)] that(3) inj by metis
  next
    fix d x assume "ProtEntryAt ?s d = Some x"
    then obtain x' where x': "ProtEntryAt s d = Some x'" "Notify x' = Notify x"
      "Protocols x = (if d = e then Protocols x' @ [a] else Protocols x')" using id by blast
    note l = entry_lists [OF ok x'(1)]
    have na: "a \<notin> set (Protocols x')" using l(1) a by auto
    show "distinct (Protocols x)" "distinct (Notify x)" using l(3,4) na x' by auto
    show "b \<in> set (Protocols x) \<longleftrightarrow> (\<exists>q. InterfaceAt ?s b = Some q \<and> IfProtocol q = d)" for b
      using l(1) [of b] na a x'(3) by (auto simp: linked_fields)
    show "n \<in> set (Notify x) \<longleftrightarrow> (\<exists>q. NotifyAt ?s n = Some q \<and> NotifyProtocol q = d)" for n
      using l(2) [of n] x'(2) by (simp add: linked_fields)
  qed
qed

lemma linked_interfaces:
  assumes ok: "db_ok s" and e: "ProtEntryAt s e = Some y" "ProtocolID y = g" and new: "\<nexists>j. offers s h g j"
  shows "interfaces_ok (linked a h e i p s)"
proof -
  let ?s = "linked a h e i p s"
  have un: "b = c" if "InterfaceAt s b = Some q" "InterfaceAt s c = Some r" "IfHandle q = IfHandle r" "IfProtocol q = IfProtocol r" for b c q r
    using ok that unfolding db_ok_def interfaces_ok_def by blast
  have no: False if "InterfaceAt s b = Some q" "IfHandle q = h" "IfProtocol q = e" for b q
    using that e new unfolding offers_def by blast
  show ?thesis unfolding interfaces_ok_def
  proof (intro conjI allI impI)
    fix b q assume b: "InterfaceAt ?s b = Some q"
    show "IHandleAt ?s (IfHandle q) \<noteq> None" "ProtEntryAt ?s (IfProtocol q) \<noteq> None"
      using b interface_refs [OF ok, of b] by (auto simp: linked_fields Let_def split: if_splits option.splits)
  next
    fix b c q r assume "InterfaceAt ?s b = Some q" "InterfaceAt ?s c = Some r" "IfHandle q = IfHandle r" "IfProtocol q = IfProtocol r"
    then show "b = c" by (auto simp: linked_fields split: if_splits dest: no un)
  qed
qed

lemma linked_ok:
  assumes ok: "db_ok s" and e: "ProtEntryAt s e = Some y" "ProtocolID y = g"
    and a: "a \<notin> insert h (db_objs s)" and h: "IHandleAt s h = None \<Longrightarrow> h \<notin> db_objs s"
    and pool: "pool_ok p (mset_set (insert a (insert h (db_objs s))))"
    and new: "\<nexists>j. offers s h g j"
  shows "db_ok (linked a h e i p s)"
proof -
  let ?s = "linked a h e i p s"
  note fin = db_pool(1) [OF ok]
  have ao: "IHandleAt s a = None" "ProtEntryAt s a = None" "InterfaceAt s a = None" "NotifyAt s a = None" "a \<noteq> h"
    using a by (auto simp: db_objs_def)
  have ho: "ProtEntryAt s h = None" "InterfaceAt s h = None" "NotifyAt s h = None"
    using h ok by (cases "IHandleAt s h"; auto simp: db_objs_def db_ok_def db_pool_ok_def)+
  have gh: "IHandleAt s h = None \<Longrightarrow> h \<notin> set (gHandleList s)" using ok by (auto simp: db_ok_def handles_ok_def)
  have objs: "db_objs ?s = insert a (insert h (db_objs s))"
    using e by (auto simp: db_objs_def linked_def Let_def)
  have "db_pool_ok ?s"
    unfolding db_pool_ok_def objs using ok fin pool ao ho e(1)
    by (auto simp: db_ok_def db_pool_ok_def linked_def Let_def)
  moreover have "notifies_ok ?s"
    using ok unfolding db_ok_def notifies_ok_def by (auto simp: linked_fields Let_def)
  ultimately show ?thesis
    using linked_handles [OF ok ao(3) gh] linked_entries [OF ok e(1) ao(3)] linked_interfaces [OF ok e new] by (simp add: db_ok_def)
qed

lemma linked_offers:
  fixes s :: "'f protocol_db"
  assumes ok: "db_ok s" and e: "ProtEntryAt s e = Some y" "ProtocolID y = g" and a: "InterfaceAt s a = None"
  shows "offers (linked a h e i p s) h' g' j \<longleftrightarrow> offers s h' g' j \<or> (h', g', j) = (h, g, i)"
proof -
  have id: "map_option ProtocolID (ProtEntryAt (linked a h e i p s) d) = map_option ProtocolID (ProtEntryAt s d)" for d
    using e by (simp add: linked_fields Let_def)
  have off: "offers t k l j \<longleftrightarrow> (\<exists>b q. InterfaceAt t b = Some q \<and> IfHandle q = k \<and> Interface q = j \<and>
      map_option ProtocolID (ProtEntryAt t (IfProtocol q)) = Some l)" for t :: "'f protocol_db" and k l j
    by (auto simp: offers_def)
  have "offers (linked a h e i p s) h' g' j" if "offers s h' g' j"
    using that a unfolding off id by (metis linked_fields(1) option.distinct(1))
  moreover have "offers (linked a h e i p s) h g i" unfolding off id using e by (auto simp: linked_fields)
  moreover have "offers s h' g' j \<or> (h', g', j) = (h, g, i)" if "offers (linked a h e i p s) h' g' j"
    using that e unfolding off id by (auto simp: linked_fields split: if_splits)
  ultimately show ?thesis by blast
qed

lemma linked_provided:
  assumes ok: "db_ok s" and ok': "db_ok (linked a h e i p s)" and e: "ProtEntryAt s e = Some y" "ProtocolID y = g"
    and a: "InterfaceAt s a = None"
  shows "provided (linked a h e i p s) = (provided s)(g := provided s g @ [(h, i)])"
proof
  let ?s = "linked a h e i p s"
  fix k
  have keep: "map (\<lambda>b. (IfHandle (the (InterfaceAt ?s b)), Interface (the (InterfaceAt ?s b)))) (Protocols x) =
      map (\<lambda>b. (IfHandle (the (InterfaceAt s b)), Interface (the (InterfaceAt s b)))) (Protocols x)"
    if "ProtEntryAt s d = Some x" for d x
    using entry_lists(1) [OF ok that] a by (auto simp: linked_fields)
  show "provided ?s k = ((provided s)(g := provided s g @ [(h, i)])) k"
  proof (cases "\<exists>d x. ProtEntryAt s d = Some x \<and> ProtocolID x = k")
    case True
    then obtain d x where d: "ProtEntryAt s d = Some x" "ProtocolID x = k" by blast
    show ?thesis
    proof (cases "d = e")
      case True
      have "ProtEntryAt ?s e = Some (y\<lparr>Protocols := Protocols y @ [a]\<rparr>)" using e by (simp add: linked_fields)
      from provided_entry [OF ok' this] provided_entry [OF ok e(1)] keep [OF e(1)] show ?thesis
        using True d e by (auto simp: linked_fields)
    next
      case False
      then have "k \<noteq> g" using ok d e unfolding db_ok_def entries_ok_def by blast
      have "ProtEntryAt ?s d = Some x" using False d by (simp add: linked_fields)
      from provided_entry [OF ok' this] provided_entry [OF ok d(1)] keep [OF d(1)] \<open>k \<noteq> g\<close>
      show ?thesis using d(2) by auto
    qed
  next
    case False
    then have "k \<noteq> g" using e by blast
    moreover have "provided ?s k = []"
    proof (rule provided_none [OF ok'])
      fix d x assume "ProtEntryAt ?s d = Some x"
      then have "\<exists>x'. ProtEntryAt s d = Some x' \<and> ProtocolID x' = ProtocolID x"
        using e by (auto simp: linked_fields Let_def split: if_splits)
      then show "ProtocolID x \<noteq> k" using False by metis
    qed
    ultimately show ?thesis using provided_none [OF ok, of k] False by auto
  qed
qed

lemma linked_pending:
  assumes ok: "db_ok s" and e: "ProtEntryAt s e = Some y" "ProtocolID y = g" and a: "InterfaceAt s a = None"
  shows "pending (linked a h e i p s) n = pending s n @ (if watches s n g then [(h, i)] else [])"
proof (cases "NotifyAt s n")
  case None
  then show ?thesis by (simp add: pending_def watches_def linked_fields)
next
  case (Some q)
  let ?s = "linked a h e i p s"
  show ?thesis
  proof (rule notify_place [OF ok Some])
    fix z assume z: "ProtEntryAt s (NotifyProtocol q) = Some z" "distinct (Protocols z)" "0 \<notin> set (Protocols z)"
      "Position q = 0 \<or> Position q \<in> set (Protocols z)"
    have an: "a \<notin> set (Protocols z)" using entry_lists(1) [OF ok z(1), of a] a by simp
    have old: "map (\<lambda>b. (IfHandle (the (InterfaceAt ?s b)), Interface (the (InterfaceAt ?s b)))) (after (Position q) (Protocols z)) = pending s n"
      using an set_after [of "Position q" "Protocols z"] z(1) Some by (auto simp: pending_def linked_fields)
    show ?thesis
    proof (cases "NotifyProtocol q = e")
      case True
      then have "z = y" "watches s n g" using z(1) e Some by (auto simp: watches_def)
      moreover have "pending ?s n = map (\<lambda>b. (IfHandle (the (InterfaceAt ?s b)), Interface (the (InterfaceAt ?s b))))
          (after (Position q) (Protocols z @ [a]))"
        using Some e True \<open>z = y\<close> by (simp add: pending_def linked_fields Let_def)
      ultimately show ?thesis unfolding after_snoc [OF z(2-4) an] using old by (simp add: linked_fields)
    next
      case False
      then have "\<not> watches s n g" using Some z(1) e ok unfolding watches_def db_ok_def entries_ok_def by fastforce
      then show ?thesis using old False z(1) Some by (simp add: pending_def linked_fields)
    qed
  qed
qed

lemma notify_linked:
  assumes ok: "db_ok s" and e: "ProtEntryAt s e = Some y" "ProtocolID y = g"
  shows "SmmNotifyProtocol call a (linked a h e i p s) w = fold (\<lambda>f. call f g i h) (listeners s g) w"
proof -
  have "ProtEntry_search (ProtEntryAt s) g (mProtocolDatabase s) = e \<and> e \<noteq> 0"
    using find_entry [OF ok, of g e] e by simp
  then show ?thesis using e by (simp add: SmmNotifyProtocol_def linked_fields Let_def listeners_def fold_map comp_def)
qed

lemma db_ok_pool:
  assumes "db_ok s" "pool_ok p (mset_set (db_objs s))"
  shows "db_ok (s\<lparr>DbPool := p\<rparr>)" "offers (s\<lparr>DbPool := p\<rparr>) = offers s" "provided (s\<lparr>DbPool := p\<rparr>) = provided s"
proof -
  have "db_objs (s\<lparr>DbPool := p\<rparr>) = db_objs s" by (simp add: db_objs_def)
  then have "db_pool_ok (s\<lparr>DbPool := p\<rparr>)" using assms by (simp add: db_ok_def db_pool_ok_def)
  moreover have "handles_ok (s\<lparr>DbPool := p\<rparr>) = handles_ok s" "entries_ok (s\<lparr>DbPool := p\<rparr>) = entries_ok s"
    "interfaces_ok (s\<lparr>DbPool := p\<rparr>) = interfaces_ok s" "notifies_ok (s\<lparr>DbPool := p\<rparr>) = notifies_ok s"
    unfolding handles_ok_def entries_ok_def interfaces_ok_def notifies_ok_def by simp_all
  ultimately show "db_ok (s\<lparr>DbPool := p\<rparr>)" using assms(1) by (simp add: db_ok_def)
  show "offers (s\<lparr>DbPool := p\<rparr>) = offers s" "provided (s\<lparr>DbPool := p\<rparr>) = provided s"
    by (simp_all add: fun_eq_iff offers_def provided_def Let_def)
qed

lemma unchanged_pool: "db_ok s \<Longrightarrow> AllocatePool R (DbPool s) = Some (0, p) \<Longrightarrow> unat R < 18446744073709551600 \<Longrightarrow> s\<lparr>DbPool := p\<rparr> = s"
  using smm_objects.alloc_null [OF db_pool(2)] by fastforce

text \<open>The end of the installation, once the block \<open>a\<close> of the interface has been allocated.\<close>

lemma link_existing:
  assumes "IHandleAt s h = Some x"
  shows "s\<lparr>DbPool := p, InterfaceAt := (InterfaceAt s)(a \<mapsto> \<lparr>IfHandle = h, IfProtocol = e, Interface = i\<rparr>),
     IHandleAt := (IHandleAt s)(h \<mapsto> x\<lparr>HandleProtocols := a # HandleProtocols x\<rparr>),
     ProtEntryAt := (ProtEntryAt s)(e \<mapsto> (the (ProtEntryAt s e))\<lparr>Protocols := Protocols (the (ProtEntryAt s e)) @ [a]\<rparr>)\<rparr> =
    linked a h e i p s"
  using assms by (cases s) (simp add: linked_def Let_def)

lemma link_new:
  assumes "IHandleAt s h = None"
  shows "s\<lparr>DbPool := p, gHandleList := gHandleList s @ [h],
     InterfaceAt := (InterfaceAt s)(a \<mapsto> \<lparr>IfHandle = h, IfProtocol = e, Interface = i\<rparr>),
     IHandleAt := (IHandleAt s)(h \<mapsto> \<lparr>HandleProtocols = [a], LocateRequest = 0\<rparr>),
     ProtEntryAt := (ProtEntryAt s)(e \<mapsto> (the (ProtEntryAt s e))\<lparr>Protocols := Protocols (the (ProtEntryAt s e)) @ [a]\<rparr>)\<rparr> =
    linked a h e i p s"
  using assms by (cases s) (simp add: linked_def Let_def)

definition installed :: "UINTN \<Rightarrow> EFI_GUID \<Rightarrow> UINTN \<Rightarrow> 'f protocol_db \<Rightarrow> 'f protocol_db \<Rightarrow> bool" where
  "installed h g i s s' \<longleftrightarrow> db_ok s' \<and> provided s' = (provided s)(g := provided s g @ [(h, i)]) \<and>
     (\<forall>n. pending s' n = pending s n @ (if watches s n g then [(h, i)] else [])) \<and>
     (\<forall>h' g' j. offers s' h' g' j \<longleftrightarrow> offers s h' g' j \<or> (h', g', j) = (h, g, i))"

lemma linked_installed:
  assumes "db_ok s" "ProtEntryAt s e = Some y" "ProtocolID y = g" "a \<notin> insert h (db_objs s)"
    "IHandleAt s h = None \<Longrightarrow> h \<notin> db_objs s" "pool_ok p (mset_set (insert a (insert h (db_objs s))))" "\<nexists>j. offers s h g j"
  shows "installed h g i s (linked a h e i p s)"
proof -
  have "InterfaceAt s a = None" using assms(4) by (auto simp: db_objs_def)
  then show ?thesis using linked_ok [OF assms] linked_offers [OF assms(1-3)] linked_provided [OF assms(1) _ assms(2,3)]
      linked_pending [OF assms(1-3)] unfolding installed_def by blast
qed


text \<open>
  The last steps of the installation, once the entry and the block of the interface are there: the handle,
  made when the caller has none, and the links.
\<close>

definition get_handle :: "UINTN \<Rightarrow> smm_memory \<Rightarrow> 'f protocol_db \<Rightarrow> (UINTN \<times> 'f protocol_db) option" where
  "get_handle uh p s = (if uh \<noteq> 0 then Some (uh, s\<lparr>DbPool := p\<rparr>)
     else (case AllocatePool sizeof_IHANDLE p of
             None \<Rightarrow> None
           | Some (h, p') \<Rightarrow>
             if h = 0 then Some (0, s\<lparr>DbPool := p'\<rparr>)
             else Some (h, s\<lparr>DbPool := p', gHandleList := gHandleList s @ [h],
                     IHandleAt := (IHandleAt s)(h \<mapsto> \<lparr>HandleProtocols = [], LocateRequest = 0\<rparr>)\<rparr>)))"

definition link_all :: "UINTN \<Rightarrow> UINTN \<Rightarrow> UINTN \<Rightarrow> UINTN \<Rightarrow> 'f protocol_db \<Rightarrow> 'f protocol_db" where
  "link_all a h e i s = s\<lparr>InterfaceAt := (InterfaceAt s)(a \<mapsto> \<lparr>IfHandle = h, IfProtocol = e, Interface = i\<rparr>),
     IHandleAt := (IHandleAt s)(h \<mapsto> (the (IHandleAt s h))\<lparr>HandleProtocols := a # HandleProtocols (the (IHandleAt s h))\<rparr>),
     ProtEntryAt := (ProtEntryAt s)(e \<mapsto> (the (ProtEntryAt s e))\<lparr>Protocols := Protocols (the (ProtEntryAt s e)) @ [a]\<rparr>)\<rparr>"

lemma install_code:
  assumes "SmmFindProtocolEntry g True s = Some (e, s1)" "e \<noteq> 0" "EFI_ERROR (fst (SmmHandleProtocol uh (Some g) True s))"
    "AllocatePool sizeof_PROTOCOL_INTERFACE (DbPool s1) = Some (a, p)" "a \<noteq> 0"
  shows "SmmInstallProtocolInterface call (Some uh) (Some g) True i s w = (case get_handle uh p s1 of None \<Rightarrow> None | Some (h, s3) \<Rightarrow>
     if h = 0 \<or> EFI_ERROR (SmmValidateHandle h s3) then
       map_option (\<lambda>p. (if h = 0 then EFI_OUT_OF_RESOURCES else SmmValidateHandle h s3, Some uh, s3\<lparr>DbPool := p\<rparr>, w)) (FreePool a (DbPool s3))
     else Some (EFI_SUCCESS, Some h, link_all a h e i s3, SmmNotifyProtocol call a (link_all a h e i s3) w))"
proof (cases "uh = 0")
  case False
  then show ?thesis using assms unfolding SmmInstallProtocolInterface_def SmmInstallProtocolInterfaceNotify_def AllocateZeroPool_eq
    by (simp add: get_handle_def link_all_def Let_def)
next
  case True
  then show ?thesis using assms unfolding SmmInstallProtocolInterface_def SmmInstallProtocolInterfaceNotify_def AllocateZeroPool_eq
    by (cases "AllocatePool sizeof_IHANDLE p") (auto simp: get_handle_def link_all_def Let_def)
qed

lemma install_end:
  fixes s :: "'f protocol_db"
  assumes ok: "db_ok s" and e: "ProtEntryAt s e = Some y" "ProtocolID y = g" and new: "\<nexists>j. offers s uh g j"
    and a: "AllocatePool sizeof_PROTOCOL_INTERFACE (DbPool s) = Some (a, p)" "a \<noteq> 0"
  obtains (failed) h s3 p3 where "get_handle uh p s = Some (h, s3)" "h = 0 \<or> EFI_ERROR (SmmValidateHandle h s3)"
      "FreePool a (DbPool s3) = Some p3" "s3\<lparr>DbPool := p3\<rparr> = s\<lparr>DbPool := p3\<rparr>" "pool_ok p3 (mset_set (db_objs s))"
    | (made) h s3 p3 where "get_handle uh p s = Some (h, s3)" "h \<noteq> 0" "\<not> EFI_ERROR (SmmValidateHandle h s3)"
      "if uh = 0 then IHandleAt s h = None else h = uh \<and> IHandleAt s h \<noteq> None"
      "installed h g i s (linked a h e i p3 s)" "link_all a h e i s3 = linked a h e i p3 s"
proof -
  note pool = db_pool(1,2) [OF ok]
  note fa = fresh_object [OF pool AllocatePool_db_sizes(3) a]
  obtain p3 where free: "FreePool a p = Some p3" "pool_ok p3 (mset_set (db_objs s))"
    using release_object [of "insert a (db_objs s)" p a] pool(1) fa by auto
  show ?thesis
  proof (cases "uh = 0")
    case False
    show ?thesis
    proof (cases "IHandleAt s uh")
      case None
      then show ?thesis using False free by (intro failed [of uh "s\<lparr>DbPool := p\<rparr>" p3]) (simp_all add: get_handle_def SmmValidateHandle_def)
    next
      case (Some x)
      then have u: "uh \<in> db_objs s" by (auto simp: db_objs_def)
      then have "installed uh g i s (linked a uh e i p s)"
        using fa Some by (intro linked_installed [OF ok e _ _ _ new]) (auto simp: insert_absorb)
      then show ?thesis using False Some link_existing [OF Some, where p = p and a = a and e = e and i = i]
        by (intro made [of uh "s\<lparr>DbPool := p\<rparr>" p]) (simp_all add: get_handle_def SmmValidateHandle_def link_all_def)
    qed
  next
    case True
    have f: "finite (insert a (db_objs s))" using pool(1) by simp
    obtain h p' where al: "AllocatePool sizeof_IHANDLE p = Some (h, p')"
      using smm_objects.alloc_total [OF fa(2) AllocatePool_db_sizes(1)] by blast
    show ?thesis
    proof (cases "h = 0")
      case h: True
      then have "p' = p" using smm_objects.alloc_null [OF fa(2) AllocatePool_db_sizes(1)] al by simp
      then show ?thesis using True h al free by (intro failed [of 0 "s\<lparr>DbPool := p\<rparr>" p3]) (simp_all add: get_handle_def)
    next
      case h: False
      note fh = fresh_object [OF f fa(2) AllocatePool_db_sizes(1) al h]
      have hn: "IHandleAt s h = None" using fh(1) by (auto simp: db_objs_def)
      then have no: "\<nexists>j. offers s h g j" using interface_refs(1) [OF ok] by (fastforce simp: offers_def)
      have "installed h g i s (linked a h e i p' s)"
        using fa fh by (intro linked_installed [OF ok e _ _ _ no]) (auto simp: insert_commute)
      then show ?thesis using True h al hn link_new [OF hn, where p = p' and a = a and e = e and i = i]
        by (intro made [OF _ h, of _ p']) (auto simp: get_handle_def SmmValidateHandle_def link_all_def)
    qed
  qed
qed

text \<open>The installation once the entry of the protocol is there.\<close>

lemma install_entry:
  fixes s :: "'f protocol_db"
  assumes f: "SmmFindProtocolEntry g True s = Some (e, s1)" "db_ok s1" "offers s1 = offers s" "provided s1 = provided s"
      "IHandleAt s1 = IHandleAt s" and ls: "listeners s1 = listeners s" and pe: "pending s1 = pending s" "watches s1 = watches s"
    and e: "e \<noteq> 0" and y: "ProtEntryAt s1 e = Some y" "ProtocolID y = g"
    and err: "EFI_ERROR (fst (SmmHandleProtocol uh (Some g) True s))" and un0: "\<nexists>j. offers s uh g j"
  shows "\<exists>st uh' s' w'. SmmInstallProtocolInterface call (Some uh) (Some g) True i s w = Some (st, uh', s', w') \<and>
    (EFI_ERROR st \<and> uh' = Some uh \<and> w' = w \<and> db_ok s' \<and> offers s' = offers s \<and> provided s' = provided s \<or>
       st = EFI_SUCCESS \<and> (\<exists>h. uh' = Some h \<and> (if uh = 0 then IHandleAt s h = None else h = uh \<and> IHandleAt s h \<noteq> None) \<and>
         installed h g i s s' \<and> w' = fold (\<lambda>f. call f g i h) (listeners s g) w))"
proof -
  obtain a p where a: "AllocatePool sizeof_PROTOCOL_INTERFACE (DbPool s1) = Some (a, p)"
    using smm_objects.alloc_total [OF db_pool(2) [OF f(2)] AllocatePool_db_sizes(3)] by blast
  show ?thesis
  proof (cases "a = 0")
    case True
    then have "s1\<lparr>DbPool := p\<rparr> = s1" using unchanged_pool [OF f(2) _ AllocatePool_db_sizes(3)] a by simp
    then have "SmmInstallProtocolInterface call (Some uh) (Some g) True i s w = Some (EFI_OUT_OF_RESOURCES, Some uh, s1, w)"
      using f(1) e err a True by (simp add: SmmInstallProtocolInterface_def SmmInstallProtocolInterfaceNotify_def Let_def AllocateZeroPool_eq)
    then show ?thesis using f by auto
  next
    case an: False
    have un1: "\<nexists>j. offers s1 uh g j" using un0 f(3) by simp
    note code = install_code [OF f(1) e err a an, of call i w]
    show ?thesis
    proof (rule install_end [OF f(2) y un1 a an, where i = i])
      fix h s3 p3
      assume failed: "get_handle uh p s1 = Some (h, s3)" "h = 0 \<or> EFI_ERROR (SmmValidateHandle h s3)"
        "FreePool a (DbPool s3) = Some p3" "s3\<lparr>DbPool := p3\<rparr> = s1\<lparr>DbPool := p3\<rparr>" "pool_ok p3 (mset_set (db_objs s1))"
      then show ?thesis using code db_ok_pool [OF f(2) failed(5)] f(3,4) by (auto simp: SmmValidateHandle_def)
    next
      fix h s3 p3
      assume "get_handle uh p s1 = Some (h, s3)" "h \<noteq> 0" "\<not> EFI_ERROR (SmmValidateHandle h s3)"
        "if uh = 0 then IHandleAt s1 h = None else h = uh \<and> IHandleAt s1 h \<noteq> None"
        "installed h g i s1 (linked a h e i p3 s1)" "link_all a h e i s3 = linked a h e i p3 s1"
      then show ?thesis using code notify_linked [OF f(2) y] ls pe f(3,4,5) by (auto simp: installed_def)
    qed
  qed
qed


section \<open>Removal of an interface\<close>

lemma entry_unique:
  assumes "db_ok s" "ProtEntryAt s d = Some x" "ProtEntryAt s e = Some y" "ProtocolID x = ProtocolID y" shows "d = e"
  using assms unfolding db_ok_def entries_ok_def by blast

lemma interface_unique:
  assumes "db_ok s" "InterfaceAt s a = Some p" "InterfaceAt s b = Some q" "IfHandle p = IfHandle q" "IfProtocol p = IfProtocol q"
  shows "a = b"
  using assms unfolding db_ok_def interfaces_ok_def by blast

lemma interface_search_result:
  "Interface_search at e i as \<noteq> 0 \<Longrightarrow> Interface_search at e i as \<in> set as \<and>
     Interface (the (at (Interface_search at e i as))) = i \<and> IfProtocol (the (at (Interface_search at e i as))) = e"
  by (induction as) (auto split: if_splits)

lemma interface_search_none:
  "0 \<notin> set as \<Longrightarrow> Interface_search at e i as = 0 \<longleftrightarrow>
     (\<forall>a \<in> set as. \<not> (Interface (the (at a)) = i \<and> IfProtocol (the (at a)) = e))"
  by (induction as) auto

lemma find_interface:
  assumes ok: "db_ok s" and h: "IHandleAt s h = Some x"
  shows "SmmFindProtocolInterface h g i s \<noteq> 0 \<Longrightarrow> \<exists>q y. InterfaceAt s (SmmFindProtocolInterface h g i s) = Some q \<and> IfHandle q = h \<and>
      Interface q = i \<and> ProtEntryAt s (IfProtocol q) = Some y \<and> ProtocolID y = g"
    and "SmmFindProtocolInterface h g i s = 0 \<longleftrightarrow> \<not> offers s h g i"
proof -
  let ?f = "SmmFindProtocolInterface h g i s" and ?e = "ProtEntry_search (ProtEntryAt s) g (mProtocolDatabase s)"
  have f: "?f = (if ?e = 0 then 0 else Interface_search (InterfaceAt s) ?e i (HandleProtocols x))"
    using h by (simp add: SmmFindProtocolInterface_def Let_def)
  note mem = handle_interfaces [OF ok h]
  have nz: "0 \<notin> set (HandleProtocols x)" using mem [of 0] interface_nonnull [OF ok] by blast
  show sound: "\<exists>q y. InterfaceAt s ?f = Some q \<and> IfHandle q = h \<and> Interface q = i \<and> ProtEntryAt s (IfProtocol q) = Some y \<and> ProtocolID y = g"
    if "?f \<noteq> 0"
  proof -
    have e: "?e \<noteq> 0" "Interface_search (InterfaceAt s) ?e i (HandleProtocols x) = ?f" using that f by (auto split: if_splits)
    then have r: "?f \<in> set (HandleProtocols x)" "Interface (the (InterfaceAt s ?f)) = i" "IfProtocol (the (InterfaceAt s ?f)) = ?e"
      using interface_search_result [of "InterfaceAt s" ?e i "HandleProtocols x"] that by auto
    then show ?thesis using mem [of ?f] find_entry [OF ok, of g ?e] e(1) by auto
  qed
  show "?f = 0 \<longleftrightarrow> \<not> offers s h g i"
  proof
    assume z: "?f = 0"
    show "\<not> offers s h g i"
    proof
      assume "offers s h g i"
      then obtain a q y where a: "InterfaceAt s a = Some q" "IfHandle q = h" "Interface q = i"
        "ProtEntryAt s (IfProtocol q) = Some y" "ProtocolID y = g" by (auto simp: offers_def)
      then have e: "?e = IfProtocol q" "?e \<noteq> 0" using find_entry [OF ok, of g "IfProtocol q"] by auto
      have "a \<in> set (HandleProtocols x)" using mem a by blast
      then show False using z f e interface_search_none [OF nz, of "InterfaceAt s" ?e i] a by auto
    qed
  next
    assume "\<not> offers s h g i"
    then show "?f = 0" using sound by (auto simp: offers_def)
  qed
qed

text \<open>The database without the interface \<open>a\<close>, and without its handle when it was the last one.\<close>

definition reposition :: "UINTN \<Rightarrow> PROTOCOL_ENTRY \<Rightarrow> (UINTN \<rightharpoonup> 'f PROTOCOL_NOTIFY) \<Rightarrow> (UINTN \<rightharpoonup> 'f PROTOCOL_NOTIFY)" where
  "reposition a y at = (\<lambda>n. if n \<in> set (Notify y) \<and> map_option Position (at n) = Some a
     then map_option (\<lambda>q. q\<lparr>Position := BackLink 0 a (Protocols y)\<rparr>) (at n) else at n)"

definition unlinked :: "UINTN \<Rightarrow> smm_memory \<Rightarrow> 'f protocol_db \<Rightarrow> 'f protocol_db" where
  "unlinked a p s =
    (let q = the (InterfaceAt s a); h = IfHandle q; e = IfProtocol q; x = the (IHandleAt s h); y = the (ProtEntryAt s e);
         gone = (remove1 a (HandleProtocols x) = [])
     in s\<lparr>DbPool := p, NotifyAt := reposition a y (NotifyAt s),
          ProtEntryAt := (ProtEntryAt s)(e \<mapsto> y\<lparr>Protocols := remove1 a (Protocols y)\<rparr>),
          IHandleAt := (IHandleAt s)(h := if gone then None else Some (x\<lparr>HandleProtocols := remove1 a (HandleProtocols x)\<rparr>)),
          InterfaceAt := (InterfaceAt s)(a := None),
          gHandleList := (if gone then remove1 h (gHandleList s) else gHandleList s)\<rparr>)"

lemma BackLink_mem: "BackLink prev a xs = prev \<or> BackLink prev a xs \<in> set xs"
  by (induction xs arbitrary: prev) auto

lemma BackLink_neq: "distinct xs \<Longrightarrow> a \<in> set xs \<Longrightarrow> prev \<noteq> a \<Longrightarrow> BackLink prev a xs \<noteq> a"
  by (induction xs arbitrary: prev) auto

lemma unlinked_fields:
  assumes "InterfaceAt s a = Some q" "IHandleAt s (IfHandle q) = Some x" "ProtEntryAt s (IfProtocol q) = Some y"
  shows "InterfaceAt (unlinked a p s) b = (if b = a then None else InterfaceAt s b)"
    "NotifyAt (unlinked a p s) = reposition a y (NotifyAt s)" "mProtocolDatabase (unlinked a p s) = mProtocolDatabase s"
    "DbPool (unlinked a p s) = p" "mEfiLocateHandleRequest (unlinked a p s) = mEfiLocateHandleRequest s"
    "gHandleList (unlinked a p s) = (if remove1 a (HandleProtocols x) = [] then remove1 (IfHandle q) (gHandleList s) else gHandleList s)"
    "IHandleAt (unlinked a p s) k = (if k = IfHandle q then
       (if remove1 a (HandleProtocols x) = [] then None else Some (x\<lparr>HandleProtocols := remove1 a (HandleProtocols x)\<rparr>)) else IHandleAt s k)"
    "ProtEntryAt (unlinked a p s) d = (if d = IfProtocol q then Some (y\<lparr>Protocols := remove1 a (Protocols y)\<rparr>) else ProtEntryAt s d)"
  using assms by (simp_all add: unlinked_def Let_def)

lemma reposition_simps:
  "dom (reposition a y at) = dom at"
  "map_option NotifyProtocol (reposition a y at n) = map_option NotifyProtocol (at n)"
  "map_option Function (reposition a y at n) = map_option Function (at n)"
  by (auto simp: reposition_def dom_def option.map_comp comp_def)

lemma map_option_field:
  "map_option f u = map_option f v \<Longrightarrow> (\<exists>r. u = Some r \<and> f r = d) \<longleftrightarrow> (\<exists>r. v = Some r \<and> f r = d)"
  by (cases u; cases v) auto

lemma handle_list:
  assumes "db_ok s" "IHandleAt s h = Some x"
  shows "distinct (HandleProtocols x)" "HandleProtocols x \<noteq> []"
  using assms unfolding db_ok_def handles_ok_def by blast+

lemma unlinked_handles:
  assumes ok: "db_ok s" and a: "InterfaceAt s a = Some q"
  shows "handles_ok (unlinked a p s)"
proof -
  obtain x y where x: "IHandleAt s (IfHandle q) = Some x" "ProtEntryAt s (IfProtocol q) = Some y" using interface_refs [OF ok a] by blast
  note fs = unlinked_fields [OF a x, of p]
  have g: "distinct (gHandleList s)" "set (gHandleList s) = dom (IHandleAt s)"
    using ok by (simp_all add: db_ok_def handles_ok_def)
  show ?thesis unfolding handles_ok_def
  proof (intro conjI allI impI)
    show "distinct (gHandleList (unlinked a p s))" using g(1) fs by simp
    show "set (gHandleList (unlinked a p s)) = dom (IHandleAt (unlinked a p s))"
      using g x(1) by (auto simp: fs dom_def split: if_splits)
  next
    fix k z assume k: "IHandleAt (unlinked a p s) k = Some z"
    then consider "k \<noteq> IfHandle q" "IHandleAt s k = Some z"
      | "k = IfHandle q" "remove1 a (HandleProtocols x) \<noteq> []" "z = x\<lparr>HandleProtocols := remove1 a (HandleProtocols x)\<rparr>"
      by (auto simp: fs split: if_splits)
    note cases = this
    show "HandleProtocols z \<noteq> []" using cases handle_list [OF ok] by cases auto
    show "distinct (HandleProtocols z)" using cases handle_list [OF ok] x(1) by cases auto
    show "b \<in> set (HandleProtocols z) \<longleftrightarrow> (\<exists>r. InterfaceAt (unlinked a p s) b = Some r \<and> IfHandle r = k)" for b
      using cases
    proof cases
      case 1
      then show ?thesis using handle_interfaces [OF ok 1(2), of b] a by (auto simp: fs)
    next
      case 2
      then show ?thesis using handle_interfaces [OF ok x(1), of b] handle_list(1) [OF ok x(1)] by (auto simp: fs)
    qed
  qed
qed

lemma unlinked_entries:
  assumes ok: "db_ok s" and a: "InterfaceAt s a = Some q"
  shows "entries_ok (unlinked a p s)"
proof -
  let ?s = "unlinked a p s"
  obtain x y where x: "IHandleAt s (IfHandle q) = Some x" "ProtEntryAt s (IfProtocol q) = Some y" using interface_refs [OF ok a] by blast
  note fs = unlinked_fields [OF a x, of p]
  have g: "distinct (mProtocolDatabase s)" "set (mProtocolDatabase s) = dom (ProtEntryAt s)"
    using ok by (simp_all add: db_ok_def entries_ok_def)
  have inj: "d = d'" if "ProtEntryAt s d = Some u" "ProtEntryAt s d' = Some u'" "ProtocolID u = ProtocolID u'" for d d' u u'
    using ok that unfolding db_ok_def entries_ok_def by blast
  have id: "\<exists>u'. ProtEntryAt s d = Some u' \<and> ProtocolID u' = ProtocolID u \<and> Notify u' = Notify u \<and>
      Protocols u = (if d = IfProtocol q then remove1 a (Protocols u') else Protocols u')" if "ProtEntryAt ?s d = Some u" for d u
    using that x by (auto simp: fs split: if_splits)
  have nf: "(\<exists>r. NotifyAt ?s n = Some r \<and> NotifyProtocol r = d) \<longleftrightarrow> (\<exists>r. NotifyAt s n = Some r \<and> NotifyProtocol r = d)" for n d
    unfolding fs by (rule map_option_field) (rule reposition_simps(2))
  show ?thesis unfolding entries_ok_def
  proof (intro conjI allI impI)
    show "distinct (mProtocolDatabase ?s)" using g(1) by (simp add: fs)
    show "set (mProtocolDatabase ?s) = dom (ProtEntryAt ?s)" using g(2) x by (auto simp: fs dom_def)
    show "d = d'" if "ProtEntryAt ?s d = Some u" "ProtEntryAt ?s d' = Some u'" "ProtocolID u = ProtocolID u'" for d d' u u'
      using id [OF that(1)] id [OF that(2)] that(3) inj by metis
  next
    fix d u assume "ProtEntryAt ?s d = Some u"
    then obtain u' where u': "ProtEntryAt s d = Some u'" "Notify u' = Notify u"
      "Protocols u = (if d = IfProtocol q then remove1 a (Protocols u') else Protocols u')" using id by blast
    note l = entry_lists [OF ok u'(1)]
    show "distinct (Protocols u)" "distinct (Notify u)" using l(3,4) u' by auto
    show "b \<in> set (Protocols u) \<longleftrightarrow> (\<exists>r. InterfaceAt ?s b = Some r \<and> IfProtocol r = d)" for b
      using l(1) [of b] l(3) a u'(3) by (auto simp: fs)
    show "n \<in> set (Notify u) \<longleftrightarrow> (\<exists>r. NotifyAt ?s n = Some r \<and> NotifyProtocol r = d)" for n
      using l(2) [of n] u'(2) nf by simp
  qed
qed


lemma unlinked_notifies:
  assumes ok: "db_ok s" and a: "InterfaceAt s a = Some q"
  shows "notifies_ok (unlinked a p s)"
proof -
  let ?s = "unlinked a p s"
  obtain x y where x: "IHandleAt s (IfHandle q) = Some x" "ProtEntryAt s (IfProtocol q) = Some y" using interface_refs [OF ok a] by blast
  note fs = unlinked_fields [OF a x, of p]
  note l = entry_lists [OF ok x(2)]
  have ay: "a \<in> set (Protocols y)" using l(1) a by blast
  show ?thesis unfolding notifies_ok_def
  proof (intro allI impI)
    fix n r assume n: "NotifyAt ?s n = Some r"
    then obtain r0 where r0: "NotifyAt s n = Some r0" "NotifyProtocol r0 = NotifyProtocol r"
      "Position r = (if n \<in> set (Notify y) \<and> Position r0 = a then BackLink 0 a (Protocols y) else Position r0)"
      by (auto simp: fs reposition_def split: if_splits)
    obtain z where z: "ProtEntryAt s (NotifyProtocol r0) = Some z" "Position r0 = 0 \<or> Position r0 \<in> set (Protocols z)"
      using ok r0(1) unfolding db_ok_def notifies_ok_def by force
    show "ProtEntryAt ?s (NotifyProtocol r) \<noteq> None \<and>
        (Position r = 0 \<or> Position r \<in> set (Protocols (the (ProtEntryAt ?s (NotifyProtocol r)))))"
    proof (cases "NotifyProtocol r = IfProtocol q")
      case False
      have "n \<notin> set (Notify y)" using l(2) [of n] r0 False by auto
      then show ?thesis using False z r0 by (auto simp: fs)
    next
      case True
      have ny: "n \<in> set (Notify y)" using l(2) [of n] r0 True by auto
      have zy: "z = y" using z(1) r0(2) True x(2) by simp
      have bl: "BackLink 0 a (Protocols y) = 0 \<or> BackLink 0 a (Protocols y) \<in> set (remove1 a (Protocols y))"
        using BackLink_mem [of 0 a "Protocols y"] BackLink_neq [OF l(3) ay, of 0] interface_nonnull [OF ok a] l(3) by auto
      show ?thesis using True r0(3) ny z(2) zy bl l(3) by (auto simp: fs)
    qed
  qed
qed

lemma unlinked_interfaces:
  assumes ok: "db_ok s" and a: "InterfaceAt s a = Some q"
  shows "interfaces_ok (unlinked a p s)"
proof -
  let ?s = "unlinked a p s"
  obtain x y where x: "IHandleAt s (IfHandle q) = Some x" "ProtEntryAt s (IfProtocol q) = Some y" using interface_refs [OF ok a] by blast
  note fs = unlinked_fields [OF a x, of p]
  have un: "b = c" if "InterfaceAt s b = Some r" "InterfaceAt s c = Some t" "IfHandle r = IfHandle t" "IfProtocol r = IfProtocol t" for b c r t
    using ok that unfolding db_ok_def interfaces_ok_def by blast
  show ?thesis unfolding interfaces_ok_def
  proof (intro conjI allI impI)
    fix b r assume b: "InterfaceAt ?s b = Some r"
    then have b': "InterfaceAt s b = Some r" "b \<noteq> a" by (auto simp: fs split: if_splits)
    show "ProtEntryAt ?s (IfProtocol r) \<noteq> None" using interface_refs(2) [OF ok b'(1)] by (auto simp: fs)
    have "b \<in> set (remove1 a (HandleProtocols x))" if "IfHandle r = IfHandle q"
      using handle_interfaces [OF ok x(1), of b] b' that handle_list(1) [OF ok x(1)] by auto
    then have "remove1 a (HandleProtocols x) \<noteq> []" if "IfHandle r = IfHandle q" using that by fastforce
    then show "IHandleAt ?s (IfHandle r) \<noteq> None" using interface_refs(1) [OF ok b'(1)] by (auto simp: fs)
  next
    fix b c r t assume "InterfaceAt ?s b = Some r" "InterfaceAt ?s c = Some t" "IfHandle r = IfHandle t" "IfProtocol r = IfProtocol t"
    then show "b = c" by (auto simp: fs split: if_splits intro: un)
  qed
qed

text \<open>The objects that are left.\<close>

lemma unlinked_ok:
  assumes ok: "db_ok s" and a: "InterfaceAt s a = Some q" "IHandleAt s (IfHandle q) = Some x"
    and pool: "pool_ok p (mset_set (db_objs s - {a} - (if remove1 a (HandleProtocols x) = [] then {IfHandle q} else {})))"
  shows "db_ok (unlinked a p s)"
proof -
  obtain y where y: "ProtEntryAt s (IfProtocol q) = Some y" using interface_refs(2) [OF ok a(1)] by blast
  note fs = unlinked_fields [OF a y, of p]
  have d: "dom (InterfaceAt (unlinked a p s)) = dom (InterfaceAt s) - {a}" "dom (NotifyAt (unlinked a p s)) = dom (NotifyAt s)"
    "dom (ProtEntryAt (unlinked a p s)) = dom (ProtEntryAt s)"
    "dom (IHandleAt (unlinked a p s)) = dom (IHandleAt s) - (if remove1 a (HandleProtocols x) = [] then {IfHandle q} else {})"
    using a y by (auto simp: fs dom_def reposition_def split: if_splits)
  let ?S = "if remove1 a (HandleProtocols x) = [] then {IfHandle q} else {}"
  have p: "finite (db_objs s)" "dom (IHandleAt s) \<inter> dom (ProtEntryAt s) = {}" "dom (IHandleAt s) \<inter> dom (InterfaceAt s) = {}"
    "dom (IHandleAt s) \<inter> dom (NotifyAt s) = {}" "dom (ProtEntryAt s) \<inter> dom (InterfaceAt s) = {}"
    "dom (ProtEntryAt s) \<inter> dom (NotifyAt s) = {}" "dom (InterfaceAt s) \<inter> dom (NotifyAt s) = {}"
    using ok unfolding db_ok_def db_pool_ok_def by blast+
  have m: "a \<in> dom (InterfaceAt s)" "IfHandle q \<in> dom (IHandleAt s)" using a by auto
  then have S: "a \<notin> dom (IHandleAt s)" "a \<notin> dom (ProtEntryAt s)" "a \<notin> dom (NotifyAt s)"
    "?S \<inter> dom (ProtEntryAt s) = {}" "?S \<inter> dom (InterfaceAt s) = {}" "?S \<inter> dom (NotifyAt s) = {}"
    using p by (simp_all; blast)+
  have objs: "db_objs (unlinked a p s) = db_objs s - {a} - ?S"
    unfolding db_objs_def d using S by blast
  have "db_pool_ok (unlinked a p s)" unfolding db_pool_ok_def objs d fs(4) using p pool
    by (intro conjI finite_Diff; (assumption | blast))
  then show ?thesis using unlinked_handles [OF ok a(1)] unlinked_entries [OF ok a(1)] unlinked_interfaces [OF ok a(1)]
      unlinked_notifies [OF ok a(1)] by (simp add: db_ok_def)
qed


lemma unlinked_offers:
  fixes s :: "'f protocol_db"
  assumes ok: "db_ok s" and a: "InterfaceAt s a = Some q" "ProtEntryAt s (IfProtocol q) = Some y" "ProtocolID y = g"
  shows "offers (unlinked a p s) h' g' j \<longleftrightarrow> offers s h' g' j \<and> (h', g') \<noteq> (IfHandle q, g)"
proof -
  obtain x where x: "IHandleAt s (IfHandle q) = Some x" using interface_refs(1) [OF ok a(1)] by blast
  note fs = unlinked_fields [OF a(1) x a(2), of p]
  have id: "map_option ProtocolID (ProtEntryAt (unlinked a p s) d) = map_option ProtocolID (ProtEntryAt s d)" for d
    using a by (simp add: fs)
  have off: "offers t k l j \<longleftrightarrow> (\<exists>b r. InterfaceAt t b = Some r \<and> IfHandle r = k \<and> Interface r = j \<and>
      map_option ProtocolID (ProtEntryAt t (IfProtocol r)) = Some l)" for t :: "'f protocol_db" and k l j
    by (auto simp: offers_def)
  have un: "b = a" if b: "InterfaceAt s b = Some r" "IfHandle r = IfHandle q" "map_option ProtocolID (ProtEntryAt s (IfProtocol r)) = Some g" for b r
  proof -
    obtain z where z: "ProtEntryAt s (IfProtocol r) = Some z" "ProtocolID z = g" using b(3) by auto
    then have "IfProtocol r = IfProtocol q" using entry_unique [OF ok z(1) a(2)] a(3) by simp
    then show ?thesis by (rule interface_unique [OF ok b(1) a(1) b(2)])
  qed
  have "offers (unlinked a p s) h' g' j" if "offers s h' g' j" "(h', g') \<noteq> (IfHandle q, g)"
  proof -
    obtain b r where b: "InterfaceAt s b = Some r" "IfHandle r = h'" "Interface r = j"
      "map_option ProtocolID (ProtEntryAt s (IfProtocol r)) = Some g'" using \<open>offers s h' g' j\<close> unfolding off by blast
    then have "b \<noteq> a" using a that(2) by auto
    then have "InterfaceAt (unlinked a p s) b = Some r" using b(1) by (simp add: fs)
    then show ?thesis unfolding off id using b by blast
  qed
  moreover have "offers s h' g' j \<and> (h', g') \<noteq> (IfHandle q, g)" if off': "offers (unlinked a p s) h' g' j"
  proof -
    obtain b r where b: "InterfaceAt (unlinked a p s) b = Some r" "IfHandle r = h'" "Interface r = j"
      "map_option ProtocolID (ProtEntryAt s (IfProtocol r)) = Some g'" using off' unfolding off id by blast
    then have b': "InterfaceAt s b = Some r" "b \<noteq> a" by (auto simp: fs split: if_splits)
    have "(h', g') \<noteq> (IfHandle q, g)" using un [OF b'(1)] b b'(2) by blast
    then show ?thesis unfolding off using b b' by blast
  qed
  ultimately show ?thesis by blast
qed

lemma unlinked_provided:
  assumes ok: "db_ok s" and a: "InterfaceAt s a = Some q" "ProtEntryAt s (IfProtocol q) = Some y" "ProtocolID y = g"
    and ok': "db_ok (unlinked a p s)"
  shows "provided (unlinked a p s) = (provided s)(g := filter (\<lambda>z. fst z \<noteq> IfHandle q) (provided s g))"
proof
  fix k
  let ?s = "unlinked a p s" and ?f = "\<lambda>b. (IfHandle (the (InterfaceAt s b)), Interface (the (InterfaceAt s b)))"
  obtain x where x: "IHandleAt s (IfHandle q) = Some x" using interface_refs(1) [OF ok a(1)] by blast
  note fs = unlinked_fields [OF a(1) x a(2), of p]
  show "provided ?s k = ((provided s)(g := filter (\<lambda>z. fst z \<noteq> IfHandle q) (provided s g))) k"
  proof (cases "\<exists>d u. ProtEntryAt s d = Some u \<and> ProtocolID u = k")
    case True
    then obtain d u where d: "ProtEntryAt s d = Some u" "ProtocolID u = k" by blast
    show ?thesis
    proof (cases "d = IfProtocol q")
      case True
      note l = entry_lists [OF ok a(2)]
      have "ProtEntryAt ?s (IfProtocol q) = Some (y\<lparr>Protocols := remove1 a (Protocols y)\<rparr>)" by (simp add: fs)
      from provided_entry [OF ok' this] have "provided ?s g = map ?f (remove1 a (Protocols y))"
        using a(3) l(3) by (simp add: fs)
      also have "\<dots> = map ?f (filter (\<lambda>b. a \<noteq> b) (Protocols y))" using l(3) by (simp add: distinct_remove1_removeAll removeAll_filter_not_eq)
      also have "\<dots> = map ?f (filter (\<lambda>b. IfHandle (the (InterfaceAt s b)) \<noteq> IfHandle q) (Protocols y))"
      proof -
        have "a \<noteq> b \<longleftrightarrow> IfHandle (the (InterfaceAt s b)) \<noteq> IfHandle q" if bm: "b \<in> set (Protocols y)" for b
        proof -
          obtain r where r: "InterfaceAt s b = Some r" "IfProtocol r = IfProtocol q" using l(1) [of b] bm by blast
          have "IfHandle r = IfHandle q \<Longrightarrow> b = a" using interface_unique [OF ok r(1) a(1)] r(2) by blast
          then show ?thesis using r a(1) by auto
        qed
        then have "filter (\<lambda>b. a \<noteq> b) (Protocols y) = filter (\<lambda>b. IfHandle (the (InterfaceAt s b)) \<noteq> IfHandle q) (Protocols y)"
          by (intro filter_cong) auto
        then show ?thesis by simp
      qed
      also have "\<dots> = filter (\<lambda>z. fst z \<noteq> IfHandle q) (map ?f (Protocols y))" by (simp add: filter_map comp_def)
      finally show ?thesis using provided_entry [OF ok a(2)] a d True by auto
    next
      case False
      then have "k \<noteq> g" using entry_unique [OF ok d(1) a(2)] d(2) a(3) by auto
      have e: "ProtEntryAt ?s d = Some u" using False d by (simp add: fs)
      have "a \<notin> set (Protocols u)" using entry_lists(1) [OF ok d(1), of a] a False by auto
      then have "map (\<lambda>b. (IfHandle (the (InterfaceAt ?s b)), Interface (the (InterfaceAt ?s b)))) (Protocols u) = map ?f (Protocols u)"
        by (auto simp: fs)
      then show ?thesis using provided_entry [OF ok' e] provided_entry [OF ok d(1)] \<open>k \<noteq> g\<close> d(2) by auto
    qed
  next
    case False
    then have "k \<noteq> g" using a by blast
    moreover have "provided ?s k = []"
    proof (rule provided_none [OF ok'])
      fix d u assume "ProtEntryAt ?s d = Some u"
      then have "\<exists>u'. ProtEntryAt s d = Some u' \<and> ProtocolID u' = ProtocolID u"
        using a by (auto simp: fs split: if_splits)
      then show "ProtocolID u \<noteq> k" using False by metis
    qed
    ultimately show ?thesis using provided_none [OF ok, of k] False by auto
  qed
qed

lemma unlinked_pending:
  assumes ok: "db_ok s" and a: "InterfaceAt s a = Some q" "ProtEntryAt s (IfProtocol q) = Some y" "ProtocolID y = g"
  shows "pending (unlinked a p s) n = (if watches s n g then filter (\<lambda>z. fst z \<noteq> IfHandle q) (pending s n) else pending s n)"
proof -
  obtain x where x: "IHandleAt s (IfHandle q) = Some x" using interface_refs(1) [OF ok a(1)] by blast
  let ?s = "unlinked a p s" and ?f = "\<lambda>b. (IfHandle (the (InterfaceAt s b)), Interface (the (InterfaceAt s b)))"
  note fs = unlinked_fields [OF a(1) x a(2), of p] and l = entry_lists [OF ok a(2)]
  show ?thesis
  proof (cases "NotifyAt s n")
    case None
    then show ?thesis by (simp add: pending_def watches_def fs reposition_def)
  next
    case (Some r)
    show ?thesis
    proof (rule notify_place [OF ok Some])
      fix z assume z: "ProtEntryAt s (NotifyProtocol r) = Some z" "distinct (Protocols z)" "0 \<notin> set (Protocols z)"
        "Position r = 0 \<or> Position r \<in> set (Protocols z)"
      note sub = set_after [of "Position r" "Protocols z"]
      show ?thesis
      proof (cases "NotifyProtocol r = IfProtocol q")
        case True
        then have zy: "z = y" "watches s n g" and am: "a \<in> set (Protocols z)" "n \<in> set (Notify y)"
          using z(1) a Some l(1) [of a] l(2) [of n] by (auto simp: watches_def)
        let ?vs = "after (Position r) (Protocols z)"
        have "distinct ?vs" by (rule after_cases [OF z(2-4)]) (use z(2) in \<open>metis distinct_append\<close>)
        then have rm: "remove1 a ?vs = filter (\<lambda>b. b \<noteq> a) ?vs" "a \<notin> set (remove1 a ?vs)"
          by (auto simp: distinct_remove1_removeAll removeAll_filter_not_eq intro: filter_cong)
        have "pending ?s n = map (\<lambda>b. (IfHandle (the (InterfaceAt ?s b)), Interface (the (InterfaceAt ?s b)))) (remove1 a ?vs)"
          unfolding after_remove [OF z(2-4) am(1), symmetric] using Some True am(2) zy(1) by (simp add: pending_def fs reposition_def)
        also have "\<dots> = map ?f (remove1 a ?vs)" using rm(2) by (intro map_cong) (auto simp: fs)
        also have "\<dots> = map ?f (filter (\<lambda>b. IfHandle (the (InterfaceAt s b)) \<noteq> IfHandle q) ?vs)"
        proof -
          have "b \<noteq> a \<longleftrightarrow> IfHandle (the (InterfaceAt s b)) \<noteq> IfHandle q" if bm: "b \<in> set ?vs" for b
          proof -
            obtain t where t: "InterfaceAt s b = Some t" "IfProtocol t = IfProtocol q" using l(1) [of b] bm sub zy(1) by blast
            have "IfHandle t = IfHandle q \<Longrightarrow> b = a" using interface_unique [OF ok t(1) a(1)] t(2) by blast
            then show ?thesis using t a(1) by auto
          qed
          then have "filter (\<lambda>b. b \<noteq> a) ?vs = filter (\<lambda>b. IfHandle (the (InterfaceAt s b)) \<noteq> IfHandle q) ?vs" by (intro filter_cong) auto
          then show ?thesis unfolding rm(1) by simp
        qed
        also have "\<dots> = filter (\<lambda>w. fst w \<noteq> IfHandle q) (pending s n)" using Some z(1) by (simp add: pending_def filter_map comp_def)
        finally show ?thesis using zy(2) by simp
      next
        case False
        then have "\<not> watches s n g" using Some z(1) entry_unique [OF ok z(1) a(2)] a(3) by (auto simp: watches_def)
        moreover have "a \<notin> set (Protocols z)" "n \<notin> set (Notify y)"
          using entry_lists(1) [OF ok z(1), of a] l(2) [of n] a(1) Some False by auto
        ultimately show ?thesis using False z(1) Some sub by (auto simp: pending_def fs reposition_def)
      qed
    qed
  qed
qed

text \<open>The code reaches the state described above.\<close>

lemma remove_code:
  assumes "SmmFindProtocolInterface h g i s = a" "a \<noteq> 0" "InterfaceAt s a = Some q" "ProtEntryAt s (IfProtocol q) = Some y"
  shows "SmmRemoveInterfaceFromProtocol h g i s = (a, s\<lparr>NotifyAt := reposition a y (NotifyAt s),
     ProtEntryAt := (ProtEntryAt s)(IfProtocol q \<mapsto> y\<lparr>Protocols := remove1 a (Protocols y)\<rparr>)\<rparr>)"
  using assms(2) unfolding SmmRemoveInterfaceFromProtocol_def assms(1) Let_def reposition_def assms(3) option.sel assms(4) by simp

lemma uninstall_code:
  assumes ok: "db_ok s" and x: "IHandleAt s h = Some x"
    and f: "SmmFindProtocolInterface h g i s = a" "a \<noteq> 0"
    and q: "InterfaceAt s a = Some q" "IfHandle q = h" "ProtEntryAt s (IfProtocol q) = Some y"
    and p: "FreePool a (DbPool s) = Some p" "if remove1 a (HandleProtocols x) = [] then FreePool h p = Some p' else p' = p"
  shows "SmmUninstallProtocolInterface h (Some g) i s = Some (EFI_SUCCESS, unlinked a p' s)"
proof -
  have "h \<noteq> 0" by (rule handle_nonnull [OF ok x])
  moreover have "s\<lparr>NotifyAt := N, ProtEntryAt := E, IHandleAt := H, InterfaceAt := I, DbPool := P\<rparr> =
      s\<lparr>DbPool := P, NotifyAt := N, ProtEntryAt := E, IHandleAt := H, InterfaceAt := I, gHandleList := gHandleList s\<rparr>"
    "s\<lparr>NotifyAt := N, ProtEntryAt := E, InterfaceAt := I, IHandleAt := H, gHandleList := L, DbPool := P\<rparr> =
      s\<lparr>DbPool := P, NotifyAt := N, ProtEntryAt := E, IHandleAt := H, InterfaceAt := I, gHandleList := L\<rparr>" for N E H I P L
    by simp_all
  ultimately show ?thesis using x q p f(2) remove_code [OF f q(1,3)] f(1)
    by (cases "remove1 a (HandleProtocols x) = []") (simp_all add: SmmUninstallProtocolInterface_def SmmValidateHandle_def Let_def unlinked_def)
qed

lemma handle_alive:
  assumes "db_ok s" shows "IHandleAt s h = None \<longleftrightarrow> (\<nexists>g j. offers s h g j)"
proof (cases "IHandleAt s h")
  case None
  then show ?thesis using interface_refs(1) [OF assms] by (fastforce simp: offers_def)
next
  case (Some x)
  obtain a where "a \<in> set (HandleProtocols x)" using handle_list(2) [OF assms Some] by (meson last_in_set)
  then obtain q where q: "InterfaceAt s a = Some q" "IfHandle q = h" using handle_interfaces [OF assms Some] by blast
  then show ?thesis using Some interface_refs(2) [OF assms q(1)] by (auto simp: offers_def)
qed

text \<open>C10. Uninstalling an interface.  A handle that is not one is refused with EFI_INVALID_PARAMETER, an
interface that the handle does not offer for the protocol with EFI_NOT_FOUND, and nothing changes.
Otherwise the call succeeds: that protocol is withdrawn from that handle and nothing else is, the
order of the other interfaces stays, it no longer waits for any registration, and the handle disappears exactly when it offered nothing else.\<close>

theorem UninstallProtocolInterface_offers:
  fixes s :: "'f protocol_db"
  assumes ok: "db_ok s"
  shows "if IHandleAt s h = None then SmmUninstallProtocolInterface h (Some g) i s = Some (EFI_INVALID_PARAMETER, s)
    else if \<not> offers s h g i then SmmUninstallProtocolInterface h (Some g) i s = Some (EFI_NOT_FOUND, s)
    else \<exists>s'. SmmUninstallProtocolInterface h (Some g) i s = Some (EFI_SUCCESS, s') \<and> db_ok s' \<and>
      (\<forall>h' g' j. offers s' h' g' j \<longleftrightarrow> offers s h' g' j \<and> (h', g') \<noteq> (h, g)) \<and>
      provided s' = (provided s)(g := filter (\<lambda>z. fst z \<noteq> h) (provided s g)) \<and>
      (\<forall>n. pending s' n = (if watches s n g then filter (\<lambda>z. fst z \<noteq> h) (pending s n) else pending s n)) \<and>
      (IHandleAt s' h = None \<longleftrightarrow> (\<forall>g' j. offers s h g' j \<longrightarrow> g' = g))"
proof (cases "IHandleAt s h")
  case None
  then show ?thesis by (simp add: SmmUninstallProtocolInterface_def SmmValidateHandle_def)
next
  case (Some x)
  have hz: "h \<noteq> 0" by (rule handle_nonnull [OF ok Some])
  let ?a = "SmmFindProtocolInterface h g i s"
  show ?thesis
  proof (cases "offers s h g i")
    case False
    then show ?thesis using find_interface(2) [OF ok Some, of g i] Some hz
      by (simp add: SmmUninstallProtocolInterface_def SmmValidateHandle_def)
  next
    case True
    then have a: "?a \<noteq> 0" using find_interface(2) [OF ok Some, of g i] by simp
    obtain q y where q: "InterfaceAt s ?a = Some q" "IfHandle q = h" "Interface q = i" "ProtEntryAt s (IfProtocol q) = Some y" "ProtocolID y = g"
      using find_interface(1) [OF ok Some a] by blast
    have xq: "IHandleAt s (IfHandle q) = Some x" using Some q(2) by simp
    note pool = db_pool(1,2) [OF ok]
    have mem: "?a \<in> db_objs s" "h \<in> db_objs s - {?a}" using q(1) Some ok by (auto simp: db_objs_def db_ok_def db_pool_ok_def)
    obtain p where p: "FreePool ?a (DbPool s) = Some p" "pool_ok p (mset_set (db_objs s - {?a}))"
      using release_object [OF pool mem(1)] by blast
    obtain p' where p': "if remove1 ?a (HandleProtocols x) = [] then FreePool h p = Some p' else p' = p"
      "pool_ok p' (mset_set (db_objs s - {?a} - (if remove1 ?a (HandleProtocols x) = [] then {IfHandle q} else {})))"
      using release_object [OF _ p(2) mem(2)] p(2) pool(1) q(2) by (cases "remove1 ?a (HandleProtocols x) = []") auto
    note code = uninstall_code [OF ok Some refl a q(1,2,4) p(1) p'(1)]
    have ok': "db_ok (unlinked ?a p' s)" by (rule unlinked_ok [OF ok q(1) xq p'(2)])
    note off = unlinked_offers [OF ok q(1,4,5), of p'] and pend = unlinked_pending [OF ok q(1,4,5), of p'] and prov = unlinked_provided [OF ok q(1,4,5) ok']
    from handle_alive [OF ok', of h] show ?thesis using Some True code ok' off prov pend q(2) by (auto simp del: split_paired_All)
  qed
qed

section \<open>Searching by protocol\<close>

text \<open>No handle carries the number of the next search.\<close>

definition requests_ok :: "'f protocol_db \<Rightarrow> bool" where
  "requests_ok s \<longleftrightarrow> unat (mEfiLocateHandleRequest s) + 1 < 18446744073709551616 \<and>
     (\<forall>h x. IHandleAt s h = Some x \<longrightarrow> unat (LocateRequest x) \<le> unat (mEfiLocateHandleRequest s))"

text \<open>Two states that differ in search numbers only.\<close>

definition same_db :: "'f protocol_db \<Rightarrow> 'f protocol_db \<Rightarrow> bool" where
  "same_db s s' \<longleftrightarrow> (\<exists>H r. s' = s\<lparr>IHandleAt := H, mEfiLocateHandleRequest := r\<rparr> \<and>
     (\<forall>h. map_option HandleProtocols (H h) = map_option HandleProtocols (IHandleAt s h)))"

lemma same_db_refl [simp]: "same_db s s"
proof -
  have "s = s\<lparr>IHandleAt := IHandleAt s, mEfiLocateHandleRequest := mEfiLocateHandleRequest s\<rparr>" by simp
  then show ?thesis unfolding same_db_def by blast
qed

lemma same_db_trans: "same_db s t \<Longrightarrow> same_db t u \<Longrightarrow> same_db s u"
  unfolding same_db_def by (auto, blast)

lemma same_db_fields:
  assumes "same_db s s'"
  shows "DbPool s' = DbPool s" "mProtocolDatabase s' = mProtocolDatabase s" "gHandleList s' = gHandleList s"
    "ProtEntryAt s' = ProtEntryAt s" "InterfaceAt s' = InterfaceAt s" "NotifyAt s' = NotifyAt s" "dom (IHandleAt s') = dom (IHandleAt s)"
    "map_option HandleProtocols (IHandleAt s' h) = map_option HandleProtocols (IHandleAt s h)"
proof -
  obtain H r where H: "s' = s\<lparr>IHandleAt := H, mEfiLocateHandleRequest := r\<rparr>"
    "\<And>h. map_option HandleProtocols (H h) = map_option HandleProtocols (IHandleAt s h)" using assms by (auto simp: same_db_def)
  show "DbPool s' = DbPool s" "mProtocolDatabase s' = mProtocolDatabase s" "gHandleList s' = gHandleList s"
    "ProtEntryAt s' = ProtEntryAt s" "InterfaceAt s' = InterfaceAt s" "NotifyAt s' = NotifyAt s"
    "map_option HandleProtocols (IHandleAt s' h) = map_option HandleProtocols (IHandleAt s h)" using H by simp_all
  have "H h \<noteq> None \<longleftrightarrow> IHandleAt s h \<noteq> None" for h using H(2) [of h] by (metis option.map_disc_iff)
  then show "dom (IHandleAt s') = dom (IHandleAt s)" using H(1) by (auto simp: dom_def)
qed

lemma same_db_ok:
  assumes "same_db s s'"
  shows "db_ok s' \<longleftrightarrow> db_ok s" "offers s' = offers s" "provided s' = provided s"
proof -
  note f = same_db_fields [OF assms]
  have some: "(\<exists>x. IHandleAt s' h = Some x) \<longleftrightarrow> (\<exists>x. IHandleAt s h = Some x)" for h using f(7) by (auto simp: dom_def)
  have all: "(\<forall>x. IHandleAt s' h = Some x \<longrightarrow> P (HandleProtocols x)) \<longleftrightarrow> (\<forall>x. IHandleAt s h = Some x \<longrightarrow> P (HandleProtocols x))" for P h
    using f(8) [of h] by (cases "IHandleAt s h"; cases "IHandleAt s' h") auto
  have "db_pool_ok s' = db_pool_ok s" "entries_ok s' = entries_ok s" "notifies_ok s' = notifies_ok s"
    unfolding db_pool_ok_def db_objs_def entries_ok_def notifies_ok_def f by (rule refl)+
  moreover have "interfaces_ok s' = interfaces_ok s" unfolding interfaces_ok_def f using some by simp
  moreover have "handles_ok s' = handles_ok s"
  proof -
    let ?Q = "\<lambda>h l. l \<noteq> [] \<and> distinct l \<and> (\<forall>a. a \<in> set l \<longleftrightarrow> (\<exists>p. InterfaceAt s a = Some p \<and> IfHandle p = h))"
    have "(\<forall>x. IHandleAt s' h = Some x \<longrightarrow> ?Q h (HandleProtocols x)) \<longleftrightarrow> (\<forall>x. IHandleAt s h = Some x \<longrightarrow> ?Q h (HandleProtocols x))" for h
      by (rule all)
    then show ?thesis unfolding handles_ok_def f(3,5,7) by simp
  qed
  ultimately show "db_ok s' \<longleftrightarrow> db_ok s" by (simp add: db_ok_def)
  show "offers s' = offers s" "provided s' = provided s" unfolding offers_def provided_def f by (rule refl)+
qed

text \<open>The interfaces of a protocol belong to different handles.\<close>

lemma protocol_handles:
  assumes ok: "db_ok s" and e: "ProtEntryAt s e = Some y"
  shows "distinct (map (\<lambda>a. IfHandle (the (InterfaceAt s a))) (Protocols y))"
    "a \<in> set (Protocols y) \<Longrightarrow> \<exists>q x. InterfaceAt s a = Some q \<and> IHandleAt s (IfHandle q) = Some x"
proof -
  note l = entry_lists [OF ok e]
  have "inj_on (\<lambda>a. IfHandle (the (InterfaceAt s a))) (set (Protocols y))"
  proof (rule inj_onI)
    fix a b assume m: "a \<in> set (Protocols y)" "b \<in> set (Protocols y)" "IfHandle (the (InterfaceAt s a)) = IfHandle (the (InterfaceAt s b))"
    obtain p where p: "InterfaceAt s a = Some p" "IfProtocol p = e" using l(1) [of a] m(1) by blast
    obtain q where q: "InterfaceAt s b = Some q" "IfProtocol q = e" using l(1) [of b] m(2) by blast
    show "a = b" by (rule interface_unique [OF ok p(1) q(1)]) (use p q m(3) in simp_all)
  qed
  then show "distinct (map (\<lambda>a. IfHandle (the (InterfaceAt s a))) (Protocols y))" using l(3) by (simp add: distinct_map)
  show "\<exists>q x. InterfaceAt s a = Some q \<and> IHandleAt s (IfHandle q) = Some x" if "a \<in> set (Protocols y)"
  proof -
    obtain q where q: "InterfaceAt s a = Some q" using l(1) [of a] \<open>a \<in> set (Protocols y)\<close> by blast
    then show ?thesis using interface_refs(1) [OF ok q] by blast
  qed
qed

text \<open>Handles that do not carry the current number are all found, in order.\<close>

definition unmarked :: "'f protocol_db \<Rightarrow> UINTN list \<Rightarrow> bool" where
  "unmarked s as \<longleftrightarrow> (\<forall>a \<in> set as. \<exists>q x. InterfaceAt s a = Some q \<and> IfHandle q \<noteq> 0 \<and> IHandleAt s (IfHandle q) = Some x \<and>
     LocateRequest x \<noteq> mEfiLocateHandleRequest s) \<and> distinct (map (\<lambda>a. IfHandle (the (InterfaceAt s a))) as)"

definition mark_handle :: "UINTN \<Rightarrow> 'f protocol_db \<Rightarrow> 'f protocol_db" where
  "mark_handle h s = s\<lparr>IHandleAt := (IHandleAt s)(h \<mapsto> (the (IHandleAt s h))\<lparr>LocateRequest := mEfiLocateHandleRequest s\<rparr>)\<rparr>"

lemma mark_handle_same:
  assumes "IHandleAt s h = Some x" shows "same_db s (mark_handle h s)" "mEfiLocateHandleRequest (mark_handle h s) = mEfiLocateHandleRequest s"
proof -
  let ?H = "(IHandleAt s)(h \<mapsto> x\<lparr>LocateRequest := mEfiLocateHandleRequest s\<rparr>)"
  have "mark_handle h s = s\<lparr>IHandleAt := ?H, mEfiLocateHandleRequest := mEfiLocateHandleRequest s\<rparr>" using assms by (simp add: mark_handle_def)
  moreover have "map_option HandleProtocols (?H k) = map_option HandleProtocols (IHandleAt s k)" for k using assms by simp
  ultimately show "same_db s (mark_handle h s)" unfolding same_db_def by blast
qed (simp add: mark_handle_def)

lemma unmarked_Cons:
  assumes "unmarked s (a # as)"
  shows "\<exists>q x. InterfaceAt s a = Some q \<and> IfHandle q \<noteq> 0 \<and> IHandleAt s (IfHandle q) = Some x \<and>
      SmmGetNextLocateByProtocol (a # as) i s = (IfHandle q, Interface q, as, mark_handle (IfHandle q) s) \<and> unmarked (mark_handle (IfHandle q) s) as"
proof -
  obtain q x where q: "InterfaceAt s a = Some q" "IfHandle q \<noteq> 0" "IHandleAt s (IfHandle q) = Some x" "LocateRequest x \<noteq> mEfiLocateHandleRequest s"
    using assms by (auto simp: unmarked_def)
  have "IfHandle (the (InterfaceAt s b)) \<noteq> IfHandle q" if "b \<in> set as" for b
    using assms q(1) that by (auto simp: unmarked_def image_iff)
  then have "unmarked (mark_handle (IfHandle q) s) as" using assms unfolding unmarked_def mark_handle_def by fastforce
  then show ?thesis using q by (auto simp: mark_handle_def Let_def)
qed

lemma LocateByProtocol_all_unmarked:
  assumes "unmarked s as"
  shows "\<exists>s'. LocateByProtocol_all as s = (map (\<lambda>a. IfHandle (the (InterfaceAt s a))) as, s') \<and> same_db s s' \<and>
    mEfiLocateHandleRequest s' = mEfiLocateHandleRequest s"
  using assms
proof (induction as arbitrary: s)
  case Nil
  then show ?case by (simp add: LocateByProtocol_all.simps)
next
  case (Cons a as)
  obtain q x where q: "InterfaceAt s a = Some q" "IfHandle q \<noteq> 0" "IHandleAt s (IfHandle q) = Some x"
    "SmmGetNextLocateByProtocol (a # as) 0 s = (IfHandle q, Interface q, as, mark_handle (IfHandle q) s)"
    and u: "unmarked (mark_handle (IfHandle q) s) as" using unmarked_Cons [OF Cons.prems, of 0] by blast
  note m = mark_handle_same [OF q(3)]
  obtain s' where s': "LocateByProtocol_all as (mark_handle (IfHandle q) s) = (map (\<lambda>a. IfHandle (the (InterfaceAt s a))) as, s')"
    "same_db (mark_handle (IfHandle q) s) s'" "mEfiLocateHandleRequest s' = mEfiLocateHandleRequest s"
    using Cons.IH [OF u] m same_db_fields(5) [OF m(1)] by auto
  then show ?case using q same_db_trans [OF m(1) s'(2)] by (simp add: LocateByProtocol_all.simps [of "a # as"])
qed


definition next_request :: "'f protocol_db \<Rightarrow> 'f protocol_db" where
  "next_request s = s\<lparr>mEfiLocateHandleRequest := mEfiLocateHandleRequest s + 1\<rparr>"

lemma next_request_same: "same_db s (next_request s)"
proof -
  have "next_request s = s\<lparr>IHandleAt := IHandleAt s, mEfiLocateHandleRequest := mEfiLocateHandleRequest s + 1\<rparr>"
    by (simp add: next_request_def)
  then show ?thesis unfolding same_db_def by blast
qed

lemma next_request:
  assumes ok: "db_ok s" and r: "requests_ok s"
  shows "same_db s (next_request s)" "ProtEntryAt s e = Some y \<Longrightarrow> unmarked (next_request s) (Protocols y)"
proof -
  show "same_db s (next_request s)" by (rule next_request_same)
  have u: "unat (mEfiLocateHandleRequest s + 1) = unat (mEfiLocateHandleRequest s) + 1"
    using r by (subst unat_add_noov) (simp_all add: requests_ok_def)
  have "LocateRequest x \<noteq> mEfiLocateHandleRequest s + 1" if "IHandleAt s h = Some x" for h x
  proof -
    have "unat (LocateRequest x) \<le> unat (mEfiLocateHandleRequest s)" using r that by (simp add: requests_ok_def)
    then show ?thesis using u by auto
  qed
  note fresh = this
  show "unmarked (next_request s) (Protocols y)" if e: "ProtEntryAt s e = Some y"
  proof -
    have "\<exists>q x. InterfaceAt s a = Some q \<and> IfHandle q \<noteq> 0 \<and> IHandleAt s (IfHandle q) = Some x \<and>
        LocateRequest x \<noteq> mEfiLocateHandleRequest s + 1" if m: "a \<in> set (Protocols y)" for a
    proof -
      obtain q x where "InterfaceAt s a = Some q" and h: "IHandleAt s (IfHandle q) = Some x" using protocol_handles(2) [OF ok e m] by blast
      then show ?thesis using handle_nonnull [OF ok h] fresh [OF h] by blast
    qed
    then show ?thesis using protocol_handles(1) [OF ok e] by (simp add: unmarked_def next_request_def)
  qed
qed

lemma provided_head:
  assumes "db_ok s"
  shows "ProtEntry_search (ProtEntryAt s) g (mProtocolDatabase s) = 0 \<Longrightarrow> provided s g = []"
    "ProtEntry_search (ProtEntryAt s) g (mProtocolDatabase s) = e \<Longrightarrow> e \<noteq> 0 \<Longrightarrow> \<exists>y. ProtEntryAt s e = Some y \<and>
      provided s g = map (\<lambda>a. (IfHandle (the (InterfaceAt s a)), Interface (the (InterfaceAt s a)))) (Protocols y)"
  using find_entry [OF assms, of g e] by (auto simp: provided_def)

lemma first_located:
  assumes ok: "db_ok s" and r: "requests_ok s"
  shows "\<exists>s'. SmmLocateProtocol (Some g) 0 True s =
      Some (case provided s g of [] \<Rightarrow> (EFI_NOT_FOUND, Some 0, s') | (h, i) # _ \<Rightarrow> (EFI_SUCCESS, Some i, s')) \<and>
    db_ok s' \<and> offers s' = offers s \<and> provided s' = provided s \<and> (provided s g = [] \<longleftrightarrow> (\<nexists>h i. offers s h g i))"
proof -
  let ?e = "ProtEntry_search (ProtEntryAt s) g (mProtocolDatabase s)"
  note n = next_request [OF ok r] and off = provided_offers [OF ok, of _ _ g]
  have none: "provided s g = [] \<longleftrightarrow> (\<nexists>h i. offers s h g i)" using off by (metis list.set_intros(1) list.exhaust empty_iff list.set(1) surj_pair)
  have f: "ProtEntryAt (next_request s) = ProtEntryAt s" "mProtocolDatabase (next_request s) = mProtocolDatabase s"
    using same_db_fields [OF n(1)] by auto
  have code: "SmmLocateProtocol (Some g) 0 True s = (if ?e = 0 then Some (EFI_NOT_FOUND, Some 0, next_request s)
     else let (Handle, i, _, s2) = SmmGetNextLocateByProtocol (Protocols (the (ProtEntryAt s ?e))) 0 (next_request s) in
              Some (if Handle = 0 then EFI_NOT_FOUND else EFI_SUCCESS, Some i, s2))"
    using f by (simp add: SmmLocateProtocol_def next_request_def Let_def)
  show ?thesis
  proof (cases "?e = 0")
    case True
    then show ?thesis using code provided_head(1) [OF ok True] same_db_ok [OF n(1)] ok none by auto
  next
    case False
    obtain y where y: "ProtEntryAt s ?e = Some y"
      "provided s g = map (\<lambda>a. (IfHandle (the (InterfaceAt s a)), Interface (the (InterfaceAt s a)))) (Protocols y)"
      using provided_head(2) [OF ok refl False] by blast
    show ?thesis
    proof (cases "Protocols y")
      case Nil
      then show ?thesis using code False y same_db_ok [OF n(1)] ok none by auto
    next
      case (Cons a as)
      obtain q x where q: "InterfaceAt (next_request s) a = Some q" "IfHandle q \<noteq> 0" "IHandleAt (next_request s) (IfHandle q) = Some x"
        "SmmGetNextLocateByProtocol (a # as) 0 (next_request s) = (IfHandle q, Interface q, as, mark_handle (IfHandle q) (next_request s))"
        using unmarked_Cons [of "next_request s" a as 0] n(2) [OF y(1)] Cons by auto
      note m = same_db_trans [OF n(1) mark_handle_same(1) [OF q(3)]]
      have "InterfaceAt s a = Some q" using q(1) same_db_fields(5) [OF n(1)] by simp
      then show ?thesis using code False y q Cons same_db_ok [OF m] ok none by auto
    qed
  qed
qed

text \<open>C37. Looking a protocol up without a registration.  The search succeeds exactly when some handle
offers the protocol and returns the interface that was installed first; it changes nothing but search
numbers, so what every handle offers stays.\<close>

theorem LocateProtocol_first:
  assumes ok: "db_ok s" and r: "requests_ok s"
  shows "\<exists>s'. SmmLocateProtocol (Some g) 0 True s =
      Some (case provided s g of [] \<Rightarrow> (EFI_NOT_FOUND, Some 0, s') | (h, i) # _ \<Rightarrow> (EFI_SUCCESS, Some i, s')) \<and>
    db_ok s' \<and> offers s' = offers s \<and> provided s' = provided s \<and> (provided s g = [] \<longleftrightarrow> (\<nexists>h i. offers s h g i))"
  by (rule first_located [OF assms])

text \<open>Moving a registration on to the next link.\<close>

lemma advance:
  assumes ok: "db_ok s" and n: "NotifyAt s n = Some q" and p: "pending s n = z # zs"
  shows "db_ok (Notify_advance n s)" "offers (Notify_advance n s) = offers s" "provided (Notify_advance n s) = provided s"
    "pending (Notify_advance n s) = (pending s)(n := zs)"
proof -
  obtain y where y: "ProtEntryAt s (NotifyProtocol q) = Some y" "distinct (Protocols y)" "0 \<notin> set (Protocols y)"
    "Position q = 0 \<or> Position q \<in> set (Protocols y)" by (rule notify_place [OF ok n])
  obtain b bs where b: "after (Position q) (Protocols y) = b # bs" using p n y(1) by (auto simp: pending_def)
  then have bm: "b \<in> set (Protocols y)" using set_after [of "Position q" "Protocols y"] by auto
  have eq: "Notify_advance n s = s\<lparr>NotifyAt := (NotifyAt s)(n \<mapsto> q\<lparr>Position := b\<rparr>)\<rparr>"
    using n y(1) b by (simp add: Notify_advance_def ForwardLink_after)
  show "pending (Notify_advance n s) = (pending s)(n := zs)"
  proof
    fix k show "pending (Notify_advance n s) k = ((pending s)(n := zs)) k"
      using p n y(1) b after_ForwardLink [OF y(2-4) b] unfolding eq by (cases "NotifyAt s k") (auto simp: pending_def)
  qed
  show "offers (Notify_advance n s) = offers s" "provided (Notify_advance n s) = provided s"
    unfolding eq by (simp_all add: fun_eq_iff offers_def provided_def Let_def)
  have "db_objs (Notify_advance n s) = db_objs s" "dom (NotifyAt (Notify_advance n s)) = dom (NotifyAt s)"
    using n unfolding eq by (auto simp: db_objs_def)
  then have "db_pool_ok (Notify_advance n s)" using ok unfolding db_ok_def db_pool_ok_def by (simp add: Notify_advance_def)
  moreover have "handles_ok (Notify_advance n s)" "interfaces_ok (Notify_advance n s)"
    using ok unfolding eq db_ok_def handles_ok_def interfaces_ok_def by simp_all
  moreover have "entries_ok (Notify_advance n s)"
  proof -
    have "(\<exists>q'. NotifyAt (Notify_advance n s) k = Some q' \<and> NotifyProtocol q' = e) \<longleftrightarrow> (\<exists>q'. NotifyAt s k = Some q' \<and> NotifyProtocol q' = e)" for k e
      using n unfolding eq by auto
    then show ?thesis using ok unfolding db_ok_def entries_ok_def by (simp add: Notify_advance_def)
  qed
  moreover have "notifies_ok (Notify_advance n s)" using ok y(1) bm unfolding eq db_ok_def notifies_ok_def by auto
  ultimately show "db_ok (Notify_advance n s)" by (simp add: db_ok_def)
qed

text \<open>Looking a protocol up with a registration.  The interfaces that were installed since the
registration, or since the last one returned, wait in a queue; each call returns the first of them and
takes it off, and an empty queue gives EFI_NOT_FOUND.  Nothing else changes.\<close>

theorem LocateProtocol_registered:
  assumes ok: "db_ok s" and n: "NotifyAt s n \<noteq> None"
  shows "\<exists>s'. SmmLocateProtocol (Some g) n True s =
      Some (case pending s n of [] \<Rightarrow> (EFI_NOT_FOUND, Some 0, s') | (h, i) # _ \<Rightarrow> (EFI_SUCCESS, Some i, s')) \<and>
    pending s' = (pending s)(n := tl (pending s n)) \<and> db_ok s' \<and> offers s' = offers s \<and> provided s' = provided s"
proof -
  obtain q where q: "NotifyAt s n = Some q" using n by blast
  obtain y where y: "ProtEntryAt s (NotifyProtocol q) = Some y" "0 \<notin> set (Protocols y)" by (rule notify_place [OF ok q])
  have nz: "n \<noteq> 0" using db_pool(3) [OF ok] q by (auto simp: db_objs_def)
  let ?s = "next_request s"
  have same: "same_db s ?s" by (rule next_request_same)
  have "IHandleAt ?s = IHandleAt s" "NotifyAt ?s = NotifyAt s" "InterfaceAt ?s = InterfaceAt s" "ProtEntryAt ?s = ProtEntryAt s"
    by (simp_all add: next_request_def)
  note f = this
  have ok': "db_ok ?s" and o: "offers ?s = offers s" "provided ?s = provided s" using same_db_ok [OF same] ok by auto
  have pend: "pending ?s = pending s" by (rule pending_extended(1) [OF ok]) (simp_all add: f)
  have code: "SmmLocateProtocol (Some g) n True s = (let a = ForwardLink (Position q) (Protocols y) in
      if a \<noteq> 0 \<and> IfHandle (the (InterfaceAt s a)) \<noteq> 0
      then Some (EFI_SUCCESS, Some (Interface (the (InterfaceAt s a))), Notify_advance n ?s)
      else Some (EFI_NOT_FOUND, Some (if a \<noteq> 0 then Interface (the (InterfaceAt s a)) else 0), ?s))"
    using nz q y(1) by (simp add: SmmLocateProtocol_def SmmGetNextLocateByRegisterNotify_def next_request_def Let_def)
  show ?thesis
  proof (cases "after (Position q) (Protocols y)")
    case Nil
    then have "pending s n = []" using q y(1) by (simp add: pending_def)
    moreover have "(pending s)(n := []) = pending s" using calculation by auto
    ultimately show ?thesis using code Nil ok' o pend by (simp add: ForwardLink_after)
  next
    case (Cons a as)
    then have "a \<in> set (Protocols y)" using set_after [of "Position q" "Protocols y"] by auto
    then obtain r x where r: "InterfaceAt s a = Some r" "IHandleAt s (IfHandle r) = Some x" using protocol_handles(2) [OF ok y(1)] by blast
    have nn: "a \<noteq> 0" "IfHandle r \<noteq> 0" using \<open>a \<in> set (Protocols y)\<close> y(2) handle_nonnull [OF ok r(2)] by auto
    have p: "pending s n = (IfHandle r, Interface r) # tl (pending s n)" using q y(1) Cons r(1) by (simp add: pending_def)
    have q': "NotifyAt ?s n = Some q" using q f by simp
    note adv = advance [OF ok' q', unfolded pend, OF p]
    have "SmmLocateProtocol (Some g) n True s = Some (EFI_SUCCESS, Some (Interface r), Notify_advance n ?s)"
      using code nn r(1) Cons by (simp add: ForwardLink_after)
    then show ?thesis using adv o p by (intro exI [of _ "Notify_advance n ?s"]) (auto split: list.split)
  qed
qed

lemma ResultBuffer_store_all:
  assumes "unat R + 8 * length hs < 18446744073709551616"
  shows "ResultBuffer_store n R hs = (R + of_nat (8 * length hs), take ((unat n - unat R) div 8) hs)"
  using assms
proof (induction hs arbitrary: R)
  case (Cons h hs)
  have u: "unat (R + 8) = unat R + 8" using Cons.prems by (subst unat_add_noov) simp_all
  have IH: "ResultBuffer_store n (R + 8) hs = (R + 8 + of_nat (8 * length hs), take ((unat n - unat (R + 8)) div 8) hs)"
    using Cons.prems u by (intro Cons.IH) simp
  have le: "R + 8 \<le> n \<longleftrightarrow> unat R + 8 \<le> unat n" by (simp add: word_le_nat_alt u)
  have step: "(unat n - unat R) div 8 = Suc ((unat n - (unat R + 8)) div 8)" if "unat R + 8 \<le> unat n"
  proof -
    define d where "d = unat n - (unat R + 8)"
    have "unat n - unat R = 8 + d" using that by (simp add: d_def)
    then show ?thesis unfolding d_def [symmetric] by simp
  qed
  have full: "(unat n - unat R) div 8 = 0" "unat n - (unat R + 8) = 0" if "\<not> unat R + 8 \<le> unat n" using that by auto
  have sum: "R + 8 + of_nat (8 * length hs) = R + of_nat (8 * length (h # hs))" by simp
  show ?case
  proof (cases "unat R + 8 \<le> unat n")
    case True
    then show ?thesis unfolding ResultBuffer_store.simps IH Let_def sum step [OF True] u prod.case by (simp add: le)
  next
    case False
    then show ?thesis unfolding ResultBuffer_store.simps IH Let_def sum u prod.case full(1) [OF False] full(2) [OF False] by (simp add: le)
  qed
qed simp

text \<open>Enumerating the handles of a protocol.  The search finds every handle that offers the protocol
exactly once, in the order of installation.  A buffer that holds them all receives them; a smaller one is
answered with EFI_BUFFER_TOO_SMALL and the size that is needed, and is not written past its end; a
protocol that nobody offers gives EFI_NOT_FOUND.\<close>

theorem LocateHandle_by_protocol:
  assumes ok: "db_ok s" and r: "requests_ok s" and b: "n = 0 \<or> Buffer \<noteq> 0"
    and small: "8 * length (provided s g) < 18446744073709551616"
  defines "hs \<equiv> map fst (provided s g)"
  shows "\<exists>s'. db_ok s' \<and> offers s' = offers s \<and> provided s' = provided s \<and> distinct hs \<and>
    SmmLocateHandle (Some ByProtocol) (Some g) k (Some n) Buffer s =
      Some (if hs = [] then (EFI_NOT_FOUND, Some n, [], s')
        else (if unat n < 8 * length hs then EFI_BUFFER_TOO_SMALL else EFI_SUCCESS, Some (of_nat (8 * length hs)), take (unat n div 8) hs, s'))"
proof -
  let ?e = "ProtEntry_search (ProtEntryAt s) g (mProtocolDatabase s)"
  note n = next_request [OF ok r]
  have nb: "\<not> (n > 0 \<and> Buffer = 0)" using b by auto
  show ?thesis
  proof (cases "?e = 0")
    case True
    then show ?thesis using provided_head(1) [OF ok True] ok nb
      by (intro exI [of _ s]) (simp add: SmmLocateHandle_def hs_def)
  next
    case False
    obtain y where y: "ProtEntryAt s ?e = Some y"
      "provided s g = map (\<lambda>a. (IfHandle (the (InterfaceAt s a)), Interface (the (InterfaceAt s a)))) (Protocols y)"
      using provided_head(2) [OF ok refl False] by blast
    have hs: "hs = map (\<lambda>a. IfHandle (the (InterfaceAt s a))) (Protocols y)" unfolding hs_def y(2) by simp
    have I: "InterfaceAt (next_request s) = InterfaceAt s" by (rule same_db_fields(5) [OF n(1)])
    obtain s' where s': "LocateByProtocol_all (Protocols y) (next_request s) = (hs, s')" "same_db (next_request s) s'"
      using LocateByProtocol_all_unmarked [OF n(2) [OF y(1)]] unfolding I hs by blast
    have len: "8 * length hs < 18446744073709551616" using small by (simp add: hs_def)
    have st: "ResultBuffer_store n 0 hs = (of_nat (8 * length hs), take (unat n div 8) hs)"
      using ResultBuffer_store_all [of 0 hs n] len by simp
    have sz: "(of_nat (8 * length hs) :: UINTN) = 0 \<longleftrightarrow> hs = []" "(of_nat (8 * length hs) :: UINTN) > n \<longleftrightarrow> unat n < 8 * length hs"
      using unat_of_nat64 [OF len] by (auto simp: word_less_nat_alt unat_eq_0 [symmetric] simp del: of_nat_mult)
    have "SmmLocateHandle (Some ByProtocol) (Some g) k (Some n) Buffer s =
      Some (if hs = [] then (EFI_NOT_FOUND, Some n, [], s')
        else (if unat n < 8 * length hs then EFI_BUFFER_TOO_SMALL else EFI_SUCCESS, Some (of_nat (8 * length hs)), take (unat n div 8) hs, s'))"
      using nb False y(1) s'(1) st sz unfolding SmmLocateHandle_def next_request_def [symmetric] by (simp add: Let_def del: of_nat_mult)
    then show ?thesis using same_db_ok [OF same_db_trans [OF n(1) s'(2)]] ok hs protocol_handles(1) [OF ok y(1)] by auto
  qed
qed

section \<open>Registration for a protocol\<close>

text \<open>A new registration \<open>n\<close>, at the end of the interfaces of the entry \<open>e\<close>.\<close>

definition registered :: "UINTN \<Rightarrow> UINTN \<Rightarrow> 'f \<Rightarrow> smm_memory \<Rightarrow> 'f protocol_db \<Rightarrow> 'f protocol_db" where
  "registered n e f p s = (let y = the (ProtEntryAt s e) in
     s\<lparr>DbPool := p, NotifyAt := (NotifyAt s)(n \<mapsto> \<lparr>NotifyProtocol = e, Function = f,
         Position = (if Protocols y = [] then 0 else last (Protocols y))\<rparr>),
       ProtEntryAt := (ProtEntryAt s)(e \<mapsto> y\<lparr>Notify := Notify y @ [n]\<rparr>)\<rparr>)"

lemma registered_fields:
  assumes "ProtEntryAt s e = Some y"
  shows "DbPool (registered n e f p s) = p" "IHandleAt (registered n e f p s) = IHandleAt s" "InterfaceAt (registered n e f p s) = InterfaceAt s"
    "gHandleList (registered n e f p s) = gHandleList s" "mProtocolDatabase (registered n e f p s) = mProtocolDatabase s"
    "NotifyAt (registered n e f p s) k = (if k = n then Some \<lparr>NotifyProtocol = e, Function = f,
       Position = (if Protocols y = [] then 0 else last (Protocols y))\<rparr> else NotifyAt s k)"
    "ProtEntryAt (registered n e f p s) d = (if d = e then Some (y\<lparr>Notify := Notify y @ [n]\<rparr>) else ProtEntryAt s d)"
  using assms by (simp_all add: registered_def Let_def)

lemma registered_ok:
  assumes ok: "db_ok s" and e: "ProtEntryAt s e = Some y" and n: "n \<notin> db_objs s" "pool_ok p (mset_set (insert n (db_objs s)))"
  shows "db_ok (registered n e f p s)"
proof -
  let ?s = "registered n e f p s"
  note fs = registered_fields [OF e, of n f p]
  have nn: "NotifyAt s n = None" using n(1) by (auto simp: db_objs_def)
  have d: "dom (NotifyAt ?s) = insert n (dom (NotifyAt s))" "dom (ProtEntryAt ?s) = dom (ProtEntryAt s)"
    using e by (auto simp: dom_def fs)
  have objs: "db_objs ?s = insert n (db_objs s)" by (auto simp: db_objs_def d fs)
  have nd: "n \<notin> dom (IHandleAt s)" "n \<notin> dom (ProtEntryAt s)" "n \<notin> dom (InterfaceAt s)" using n(1) by (auto simp: db_objs_def)
  have "db_pool_ok ?s" unfolding db_pool_ok_def objs d fs(1-3) using ok n nd by (auto simp: db_ok_def db_pool_ok_def)
  moreover have "handles_ok ?s" using ok by (simp add: db_ok_def handles_ok_def fs)
  moreover have "interfaces_ok ?s" using ok unfolding db_ok_def interfaces_ok_def by (simp add: fs)
  moreover have "entries_ok ?s" unfolding entries_ok_def
  proof (intro conjI allI impI)
    show "distinct (mProtocolDatabase ?s)" "set (mProtocolDatabase ?s) = dom (ProtEntryAt ?s)"
      using ok by (simp_all add: d fs db_ok_def entries_ok_def)
    have id: "\<exists>x'. ProtEntryAt s c = Some x' \<and> ProtocolID x' = ProtocolID x \<and> Protocols x' = Protocols x \<and>
        Notify x = Notify x' @ (if c = e then [n] else [])" if "ProtEntryAt ?s c = Some x" for c x
      using that e by (auto simp: fs split: if_splits)
    show "c = c'" if "ProtEntryAt ?s c = Some x" "ProtEntryAt ?s c' = Some x'" "ProtocolID x = ProtocolID x'" for c c' x x'
      using id [OF that(1)] id [OF that(2)] that(3) entry_unique [OF ok] by metis
    fix c x assume "ProtEntryAt ?s c = Some x"
    then obtain x' where x': "ProtEntryAt s c = Some x'" "Protocols x' = Protocols x" "Notify x = Notify x' @ (if c = e then [n] else [])"
      using id by blast
    note l = entry_lists [OF ok x'(1)]
    show "distinct (Protocols x)" "a \<in> set (Protocols x) \<longleftrightarrow> (\<exists>p. InterfaceAt ?s a = Some p \<and> IfProtocol p = c)" for a
      using l x'(2) by (simp_all add: fs)
    have "n \<notin> set (Notify x')" using l(2) [of n] nn by simp
    then show "distinct (Notify x)" using l(4) x'(3) by simp
    show "k \<in> set (Notify x) \<longleftrightarrow> (\<exists>q. NotifyAt ?s k = Some q \<and> NotifyProtocol q = c)" for k
      using l(2) [of k] x'(3) nn by (auto simp: fs)
  qed
  moreover have "notifies_ok ?s" unfolding notifies_ok_def
  proof (intro allI impI)
    fix k q assume q: "NotifyAt ?s k = Some q"
    show "ProtEntryAt ?s (NotifyProtocol q) \<noteq> None \<and>
        (Position q = 0 \<or> Position q \<in> set (Protocols (the (ProtEntryAt ?s (NotifyProtocol q)))))"
    proof (cases "k = n")
      case True
      then have "q = \<lparr>NotifyProtocol = e, Function = f, Position = (if Protocols y = [] then 0 else last (Protocols y))\<rparr>"
        using q by (simp add: fs)
      then show ?thesis by (simp add: fs)
    next
      case False
      then have q': "NotifyAt s k = Some q" using q by (simp add: fs)
      show ?thesis by (rule notify_place [OF ok q']) (use e in \<open>auto simp: fs\<close>)
    qed
  qed
  ultimately show ?thesis by (simp add: db_ok_def)
qed

lemma registered_keeps:
  assumes ok: "db_ok s" and e: "ProtEntryAt s e = Some y" "ProtocolID y = g" and n: "n \<notin> db_objs s"
  shows "offers (registered n e f p s) = offers s" "provided (registered n e f p s) = provided s"
    "listeners (registered n e f p s) = (listeners s)(g := listeners s g @ [f])"
    "pending (registered n e f p s) = (pending s)(n := [])" "watches (registered n e f p s) n g"
proof -
  let ?s = "registered n e f p s"
  note fs = registered_fields [OF e(1), of n f p]
  have search: "ProtEntry_search (ProtEntryAt ?s) k (mProtocolDatabase s) = ProtEntry_search (ProtEntryAt s) k (mProtocolDatabase s)" for k
    using e by (intro entry_search_cong) (simp add: fs)
  have en: "e \<noteq> 0" "ProtEntry_search (ProtEntryAt s) g (mProtocolDatabase s) = e" using find_entry [OF ok, of g e] e by auto
  have nn: "NotifyAt s n = None" using n by (auto simp: db_objs_def)
  have id: "map_option ProtocolID (ProtEntryAt ?s d) = map_option ProtocolID (ProtEntryAt s d)"
    "map_option Protocols (ProtEntryAt ?s d) = map_option Protocols (ProtEntryAt s d)" for d using e by (auto simp: fs)
  have off: "offers t h k i \<longleftrightarrow> (\<exists>a p. InterfaceAt t a = Some p \<and> IfHandle p = h \<and> Interface p = i \<and>
     map_option ProtocolID (ProtEntryAt t (IfProtocol p)) = Some k)" for t :: "'a protocol_db" and h k i
    by (auto simp: offers_def)
  show "offers ?s = offers s" unfolding fun_eq_iff off id by (simp add: fs)
  show "provided ?s = provided s" using e by (auto simp: fun_eq_iff provided_def Let_def search fs)
  show "listeners ?s = (listeners s)(g := listeners s g @ [f])"
  proof
    fix k
    let ?d = "ProtEntry_search (ProtEntryAt s) k (mProtocolDatabase s)"
    have old: "map (\<lambda>m. Function (the (NotifyAt ?s m))) (Notify x) = map (\<lambda>m. Function (the (NotifyAt s m))) (Notify x)"
      if "ProtEntryAt s d = Some x" for d x
      using entry_lists(2) [OF ok that, of n] nn by (auto simp: fs)
    show "listeners ?s k = ((listeners s)(g := listeners s g @ [f])) k"
    proof (cases "k = g")
      case True
      then show ?thesis using en e old [OF e(1)] by (simp add: listeners_def search fs)
    next
      case False
      have "?d \<noteq> e" using False find_entry [OF ok, of k e] e en(1) by auto
      then have "ProtEntryAt ?s ?d = ProtEntryAt s ?d" by (simp add: fs)
      moreover have "map (\<lambda>m. Function (the (NotifyAt ?s m))) (Notify (the (ProtEntryAt s ?d))) =
          map (\<lambda>m. Function (the (NotifyAt s m))) (Notify (the (ProtEntryAt s ?d)))" if "?d \<noteq> 0"
        using that find_entry [OF ok, of k ?d] old [of ?d] by fastforce
      ultimately show ?thesis using False unfolding listeners_def Let_def fs(5) search by (cases "?d = 0") simp_all
    qed
  qed
  show "pending ?s = (pending s)(n := [])"
  proof
    fix k
    show "pending ?s k = ((pending s)(n := [])) k"
    proof (cases "k = n")
      case True
      have "0 \<notin> set (Protocols y)" using entry_lists(1) [OF ok e(1), of 0] db_pool(3) [OF ok] by (auto simp: db_objs_def)
      then show ?thesis using after_last [of "Protocols y"] entry_lists(3) [OF ok e(1)] True by (simp add: pending_def fs)
    next
      case False
      then show ?thesis using e by (cases "NotifyAt s k") (auto simp: pending_def fs)
    qed
  qed
  show "watches ?s n g" using e by (simp add: watches_def fs)
qed

lemma notify_search_result:
  assumes "0 \<notin> set ns"
  shows "Notify_search at ents g f ns \<noteq> 0 \<longleftrightarrow> (\<exists>n \<in> set ns. ProtocolID (the (ents (NotifyProtocol (the (at n))))) = g \<and> Function (the (at n)) = f)"
    "Notify_search at ents g f ns \<noteq> 0 \<Longrightarrow> Notify_search at ents g f ns \<in> set ns \<and>
      Function (the (at (Notify_search at ents g f ns))) = f"
  using assms by (induction ns) (auto split: if_splits)


text \<open>Registering a function for a protocol.  The call fails for lack of memory or succeeds and returns a
registration for that protocol; a function that was registered already is not registered twice, a new one
is called after those that were there before, and nothing waits for it yet.  No interface is touched.\<close>

theorem RegisterProtocolNotify_adds:
  fixes s :: "'f protocol_db"
  assumes ok: "db_ok s"
  shows "\<exists>st r' s'. SmmRegisterProtocolNotify (Some g) (Some f) (Some r) s = Some (st, Some r', s') \<and>
    db_ok s' \<and> offers s' = offers s \<and> provided s' = provided s \<and>
    (if f \<in> set (listeners s g) then st = EFI_SUCCESS \<and> watches s' r' g \<and> listeners s' = listeners s \<and> pending s' = pending s
     else st = EFI_OUT_OF_RESOURCES \<and> r' = r \<and> listeners s' = listeners s \<and> pending s' = pending s \<or>
       st = EFI_SUCCESS \<and> watches s' r' g \<and> NotifyAt s r' = None \<and>
         listeners s' = (listeners s)(g := listeners s g @ [f]) \<and> pending s' = (pending s)(r' := []))"
proof -
  obtain e s1 where f: "SmmFindProtocolEntry g True s = Some (e, s1)" "db_ok s1" "offers s1 = offers s" "provided s1 = provided s"
      "NotifyAt s1 = NotifyAt s" "listeners s1 = listeners s" and pe: "pending s1 = pending s"
      and fe: "e = 0 \<and> s1 = s \<and> (\<nexists>d x. ProtEntryAt s d = Some x \<and> ProtocolID x = g) \<or> e \<noteq> 0 \<and> (\<exists>x. ProtEntryAt s1 e = Some x \<and> ProtocolID x = g)"
    using find_or_create [OF ok, of g] pending_extended(1) [OF ok] by metis
  show ?thesis
  proof (cases "e = 0")
    case True
    then have "listeners s g = []" using fe find_entry [OF ok, of g] by (auto simp: listeners_def Let_def)
    then show ?thesis using True f fe pe ok by (auto simp: SmmRegisterProtocolNotify_def)
  next
    case False
    then obtain y where y: "ProtEntryAt s1 e = Some y" "ProtocolID y = g" using fe by blast
    note l = entry_lists [OF f(2) y(1)]
    have z: "0 \<notin> set (Notify y)" using l(2) [of 0] db_pool(3) [OF f(2)] by (auto simp: db_objs_def)
    let ?n = "Notify_search (NotifyAt s1) (ProtEntryAt s1) g f (Notify y)"
    have "ProtEntry_search (ProtEntryAt s1) g (mProtocolDatabase s1) = e" using find_entry [OF f(2), of g e] y by simp
    then have ls: "listeners s1 g = map (\<lambda>n. Function (the (NotifyAt s1 n))) (Notify y)" using False y by (simp add: listeners_def)
    have "ProtocolID (the (ProtEntryAt s1 (NotifyProtocol (the (NotifyAt s1 n))))) = g" if "n \<in> set (Notify y)" for n
      using l(2) [of n] that y by auto
    then have found: "?n \<noteq> 0 \<longleftrightarrow> f \<in> set (listeners s1 g)" unfolding ls notify_search_result(1) [OF z] by auto
    have code: "SmmRegisterProtocolNotify (Some g) (Some f) (Some r) s = (if ?n \<noteq> 0 then Some (EFI_SUCCESS, Some ?n, s1)
       else case AllocatePool sizeof_PROTOCOL_NOTIFY (DbPool s1) of None \<Rightarrow> None
         | Some (n, p) \<Rightarrow> if n \<noteq> 0 then Some (EFI_SUCCESS, Some n, registered n e f p s1)
             else Some (EFI_OUT_OF_RESOURCES, Some r, s1\<lparr>DbPool := p\<rparr>))"
      using f(1) False y(1) by (auto simp: SmmRegisterProtocolNotify_def Let_def registered_def split: option.split)
    show ?thesis
    proof (cases "?n = 0")
      case True
      obtain n p where a: "AllocatePool sizeof_PROTOCOL_NOTIFY (DbPool s1) = Some (n, p)"
        using smm_objects.alloc_total [OF db_pool(2) [OF f(2)] AllocatePool_db_sizes(4)] by blast
      show ?thesis
      proof (cases "n = 0")
        case n: True
        then have "s1\<lparr>DbPool := p\<rparr> = s1" using unchanged_pool [OF f(2) _ AllocatePool_db_sizes(4)] a by simp
        then show ?thesis using code True a n f pe found by simp
      next
        case n: False
        note fr = fresh_object [OF db_pool(1,2) [OF f(2)] AllocatePool_db_sizes(4) a n]
        have "NotifyAt s n = None" using fr(1) f(5) by (auto simp: db_objs_def)
        then show ?thesis using code True a n f pe found registered_ok [OF f(2) y(1) fr, of f] registered_keeps [OF f(2) y fr(1), of f p]
          by simp
      qed
    next
      case n: False
      then have "?n \<in> set (Notify y)" using notify_search_result(2) [OF z, of "NotifyAt s1" "ProtEntryAt s1" g f] by simp
      then have "watches s1 ?n g" using l(2) [of ?n] y by (auto simp: watches_def)
      then show ?thesis using code n f pe found by simp
    qed
  qed
qed

section \<open>Witnesses\<close>

text \<open>A database with one handle, on it one protocol, and a notification for that protocol that has not been
looked at; every object is a page of its own.\<close>

definition sample_objects :: "(UINTN \<times> nat) multiset" where
  "sample_objects = {#(0x10000, 64), (0x11000, 64), (0x12000, 64), (0x13000, 64)#}"

definition sample_db :: "nat protocol_db" where
  "sample_db = \<lparr>DbPool = sample_pool\<lparr>mSmmMemoryMap := [\<lparr>PageAddr = 0x20000, NumberOfPages = 4\<rparr>],
       PoolHeader := (\<lambda>a. \<lparr>Size = 4096, Available = False\<rparr>)\<rparr>,
     mProtocolDatabase = [0x10010], gHandleList = [0x12010], mEfiLocateHandleRequest = 0,
     IHandleAt = [0x12010 \<mapsto> \<lparr>HandleProtocols = [0x11010], LocateRequest = 0\<rparr>],
     ProtEntryAt = [0x10010 \<mapsto> \<lparr>ProtocolID = 7, Protocols = [0x11010], Notify = [0x13010]\<rparr>],
     InterfaceAt = [0x11010 \<mapsto> \<lparr>IfHandle = 0x12010, IfProtocol = 0x10010, Interface = 0x5000\<rparr>],
     NotifyAt = [0x13010 \<mapsto> \<lparr>NotifyProtocol = 0x10010, Function = 1, Position = 0\<rparr>]\<rparr>"

lemma sample_db_pool: "pool_ok (DbPool sample_db) {#0x10010, 0x11010, 0x12010, 0x13010#}"
proof -
  let ?p = "DbPool sample_db" and ?P = "page_granules ({16, 17, 18, 19} \<union> {32, 33, 34, 35})"
  have e: "pool_blocks ?p = {#}" by (rule pool_blocks_empty) (simp add: sample_db_def sample_pool_def)
  have "pool_wf ?p" using e by (simp add: pool_wf_def sample_db_def sample_pool_def MAX_POOL_INDEX_6 wf_map_def wf_node_def pend_def pfn_def)
  moreover have "held_block ?p x" if "x \<in># sample_objects" for x
    using that by (auto simp: sample_objects_def held_block_def wf_block_def wf_run_def sample_db_def intro!: exI [of _ 1])
  moreover have "free_occ ?p g + occ sample_objects g = ind ?P g" for g
  proof -
    have "free_pages (mSmmMemoryMap ?p) = {32, 33, 34, 35}"
      by (auto simp: sample_db_def node_pages_def pfn_def pend_def)
    then have "free_occ ?p g = ind (page_granules {32, 33, 34, 35}) g" by (simp add: free_occ_def e)
    moreover have "occ sample_objects g = ind (page_granules {16, 17, 18, 19}) g"
      by (auto simp: sample_objects_def ind_def gran_def page_granules_def)
    ultimately show ?thesis by (auto simp: ind_def page_granules_def)
  qed
  ultimately have "pool_inv ?P ?p sample_objects" by (simp add: pool_inv_def)
  then show ?thesis unfolding pool_ok_def
    by (intro conjI exI [of _ ?P] exI [of _ sample_objects]) (auto simp: sample_objects_def)
qed

lemma sample_db_ok: "db_ok sample_db"
proof -
  have "db_objs sample_db = {0x10010, 0x11010, 0x12010, 0x13010}" by (auto simp: db_objs_def sample_db_def)
  then have "db_pool_ok sample_db" using sample_db_pool by (simp add: db_pool_ok_def) (auto simp: sample_db_def)
  then show ?thesis unfolding db_ok_def
    by (auto simp: handles_ok_def entries_ok_def interfaces_ok_def notifies_ok_def sample_db_def split: if_splits)
qed

lemma sample_requests: "requests_ok sample_db" by (auto simp: requests_ok_def sample_db_def)

lemma sample_provided: "provided sample_db 7 = [(0x12010, 0x5000)]" by (simp add: provided_def sample_db_def)

lemma sample_offers: "offers sample_db 0x12010 7 0x5000"
  using provided_offers [OF sample_db_ok, of "0x12010" "0x5000" 7] by (simp add: sample_provided)


theorem UninstallProtocolInterface_offers_witness:
  "\<exists>s'. SmmUninstallProtocolInterface 0x12010 (Some 7) 0x5000 sample_db = Some (EFI_SUCCESS, s') \<and> db_ok s' \<and> provided s' 7 = []"
proof -
  have "IHandleAt sample_db 0x12010 \<noteq> None" by (simp add: sample_db_def)
  then show ?thesis using UninstallProtocolInterface_offers [OF sample_db_ok, of "0x12010" 7 "0x5000"] sample_offers sample_provided by auto
qed

theorem LocateProtocol_first_witness:
  "\<exists>s'. SmmLocateProtocol (Some 7) 0 True sample_db = Some (EFI_SUCCESS, Some 0x5000, s') \<and> db_ok s'"
  using LocateProtocol_first [OF sample_db_ok sample_requests, of 7] sample_provided by auto

theorem LocateHandle_by_protocol_witness:
  "\<exists>s'. db_ok s' \<and> SmmLocateHandle (Some ByProtocol) (Some 7) 0 (Some 16) 0x900 sample_db = Some (EFI_SUCCESS, Some 8, [0x12010], s')"
  using LocateHandle_by_protocol [OF sample_db_ok sample_requests, of 16 "0x900" 7 0] sample_provided by auto

lemma sample_pending: "pending sample_db 0x13010 = [(0x12010, 0x5000)]" by (simp add: pending_def after_def sample_db_def)

theorem LocateProtocol_registered_witness:
  "\<exists>s'. SmmLocateProtocol (Some 7) 0x13010 True sample_db = Some (EFI_SUCCESS, Some 0x5000, s') \<and> pending s' 0x13010 = []"
proof -
  have "NotifyAt sample_db 0x13010 \<noteq> None" by (simp add: sample_db_def)
  from LocateProtocol_registered [OF sample_db_ok this, of 7] show ?thesis using sample_pending by auto
qed

theorem RegisterProtocolNotify_adds_witness:
  "\<exists>r s'. SmmRegisterProtocolNotify (Some 7) (Some 1) (Some 0) sample_db = Some (EFI_SUCCESS, Some r, s') \<and> watches s' r 7 \<and>
    listeners s' = listeners sample_db"
proof -
  have "1 \<in> set (listeners sample_db 7)" by (simp add: listeners_def sample_db_def)
  with RegisterProtocolNotify_adds [OF sample_db_ok, of 7 1 0] show ?thesis by (auto simp only: if_True)
qed

end
