(* ===== verification/Dispatcher.thy ===== *)
theory Dispatcher
  imports SmmDepex SmmProtocol
begin

text \<open>
  The dispatcher of SMM drivers, \<^verbatim>\<open>MdeModulePkg/Core/PiSmmCore/Dispatcher.c\<close>.

  Driver entries are objects in pool blocks, found by their address; the list of discovered drivers and the
  queue of scheduled drivers are lists of addresses.  Looking protocols up, reading sections and files of a
  firmware volume, loading an image and calling its entry point are parameters, collected in a record; they
  may change the outside world \<open>'w\<close> and the memory of the core but not the lists of the dispatcher.  An entry
  that is linked into the queue while it is on it destroys the queue, which is the result \<open>None\<close>, as is a
  NULL pointer that is followed.  The recursion that schedules a driver carries a bound on its depth, and the
  outer loop of the dispatcher a bound on its rounds.

  The lemmas show that scheduling a driver appends the drivers that wait for it in the order their
  dependencies demand and that the recursion is no deeper than the number of drivers; that the dispatcher
  ends, calls no driver twice, and stops only when no driver that is left can be scheduled; and one situation
  in which a driver is called twice all the same.
\<close>

section \<open>Data\<close>

record 'w environment =
  SmmLocate :: "'w \<Rightarrow> EFI_GUID \<Rightarrow> EFI_STATUS"
  BsLocate :: "'w \<Rightarrow> EFI_GUID \<Rightarrow> EFI_STATUS"
  ReadDepexSection :: "EFI_SMM_DRIVER_ENTRY \<Rightarrow> 'w \<Rightarrow> EFI_STATUS \<times> UINT8 list \<times> UINTN"
  LoadImage :: "EFI_SMM_DRIVER_ENTRY \<Rightarrow> smm_memory \<Rightarrow> 'w \<Rightarrow> EFI_STATUS \<times> (UINTN \<times> UINTN \<times> UINTN \<times> UINTN) \<times> smm_memory \<times> 'w"
  StartImage :: "EFI_SMM_DRIVER_ENTRY \<Rightarrow> smm_memory \<Rightarrow> 'w \<Rightarrow> EFI_STATUS \<times> smm_memory \<times> 'w"
  SmmEntryPointRegistered :: "'w \<Rightarrow> bool"
  FvHandles :: "'w \<Rightarrow> UINTN list option"
  FvProtocol :: "'w \<Rightarrow> UINTN \<Rightarrow> bool"
  FvDevicePath :: "'w \<Rightarrow> UINTN \<Rightarrow> bool"
  FvFiles :: "'w \<Rightarrow> UINTN \<Rightarrow> UINT8 \<Rightarrow> EFI_GUID list"
  FvApriori :: "'w \<Rightarrow> UINTN \<Rightarrow> EFI_GUID list"

text \<open>\<open>Calls\<close> records the drivers whose entry point has been called, in order; it is not a variable of the code.\<close>

record 'w dispatcher =
  mDiscoveredList :: "UINTN list"
  mScheduledQueue :: "UINTN list"
  mFvHandleList :: "UINTN list"
  gDispatcherRunning :: bool
  gRequestDispatch :: bool
  DriverAt :: "UINTN \<rightharpoonup> EFI_SMM_DRIVER_ENTRY"
  DepexStack :: depex_stack
  World :: 'w
  Calls :: "UINTN list"

definition sizeof_EFI_SMM_DRIVER_ENTRY :: UINTN where "sizeof_EFI_SMM_DRIVER_ENTRY = 168"
definition sizeof_KNOWN_HANDLE :: UINTN where "sizeof_KNOWN_HANDLE = 32"
definition EFI_FV_FILETYPE_SMM :: UINT8 where "EFI_FV_FILETYPE_SMM = 0x0A"
definition EFI_FV_FILETYPE_COMBINED_SMM_DXE :: UINT8 where "EFI_FV_FILETYPE_COMBINED_SMM_DXE = 0x0C"
definition mSmmFileTypes :: "UINT8 list" where "mSmmFileTypes = [EFI_FV_FILETYPE_SMM, EFI_FV_FILETYPE_COMBINED_SMM_DXE]"
definition COMM_BUFFER_SMM_DISPATCH_ERROR :: UINT8 where "COMM_BUFFER_SMM_DISPATCH_ERROR = 0"
definition COMM_BUFFER_SMM_DISPATCH_SUCCESS :: UINT8 where "COMM_BUFFER_SMM_DISPATCH_SUCCESS = 1"
definition COMM_BUFFER_SMM_DISPATCH_RESTART :: UINT8 where "COMM_BUFFER_SMM_DISPATCH_RESTART = 2"

definition driver :: "'w dispatcher \<Rightarrow> UINTN \<Rightarrow> EFI_SMM_DRIVER_ENTRY" where
  "driver s a = the (DriverAt s a)"

definition set_driver :: "UINTN \<Rightarrow> EFI_SMM_DRIVER_ENTRY \<Rightarrow> 'w dispatcher \<Rightarrow> 'w dispatcher" where
  "set_driver a d s = s\<lparr>DriverAt := (DriverAt s)(a \<mapsto> d)\<rparr>"

text \<open>A loop over a list whose body may have no result.\<close>

primrec for_each :: "('a \<Rightarrow> 's \<Rightarrow> 's option) \<Rightarrow> 'a list \<Rightarrow> 's \<Rightarrow> 's option" where
  "for_each f [] s = Some s"
| "for_each f (l # ls) s = (case f l s of None \<Rightarrow> None | Some s' \<Rightarrow> for_each f ls s')"

section \<open>Scheduling\<close>

text \<open>The state change of the driver that is linked at the end of the queue.\<close>

definition schedule :: "UINTN \<Rightarrow> 'w dispatcher \<Rightarrow> 'w dispatcher option" where
  "schedule e s =
    (if e \<in> set (mScheduledQueue s) then None
     else Some (set_driver e ((driver s e)\<lparr>Dependent := False, Scheduled := True\<rparr>) s\<lparr>mScheduledQueue := mScheduledQueue s @ [e]\<rparr>))"

primrec SmmInsertOnScheduledQueueWhileProcessingBeforeAndAfter :: "nat \<Rightarrow> UINTN \<Rightarrow> 'w dispatcher \<Rightarrow> 'w dispatcher option" where
  "SmmInsertOnScheduledQueueWhileProcessingBeforeAndAfter 0 e s = None"
| "SmmInsertOnScheduledQueueWhileProcessingBeforeAndAfter (Suc n) e s =
    (case for_each (\<lambda>l s. if Before (driver s l) \<and> Dependent (driver s l) \<and> l \<noteq> e \<and>
                             FileName (driver s e) = BeforeAfterGuid (driver s l)
                          then SmmInsertOnScheduledQueueWhileProcessingBeforeAndAfter n l s else Some s)
             (mDiscoveredList s) s of
       None \<Rightarrow> None
     | Some s1 \<Rightarrow>
       (case schedule e s1 of
          None \<Rightarrow> None
        | Some s2 \<Rightarrow>
            for_each (\<lambda>l s. if After (driver s l) \<and> Dependent (driver s l) \<and> l \<noteq> e \<and>
                               FileName (driver s e) = BeforeAfterGuid (driver s l)
                            then SmmInsertOnScheduledQueueWhileProcessingBeforeAndAfter n l s else Some s)
              (mDiscoveredList s2) s2))"

definition SmmGetDepexSectionAndPreProccess ::
  "EFI_STATUS \<times> UINT8 list \<times> UINTN \<Rightarrow> EFI_SMM_DRIVER_ENTRY \<Rightarrow> (EFI_STATUS \<times> EFI_SMM_DRIVER_ENTRY) option" where
  "SmmGetDepexSectionAndPreProccess section DriverEntry =
    (case section of
       (Status, bs, len) \<Rightarrow>
         if EFI_ERROR Status then
           Some (Status,
             if Status = EFI_PROTOCOL_ERROR then DriverEntry\<lparr>DepexProtocolError := True\<rparr>
             else DriverEntry\<lparr>Depex := None, Dependent := True, DepexProtocolError := False\<rparr>)
         else map_option (\<lambda>(_, d). (Status, d\<lparr>DepexProtocolError := False\<rparr>))
                (SmmPreProcessDepex (DriverEntry\<lparr>Depex := Some bs, DepexSize := len\<rparr>)))"

section \<open>Dispatch\<close>

text \<open>One step of the search for drivers to schedule; the flag is \<^verbatim>\<open>ReadyToRun\<close>.\<close>

definition Dispatcher_scan ::
  "'w environment \<Rightarrow> nat \<Rightarrow> UINTN \<Rightarrow> 'w dispatcher \<times> bool \<Rightarrow> ('w dispatcher \<times> bool) option" where
  "Dispatcher_scan E n l sr =
    (case sr of
       (s, ReadyToRun) \<Rightarrow>
         (case (if DepexProtocolError (driver s l)
                then map_option (\<lambda>(_, d). set_driver l d s)
                       (SmmGetDepexSectionAndPreProccess (ReadDepexSection E (driver s l) (World s)) (driver s l))
                else Some s) of
            None \<Rightarrow> None
          | Some s1 \<Rightarrow>
            if \<not> Dependent (driver s1 l) then Some (s1, ReadyToRun)
            else (case SmmIsSchedulable (SmmLocate E (World s1)) (BsLocate E (World s1)) (driver s1 l) (DepexStack s1) of
                    None \<Rightarrow> None
                  | Some (r, d, stack) \<Rightarrow>
                    let s2 = set_driver l d s1\<lparr>DepexStack := stack\<rparr> in
                    if r then map_option (\<lambda>s3. (s3, True)) (SmmInsertOnScheduledQueueWhileProcessingBeforeAndAfter n l s2)
                    else Some (s2, ReadyToRun))))"

text \<open>The driver at the head of the queue; the flag says that it has just registered the SMM entry point.\<close>

definition Dispatcher_head :: "'w environment \<Rightarrow> 'w dispatcher \<Rightarrow> bool \<times> 'w dispatcher" where
  "Dispatcher_head E s =
    (let e = hd (mScheduledQueue s); d = driver s e;
         leave = (\<lambda>d s. set_driver e (d\<lparr>Initialized := True, Scheduled := False\<rparr>) s\<lparr>mScheduledQueue := tl (mScheduledQueue s)\<rparr>);
         (Status, d1, s1) =
           (if ImageHandle d = 0 then
              case LoadImage E d (StackPool (DepexStack s)) (World s) of
                (Status, (handle, entry, buffer, pages), p, w) \<Rightarrow>
                  (Status, d\<lparr>ImageHandle := handle, ImageEntryPoint := entry, ImageBuffer := buffer, NumberOfPage := pages\<rparr>,
                   s\<lparr>DepexStack := DepexStack s\<lparr>StackPool := p\<rparr>, World := w\<rparr>)
            else (EFI_SUCCESS, d, s))
     in if EFI_ERROR Status then (False, leave d1 s1)
        else let s2 = leave d1 s1; registered = SmmEntryPointRegistered E (World s2);
                 (Status, p, w) = StartImage E (driver s2 e) (StackPool (DepexStack s2)) (World s2);
                 p' = (if EFI_ERROR Status
                       then p\<lparr>mSmmMemoryMap := snd (SmmFreePages (ImageBuffer d1) (NumberOfPage d1) (mSmmMemoryMap p))\<rparr> else p)
             in (\<not> registered \<and> SmmEntryPointRegistered E w,
                 s2\<lparr>DepexStack := DepexStack s2\<lparr>StackPool := p'\<rparr>, World := w, Calls := Calls s2 @ [e]\<rparr>))"

lemma Dispatcher_head_queue: "Dispatcher_head E s = (b, s') \<Longrightarrow> mScheduledQueue s' = tl (mScheduledQueue s)"
  by (auto simp: Dispatcher_head_def Let_def set_driver_def split: prod.splits if_splits)

function Dispatcher_drain :: "'w environment \<Rightarrow> 'w dispatcher \<Rightarrow> bool \<times> 'w dispatcher" where
  "Dispatcher_drain E s =
    (if mScheduledQueue s = [] then (False, s)
     else case Dispatcher_head E s of (stop, s') \<Rightarrow> if stop then (True, s') else Dispatcher_drain E s')"
  by pat_completeness auto
termination
  by (relation "measure (\<lambda>(E, s). length (mScheduledQueue s))") (auto dest!: Dispatcher_head_queue [OF sym])

declare Dispatcher_drain.simps [simp del]

primrec Dispatcher_rounds :: "'w environment \<Rightarrow> nat \<Rightarrow> nat \<Rightarrow> 'w dispatcher \<Rightarrow> (EFI_STATUS \<times> 'w dispatcher) option" where
  "Dispatcher_rounds E n 0 s = None"
| "Dispatcher_rounds E n (Suc k) s =
    (case Dispatcher_drain E s of
       (True, s1) \<Rightarrow> Some (EFI_NOT_READY, s1\<lparr>gRequestDispatch := True, gDispatcherRunning := False\<rparr>)
     | (False, s1) \<Rightarrow>
       (case for_each (Dispatcher_scan E n) (mDiscoveredList s1) (s1, False) of
          None \<Rightarrow> None
        | Some (s2, ReadyToRun) \<Rightarrow>
          if ReadyToRun then Dispatcher_rounds E n k s2
          else Some (EFI_SUCCESS, s2\<lparr>gRequestDispatch := list_ex (\<lambda>l. \<not> Initialized (driver s2 l)) (mDiscoveredList s2),
                                     gDispatcherRunning := False\<rparr>)))"

definition SmmDispatcher :: "'w environment \<Rightarrow> nat \<Rightarrow> nat \<Rightarrow> 'w dispatcher \<Rightarrow> (EFI_STATUS \<times> 'w dispatcher) option" where
  "SmmDispatcher E n k s =
    (if \<not> gRequestDispatch s then Some (EFI_NOT_FOUND, s)
     else if gDispatcherRunning s then Some (EFI_ALREADY_STARTED, s)
     else Dispatcher_rounds E n k (s\<lparr>gDispatcherRunning := True\<rparr>))"

section \<open>Discovery\<close>

definition FvHasBeenProcessed :: "UINTN \<Rightarrow> 'w dispatcher \<Rightarrow> bool" where
  "FvHasBeenProcessed fv s = list_ex (\<lambda>h. h = fv) (mFvHandleList s)"

text \<open>The memory of the core.\<close>

abbreviation core_pool :: "'w dispatcher \<Rightarrow> smm_memory" where
  "core_pool s \<equiv> StackPool (DepexStack s)"

definition set_pool :: "smm_memory \<Rightarrow> 'w dispatcher \<Rightarrow> 'w dispatcher" where
  "set_pool p s = s\<lparr>DepexStack := DepexStack s\<lparr>StackPool := p\<rparr>\<rparr>"

definition FvIsBeingProcesssed :: "UINTN \<Rightarrow> 'w dispatcher \<Rightarrow> 'w dispatcher option" where
  "FvIsBeingProcesssed fv s =
    (case AllocatePool sizeof_KNOWN_HANDLE (core_pool s) of
       None \<Rightarrow> None
     | Some (KnownHandle, p) \<Rightarrow>
         if KnownHandle = 0 then None else Some (set_pool p s\<lparr>mFvHandleList := mFvHandleList s @ [fv]\<rparr>))"

definition SmmAddToDriverList ::
  "'w environment \<Rightarrow> UINTN \<Rightarrow> EFI_GUID \<Rightarrow> 'w dispatcher \<Rightarrow> (EFI_STATUS \<times> 'w dispatcher) option" where
  "SmmAddToDriverList E fv DriverName s =
    (case AllocateZeroPool sizeof_EFI_SMM_DRIVER_ENTRY (core_pool s) of
       None \<Rightarrow> None
     | Some (a, p) \<Rightarrow>
       if a = 0 then None
       else let d = zeroed_entry\<lparr>FileName := DriverName, FvHandle := fv\<rparr> in
         map_option (\<lambda>(_, d'). (EFI_SUCCESS,
             set_driver a d' (set_pool p s)\<lparr>mDiscoveredList := mDiscoveredList s @ [a], gRequestDispatch := True\<rparr>))
           (SmmGetDepexSectionAndPreProccess (ReadDepexSection E d (World s)) d))"

definition Apriori_schedule :: "UINTN \<Rightarrow> EFI_GUID \<Rightarrow> 'w dispatcher \<Rightarrow> 'w dispatcher option" where
  "Apriori_schedule fv g s =
    (case find (\<lambda>l. FileName (driver s l) = g \<and> FvHandle (driver s l) = fv) (mDiscoveredList s) of
       None \<Rightarrow> Some s
     | Some l \<Rightarrow> schedule l s)"

definition Fv_process :: "'w environment \<Rightarrow> UINTN \<Rightarrow> 'w dispatcher \<Rightarrow> 'w dispatcher option" where
  "Fv_process E fv s =
    (if FvHasBeenProcessed fv s then Some s
     else case FvIsBeingProcesssed fv s of
       None \<Rightarrow> None
     | Some s1 \<Rightarrow>
       if \<not> FvProtocol E (World s1) fv then Some s1
       else if \<not> FvDevicePath E (World s1) fv then Some s1
       else case for_each (\<lambda>t. for_each (\<lambda>g s. map_option snd (SmmAddToDriverList E fv g s)) (FvFiles E (World s1) fv t))
                   mSmmFileTypes s1 of
         None \<Rightarrow> None
       | Some s2 \<Rightarrow> for_each (Apriori_schedule fv) (FvApriori E (World s2) fv) s2)"

text \<open>\<open>Comm\<close> says that there is a communication buffer of at least one byte; the second component is the byte stored.\<close>

definition SmmDriverDispatchHandler ::
  "'w environment \<Rightarrow> nat \<Rightarrow> nat \<Rightarrow> bool \<Rightarrow> 'w dispatcher \<Rightarrow> (EFI_STATUS \<times> UINT8 option \<times> 'w dispatcher) option" where
  "SmmDriverDispatchHandler E n k Comm s =
    (case FvHandles E (World s) of
       None \<Rightarrow> Some (EFI_NOT_FOUND, None, s)
     | Some HandleBuffer \<Rightarrow>
       (case for_each (Fv_process E) HandleBuffer s of
          None \<Rightarrow> None
        | Some s1 \<Rightarrow>
          map_option (\<lambda>(Status, s2). (EFI_SUCCESS,
              if \<not> Comm then None
              else Some (if Status = EFI_NOT_READY then COMM_BUFFER_SMM_DISPATCH_RESTART
                         else if \<not> EFI_ERROR Status then COMM_BUFFER_SMM_DISPATCH_SUCCESS
                         else COMM_BUFFER_SMM_DISPATCH_ERROR), s2))
            (SmmDispatcher E n k s1)))"

section \<open>The drivers that wait for a driver\<close>

text \<open>\<open>waits s y x\<close>: the driver \<open>x\<close> is to be scheduled before or after the driver \<open>y\<close>.\<close>

definition waits :: "'w dispatcher \<Rightarrow> UINTN \<Rightarrow> UINTN \<Rightarrow> bool" where
  "waits s y x \<longleftrightarrow> x \<in> set (mDiscoveredList s) \<and> (Before (driver s x) \<or> After (driver s x)) \<and> Dependent (driver s x) \<and>
     x \<noteq> y \<and> FileName (driver s y) = BeforeAfterGuid (driver s x)"

definition disp_wf :: "'w dispatcher \<Rightarrow> bool" where
  "disp_wf s \<longleftrightarrow> distinct (mDiscoveredList s) \<and> dom (DriverAt s) = set (mDiscoveredList s) \<and>
     inj_on (\<lambda>x. FileName (driver s x)) (set (mDiscoveredList s)) \<and>
     distinct (mScheduledQueue s) \<and> set (mScheduledQueue s) \<subseteq> set (mDiscoveredList s) \<and>
     (\<forall>x \<in> set (mDiscoveredList s). \<not> (Before (driver s x) \<and> After (driver s x)) \<and>
        (x \<in> set (mScheduledQueue s) \<longrightarrow> \<not> Dependent (driver s x)))"

text \<open>A driver that can be scheduled by itself.\<close>

definition ready :: "'w dispatcher \<Rightarrow> UINTN \<Rightarrow> bool" where
  "ready s r \<longleftrightarrow> r \<in> set (mDiscoveredList s) \<and> Dependent (driver s r) \<and> \<not> Before (driver s r) \<and> \<not> After (driver s r)"

inductive chain :: "'w dispatcher \<Rightarrow> UINTN \<Rightarrow> nat \<Rightarrow> UINTN \<Rightarrow> bool" for s r where
  root: "chain s r 0 r"
| step: "chain s r k y \<Longrightarrow> waits s y x \<Longrightarrow> chain s r (Suc k) x"

inductive_cases chain_0: "chain s r 0 x"
inductive_cases chain_Suc: "chain s r (Suc k) x"

lemma chain_discovered: "chain s r k x \<Longrightarrow> ready s r \<Longrightarrow> x \<in> set (mDiscoveredList s)"
  by (induction rule: chain.induct) (auto simp: ready_def waits_def)

lemma waits_parent:
  assumes "disp_wf s" "waits s y x" "waits s z x" "y \<in> set (mDiscoveredList s)" "z \<in> set (mDiscoveredList s)"
  shows "y = z"
  using assms by (auto simp: disp_wf_def waits_def inj_on_def)

lemma chain_depth:
  assumes wf: "disp_wf s" and r: "ready s r"
  shows "chain s r k x \<Longrightarrow> chain s r m x \<Longrightarrow> k = m"
proof (induction k arbitrary: m x)
  case 0
  then have "x = r" by (auto elim: chain_0)
  then show ?case using 0(2) r by (cases m) (auto simp: ready_def waits_def elim: chain_Suc)
next
  case (Suc k)
  obtain y where y: "chain s r k y" "waits s y x" using Suc.prems(1) by (rule chain_Suc)
  show ?case
  proof (cases m)
    case 0
    then have "x = r" using Suc.prems(2) by (auto elim: chain_0)
    then show ?thesis using y(2) r by (auto simp: ready_def waits_def)
  next
    case (Suc m')
    then obtain z where z: "chain s r m' z" "waits s z x" using Suc.prems(2) chain_Suc by metis
    have "y = z" using waits_parent [OF wf y(2) z(2)] chain_discovered [OF _ r] y(1) z(1) by blast
    then show ?thesis using Suc.IH [OF y(1)] z(1) Suc by simp
  qed
qed

lemma chain_length:
  assumes wf: "disp_wf s" and r: "ready s r" and c: "chain s r k x"
  shows "k < length (mDiscoveredList s)"
proof -
  have "\<exists>xs. length xs = Suc k \<and> distinct xs \<and> (\<forall>y \<in> set xs. \<exists>j \<le> k. chain s r j y)" using c
  proof (induction rule: chain.induct)
    case root
    then show ?case by (intro exI [of _ "[r]"]) (auto intro: chain.root)
  next
    case (step k y x)
    then obtain xs where xs: "length xs = Suc k" "distinct xs" "\<forall>y \<in> set xs. \<exists>j \<le> k. chain s r j y" by blast
    have new: "chain s r (Suc k) x" using step by (blast intro: chain.step)
    then have "x \<notin> set xs" using xs(3) chain_depth [OF wf r new] by fastforce
    then show ?case using xs new by (intro exI [of _ "x # xs"]) (auto intro: le_SucI)
  qed
  then obtain xs where xs: "length xs = Suc k" "distinct xs" "\<forall>y \<in> set xs. \<exists>j \<le> k. chain s r j y" by blast
  have "set xs \<subseteq> set (mDiscoveredList s)" using xs(3) chain_discovered [OF _ r] by blast
  then have "length xs \<le> length (mDiscoveredList s)"
    using xs(2) wf by (metis card_mono distinct_card disp_wf_def finite_set)
  then show ?thesis using xs(1) by simp
qed

abbreviation below :: "'w dispatcher \<Rightarrow> UINTN \<Rightarrow> UINTN \<Rightarrow> bool" where
  "below s \<equiv> (waits s)\<^sup>*\<^sup>*"

lemma chain_below:
  "below s x z \<Longrightarrow> chain s r k x \<Longrightarrow> \<exists>j. chain s r (k + j) z \<and> (j = 0 \<longrightarrow> z = x)"
proof (induction rule: rtranclp_induct)
  case base
  then show ?case by (intro exI [of _ 0]) simp
next
  case (step y z)
  then obtain j where "chain s r (k + j) y" by blast
  then have "chain s r (k + Suc j) z" using step(2) by (simp add: chain.step)
  then show ?case by blast
qed

lemma subtrees_disjoint:
  assumes wf: "disp_wf s" and r: "ready s r" and c: "chain s r k c" "chain s r k c'" and z: "below s c z" "below s c' z"
  shows "c = c'"
  using z
proof (induction rule: rtranclp_induct)
  case base
  obtain j where j: "chain s r (k + j) c" "j = 0 \<longrightarrow> c = c'" using chain_below [OF base c(2)] by blast
  then show ?case using chain_depth [OF wf r c(1) j(1)] by simp
next
  case (step y z)
  obtain j where j: "chain s r (k + j) y" using chain_below [OF step(1) c(1)] by blast
  have zj: "chain s r (Suc (k + j)) z" by (rule chain.step [OF j step(2)])
  have "c' \<noteq> z" using chain_depth [OF wf r c(2)] zj by fastforce
  then obtain y' where y': "below s c' y'" "waits s y' z" using step(4) by (metis rtranclp.cases)
  obtain j' where j': "chain s r (k + j') y'" using chain_below [OF y'(1) c(2)] by blast
  have "y = y'" using waits_parent [OF wf step(2) y'(2)] chain_discovered [OF _ r] j j' by blast
  then show ?case using step.IH y'(1) by simp
qed

lemma parent_not_below:
  assumes wf: "disp_wf s" and r: "ready s r" and c: "chain s r k x" and w: "waits s x a"
  shows "\<not> below s a x"
proof
  assume "below s a x"
  then obtain j where "chain s r (Suc k + j) x" using chain_below [OF _ chain.step [OF c w]] by blast
  then show False using chain_depth [OF wf r c] by fastforce
qed

text \<open>The order in which the dependencies ask for.\<close>

definition befores :: "'w dispatcher \<Rightarrow> UINTN \<Rightarrow> UINTN list" where
  "befores s y = filter (\<lambda>x. waits s y x \<and> Before (driver s x)) (mDiscoveredList s)"

definition afters :: "'w dispatcher \<Rightarrow> UINTN \<Rightarrow> UINTN list" where
  "afters s y = filter (\<lambda>x. waits s y x \<and> After (driver s x)) (mDiscoveredList s)"

primrec order :: "'w dispatcher \<Rightarrow> nat \<Rightarrow> UINTN \<Rightarrow> UINTN list" where
  "order s 0 y = []"
| "order s (Suc n) y = concat (map (order s n) (befores s y)) @ y # concat (map (order s n) (afters s y))"

lemma waits_iff: "disp_wf s \<Longrightarrow> waits s y x \<longleftrightarrow> x \<in> set (befores s y) \<or> x \<in> set (afters s y)"
  by (auto simp: befores_def afters_def waits_def)

lemma order_below: "z \<in> set (order s n x) \<Longrightarrow> below s x z"
proof (induction n arbitrary: x)
  case (Suc n)
  then consider "z = x" | c where "waits s x c" "z \<in> set (order s n c)" by (auto simp: befores_def afters_def)
  then show ?case
  proof cases
    case 2
    then show ?thesis using Suc.IH [OF 2(2)] by (meson converse_rtranclp_into_rtranclp)
  qed simp
qed simp

lemma order_complete:
  assumes wf: "disp_wf s" and r: "ready s r"
  shows "chain s r k x \<Longrightarrow> length (mDiscoveredList s) \<le> n + k \<Longrightarrow> below s x z \<Longrightarrow> z \<in> set (order s n x)"
proof (induction n arbitrary: k x)
  case 0
  then show ?case using chain_length [OF wf r 0(1)] by simp
next
  case (Suc n)
  show ?case using Suc.prems(3)
  proof (cases rule: converse_rtranclpE)
    case base
    then show ?thesis by simp
  next
    case (step c)
    have "z \<in> set (order s n c)" using Suc.IH [OF chain.step [OF Suc.prems(1) step(1)]] Suc.prems(2) step(2) by simp
    then show ?thesis using step(1) waits_iff [OF wf, of x c] by auto
  qed
qed

lemma distinct_concat_map:
  "distinct cs \<Longrightarrow> (\<And>c. c \<in> set cs \<Longrightarrow> distinct (f c)) \<Longrightarrow>
   (\<And>c c'. c \<in> set cs \<Longrightarrow> c' \<in> set cs \<Longrightarrow> c \<noteq> c' \<Longrightarrow> set (f c) \<inter> set (f c') = {}) \<Longrightarrow> distinct (concat (map f cs))"
  by (induction cs) auto

lemma siblings_disjoint:
  assumes wf: "disp_wf s" and r: "ready s r" and x: "chain s r k x" and c: "waits s x c" "waits s x c'" "c \<noteq> c'"
  shows "set (order s n c) \<inter> {z. below s c' z} = {}"
  using subtrees_disjoint [OF wf r chain.step [OF x c(1)] chain.step [OF x c(2)]] order_below c(3) by blast

lemma order_distinct:
  assumes wf: "disp_wf s" and r: "ready s r"
  shows "chain s r k x \<Longrightarrow> distinct (order s n x)"
proof (induction n arbitrary: k x)
  case (Suc n)
  let ?cs = "befores s x @ afters s x"
  have d: "distinct ?cs" using wf by (auto simp: disp_wf_def befores_def afters_def)
  have w: "waits s x c" if "c \<in> set ?cs" for c using that by (auto simp: befores_def afters_def)
  have "distinct (concat (map (order s n) ?cs))"
  proof (rule distinct_concat_map [OF d])
    show "distinct (order s n c)" if "c \<in> set ?cs" for c using Suc.IH [OF chain.step [OF Suc.prems w [OF that]]] .
    show "set (order s n c) \<inter> set (order s n c') = {}" if "c \<in> set ?cs" "c' \<in> set ?cs" "c \<noteq> c'" for c c'
      using siblings_disjoint [OF wf r Suc.prems w [OF that(1)] w [OF that(2)] that(3), of n] order_below by blast
  qed
  moreover have "x \<notin> set (concat (map (order s n) ?cs))"
  proof
    assume "x \<in> set (concat (map (order s n) ?cs))"
    then obtain c where "c \<in> set ?cs" "x \<in> set (order s n c)" by auto
    then show False using parent_not_below [OF wf r Suc.prems w] order_below by blast
  qed
  ultimately show ?case by auto
qed simp

definition precedes :: "UINTN \<Rightarrow> UINTN \<Rightarrow> UINTN list \<Rightarrow> bool" where
  "precedes u v xs \<longleftrightarrow> (\<exists>as bs cs. xs = as @ u # bs @ v # cs)"

lemma precedes_part: "precedes u v xs \<Longrightarrow> precedes u v (as @ xs @ bs)"
  unfolding precedes_def by (metis append_assoc append_Cons)

lemma precedes_middle:
  assumes "u \<in> set as" shows "precedes u v (as @ v # bs)"
proof -
  obtain us vs where "as = us @ u # vs" using assms by (meson split_list)
  then show ?thesis unfolding precedes_def by (intro exI [of _ us] exI [of _ vs] exI [of _ bs]) simp
qed

lemma precedes_middle_right:
  assumes "v \<in> set bs" shows "precedes u v (as @ u # bs)"
proof -
  obtain us vs where "bs = us @ v # vs" using assms by (meson split_list)
  then show ?thesis unfolding precedes_def by blast
qed

lemma concat_part: "c \<in> set cs \<Longrightarrow> \<exists>as bs. concat (map f cs) = as @ f c @ bs"
  by (induction cs) (auto, metis append_assoc append_Nil)

lemma order_part:
  assumes "disp_wf s" "waits s x c" shows "\<exists>as bs. order s (Suc n) x = as @ order s n c @ bs"
proof -
  consider "c \<in> set (befores s x)" | "c \<in> set (afters s x)" using assms waits_iff by blast
  then show ?thesis
  proof cases
    case 1
    then obtain as bs where "concat (map (order s n) (befores s x)) = as @ order s n c @ bs" using concat_part by metis
    then show ?thesis by auto
  next
    case 2
    then obtain as bs where "concat (map (order s n) (afters s x)) = as @ order s n c @ bs" using concat_part by metis
    then have "order s (Suc n) x = (concat (map (order s n) (befores s x)) @ x # as) @ order s n c @ bs" by simp
    then show ?thesis by blast
  qed
qed

lemma order_precedes:
  assumes wf: "disp_wf s" and r: "ready s r"
  shows "chain s r k x \<Longrightarrow> length (mDiscoveredList s) \<le> n + k \<Longrightarrow> v \<in> set (order s n x) \<Longrightarrow> waits s v u \<Longrightarrow>
    (if Before (driver s u) then precedes u v (order s n x) else precedes v u (order s n x))"
proof (induction n arbitrary: k x)
  case (Suc n)
  have step: "u \<in> set (order s n u)" if "v = x"
    using order_complete [OF wf r chain.step [OF Suc.prems(1)]] Suc.prems(2,4) that by auto
  show ?case
  proof (cases "v = x")
    case True
    have b: "Before (driver s u) \<Longrightarrow> u \<in> set (concat (map (order s n) (befores s x)))"
      "\<not> Before (driver s u) \<Longrightarrow> u \<in> set (concat (map (order s n) (afters s x)))"
      using step [OF True] waits_iff [OF wf, of x u] Suc.prems(4) True by (auto simp: befores_def afters_def)
    then show ?thesis unfolding True by (auto intro: precedes_middle precedes_middle_right)
  next
    case False
    then obtain c where c: "waits s x c" "v \<in> set (order s n c)" using Suc.prems(3) by (auto simp: befores_def afters_def)
    obtain as bs where part: "order s (Suc n) x = as @ order s n c @ bs" using order_part [OF wf c(1)] by blast
    have "if Before (driver s u) then precedes u v (order s n c) else precedes v u (order s n c)"
      using Suc.IH [OF chain.step [OF Suc.prems(1) c(1)] _ c(2) Suc.prems(4)] Suc.prems(2) by simp
    then show ?thesis unfolding part using precedes_part by metis
  qed
qed simp

text \<open>The state after the drivers of a list have been linked into the queue.\<close>

definition put :: "UINTN list \<Rightarrow> 'w dispatcher \<Rightarrow> 'w dispatcher" where
  "put L s = s\<lparr>DriverAt := (\<lambda>a. if a \<in> set L then map_option (\<lambda>d. d\<lparr>Dependent := False, Scheduled := True\<rparr>) (DriverAt s a)
     else DriverAt s a), mScheduledQueue := mScheduledQueue s @ L\<rparr>"

lemma put_Nil [simp]: "put [] s = s"
  by (simp add: put_def)

lemma put_lists [simp]:
  "mDiscoveredList (put L s) = mDiscoveredList s" "mScheduledQueue (put L s) = mScheduledQueue s @ L"
  "World (put L s) = World s" "DepexStack (put L s) = DepexStack s" "Calls (put L s) = Calls s"
  "mFvHandleList (put L s) = mFvHandleList s" "gDispatcherRunning (put L s) = gDispatcherRunning s"
  "gRequestDispatch (put L s) = gRequestDispatch s" "dom (DriverAt (put L s)) = dom (DriverAt s)"
  by (auto simp: put_def dom_def)

lemma put_driver:
  assumes "DriverAt s a \<noteq> None"
  shows "driver (put L s) a = (if a \<in> set L then (driver s a)\<lparr>Dependent := False, Scheduled := True\<rparr> else driver s a)"
  using assms by (auto simp: driver_def put_def)

lemma schedule_put:
  assumes "e \<notin> set L" "e \<notin> set (mScheduledQueue s)" "DriverAt s e \<noteq> None"
  shows "schedule e (put L s) = Some (put (L @ [e]) s)"
proof -
  obtain d where d: "DriverAt s e = Some d" using assms(3) by blast
  have "(\<lambda>a. if a \<in> set L then map_option (\<lambda>d. d\<lparr>Dependent := False, Scheduled := True\<rparr>) (DriverAt s a) else DriverAt s a)
      (e \<mapsto> d\<lparr>Dependent := False, Scheduled := True\<rparr>) =
    (\<lambda>a. if a \<in> set (L @ [e]) then map_option (\<lambda>d. d\<lparr>Dependent := False, Scheduled := True\<rparr>) (DriverAt s a) else DriverAt s a)"
    using d assms(1) by (auto simp: fun_eq_iff)
  then show ?thesis using assms d by (simp add: schedule_def set_driver_def put_driver) (simp add: put_def driver_def)
qed

abbreviation insert_driver :: "nat \<Rightarrow> UINTN \<Rightarrow> 'w dispatcher \<Rightarrow> 'w dispatcher option" where
  "insert_driver \<equiv> SmmInsertOnScheduledQueueWhileProcessingBeforeAndAfter"

text \<open>One of the two loops of the recursion; \<open>P\<close> selects the drivers it looks at.\<close>

lemma insert_loop:
  fixes s :: "'w dispatcher"
  assumes wf: "disp_wf s" and P: "\<And>d :: EFI_SMM_DRIVER_ENTRY. P (d\<lparr>Dependent := False, Scheduled := True\<rparr>) = P d"
    and PBA: "\<And>d. P d \<Longrightarrow> Before d \<or> After d" and x: "x \<in> set (mDiscoveredList s)"
    and rec: "\<And>c L. waits s x c \<Longrightarrow> set L \<inter> {z. below s c z} = {} \<Longrightarrow> set L \<subseteq> set (mDiscoveredList s) \<Longrightarrow>
      insert_driver n c (put L s) = Some (put (L @ order s n c) s)"
    and sep: "\<And>c c'. waits s x c \<Longrightarrow> waits s x c' \<Longrightarrow> c \<noteq> c' \<Longrightarrow> set (order s n c) \<inter> {z. below s c' z} = {}"
    and sub: "\<And>c. waits s x c \<Longrightarrow> set (order s n c) \<subseteq> set (mDiscoveredList s)"
  shows "set ls \<subseteq> set (mDiscoveredList s) \<Longrightarrow> distinct ls \<Longrightarrow> set L \<subseteq> set (mDiscoveredList s) \<Longrightarrow>
    (\<And>c. c \<in> set ls \<Longrightarrow> waits s x c \<Longrightarrow> P (driver s c) \<Longrightarrow> set L \<inter> {z. below s c z} = {}) \<Longrightarrow>
    for_each (\<lambda>l s. if P (driver s l) \<and> Dependent (driver s l) \<and> l \<noteq> x \<and> FileName (driver s x) = BeforeAfterGuid (driver s l)
        then insert_driver n l s else Some s) ls (put L s) =
      Some (put (L @ concat (map (order s n) (filter (\<lambda>c. waits s x c \<and> P (driver s c)) ls))) s)"
proof (induction ls arbitrary: L)
  case (Cons c ls)
  have dom: "DriverAt s a \<noteq> None" if "a \<in> set (mDiscoveredList s)" for a using wf that by (auto simp: disp_wf_def)
  have c: "DriverAt s c \<noteq> None" "DriverAt s x \<noteq> None" "c \<in> set (mDiscoveredList s)" using Cons.prems(1) x dom by auto
  have test: "P (driver (put L s) c) \<and> Dependent (driver (put L s) c) \<and> c \<noteq> x \<and>
      FileName (driver (put L s) x) = BeforeAfterGuid (driver (put L s) c) \<longleftrightarrow> waits s x c \<and> P (driver s c)"
  proof -
    have "c \<notin> set L" if "waits s x c" "P (driver s c)" using Cons.prems(4) [of c] that by auto
    then show ?thesis using c P [of "driver s c"] PBA [of "driver s c"] by (auto simp: put_driver waits_def)
  qed
  show ?case
  proof (cases "waits s x c \<and> P (driver s c)")
    case True
    then have d: "set L \<inter> {z. below s c z} = {}" using Cons.prems(4) [of c] by simp
    have r: "insert_driver n c (put L s) = Some (put (L @ order s n c) s)" using rec [OF _ d] True Cons.prems(3) by blast
    have L': "set (L @ order s n c) \<inter> {z. below s c' z} = {}" if "c' \<in> set ls" "waits s x c'" "P (driver s c')" for c'
      using Cons.prems(2,4) that sep [of c c'] True by auto
    have "set (L @ order s n c) \<subseteq> set (mDiscoveredList s)" using Cons.prems(3) sub [of c] True by simp
    then show ?thesis using Cons.IH [of "L @ order s n c"] L' Cons.prems(1,2) True r test by simp
  next
    case False
    then show ?thesis using Cons.IH [of L] Cons.prems test by auto
  qed
qed simp

lemma insert_order:
  assumes wf: "disp_wf s" and r: "ready s r"
  shows "chain s r k x \<Longrightarrow> length (mDiscoveredList s) \<le> n + k \<Longrightarrow> set L \<inter> {z. below s x z} = {} \<Longrightarrow>
    set L \<subseteq> set (mDiscoveredList s) \<Longrightarrow> insert_driver n x (put L s) = Some (put (L @ order s n x) s)"
proof (induction n arbitrary: k x L)
  case 0
  then show ?case using chain_length [OF wf r 0(1)] by simp
next
  case (Suc n)
  note x = chain_discovered [OF Suc.prems(1) r]
  have disc: "z \<in> set (mDiscoveredList s)" if "below s c z" "waits s x c" for c z
    using chain_below [OF that(1) chain.step [OF Suc.prems(1) that(2)]] chain_discovered [OF _ r] by blast
  have sub: "set (order s n c) \<subseteq> set (mDiscoveredList s)" if "waits s x c" for c using order_below disc that by blast
  have rec: "insert_driver n c (put M s) = Some (put (M @ order s n c) s)"
    if "waits s x c" "set M \<inter> {z. below s c z} = {}" "set M \<subseteq> set (mDiscoveredList s)" for c M
    using Suc.IH [OF chain.step [OF Suc.prems(1) that(1)]] Suc.prems(2) that(2,3) by simp
  note sep = siblings_disjoint [OF wf r Suc.prems(1)]
  have down: "below s x z" if "waits s x c" "below s c z" for c z using that by (meson converse_rtranclp_into_rtranclp)
  let ?B = "concat (map (order s n) (befores s x))" and ?d = "mDiscoveredList s"
  have ds: "distinct ?d" "set ?d \<subseteq> set ?d" using wf by (auto simp: disp_wf_def)
  have before: "for_each (\<lambda>l s. if Before (driver s l) \<and> Dependent (driver s l) \<and> l \<noteq> x \<and> FileName (driver s x) = BeforeAfterGuid (driver s l)
      then insert_driver n l s else Some s) ?d (put L s) = Some (put (L @ ?B) s)"
    unfolding befores_def
    by (rule insert_loop [OF wf _ _ x rec sep sub ds(2,1) Suc.prems(4), where P = Before]) (use down Suc.prems(3) in auto)
  have B: "set ?B \<subseteq> {z. below s x z}" "x \<notin> set ?B" "set (L @ ?B @ [x]) \<subseteq> set ?d"
  proof -
    have w: "waits s x c" if "c \<in> set (befores s x)" for c using that by (auto simp: befores_def)
    show "set ?B \<subseteq> {z. below s x z}" using down order_below w by fastforce
    show "x \<notin> set ?B" using parent_not_below [OF wf r Suc.prems(1)] order_below w by fastforce
    show "set (L @ ?B @ [x]) \<subseteq> set ?d" using Suc.prems(4) x sub w by auto
  qed
  have xn: "x \<notin> set (L @ ?B)" "x \<notin> set (mScheduledQueue s)" "DriverAt s x \<noteq> None"
  proof -
    show "x \<notin> set (L @ ?B)" using Suc.prems(3) B(2) by auto
    have "Dependent (driver s x)" using Suc.prems(1) r by (cases rule: chain.cases) (auto simp: ready_def waits_def)
    then show "x \<notin> set (mScheduledQueue s)" "DriverAt s x \<noteq> None" using wf x by (auto simp: disp_wf_def)
  qed
  have after: "for_each (\<lambda>l s. if After (driver s l) \<and> Dependent (driver s l) \<and> l \<noteq> x \<and> FileName (driver s x) = BeforeAfterGuid (driver s l)
      then insert_driver n l s else Some s) ?d (put (L @ ?B @ [x]) s) =
      Some (put ((L @ ?B @ [x]) @ concat (map (order s n) (afters s x))) s)"
    unfolding afters_def
  proof (rule insert_loop [OF wf _ _ x rec sep sub ds(2,1) B(3), where P = After])
    fix c assume c: "c \<in> set ?d" "waits s x c" "After (driver s c)"
    have "b \<noteq> c" if "b \<in> set (befores s x)" for b using wf c that by (auto simp: disp_wf_def befores_def)
    then have "set ?B \<inter> {z. below s c z} = {}" using sep [OF _ c(2), of _ n] by (auto simp: befores_def)
    moreover have "\<not> below s c x" by (rule parent_not_below [OF wf r Suc.prems(1) c(2)])
    ultimately show "set (L @ ?B @ [x]) \<inter> {z. below s c z} = {}" using Suc.prems(3) down [OF c(2)] by auto
  qed simp_all
  show ?case using before after schedule_put [OF xn] by simp
qed

text \<open>C4. Scheduling a driver that is ready, when no two drivers have the same file name.  A recursion no
deeper than the number of discovered drivers is enough, the queue stays a proper list, and what is appended
to it is exactly the driver with all drivers that wait for it, directly or through others, each once; a
driver that asks to run before another stands before it, one that asks to run after it stands behind it; and
exactly these drivers change from dependent to scheduled.\<close>

theorem InsertOnScheduledQueue_order:
  assumes wf: "disp_wf s" and r: "ready s r" and n: "length (mDiscoveredList s) \<le> n"
  shows "\<exists>new. SmmInsertOnScheduledQueueWhileProcessingBeforeAndAfter n r s = Some (put new s) \<and>
    distinct new \<and> set new = {z. (waits s)\<^sup>*\<^sup>* r z} \<and>
    (\<forall>u v. v \<in> set new \<longrightarrow> waits s v u \<longrightarrow> (if Before (driver s u) then precedes u v new else precedes v u new))"
proof (intro exI conjI)
  note c = chain.root [of s r]
  show "insert_driver n r s = Some (put (order s n r) s)"
    using insert_order [OF wf r c, of n "[]"] n by simp
  show "distinct (order s n r)" by (rule order_distinct [OF wf r c])
  show "set (order s n r) = {z. below s r z}" using order_below order_complete [OF wf r c, of n] n by auto
  show "\<forall>u v. v \<in> set (order s n r) \<longrightarrow> waits s v u \<longrightarrow>
      (if Before (driver s u) then precedes u v (order s n r) else precedes v u (order s n r))"
    using order_precedes [OF wf r c, of n] n by simp
qed

section \<open>The dispatcher in order\<close>

text \<open>\<open>q\<close> says that the driver is on the queue.\<close>

definition entry_ok :: "bool \<Rightarrow> EFI_SMM_DRIVER_ENTRY \<Rightarrow> bool" where
  "entry_ok q d \<longleftrightarrow> \<not> (Before d \<and> After d) \<and> (Dependent d \<longrightarrow> \<not> q \<and> \<not> Initialized d) \<and> (q \<longrightarrow> \<not> Initialized d) \<and>
     (DepexProtocolError d \<longrightarrow> \<not> Dependent d \<and> \<not> Initialized d \<and> \<not> q \<and> \<not> Before d \<and> \<not> After d) \<and>
     (\<forall>bs. Depex d = Some bs \<longrightarrow> unat (DepexSize d) + 16 \<le> length bs \<and> length bs < 2 ^ 60)"

definition disp_inv :: "('w \<Rightarrow> UINTN multiset) \<Rightarrow> UINTN multiset \<Rightarrow> 'w dispatcher \<Rightarrow> bool" where
  "disp_inv own os s \<longleftrightarrow> distinct (mDiscoveredList s) \<and> dom (DriverAt s) = set (mDiscoveredList s) \<and>
     inj_on (\<lambda>x. FileName (driver s x)) (set (mDiscoveredList s)) \<and>
     distinct (mScheduledQueue s) \<and> set (mScheduledQueue s) \<subseteq> set (mDiscoveredList s) \<and> set (mDiscoveredList s) \<subseteq> set_mset os \<and>
     (\<forall>x \<in> set (mDiscoveredList s). entry_ok (x \<in> set (mScheduledQueue s)) (driver s x)) \<and> stack_ok (os + own (World s)) (DepexStack s)"

text \<open>
  What is asked of the code outside: a section that was read has its end marker and sixteen readable bytes
  behind it, and loading, running and releasing an image leaves the blocks of the core alone; \<open>own w\<close> are
  the blocks that the code outside has allocated.
\<close>

definition sections_ok :: "'w environment \<Rightarrow> bool" where
  "sections_ok E \<longleftrightarrow> (\<forall>d w st bs len. ReadDepexSection E d w = (st, bs, len) \<longrightarrow> \<not> EFI_ERROR st \<longrightarrow>
     0 < unat len \<and> unat len + 16 \<le> length bs \<and> length bs < 2 ^ 60)"

definition images_ok :: "('w \<Rightarrow> UINTN multiset) \<Rightarrow> 'w environment \<Rightarrow> bool" where
  "images_ok own E \<longleftrightarrow>
     (\<forall>d p w st f p' w' core. LoadImage E d p w = (st, f, p', w') \<longrightarrow> pool_ok p (core + own w) \<longrightarrow> pool_ok p' (core + own w')) \<and>
     (\<forall>d p w st p' w' core. StartImage E d p w = (st, p', w') \<longrightarrow> pool_ok p (core + own w) \<longrightarrow>
        pool_ok (if EFI_ERROR st then p'\<lparr>mSmmMemoryMap := snd (SmmFreePages (ImageBuffer d) (NumberOfPage d) (mSmmMemoryMap p'))\<rparr>
                 else p') (core + own w'))"

lemma disp_inv_wf: "disp_inv own os s \<Longrightarrow> disp_wf s"
  unfolding disp_inv_def disp_wf_def entry_ok_def by blast

lemma disp_inv_entry: "disp_inv own os s \<Longrightarrow> x \<in> set (mDiscoveredList s) \<Longrightarrow> entry_ok (x \<in> set (mScheduledQueue s)) (driver s x)"
  unfolding disp_inv_def by blast

lemma disp_inv_dom: "disp_inv own os s \<Longrightarrow> x \<in> set (mDiscoveredList s) \<Longrightarrow> DriverAt s x \<noteq> None"
  unfolding disp_inv_def by blast

lemma set_driver_fields [simp]:
  "mDiscoveredList (set_driver l d s) = mDiscoveredList s" "mScheduledQueue (set_driver l d s) = mScheduledQueue s"
  "World (set_driver l d s) = World s" "DepexStack (set_driver l d s) = DepexStack s" "Calls (set_driver l d s) = Calls s"
  "driver (set_driver l d s) x = (if x = l then d else driver s x)" "dom (DriverAt (set_driver l d s)) = insert l (dom (DriverAt s))"
  by (auto simp: set_driver_def driver_def)

lemma driver_update [simp]:
  "driver (s\<lparr>DepexStack := k\<rparr>) = driver s" "driver (s\<lparr>mScheduledQueue := q\<rparr>) = driver s" "driver (s\<lparr>World := w\<rparr>) = driver s"
  "driver (s\<lparr>Calls := c\<rparr>) = driver s" "driver (s\<lparr>gRequestDispatch := b\<rparr>) = driver s" "driver (s\<lparr>gDispatcherRunning := b\<rparr>) = driver s"
  by (auto simp: driver_def fun_eq_iff)

lemma set_driver_inv:
  assumes "disp_inv own os s" "l \<in> set (mDiscoveredList s)" "FileName d = FileName (driver s l)"
    "entry_ok (l \<in> set (mScheduledQueue s)) d" "stack_ok (os + own (World s)) k"
  shows "disp_inv own os (set_driver l d s\<lparr>DepexStack := k\<rparr>)"
proof -
  have "(\<lambda>x. FileName (driver (set_driver l d s) x)) = (\<lambda>x. FileName (driver s x))" using assms(3) by (simp add: fun_eq_iff)
  then have "inj_on (\<lambda>x. FileName (driver (set_driver l d s) x)) (set (mDiscoveredList s))"
    using assms(1) unfolding disp_inv_def by argo
  moreover have "insert l (dom (DriverAt s)) = set (mDiscoveredList s)" using assms(1,2) by (auto simp: disp_inv_def)
  ultimately show ?thesis using assms unfolding disp_inv_def by simp
qed

lemma put_inv:
  assumes "disp_inv own os s" "distinct new" "\<And>x. x \<in> set new \<Longrightarrow> x \<in> set (mDiscoveredList s) \<and> Dependent (driver s x)"
  shows "disp_inv own os (put new s)"
proof -
  have dom: "DriverAt s x \<noteq> None" if "x \<in> set (mDiscoveredList s)" for x using assms(1) that by (auto simp: disp_inv_def)
  have dr: "driver (put new s) x = (if x \<in> set new then (driver s x)\<lparr>Dependent := False, Scheduled := True\<rparr> else driver s x)"
    if "x \<in> set (mDiscoveredList s)" for x by (rule put_driver [OF dom [OF that]])
  have e: "entry_ok (x \<in> set (mScheduledQueue s)) (driver s x)" if "x \<in> set (mDiscoveredList s)" for x
    by (rule disp_inv_entry [OF assms(1) that])
  have "entry_ok (x \<in> set (mScheduledQueue s @ new)) (driver (put new s) x)" if "x \<in> set (mDiscoveredList s)" for x
    using e [OF that] assms(3) [of x] unfolding dr [OF that] by (auto simp: entry_ok_def)
  moreover have "inj_on (\<lambda>x. FileName (driver (put new s) x)) (set (mDiscoveredList s))"
  proof -
    have "inj_on (\<lambda>x. FileName (driver s x)) (set (mDiscoveredList s))" using assms(1) unfolding disp_inv_def by argo
    then show ?thesis by (rule inj_on_cong [THEN iffD1, rotated]) (simp add: dr)
  qed
  moreover have "set new \<inter> set (mScheduledQueue s) = {}"
    using assms(3) e by (fastforce simp: entry_ok_def)
  ultimately show ?thesis using assms unfolding disp_inv_def by auto
qed

text \<open>What the dispatcher does to a driver that it reads, evaluates or starts.\<close>

lemma read_depex:
  assumes "sections_ok E" "entry_ok q d" "DepexProtocolError d"
  obtains st d' where "SmmGetDepexSectionAndPreProccess (ReadDepexSection E d w) d = Some (st, d')" "entry_ok q d'"
    "FileName d' = FileName d" "\<not> Initialized d'"
proof -
  obtain st bs len where rd: "ReadDepexSection E d w = (st, bs, len)" by (cases "ReadDepexSection E d w") auto
  show ?thesis
  proof (cases "EFI_ERROR st")
    case True
    then show ?thesis using assms rd
      by (intro that [of st "if st = EFI_PROTOCOL_ERROR then d\<lparr>DepexProtocolError := True\<rparr>
          else d\<lparr>Depex := None, Dependent := True, DepexProtocolError := False\<rparr>"])
        (auto simp: SmmGetDepexSectionAndPreProccess_def entry_ok_def)
  next
    case False
    then have len: "0 < unat len" "unat len + 16 \<le> length bs" "length bs < 2 ^ 60"
      using assms(1) rd unfolding sections_ok_def by blast+
    then obtain op rest where bs: "bs = op # rest" by (cases bs) auto
    then obtain g where g: "depex_guid (op # rest) 0 = Some g" using len by (auto simp: depex_guid_def)
    let ?d = "d\<lparr>Depex := Some bs, DepexSize := len, Dependent := True, DepexProtocolError := False\<rparr>"
    show ?thesis
      by (rule that [of st "if op = EFI_DEP_BEFORE then ?d\<lparr>Before := True, BeforeAfterGuid := g\<rparr>
          else if op = EFI_DEP_AFTER then ?d\<lparr>After := True, BeforeAfterGuid := g\<rparr> else ?d"])
        (use assms rd False len g bs in \<open>auto simp: SmmGetDepexSectionAndPreProccess_def SmmPreProcessDepex_def entry_ok_def Let_def dep_ops\<close>)
  qed
qed

lemma evaluate_entry:
  assumes "entry_ok q d" "Dependent d" "stack_ok os k"
  obtains r d' k' where "SmmIsSchedulable SL BL d k = Some (r, d', k')" "stack_ok os k'" "entry_ok q d'" "FileName d' = FileName d"
    "Dependent d'" "\<not> Initialized d'" "r \<longrightarrow> \<not> Before d' \<and> \<not> After d'"
proof (cases "Depex d")
  case None
  then have "SmmIsSchedulable SL BL d k = Some (False, d, k)" by (simp add: SmmIsSchedulable_def)
  then show ?thesis by (rule that [of False d k]) (use assms in \<open>auto simp: entry_ok_def\<close>)
next
  case (Some bs)
  have len: "unat (DepexSize d) + 16 \<le> length bs" "length bs < 2 ^ 60" using assms(1) Some by (auto simp: entry_ok_def)
  obtain r bs' k' where e: "SmmIsSchedulable SL BL d k = Some (r, d\<lparr>Depex := Some bs'\<rparr>, k')" "stack_ok os k'" "length bs' = length bs"
    using schedulable_ends [OF assms(3) Some len] by blast
  have "r \<longrightarrow> \<not> Before d \<and> \<not> After d" using e(1) by (auto simp: SmmIsSchedulable_def)
  then show ?thesis using that [OF e(1,2)] assms(1,2) e(3) len by (auto simp: entry_ok_def)
qed

definition unsettled :: "'w dispatcher \<Rightarrow> nat" where
  "unsettled s = length (filter (\<lambda>x. Dependent (driver s x) \<or> DepexProtocolError (driver s x)) (mDiscoveredList s))"

lemma count_mono: "(\<And>x. x \<in> set xs \<Longrightarrow> P x \<Longrightarrow> Q x) \<Longrightarrow> length (filter P xs) \<le> length (filter Q xs)"
  by (induction xs) (auto intro: le_SucI)

lemma count_less: "(\<And>x. x \<in> set xs \<Longrightarrow> P x \<Longrightarrow> Q x) \<Longrightarrow> y \<in> set xs \<Longrightarrow> Q y \<Longrightarrow> \<not> P y \<Longrightarrow> length (filter P xs) < length (filter Q xs)"
proof (induction xs)
  case (Cons x xs)
  then show ?case using count_mono [of xs P Q] by (cases "x = y") (auto simp: less_Suc_eq_le)
qed simp

lemma insert_ready:
  assumes wf: "disp_wf s" and r: "ready s r" and n: "length (mDiscoveredList s) \<le> n"
  obtains new where "insert_driver n r s = Some (put new s)" "distinct new" "r \<in> set new"
    "\<And>x. x \<in> set new \<Longrightarrow> x \<in> set (mDiscoveredList s) \<and> Dependent (driver s x)"
proof (rule that)
  note c = chain.root [of s r]
  show "insert_driver n r s = Some (put (order s n r) s)" using insert_order [OF wf r c, of n "[]"] n by simp
  show "distinct (order s n r)" by (rule order_distinct [OF wf r c])
  show "r \<in> set (order s n r)" using order_complete [OF wf r c, of n] n by simp
  fix x assume "x \<in> set (order s n r)"
  then have "below s r x" by (rule order_below)
  then show "x \<in> set (mDiscoveredList s) \<and> Dependent (driver s x)"
    using r by (cases rule: rtranclp.cases) (auto simp: ready_def waits_def)
qed

text \<open>The driver is not dependent, or the evaluator has just refused it.\<close>

definition refused :: "'w environment \<Rightarrow> 'w dispatcher \<Rightarrow> UINTN \<Rightarrow> bool" where
  "refused E s l \<longleftrightarrow> (Dependent (driver s l) \<longrightarrow>
     (\<exists>d k k'. SmmIsSchedulable (SmmLocate E (World s)) (BsLocate E (World s)) d k = Some (False, driver s l, k')))"

definition scanned :: "'w dispatcher \<Rightarrow> 'w dispatcher \<Rightarrow> bool" where
  "scanned s s' \<longleftrightarrow> mDiscoveredList s' = mDiscoveredList s \<and> World s' = World s \<and> Calls s' = Calls s \<and>
     (\<forall>x \<in> set (mDiscoveredList s). Initialized (driver s' x) = Initialized (driver s x))"

lemma scanned_trans: "scanned s t \<Longrightarrow> scanned t u \<Longrightarrow> scanned s u"
  by (auto simp: scanned_def)

lemma scan_step:
  assumes inv: "disp_inv own os s" and l: "l \<in> set (mDiscoveredList s)" and n: "length (mDiscoveredList s) \<le> n" and E: "sections_ok E"
  obtains (kept) s' where "Dispatcher_scan E n l (s, b) = Some (s', b)" "disp_inv own os s'" "scanned s s'"
      "mScheduledQueue s' = mScheduledQueue s" "\<And>x. x \<noteq> l \<Longrightarrow> driver s' x = driver s x" "refused E s' l" "unsettled s' \<le> unsettled s"
    | (added) s' where "Dispatcher_scan E n l (s, b) = Some (s', True)" "disp_inv own os s'" "scanned s s'" "unsettled s' < unsettled s"
proof -
  let ?q = "l \<in> set (mScheduledQueue s)"
  have e: "entry_ok ?q (driver s l)" by (rule disp_inv_entry [OF inv l])
  have k: "stack_ok (os + own (World s)) (DepexStack s)" using inv by (simp add: disp_inv_def)
  obtain d1 where d1: "(if DepexProtocolError (driver s l)
       then map_option (\<lambda>(_, d). set_driver l d s) (SmmGetDepexSectionAndPreProccess (ReadDepexSection E (driver s l) (World s)) (driver s l))
       else Some s) = Some (set_driver l d1 s)" "entry_ok ?q d1" "FileName d1 = FileName (driver s l)"
    "Initialized d1 = Initialized (driver s l)" "Dependent d1 \<or> DepexProtocolError d1 \<Longrightarrow> Dependent (driver s l) \<or> DepexProtocolError (driver s l)"
  proof (cases "DepexProtocolError (driver s l)")
    case True
    show ?thesis by (rule read_depex [OF E e True, of "World s"]) (use True e in \<open>auto simp: entry_ok_def intro: that\<close>)
  next
    case False
    obtain d where "DriverAt s l = Some d" using inv l unfolding disp_inv_def by (metis domD)
    then have "set_driver l (driver s l) s = s" by (simp add: set_driver_def driver_def fun_upd_idem)
    then show ?thesis using False e by (intro that [of "driver s l"]) auto
  qed
  have count: "unsettled (set_driver l d s\<lparr>DepexStack := k\<rparr>) \<le> unsettled s"
    if "Dependent d \<or> DepexProtocolError d \<Longrightarrow> Dependent (driver s l) \<or> DepexProtocolError (driver s l)" for d k
    using that unfolding unsettled_def by (auto intro!: count_mono split: if_splits)
  have sc: "scanned s (set_driver l d s\<lparr>DepexStack := k\<rparr>)" if "Initialized d = Initialized (driver s l)" for d k
    using that by (simp add: scanned_def)
  show ?thesis
  proof (cases "Dependent d1")
    case False
    have eq: "set_driver l d1 s\<lparr>DepexStack := DepexStack s\<rparr> = set_driver l d1 s" by (simp add: set_driver_def)
    have "Dispatcher_scan E n l (s, b) = Some (set_driver l d1 s, b)"
      unfolding Dispatcher_scan_def prod.case d1(1) using False by simp
    moreover have "disp_inv own os (set_driver l d1 s)" using set_driver_inv [OF inv l d1(3,2) k] unfolding eq .
    moreover have "unsettled (set_driver l d1 s) \<le> unsettled s" using count [where d = d1 and k = "DepexStack s"] d1(5) unfolding eq by blast
    moreover have "scanned s (set_driver l d1 s)" using sc [where k = "DepexStack s", OF d1(4)] unfolding eq .
    ultimately show ?thesis using False by (intro kept [of "set_driver l d1 s"]) (simp_all add: refused_def)
  next
    case True
    obtain r d' k' where ev: "SmmIsSchedulable (SmmLocate E (World s)) (BsLocate E (World s)) d1 (DepexStack s) = Some (r, d', k')"
      "stack_ok (os + own (World s)) k'" "entry_ok ?q d'" "FileName d' = FileName d1" "Dependent d'" "\<not> Initialized d'"
      "r \<longrightarrow> \<not> Before d' \<and> \<not> After d'" 
      by (rule evaluate_entry [OF d1(2) True k, of "SmmLocate E (World s)" "BsLocate E (World s)"])
    let ?s = "set_driver l d' s\<lparr>DepexStack := k'\<rparr>"
    have s2: "set_driver l d' (set_driver l d1 s)\<lparr>DepexStack := k'\<rparr> = ?s" by (simp add: set_driver_def)
    have scan: "Dispatcher_scan E n l (s, b) = (if r then map_option (\<lambda>s3. (s3, True)) (insert_driver n l ?s) else Some (?s, b))"
      unfolding Dispatcher_scan_def prod.case d1(1) using True ev(1) s2 by simp
    have inv': "disp_inv own os ?s" using set_driver_inv [OF inv l _ ev(3,2)] ev(4) d1(3) by simp
    have was: "Dependent (driver s l) \<or> DepexProtocolError (driver s l)" using d1(5) True by simp
    have ini: "Initialized d' = Initialized (driver s l)" using ev(6) d1(2,4) True by (auto simp: entry_ok_def)
    show ?thesis
    proof (cases r)
      case False
      then show ?thesis using scan inv' sc [OF ini] count [where d = d' and k = k'] was ev(1)
        by (intro kept [of ?s]) (auto simp: refused_def)
    next
      case r: True
      have "ready ?s l" using l ev(5,7) r by (simp add: ready_def)
      from insert_ready [OF disp_inv_wf [OF inv'] this, of n] n obtain new where
        new: "insert_driver n l ?s = Some (put new ?s)" "distinct new" "l \<in> set new"
          "\<And>x. x \<in> set new \<Longrightarrow> x \<in> set (mDiscoveredList ?s) \<and> Dependent (driver ?s x)" by auto
      have inv2: "disp_inv own os (put new ?s)" by (rule put_inv [OF inv' new(2,4)])
      have dr: "driver (put new ?s) x = (if x \<in> set new then (driver ?s x)\<lparr>Dependent := False, Scheduled := True\<rparr> else driver ?s x)"
        if "x \<in> set (mDiscoveredList s)" for x using disp_inv_dom [OF inv', of x] that by (intro put_driver) simp
      have ne: "\<not> DepexProtocolError (driver ?s x)" if "x \<in> set new" for x
        using disp_inv_entry [OF inv', of x] new(4) [OF that] by (auto simp: entry_ok_def)
      have "unsettled (put new ?s) < unsettled s" unfolding unsettled_def put_lists
      proof (simp, rule count_less [where y = l])
        fix x assume "x \<in> set (mDiscoveredList s)" "Dependent (driver (put new ?s) x) \<or> DepexProtocolError (driver (put new ?s) x)"
        then show "Dependent (driver s x) \<or> DepexProtocolError (driver s x)" using dr ne was by (auto split: if_splits)
      qed (use l was dr [OF l] ne [OF new(3)] new(3) in auto)
      moreover have "scanned s (put new ?s)" using sc [where k = k', OF ini] dr by (simp add: scanned_def)
      ultimately show ?thesis using scan r new(1) inv2 by (intro added [of "put new ?s"]) auto
    qed
  qed
qed

lemma scan_all:
  assumes n: "length (mDiscoveredList s) \<le> n" and E: "sections_ok E"
  shows "disp_inv own os s \<Longrightarrow> set ls \<subseteq> set (mDiscoveredList s) \<Longrightarrow> distinct ls \<Longrightarrow>
    \<exists>s' b'. for_each (Dispatcher_scan E n) ls (s, b) = Some (s', b') \<and> disp_inv own os s' \<and> scanned s s' \<and> unsettled s' \<le> unsettled s \<and>
      (b \<longrightarrow> b') \<and> (b' \<and> \<not> b \<longrightarrow> unsettled s' < unsettled s) \<and>
      (\<not> b' \<longrightarrow> mScheduledQueue s' = mScheduledQueue s \<and> (\<forall>x. x \<notin> set ls \<longrightarrow> driver s' x = driver s x) \<and> (\<forall>x \<in> set ls. refused E s' x))"
  using n
proof (induction ls arbitrary: s b)
  case Nil
  then show ?case by (simp add: scanned_def)
next
  case (Cons l ls)
  have l: "l \<in> set (mDiscoveredList s)" using Cons.prems by simp
  show ?case
  proof (rule scan_step [OF Cons.prems(1) l Cons.prems(4) E, of b])
    fix t
    assume t: "Dispatcher_scan E n l (s, b) = Some (t, b)" "disp_inv own os t" "scanned s t"
      "mScheduledQueue t = mScheduledQueue s" "\<And>x. x \<noteq> l \<Longrightarrow> driver t x = driver s x" "refused E t l" "unsettled t \<le> unsettled s"
    have disc: "mDiscoveredList t = mDiscoveredList s" using t(3) by (simp add: scanned_def)
    obtain s' b' where s': "for_each (Dispatcher_scan E n) ls (t, b) = Some (s', b')" "disp_inv own os s'" "scanned t s'" "unsettled s' \<le> unsettled t"
      "b \<longrightarrow> b'" "b' \<and> \<not> b \<longrightarrow> unsettled s' < unsettled t"
      "\<not> b' \<longrightarrow> mScheduledQueue s' = mScheduledQueue t \<and> (\<forall>x. x \<notin> set ls \<longrightarrow> driver s' x = driver t x) \<and> (\<forall>x \<in> set ls. refused E s' x)"
      using Cons.IH [OF t(2), of b] Cons.prems disc by auto
    have "refused E s' l" if "\<not> b'"
      using s'(3,7) that t(6) Cons.prems(3) by (simp add: refused_def scanned_def)
    then show ?thesis using t s' scanned_trans [OF t(3) s'(3)] by auto
  next
    fix t
    assume t: "Dispatcher_scan E n l (s, b) = Some (t, True)" "disp_inv own os t" "scanned s t" "unsettled t < unsettled s"
    have disc: "mDiscoveredList t = mDiscoveredList s" using t(3) by (simp add: scanned_def)
    obtain s' where s': "for_each (Dispatcher_scan E n) ls (t, True) = Some (s', True)" "disp_inv own os s'" "scanned t s'"
      "unsettled s' \<le> unsettled t"
      using Cons.IH [OF t(2), of True] Cons.prems disc by auto
    then show ?thesis using t scanned_trans [OF t(3) s'(3)] by auto
  qed
qed

text \<open>The drivers started between two states.\<close>

definition started :: "'w dispatcher \<Rightarrow> 'w dispatcher \<Rightarrow> bool" where
  "started s s' \<longleftrightarrow> mDiscoveredList s' = mDiscoveredList s \<and>
     (\<forall>x \<in> set (mDiscoveredList s). Initialized (driver s x) \<longrightarrow> Initialized (driver s' x)) \<and>
     (\<exists>new. Calls s' = Calls s @ new \<and> distinct new \<and>
        (\<forall>x \<in> set new. x \<in> set (mDiscoveredList s) \<and> \<not> Initialized (driver s x) \<and> Initialized (driver s' x)))"

lemma started_refl: "started s s"
  by (simp add: started_def)

lemma started_trans:
  assumes "started s t" "started t u" shows "started s u"
proof -
  obtain new where new: "Calls t = Calls s @ new" "distinct new"
    "\<forall>x \<in> set new. x \<in> set (mDiscoveredList s) \<and> \<not> Initialized (driver s x) \<and> Initialized (driver t x)"
    using assms(1) by (auto simp: started_def)
  obtain new' where new': "Calls u = Calls t @ new'" "distinct new'"
    "\<forall>x \<in> set new'. x \<in> set (mDiscoveredList t) \<and> \<not> Initialized (driver t x) \<and> Initialized (driver u x)"
    using assms(2) by (auto simp: started_def)
  have d: "mDiscoveredList t = mDiscoveredList s" "mDiscoveredList u = mDiscoveredList s"
    and m: "\<And>x. x \<in> set (mDiscoveredList s) \<Longrightarrow> Initialized (driver s x) \<Longrightarrow> Initialized (driver t x)"
      "\<And>x. x \<in> set (mDiscoveredList s) \<Longrightarrow> Initialized (driver t x) \<Longrightarrow> Initialized (driver u x)"
    using assms by (auto simp: started_def)
  have "distinct (new @ new')" using new(2,3) new'(2,3) by auto
  then show ?thesis unfolding started_def using new new' d m by (intro conjI exI [of _ "new @ new'"]) auto
qed

lemma scanned_started: "scanned s t \<Longrightarrow> started s t"
  by (auto simp: scanned_def started_def)

lemma head_step:
  assumes inv: "disp_inv own os s" and E: "images_ok own E" and q: "mScheduledQueue s = e # es" and h: "Dispatcher_head E s = (stop, s')"
  shows "disp_inv own os s'" "mScheduledQueue s' = es" "started s s'" "unsettled s' = unsettled s"
    "stop \<Longrightarrow> SmmEntryPointRegistered E (World s')"
proof -
  let ?d = "driver s e"
  have e: "e \<in> set (mDiscoveredList s)" "e \<notin> set es" "set es \<subseteq> set (mDiscoveredList s)" using inv q by (auto simp: disp_inv_def)
  have ok: "entry_ok True ?d" using disp_inv_entry [OF inv e(1)] q by simp
  have stk: "stack_ok (os + own (World s)) (DepexStack s)" using inv by (simp add: disp_inv_def)
  have pool: "stack_ok (os + own w') (k\<lparr>StackPool := p'\<rparr>)"
    if "stack_ok (os + own w) k" "\<And>core. pool_ok (StackPool k) (core + own w) \<Longrightarrow> pool_ok p' (core + own w')" for k w w' p'
    using that(1) that(2) [of os] that(2) [of "add_mset (mDepexEvaluationStack k) os"] by (auto simp: stack_ok_def)
  obtain st d1 k1 w1 where load: "(if ImageHandle ?d = 0 then
      case LoadImage E ?d (StackPool (DepexStack s)) (World s) of (Status, (handle, entry, buffer, pages), p, w) \<Rightarrow>
        (Status, ?d\<lparr>ImageHandle := handle, ImageEntryPoint := entry, ImageBuffer := buffer, NumberOfPage := pages\<rparr>,
         s\<lparr>DepexStack := DepexStack s\<lparr>StackPool := p\<rparr>, World := w\<rparr>)
      else (EFI_SUCCESS, ?d, s)) = (st, d1, s\<lparr>DepexStack := k1, World := w1\<rparr>)"
    "FileName d1 = FileName ?d" "entry_ok True d1" "Dependent d1 = Dependent ?d" "DepexProtocolError d1 = DepexProtocolError ?d"
    "stack_ok (os + own w1) k1"
  proof (cases "ImageHandle ?d = 0")
    case True
    obtain st a b c f p w where l: "LoadImage E ?d (StackPool (DepexStack s)) (World s) = (st, (a, b, c, f), p, w)"
      by (cases "LoadImage E ?d (StackPool (DepexStack s)) (World s)") auto
    have "stack_ok (os + own w) (DepexStack s\<lparr>StackPool := p\<rparr>)"
      by (rule pool [OF stk]) (use E l in \<open>unfold images_ok_def, blast\<close>)
    then show ?thesis using True l ok
      by (intro that [of st "?d\<lparr>ImageHandle := a, ImageEntryPoint := b, ImageBuffer := c, NumberOfPage := f\<rparr>"
          w "DepexStack s\<lparr>StackPool := p\<rparr>"]) (simp_all add: entry_ok_def)
  next
    case False
    then show ?thesis using ok stk by (intro that [of EFI_SUCCESS ?d "World s" "DepexStack s"]) simp_all
  qed
  let ?s2 = "set_driver e (d1\<lparr>Initialized := True, Scheduled := False\<rparr>) (s\<lparr>DepexStack := k1, World := w1\<rparr>)\<lparr>mScheduledQueue := es\<rparr>"
  have dr: "driver ?s2 x = (if x = e then d1\<lparr>Initialized := True, Scheduled := False\<rparr> else driver s x)" for x by simp
  have result: "\<exists>k w c. s' = ?s2\<lparr>DepexStack := k, World := w, Calls := Calls s @ c\<rparr> \<and> stack_ok (os + own w) k \<and> (c = [] \<or> c = [e]) \<and>
      (stop \<longrightarrow> SmmEntryPointRegistered E w)"
  proof (cases "EFI_ERROR st")
    case True
    then have "Dispatcher_head E s = (False, ?s2)" unfolding Dispatcher_head_def Let_def q list.sel load(1) prod.case by (simp add: q)
    then show ?thesis using h load(6) by (intro exI [of _ k1] exI [of _ w1] exI [of _ "[]"]) (auto simp: set_driver_def)
  next
    case False
    let ?d2 = "d1\<lparr>Initialized := True, Scheduled := False\<rparr>"
    obtain st2 p w where st: "StartImage E ?d2 (StackPool k1) w1 = (st2, p, w)" by (cases "StartImage E ?d2 (StackPool k1) w1") auto
    let ?p = "if EFI_ERROR st2 then p\<lparr>mSmmMemoryMap := snd (SmmFreePages (ImageBuffer ?d2) (NumberOfPage ?d2) (mSmmMemoryMap p))\<rparr> else p"
    have "Dispatcher_head E s = (\<not> SmmEntryPointRegistered E w1 \<and> SmmEntryPointRegistered E w,
        ?s2\<lparr>DepexStack := k1\<lparr>StackPool := ?p\<rparr>, World := w, Calls := Calls s @ [e]\<rparr>)"
      using False st unfolding Dispatcher_head_def Let_def q list.sel load(1) prod.case by (simp add: q)
    moreover have "stack_ok (os + own w) (k1\<lparr>StackPool := ?p\<rparr>)"
      by (rule pool [OF load(6)]) (use E st in \<open>unfold images_ok_def, blast\<close>)
    ultimately show ?thesis using h by (intro exI [of _ "k1\<lparr>StackPool := ?p\<rparr>"] exI [of _ w] exI [of _ "[e]"]) auto
  qed
  then obtain k w c where s': "s' = ?s2\<lparr>DepexStack := k, World := w, Calls := Calls s @ c\<rparr>" "stack_ok (os + own w) k" "c = [] \<or> c = [e]"
    "stop \<longrightarrow> SmmEntryPointRegistered E w" by blast
  have dr': "driver s' x = (if x = e then d1\<lparr>Initialized := True, Scheduled := False\<rparr> else driver s x)" for x unfolding s'(1) by simp
  have lists: "mDiscoveredList s' = mDiscoveredList s" "mScheduledQueue s' = es" "World s' = w" "DepexStack s' = k" "Calls s' = Calls s @ c"
    unfolding s'(1) by simp_all
  show "mScheduledQueue s' = es" "stop \<Longrightarrow> SmmEntryPointRegistered E (World s')" using lists s'(4) by simp_all
  show "started s s'" unfolding started_def lists using s'(3) e(1) ok by (intro conjI exI [of _ c]) (auto simp: dr' entry_ok_def)
  show "unsettled s' = unsettled s" unfolding unsettled_def lists dr' using load(4,5) by (intro arg_cong [of _ _ length] filter_cong) auto
  have "dom (DriverAt s') = set (mDiscoveredList s)" using inv e(1) unfolding s'(1) by (auto simp: disp_inv_def)
  moreover have "(\<lambda>x. FileName (driver s' x)) = (\<lambda>x. FileName (driver s x))" using load(2) by (auto simp: dr')
  moreover have "entry_ok (x \<in> set es) (driver s' x)" if "x \<in> set (mDiscoveredList s)" for x
    using disp_inv_entry [OF inv that] load(3) e(2) q unfolding dr' by (auto simp: entry_ok_def)
  ultimately show "disp_inv own os s'" using inv s'(2) e(3) q unfolding disp_inv_def lists by (simp del: dom_def)
qed

lemma drain_all:
  "images_ok own E \<Longrightarrow> disp_inv own os s \<Longrightarrow> Dispatcher_drain E s = (stop, s') \<Longrightarrow>
    disp_inv own os s' \<and> started s s' \<and> unsettled s' = unsettled s \<and>
    (if stop then SmmEntryPointRegistered E (World s') else mScheduledQueue s' = [])"
proof (induction E s rule: Dispatcher_drain.induct)
  case (1 E s)
  show ?case
  proof (cases "mScheduledQueue s")
    case Nil
    then show ?thesis using 1(3,4) started_refl by (auto simp: Dispatcher_drain.simps [of E s])
  next
    case (Cons e es)
    obtain b t where h: "Dispatcher_head E s = (b, t)" by (cases "Dispatcher_head E s") auto
    note hs = head_step [OF 1(3,2) Cons h]
    have run: "Dispatcher_drain E s = (if b then (True, t) else Dispatcher_drain E t)"
      using Cons h by (simp add: Dispatcher_drain.simps [of E s])
    show ?thesis
    proof (cases b)
      case True
      then show ?thesis using run 1(4) hs by auto
    next
      case False
      have "mScheduledQueue s \<noteq> []" using Cons by simp
      from 1(1) [OF this h [symmetric] False 1(2) hs(1)] show ?thesis
        using run False 1(4) started_trans [OF hs(3)] hs(4) by auto
    qed
  qed
qed

definition settled :: "'w environment \<Rightarrow> EFI_STATUS \<Rightarrow> 'w dispatcher \<Rightarrow> bool" where
  "settled E st s \<longleftrightarrow> \<not> gDispatcherRunning s \<and>
     (st = EFI_NOT_READY \<and> SmmEntryPointRegistered E (World s) \<and> gRequestDispatch s \<or>
      st = EFI_SUCCESS \<and> mScheduledQueue s = [] \<and> (\<forall>l \<in> set (mDiscoveredList s). refused E s l) \<and>
        (gRequestDispatch s \<longleftrightarrow> (\<exists>l \<in> set (mDiscoveredList s). \<not> Initialized (driver s l))))"

lemma unsettled_le: "unsettled s \<le> length (mDiscoveredList s)"
  unfolding unsettled_def by (rule length_filter_le)

lemma disp_inv_flags: "disp_inv own os s \<Longrightarrow> disp_inv own os (s\<lparr>gRequestDispatch := b, gDispatcherRunning := c\<rparr>)"
  by (simp add: disp_inv_def)

lemma rounds:
  assumes E: "sections_ok E" "images_ok own E"
  shows "disp_inv own os s \<Longrightarrow> length (mDiscoveredList s) \<le> n \<Longrightarrow> unsettled s < k \<Longrightarrow>
    \<exists>st s'. Dispatcher_rounds E n k s = Some (st, s') \<and> disp_inv own os s' \<and> started s s' \<and> settled E st s'"
proof (induction k arbitrary: s)
  case (Suc k)
  obtain stop t where d: "Dispatcher_drain E s = (stop, t)" by (cases "Dispatcher_drain E s") auto
  have t: "disp_inv own os t" "started s t" "unsettled t = unsettled s" "if stop then SmmEntryPointRegistered E (World t) else mScheduledQueue t = []"
    using drain_all [OF E(2) Suc.prems(1) d] by auto
  have disc: "mDiscoveredList t = mDiscoveredList s" using t(2) by (simp add: started_def)
  show ?case
  proof (cases stop)
    case True
    then show ?thesis using d t disp_inv_flags [OF t(1)] by (auto simp: settled_def started_def)
  next
    case False
    have "set (mDiscoveredList t) \<subseteq> set (mDiscoveredList t)" "distinct (mDiscoveredList t)" using t(1) by (auto simp: disp_inv_def)
    from scan_all [OF _ E(1) t(1) this, of n False] Suc.prems(2) disc obtain u b where
      u: "for_each (Dispatcher_scan E n) (mDiscoveredList t) (t, False) = Some (u, b)" "disp_inv own os u" "scanned t u"
        "b \<longrightarrow> unsettled u < unsettled t"
        "\<not> b \<longrightarrow> mScheduledQueue u = mScheduledQueue t \<and> (\<forall>x \<in> set (mDiscoveredList t). refused E u x)" by auto
    have su: "started s u" by (rule started_trans [OF t(2) scanned_started [OF u(3)]])
    have disc': "mDiscoveredList u = mDiscoveredList s" using su by (simp add: started_def)
    show ?thesis
    proof (cases b)
      case True
      have "unsettled u < k" using u(4) True t(3) Suc.prems(3) by simp
      from Suc.IH [OF u(2) _ this] Suc.prems(2) disc' obtain st s' where
        s': "Dispatcher_rounds E n k u = Some (st, s')" "disp_inv own os s'" "started u s'" "settled E st s'" by auto
      then show ?thesis using d False u(1) True started_trans [OF su] by auto
    next
      case nb: False
      let ?s = "u\<lparr>gRequestDispatch := list_ex (\<lambda>l. \<not> Initialized (driver u l)) (mDiscoveredList u), gDispatcherRunning := False\<rparr>"
      have "settled E EFI_SUCCESS ?s" using u(5) nb t(4) False disc disc'
        by (auto simp: settled_def refused_def list_ex_iff)
      moreover have "started s ?s" using su by (simp add: started_def)
      ultimately show ?thesis using d False u(1) nb disp_inv_flags [OF u(2)] by auto
    qed
  qed
qed simp



section \<open>Discovery\<close>

lemma new_entry_ok:
  assumes "sections_ok E"
  obtains st d where "SmmGetDepexSectionAndPreProccess (ReadDepexSection E e w) e = Some (st, d)"
      "e = zeroed_entry\<lparr>FileName := g, FvHandle := fv\<rparr> \<Longrightarrow> entry_ok False d \<and> FileName d = g \<and> FvHandle d = fv \<and>
        \<not> Scheduled d \<and> \<not> Initialized d \<and> (Dependent d \<longleftrightarrow> \<not> DepexProtocolError d)"
proof -
  obtain st bs len where rd: "ReadDepexSection E e w = (st, bs, len)" by (cases "ReadDepexSection E e w") auto
  show ?thesis
  proof (cases "EFI_ERROR st")
    case True
    then show ?thesis using rd
      by (intro that [of st "if st = EFI_PROTOCOL_ERROR then e\<lparr>DepexProtocolError := True\<rparr>
          else e\<lparr>Depex := None, Dependent := True, DepexProtocolError := False\<rparr>"])
        (auto simp: SmmGetDepexSectionAndPreProccess_def entry_ok_def zeroed_entry_def)
  next
    case False
    then have ne: "st \<noteq> EFI_PROTOCOL_ERROR" by auto
    have len: "0 < unat len" "unat len + 16 \<le> length bs" "length bs < 2 ^ 60"
      using assms(1) rd False unfolding sections_ok_def by blast+
    then obtain op rest where bs: "bs = op # rest" by (cases bs) auto
    then obtain i where i: "depex_guid (op # rest) 0 = Some i" using len by (auto simp: depex_guid_def)
    let ?d = "e\<lparr>Depex := Some bs, DepexSize := len, Dependent := True\<rparr>"
    let ?d2 = "if op = EFI_DEP_BEFORE then ?d\<lparr>Before := True\<rparr> else if op = EFI_DEP_AFTER then ?d\<lparr>After := True\<rparr> else ?d"
    show ?thesis
      by (rule that [of st "(if Before ?d2 \<or> After ?d2 then ?d2\<lparr>BeforeAfterGuid := i\<rparr> else ?d2)\<lparr>DepexProtocolError := False\<rparr>"])
        (use rd False len i bs ne in \<open>auto simp: SmmGetDepexSectionAndPreProccess_def SmmPreProcessDepex_def entry_ok_def Let_def dep_ops zeroed_entry_def\<close>)
  qed
qed

text \<open>Discovering a driver.  A file whose name no discovered driver has is appended to the list with a
request to dispatch, unless memory for its entry has run out, which the code does not survive; the
dispatcher stays in order, no other driver is touched, and the new driver is dependent unless its
dependency section could not be read yet.\<close>

theorem AddToDriverList_inv:
  assumes inv: "disp_inv own os s" and E: "sections_ok E" and name: "\<forall>x \<in> set (mDiscoveredList s). FileName (driver s x) \<noteq> g"
  shows "SmmAddToDriverList E fv g s = None \<and> (\<exists>p. AllocateZeroPool sizeof_EFI_SMM_DRIVER_ENTRY (core_pool s) = Some (0, p)) \<or>
    (\<exists>a s'. SmmAddToDriverList E fv g s = Some (EFI_SUCCESS, s') \<and> disp_inv own (add_mset a os) s' \<and>
      a \<notin> set (mDiscoveredList s) \<and> mDiscoveredList s' = mDiscoveredList s @ [a] \<and> mScheduledQueue s' = mScheduledQueue s \<and>
      gRequestDispatch s' \<and> FileName (driver s' a) = g \<and> FvHandle (driver s' a) = fv \<and>
      Dependent (driver s' a) = (\<not> DepexProtocolError (driver s' a)) \<and> (\<forall>x \<in> set (mDiscoveredList s). driver s' x = driver s x))"
proof -
  let ?k = "DepexStack s" and ?d = "zeroed_entry\<lparr>FileName := g, FvHandle := fv\<rparr>"
  let ?M = "if mDepexEvaluationStack ?k = 0 then os + own (World s) else add_mset (mDepexEvaluationStack ?k) (os + own (World s))"
  have k: "stack_ok (os + own (World s)) ?k" and sub: "set (mDiscoveredList s) \<subseteq> set_mset os" using inv by (auto simp: disp_inv_def)
  have pool: "pool_ok (core_pool s) ?M" using k unfolding stack_ok_def by blast
  have sz: "unat sizeof_EFI_SMM_DRIVER_ENTRY < 18446744073709551600" by (simp add: sizeof_EFI_SMM_DRIVER_ENTRY_def)
  obtain st d where d: "SmmGetDepexSectionAndPreProccess (ReadDepexSection E ?d (World s)) ?d = Some (st, d)"
    "entry_ok False d" "FileName d = g" "FvHandle d = fv" "Dependent d \<longleftrightarrow> \<not> DepexProtocolError d"
    by (rule new_entry_ok [OF E, where e = ?d and w = "World s" and g = g and fv = fv]) auto
  obtain a p where al: "AllocateZeroPool sizeof_EFI_SMM_DRIVER_ENTRY (core_pool s) = Some (a, p)"
    using smm_objects.alloc_total [OF pool sz] by (auto simp: AllocateZeroPool_eq)
  show ?thesis
  proof (cases "a = 0")
    case True
    then show ?thesis using al by (simp add: SmmAddToDriverList_def)
  next
    case False
    have pool': "pool_ok p (add_mset a ?M)" and "a \<notin># ?M"
      using smm_objects.fresh [OF pool sz _ False] al by (auto simp: AllocateZeroPool_eq)
    then have an: "a \<notin> set (mDiscoveredList s)" using sub by (auto split: if_splits)
    let ?s = "set_driver a d (set_pool p s)\<lparr>mDiscoveredList := mDiscoveredList s @ [a], gRequestDispatch := True\<rparr>"
    have run: "SmmAddToDriverList E fv g s = Some (EFI_SUCCESS, ?s)" using al False d(1) by (simp add: SmmAddToDriverList_def Let_def)
    have dr: "driver ?s x = (if x = a then d else driver s x)" for x by (simp add: driver_def set_driver_def set_pool_def)
    have lists: "mDiscoveredList ?s = mDiscoveredList s @ [a]" "mScheduledQueue ?s = mScheduledQueue s" "World ?s = World s"
      "DepexStack ?s = ?k\<lparr>StackPool := p\<rparr>" "dom (DriverAt ?s) = insert a (dom (DriverAt s))"
      by (auto simp: set_driver_def set_pool_def)
    have "stack_ok (add_mset a os + own (World s)) (?k\<lparr>StackPool := p\<rparr>)"
      using k pool' by (auto simp: stack_ok_def add_mset_commute split: if_splits)
    moreover have "inj_on (\<lambda>x. FileName (driver ?s x)) (set (mDiscoveredList s @ [a]))"
    proof -
      have "inj_on (\<lambda>x. FileName (driver s x)) (set (mDiscoveredList s))" using inv unfolding disp_inv_def by argo
      then show ?thesis unfolding dr using an name d(3) by (auto simp: inj_on_def)
    qed
    moreover have "entry_ok (x \<in> set (mScheduledQueue s)) (driver ?s x)" if "x \<in> set (mDiscoveredList s @ [a])" for x
    proof (cases "x = a")
      case True
      have "a \<notin> set (mScheduledQueue s)" using an inv by (auto simp: disp_inv_def)
      then show ?thesis using True d(2) unfolding dr by simp
    next
      case False
      then show ?thesis using that disp_inv_entry [OF inv, of x] unfolding dr by simp
    qed
    moreover have "distinct (mDiscoveredList s @ [a])" "distinct (mScheduledQueue s)" "set (mScheduledQueue s) \<subseteq> set (mDiscoveredList s @ [a])"
      "insert a (dom (DriverAt s)) = set (mDiscoveredList s @ [a])" "set (mDiscoveredList s @ [a]) \<subseteq> set_mset (add_mset a os)"
      using inv an by (auto simp: disp_inv_def)
    ultimately have "disp_inv own (add_mset a os) ?s" unfolding disp_inv_def lists by blast
    moreover have "gRequestDispatch ?s" by simp
    ultimately show ?thesis using run an lists(1,2) d(3-5) dr by (intro disjI2 exI [of _ a] exI [of _ ?s]) auto
  qed
qed

section \<open>A driver that is called twice\<close>

text \<open>Code outside in which every file loads and starts and every dependency section is TRUE.\<close>

definition plain_env :: "unit environment" where
  "plain_env = \<lparr>SmmLocate = (\<lambda>_ _. EFI_NOT_FOUND), BsLocate = (\<lambda>_ _. EFI_NOT_FOUND),
     ReadDepexSection = (\<lambda>_ _. (EFI_SUCCESS, EFI_DEP_TRUE # EFI_DEP_END # replicate 16 0, 2)),
     LoadImage = (\<lambda>_ p w. (EFI_SUCCESS, (0x9000, 0x9100, 0x20000, 1), p, w)), StartImage = (\<lambda>_ p w. (EFI_SUCCESS, p, w)),
     SmmEntryPointRegistered = (\<lambda>_. False), FvHandles = (\<lambda>_. None), FvProtocol = (\<lambda>_ _. False), FvDevicePath = (\<lambda>_ _. False),
     FvFiles = (\<lambda>_ _ _. []), FvApriori = (\<lambda>_ _. [])\<rparr>"

definition apriori_state :: "unit dispatcher" where
  "apriori_state = \<lparr>mDiscoveredList = [0x1000], mScheduledQueue = [], mFvHandleList = [0x80], gDispatcherRunning = False,
     gRequestDispatch = True, DriverAt = [0x1000 \<mapsto> zeroed_entry\<lparr>FileName := 7, FvHandle := 0x80, DepexProtocolError := True\<rparr>],
     DepexStack = sample_stack, World = (), Calls = []\<rparr>"

text \<open>A driver on the a-priori list whose dependency section could not be read when it was discovered is
called twice: the a-priori list schedules it without clearing the mark of the failed read, the dispatcher
calls it, then reads the section again, makes the initialized driver dependent and schedules it once more.\<close>

theorem Apriori_driver_called_twice:
  "\<exists>s1 s2. Apriori_schedule 0x80 7 apriori_state = Some s1 \<and> SmmDispatcher plain_env 1 3 s1 = Some (EFI_SUCCESS, s2) \<and>
    Calls s2 = [0x1000, 0x1000]"
  by (simp add: Apriori_schedule_def apriori_state_def driver_def schedule_def set_driver_def zeroed_entry_def SmmDispatcher_def
      numeral_3_eq_3 Dispatcher_drain.simps Dispatcher_head_def plain_env_def Dispatcher_scan_def SmmGetDepexSectionAndPreProccess_def
      SmmPreProcessDepex_def SmmIsSchedulable_def SmmDepex_loop.simps dep_ops depex_push_def PushBool_def PopBool_def sample_stack_def Let_def)

section \<open>Witnesses\<close>

text \<open>Three drivers: the second is to run before the first, the third after it.\<close>

definition three_drivers :: "unit dispatcher" where
  "three_drivers = \<lparr>mDiscoveredList = [0x10010, 0x11010, 0x12010], mScheduledQueue = [], mFvHandleList = [0x80],
     gDispatcherRunning = False, gRequestDispatch = True,
     DriverAt = [0x10010 \<mapsto> zeroed_entry\<lparr>FileName := 1, Depex := Some (EFI_DEP_TRUE # EFI_DEP_END # replicate 16 0), DepexSize := 2,
          Dependent := True\<rparr>,
        0x11010 \<mapsto> zeroed_entry\<lparr>FileName := 2, Before := True, BeforeAfterGuid := 1, Dependent := True\<rparr>,
        0x12010 \<mapsto> zeroed_entry\<lparr>FileName := 3, After := True, BeforeAfterGuid := 1, Dependent := True\<rparr>],
     DepexStack = \<lparr>mDepexEvaluationStack = 0, StackCells = [], mDepexEvaluationStackPointer = 0, StackPool = DbPool sample_db\<rparr>,
     World = (), Calls = []\<rparr>"

lemma three_drivers_inv: "disp_inv (\<lambda>_. {#}) {#0x10010, 0x11010, 0x12010, 0x13010#} three_drivers"
  using sample_db_pool by (auto simp: disp_inv_def three_drivers_def driver_def zeroed_entry_def entry_ok_def stack_ok_def inj_on_def)

lemma plain_env_ok: "sections_ok plain_env" "images_ok (\<lambda>_. {#}) plain_env"
  by (simp_all add: sections_ok_def images_ok_def plain_env_def)

theorem InsertOnScheduledQueue_order_witness:
  "\<exists>new. SmmInsertOnScheduledQueueWhileProcessingBeforeAndAfter 3 0x10010 three_drivers = Some (put new three_drivers) \<and>
    precedes 0x11010 0x10010 new \<and> precedes 0x10010 0x12010 new"
proof -
  have r: "ready three_drivers 0x10010" by (simp add: ready_def three_drivers_def driver_def zeroed_entry_def)
  have n: "length (mDiscoveredList three_drivers) \<le> 3" by (simp add: three_drivers_def)
  obtain new where new: "SmmInsertOnScheduledQueueWhileProcessingBeforeAndAfter 3 0x10010 three_drivers = Some (put new three_drivers)"
    "set new = {z. below three_drivers 0x10010 z}"
    "\<forall>u v. v \<in> set new \<longrightarrow> waits three_drivers v u \<longrightarrow>
      (if Before (driver three_drivers u) then precedes u v new else precedes v u new)"
    using InsertOnScheduledQueue_order [OF disp_inv_wf [OF three_drivers_inv] r n] by blast
  have "waits three_drivers 0x10010 0x11010" "waits three_drivers 0x10010 0x12010"
    "Before (driver three_drivers 0x11010)" "\<not> Before (driver three_drivers 0x12010)"
    by (simp_all add: waits_def three_drivers_def driver_def zeroed_entry_def)
  moreover have "0x10010 \<in> set new" using new(2) by simp
  ultimately show ?thesis using new(1,3) by metis
qed



theorem AddToDriverList_inv_witness:
  "SmmAddToDriverList plain_env 0x80 4 three_drivers = None \<or>
    (\<exists>a s'. SmmAddToDriverList plain_env 0x80 4 three_drivers = Some (EFI_SUCCESS, s') \<and>
      mDiscoveredList s' = [0x10010, 0x11010, 0x12010, a] \<and> FileName (driver s' a) = 4)"
proof -
  have "\<forall>x \<in> set (mDiscoveredList three_drivers). FileName (driver three_drivers x) \<noteq> 4"
    by (simp add: three_drivers_def driver_def zeroed_entry_def)
  from AddToDriverList_inv [OF three_drivers_inv plain_env_ok(1) this, of "0x80"] show ?thesis
    by (auto simp: three_drivers_def)
qed

end
