(* ===== verification/SmmComm.thy ===== *)
theory SmmComm
  imports Smi SmmMem
begin

text \<open>
  The way into SMM: the entry point of the SMM core, \<^verbatim>\<open>MdeModulePkg/Core/PiSmmCore/PiSmmCore.c\<close>, and the SMM base and SMM
  communication protocols of its loader, \<^verbatim>\<open>MdeModulePkg/Core/PiSmmCore/PiSmmIpl.c\<close>.

  The loader outside SMM and the core inside share the private data \<^verbatim>\<open>gSmmCorePrivate\<close>, a record here.  Handlers are called
  through the parameter \<open>CallHandler\<close>; they change the world but neither the handler lists nor the private data.  The
  platform hooks around the dispatch are those of \<^verbatim>\<open>SmmCorePlatformHookLibNull\<close>, which do nothing.  The trigger of a software
  SMI is a parameter; the theorem that needs it assumes that it runs the entry point.

  The theorems show which buffers reach a handler and what the caller of the communication protocol gets back.
\<close>

section \<open>Data\<close>

record SMM_CORE_PRIVATE_DATA =
  SmmEntryPointRegistered :: bool
  InSmm :: bool
  Smst :: UINTN
  CommunicationBuffer :: UINTN
  BufferSize :: UINTN
  CoreReturnStatus :: EFI_STATUS

definition sizeof_SMM_CORE_PRIVATE_DATA :: UINTN where "sizeof_SMM_CORE_PRIVATE_DATA = 104"

text \<open>The offset of the data in a communication buffer, behind the GUID and the length of the message.\<close>

definition SMM_COMMUNICATE_HEADER_SIZE :: UINTN where "SMM_COMMUNICATE_HEADER_SIZE = 24"

record EFI_SMM_ENTRY_CONTEXT =
  SmmStartupThisAp :: UINTN
  CurrentlyExecutingCpu :: UINTN
  NumberOfCpus :: UINTN
  CpuSaveStateSize :: UINTN
  CpuSaveState :: UINTN

text \<open>
  What the core works with: how a handler is called (dispatch handle, communication buffer with its size if there is one;
  it returns its status, the new size and the new world), the memory of the world, the ranges of SMRAM, and the address of
  the private data that is shared with the loader.
\<close>

record ('h, 'w) smm_env =
  CallHandler :: "'h \<Rightarrow> UINTN \<Rightarrow> (UINTN \<times> UINTN) option \<Rightarrow> 'w \<Rightarrow> EFI_STATUS \<times> UINTN \<times> 'w"
  MemoryIn :: "'w \<Rightarrow> memory"
  CoreMemLib :: smm_mem_lib
  CoreAddress :: UINTN

record ('h, 'w) smm_machine =
  Core :: SMM_CORE_PRIVATE_DATA
  mInLegacyBoot :: bool
  SmstContext :: EFI_SMM_ENTRY_CONTEXT
  SmiLists :: "'h smi_state"
  World :: 'w

definition guid_value :: "UINT8 list \<Rightarrow> EFI_GUID" where
  "guid_value b = foldr (\<lambda>x g. push_bit 8 g OR ucast x) b 0"

definition HeaderGuid_at :: "memory \<Rightarrow> UINTN \<Rightarrow> EFI_GUID" where
  "HeaderGuid_at m a = guid_value (mem_bytes a 16 m)"

section \<open>The entry point\<close>

definition InternalIsBufferOverlapped :: "UINTN \<Rightarrow> UINTN \<Rightarrow> UINTN \<Rightarrow> UINTN \<Rightarrow> bool" where
  "InternalIsBufferOverlapped Buff1 Size1 Buff2 Size2 = (if Buff1 + Size1 \<le> Buff2 \<or> Buff1 \<ge> Buff2 + Size2 then False else True)"

text \<open>SmiManage with a buffer, and for the asynchronous sources.\<close>

definition SmiManage_sync :: "('h, 'w) smm_env \<Rightarrow> EFI_GUID \<Rightarrow> UINTN \<Rightarrow> UINTN \<Rightarrow> 'h smi_state \<Rightarrow> 'w \<Rightarrow> EFI_STATUS \<times> UINTN \<times> 'w" where
  "SmiManage_sync E g CommData n S w = SmiManage (\<lambda>h a (k, w). CallHandler E h a (Some (CommData, k)) w) (Some g) S (n, w)"

definition SmiManage_async :: "('h, 'w) smm_env \<Rightarrow> 'h smi_state \<Rightarrow> 'w \<Rightarrow> EFI_STATUS \<times> 'w" where
  "SmiManage_async E S w = SmiManage (\<lambda>h a w. let (st, _, w') = CallHandler E h a None w in (st, w')) None S w"

definition SmmEntryPoint :: "('h, 'w) smm_env \<Rightarrow> EFI_SMM_ENTRY_CONTEXT \<Rightarrow> ('h, 'w) smm_machine \<Rightarrow> ('h, 'w) smm_machine" where
  "SmmEntryPoint E SmmEntryContext M0 =
    (let M = M0\<lparr>SmstContext := SmmEntryContext\<rparr>; InLegacyBoot = mInLegacyBoot M;
         M1 =
          (if InLegacyBoot then M
           else let P = (Core M)\<lparr>InSmm := True\<rparr>; Buf = CommunicationBuffer P; Sz = BufferSize P
           in if Buf = 0 then M\<lparr>Core := P\<rparr>
              else if \<not> SmmIsBufferOutsideSmmValid (CoreMemLib E) Buf Sz \<or>
                InternalIsBufferOverlapped Buf Sz (CoreAddress E) sizeof_SMM_CORE_PRIVATE_DATA
              then M\<lparr>Core := P\<lparr>CommunicationBuffer := 0, CoreReturnStatus := EFI_INVALID_PARAMETER\<rparr>\<rparr>
              else let (Status, n, w) = SmiManage_sync E (HeaderGuid_at (MemoryIn E (World M)) Buf) (Buf + SMM_COMMUNICATE_HEADER_SIZE)
                         (Sz - SMM_COMMUNICATE_HEADER_SIZE) (SmiLists M) (World M)
                   in M\<lparr>Core := P\<lparr>BufferSize := n + SMM_COMMUNICATE_HEADER_SIZE, CommunicationBuffer := 0,
                          CoreReturnStatus := (if Status = EFI_SUCCESS then EFI_SUCCESS else EFI_NOT_FOUND)\<rparr>, World := w\<rparr>);
         M2 = M1\<lparr>World := snd (SmiManage_async E (SmiLists M1) (World M1))\<rparr>
     in if InLegacyBoot then M2 else M2\<lparr>Core := (Core M2)\<lparr>InSmm := False\<rparr>\<rparr>)"

section \<open>The protocols of the loader\<close>

definition SmmBase2InSmram :: "('h, 'w) smm_machine \<Rightarrow> bool \<Rightarrow> EFI_STATUS \<times> bool option" where
  "SmmBase2InSmram M InSmram = (if \<not> InSmram then (EFI_INVALID_PARAMETER, None) else (EFI_SUCCESS, Some (InSmm (Core M))))"

definition SmmBase2GetSmstLocation :: "('h, 'w) smm_machine \<Rightarrow> bool \<Rightarrow> bool \<Rightarrow> EFI_STATUS \<times> UINTN option" where
  "SmmBase2GetSmstLocation M This out =
    (if \<not> This \<or> \<not> out then (EFI_INVALID_PARAMETER, None)
     else if \<not> InSmm (Core M) then (EFI_UNSUPPORTED, None)
     else (EFI_SUCCESS, Some (Smst (Core M))))"

text \<open>The services outside SMM: the trigger of a software SMI, the state of the SMRAM window, whether the addresses are virtual.\<close>

record ('h, 'w) ipl_env =
  Trigger :: "('h, 'w) smm_machine \<Rightarrow> EFI_STATUS \<times> ('h, 'w) smm_machine"
  OpenState :: bool
  LockState :: bool
  EfiGoneVirtual :: bool

definition SmmCommunicationCommunicate :: "('h, 'w) smm_env \<Rightarrow> ('h, 'w) ipl_env \<Rightarrow> UINTN \<Rightarrow> UINTN option \<Rightarrow> ('h, 'w) smm_machine \<Rightarrow>
    EFI_STATUS \<times> UINTN option \<times> ('h, 'w) smm_machine" where
  "SmmCommunicationCommunicate E L CommBuffer CommSize M =
    (case CommSize of
       None \<Rightarrow> (EFI_INVALID_PARAMETER, None, M)
     | Some n \<Rightarrow>
       (if CommBuffer = 0 then (EFI_INVALID_PARAMETER, CommSize, M)
        else if n < SMM_COMMUNICATE_HEADER_SIZE then (EFI_INVALID_PARAMETER, CommSize, M)
        else if \<not> InSmm (Core M) \<and> SmmEntryPointRegistered (Core M)
        then let (Status, M1) = Trigger L (M\<lparr>Core := (Core M)\<lparr>CommunicationBuffer := CommBuffer, BufferSize := n\<rparr>\<rparr>)
             in if EFI_ERROR Status then (EFI_UNSUPPORTED, CommSize, M1)
                else (CoreReturnStatus (Core M1), Some (BufferSize (Core M1)), M1)
        else if EfiGoneVirtual L then (EFI_INVALID_PARAMETER, CommSize, M)
        else if \<not> InSmm (Core M) \<and> (\<not> OpenState L \<or> LockState L) then (EFI_INVALID_PARAMETER, CommSize, M)
        else let OldInSmm = InSmm (Core M);
                 (Status, k, w) = SmiManage_sync E (HeaderGuid_at (MemoryIn E (World M)) CommBuffer)
                   (CommBuffer + SMM_COMMUNICATE_HEADER_SIZE) (n - SMM_COMMUNICATE_HEADER_SIZE) (SmiLists M) (World M)
             in (if Status = EFI_SUCCESS then EFI_SUCCESS else EFI_NOT_FOUND, Some (k + SMM_COMMUNICATE_HEADER_SIZE),
                 M\<lparr>Core := (Core M)\<lparr>InSmm := OldInSmm\<rparr>, World := w\<rparr>)))"

section \<open>Properties\<close>

lemma overlapped_iff:
  assumes "unat a + unat n < 18446744073709551616" "unat b + unat k < 18446744073709551616" "n \<noteq> 0" "k \<noteq> 0"
  shows "InternalIsBufferOverlapped a n b k \<longleftrightarrow> mem_range a n \<inter> mem_range b k \<noteq> {}"
proof -
  have pos: "0 < unat n" "0 < unat k" using assms(3,4) by (simp_all add: unat_gt_0)
  have r1: "x \<in> mem_range a n \<longleftrightarrow> unat a \<le> unat x \<and> unat x < unat a + unat n" for x using assms(1) by (intro mem_range_nat) simp
  have r2: "x \<in> mem_range b k \<longleftrightarrow> unat b \<le> unat x \<and> unat x < unat b + unat k" for x using assms(2) by (intro mem_range_nat) simp
  have ov: "InternalIsBufferOverlapped a n b k \<longleftrightarrow> unat b < unat a + unat n \<and> unat a < unat b + unat k"
    using unat_add_noov [OF assms(1)] unat_add_noov [OF assms(2)] by (simp add: InternalIsBufferOverlapped_def word_le_nat_alt not_le)
  show ?thesis
  proof
    assume o: "InternalIsBufferOverlapped a n b k"
    show "mem_range a n \<inter> mem_range b k \<noteq> {}"
    proof (cases "unat a \<le> unat b")
      case True
      then have "b \<in> mem_range a n \<inter> mem_range b k" using o ov pos r1 [of b] r2 [of b] by simp
      then show ?thesis by blast
    next
      case False
      then have "a \<in> mem_range a n \<inter> mem_range b k" using o ov pos r1 [of a] r2 [of a] by simp
      then show ?thesis by blast
    qed
  next
    assume "mem_range a n \<inter> mem_range b k \<noteq> {}"
    then obtain x where "x \<in> mem_range a n" "x \<in> mem_range b k" by blast
    then show "InternalIsBufferOverlapped a n b k" using ov r1 [of x] r2 [of x] by linarith
  qed
qed

text \<open>C13. 
  SmmEntryPoint.  A synchronous request whose buffer has a byte in SMRAM or in the private data of the core reaches no
  handler: only the asynchronous sources are served, the request is answered with EFI_INVALID_PARAMETER, and the buffer
  is forgotten.
\<close>
theorem SmmEntryPoint_rejects_buffer:
  assumes "wf_ranges (CoreMemLib E)" "unat (CoreAddress E) + 104 < 2 ^ 64" "\<not> mInLegacyBoot M" "CommunicationBuffer (Core M) \<noteq> 0"
    and "mem_range (CommunicationBuffer (Core M)) (BufferSize (Core M)) \<inter> (smram (CoreMemLib E) \<union> mem_range (CoreAddress E) 104) \<noteq> {}"
  shows "SmmEntryPoint E ctx M =
    M\<lparr>SmstContext := ctx, World := snd (SmiManage_async E (SmiLists M) (World M)),
      Core := (Core M)\<lparr>InSmm := False, CommunicationBuffer := 0, CoreReturnStatus := EFI_INVALID_PARAMETER\<rparr>\<rparr>"
proof -
  let ?B = "CommunicationBuffer (Core M)" and ?n = "BufferSize (Core M)"
  have "?n \<noteq> 0" using assms(5) by (auto simp: mem_range_def)
  have bad: "\<not> SmmIsBufferOutsideSmmValid (CoreMemLib E) ?B ?n \<or> InternalIsBufferOverlapped ?B ?n (CoreAddress E) sizeof_SMM_CORE_PRIVATE_DATA"
  proof (rule ccontr)
    assume c: "\<not> ?thesis"
    then have v: "unat ?B + unat ?n < 18446744073709551616" "mem_range ?B ?n \<inter> smram (CoreMemLib E) = {}"
      using outside_iff [OF assms(1) \<open>?n \<noteq> 0\<close>] assms(1) by (auto simp: wf_ranges_def)
    have "mem_range ?B ?n \<inter> mem_range (CoreAddress E) 104 = {}"
      using c overlapped_iff [OF v(1), of "CoreAddress E" 104] \<open>?n \<noteq> 0\<close> assms(2) by (simp add: sizeof_SMM_CORE_PRIVATE_DATA_def)
    then show False using v(2) assms(5) by blast
  qed
  then show ?thesis using assms(3,4) by (simp add: SmmEntryPoint_def Let_def)
qed

lemma communicate_delivers:
  assumes "\<And>M. Trigger L M = (EFI_SUCCESS, SmmEntryPoint E ctx M)"
    and "\<not> mInLegacyBoot M" "\<not> InSmm (Core M)" "SmmEntryPointRegistered (Core M)" "Buf \<noteq> 0" "24 \<le> n"
    and "SmmIsBufferOutsideSmmValid (CoreMemLib E) Buf n" "\<not> InternalIsBufferOverlapped Buf n (CoreAddress E) 104"
    and "SmiManage_sync E (HeaderGuid_at (MemoryIn E (World M)) Buf) (Buf + 24) (n - 24) (SmiLists M) (World M) = (st, k, w)"
  shows "\<exists>M'. SmmCommunicationCommunicate E L Buf (Some n) M = (if st = EFI_SUCCESS then EFI_SUCCESS else EFI_NOT_FOUND, Some (k + 24), M') \<and>
    World M' = snd (SmiManage_async E (SmiLists M) w) \<and> SmiLists M' = SmiLists M \<and> \<not> mInLegacyBoot M' \<and>
    \<not> InSmm (Core M') \<and> SmmEntryPointRegistered (Core M') \<and> CommunicationBuffer (Core M') = 0"
  using assms(2-9)
  by (simp add: SmmCommunicationCommunicate_def SmmEntryPoint_def assms(1) SMM_COMMUNICATE_HEADER_SIZE_def
      sizeof_SMM_CORE_PRIVATE_DATA_def Let_def not_less)

text \<open>C14. 
  Communicate.  When the entry point is registered and the trigger of a software SMI enters SMM, a request with a buffer
  outside SMRAM and the private data runs the handlers of its GUID on the data behind the header, then the asynchronous
  sources; the caller gets EFI_SUCCESS if a handler did and EFI_NOT_FOUND otherwise, with the size the handlers left, and the
  machine is outside SMM with no buffer pending.
\<close>
theorem Communicate_delivers:
  assumes "\<And>M. Trigger L M = (EFI_SUCCESS, SmmEntryPoint E ctx M)"
    and "\<not> mInLegacyBoot M" "\<not> InSmm (Core M)" "SmmEntryPointRegistered (Core M)" "Buf \<noteq> 0" "24 \<le> n"
    and "SmmIsBufferOutsideSmmValid (CoreMemLib E) Buf n" "\<not> InternalIsBufferOverlapped Buf n (CoreAddress E) 104"
    and "SmiManage_sync E (HeaderGuid_at (MemoryIn E (World M)) Buf) (Buf + 24) (n - 24) (SmiLists M) (World M) = (st, k, w)"
  shows "\<exists>M'. SmmCommunicationCommunicate E L Buf (Some n) M = (if st = EFI_SUCCESS then EFI_SUCCESS else EFI_NOT_FOUND, Some (k + 24), M') \<and>
    World M' = snd (SmiManage_async E (SmiLists M) w) \<and> SmiLists M' = SmiLists M \<and> \<not> mInLegacyBoot M' \<and>
    \<not> InSmm (Core M') \<and> SmmEntryPointRegistered (Core M') \<and> CommunicationBuffer (Core M') = 0"
  by (rule communicate_delivers [OF assms])

text \<open>C34. 
  SmmEntryPoint with a buffer that is too small for its header.  The check of the size is outside SMM, so a caller that
  places its buffer in the private data itself can pass any size: below 24 the size that the handlers get wraps around to
  almost the whole address space.
\<close>
theorem SmmEntryPoint_short_buffer:
  assumes "\<not> mInLegacyBoot M" "CommunicationBuffer (Core M) = Buf" "Buf \<noteq> 0" "BufferSize (Core M) = n" "n < 24"
    and "SmmIsBufferOutsideSmmValid (CoreMemLib E) Buf n" "\<not> InternalIsBufferOverlapped Buf n (CoreAddress E) 104"
    and "SmiManage_sync E (HeaderGuid_at (MemoryIn E (World M)) Buf) (Buf + 24) k (SmiLists M) (World M) = (st, k', w)"
    and "unat k = 2 ^ 64 - 24 + unat n"
  shows "World (SmmEntryPoint E ctx M) = snd (SmiManage_async E (SmiLists M) w)"
proof -
  have "n - 24 = k" using assms(5,9) by (simp add: word_unat_eq_iff unat_sub_if' word_less_nat_alt not_le)
  then show ?thesis using assms by (simp add: SmmEntryPoint_def SMM_COMMUNICATE_HEADER_SIZE_def sizeof_SMM_CORE_PRIVATE_DATA_def Let_def)
qed

section \<open>A machine to evaluate on\<close>

text \<open>
  Handlers that answer with a fixed status and leave a mark in memory; SMRAM is the page at 0x7000, the private data are at
  0x100, and the GUID at the start of a buffer is 3, for which the second of three handlers ends the dispatch.
\<close>

definition sample_env :: "(EFI_STATUS, memory) smm_env" where
  "sample_env = \<lparr>CallHandler = (\<lambda>st a b m. (st, 5, m(0x500 := ucast a))), MemoryIn = id, CoreMemLib = sample_lib, CoreAddress = 0x100\<rparr>"

definition sample_memory :: memory where
  "sample_memory = (\<lambda>a. if a = 0x2000 then 3 else 0)"

definition sample_context :: EFI_SMM_ENTRY_CONTEXT where
  "sample_context = \<lparr>SmmStartupThisAp = 0, CurrentlyExecutingCpu = 0, NumberOfCpus = 4, CpuSaveStateSize = 0, CpuSaveState = 0\<rparr>"

definition sample_machine :: "UINTN \<Rightarrow> UINTN \<Rightarrow> (EFI_STATUS, memory) smm_machine" where
  "sample_machine b n =
    \<lparr>Core = \<lparr>SmmEntryPointRegistered = True, InSmm = False, Smst = 0x7100, CommunicationBuffer = b, BufferSize = n, CoreReturnStatus = EFI_SUCCESS\<rparr>,
     mInLegacyBoot = False, SmstContext = sample_context, SmiLists = smi_typed, World = sample_memory\<rparr>"

definition sample_ipl :: "(EFI_STATUS, memory) ipl_env" where
  "sample_ipl = \<lparr>Trigger = (\<lambda>M. (EFI_SUCCESS, SmmEntryPoint sample_env sample_context M)), OpenState = False, LockState = True, EfiGoneVirtual = False\<rparr>"

lemma sample_guid: "HeaderGuid_at sample_memory 0x2000 = 3"
  by (simp add: HeaderGuid_at_def guid_value_def sample_memory_def mem_bytes_def upt_rec)

lemma sample_dispatch: "SmiManage_sync sample_env 3 b n smi_typed m = (EFI_INTERRUPT_PENDING, 5, m(0x500 := 128))"
  by (simp add: SmiManage_sync_def SmiManage_def smi_typed_def handler_functions_def sample_env_def)

lemma sample_async: "SmiManage_async sample_env smi_typed m = (EFI_NOT_FOUND, m)"
  by (simp add: SmiManage_async_def SmiManage_def smi_typed_def handler_functions_def)

theorem SmmEntryPoint_rejects_buffer_witness:
  "World (SmmEntryPoint sample_env sample_context (sample_machine 0x6FF0 0x20)) = sample_memory"
proof -
  let ?M = "sample_machine 0x6FF0 0x20"
  have "0x7000 \<in> mem_range 0x6FF0 0x20 \<inter> smram sample_lib" by (simp add: mem_range_def smram_def sample_lib_def range_bytes_def)
  then have "mem_range (CommunicationBuffer (Core ?M)) (BufferSize (Core ?M)) \<inter>
      (smram (CoreMemLib sample_env) \<union> mem_range (CoreAddress sample_env) 104) \<noteq> {}"
    unfolding sample_machine_def sample_env_def by auto
  from SmmEntryPoint_rejects_buffer [OF _ _ _ _ this] show ?thesis
    using sample_lib_wf sample_async by (simp add: sample_machine_def) (simp add: sample_env_def)
qed

theorem Communicate_delivers_witness:
  "\<exists>M'. SmmCommunicationCommunicate sample_env sample_ipl 0x2000 (Some 0x40) (sample_machine 0 0) = (EFI_NOT_FOUND, Some 29, M') \<and>
    World M' 0x500 = 128"
  using Communicate_delivers [of sample_ipl sample_env sample_context "sample_machine 0 0" "0x2000" "0x40" EFI_INTERRUPT_PENDING 5 "sample_memory(0x500 := 128)"]
    sample_guid sample_dispatch sample_async
  by (auto simp: sample_machine_def sample_ipl_def sample_env_def sample_lib_def SmmIsBufferOutsideSmmValid_def range_overlap_def
      InternalIsBufferOverlapped_def)

theorem SmmEntryPoint_short_buffer_witness:
  "World (SmmEntryPoint sample_env sample_context (sample_machine 0x2000 8)) 0x500 = 128"
  using SmmEntryPoint_short_buffer [of "sample_machine 0x2000 8" "0x2000" 8 sample_env "0xFFFFFFFFFFFFFFF0" EFI_INTERRUPT_PENDING 5
      "sample_memory(0x500 := 128)" sample_context]
    sample_guid sample_dispatch sample_async
  by (auto simp: sample_machine_def sample_env_def sample_lib_def SmmIsBufferOutsideSmmValid_def range_overlap_def InternalIsBufferOverlapped_def)

end
