(* ===== verification/SpiProtocol.thy ===== *)
theory SpiProtocol
  imports Prelude
begin

text \<open>
  The interface of the SPI host controller, \<^verbatim>\<open>SouthCluster/Include/Protocol/Spi.h\<close>, and of the flash device
  driver, \<^verbatim>\<open>BraswellPlatformPkg/Include/Protocol/SpiDevice.h\<close>: the enumerations, the initialization data and
  the two protocols as records of operations over a state \<open>'s\<close> of the machine.  A data buffer is the list of the
  bytes the command transfers; an operation that fills a buffer returns its new contents.

  The locale \<open>spi_controller\<close> is what the device driver relies on: the contents of the flash as a function of
  the state, and the effect of a read, a program and an erase command on them.  Programming a NOR flash clears
  bits, and erasing sets the bytes of a sector to 0xFF; a command that fails leaves the rest of the flash alone.
  The locale \<open>spi_device\<close> is the same contract one layer up, for the firmware volume block driver.
\<close>

section \<open>Data of the protocols\<close>

datatype SPI_OPERATION =
    EnumSpiOperationWriteStatus | EnumSpiOperationProgramData_1_Byte | EnumSpiOperationProgramData_64_Byte
  | EnumSpiOperationReadData | EnumSpiOperationWriteDisable | EnumSpiOperationReadStatus
  | EnumSpiOperationWriteEnable | EnumSpiOperationFastRead | EnumSpiOperationEnableWriteStatus
  | EnumSpiOperationErase_256_Byte | EnumSpiOperationErase_4K_Byte | EnumSpiOperationErase_8K_Byte
  | EnumSpiOperationErase_64K_Byte | EnumSpiOperationFullChipErase | EnumSpiOperationJedecId
  | EnumSpiOperationDualOutputFastRead | EnumSpiOperationDiscoveryParameters | EnumSpiOperationOther
  | EnumSpiOperationMax

datatype SPI_CYCLE_FREQUENCY =
  EnumSpiCycle20MHz | EnumSpiCycle33MHz | EnumSpiCycle66MHz | EnumSpiCycle50MHz | EnumSpiCycleMax

datatype SPI_REGION_TYPE =
    EnumSpiRegionAll | EnumSpiRegionBios | EnumSpiRegionSeC | EnumSpiRegionDescriptor
  | EnumSpiRegionPlatformData | EnumSpiRegionMax

record SPI_COMMAND_CONFIG =
  Frequency :: SPI_CYCLE_FREQUENCY
  Operation :: SPI_OPERATION

text \<open>\<open>SpecialOpcode\<close> is the array behind \<open>SpecialOpcodeEntry\<close> without its end tag; NULL is the empty list.\<close>

record SPI_SPECIAL_OPCODE_ENTRY =
  OpcodeIndex :: UINT8
  OpcodeType :: UINT16
  OpcodeCode :: UINT8

record SPI_INIT_DATA =
  PrefixOpcode :: "UINT8 list"
  SpiCmdConfig :: "SPI_COMMAND_CONFIG list"
  SpecialOpcode :: "SPI_SPECIAL_OPCODE_ENTRY list"
  BiosStartOffset :: UINTN
  BiosSize :: UINTN

definition SPI_NUM_PREFIX_OPCODE :: UINT8 where "SPI_NUM_PREFIX_OPCODE = 2"
definition SPI_NUM_OPCODE :: UINT8 where "SPI_NUM_OPCODE = 8"

text \<open>The opcode menu the device driver programs into the controller, \<^verbatim>\<open>SpiDevice.h\<close>.\<close>

definition SPI_WREN :: UINT8 where "SPI_WREN = 0"
definition SPI_EWSR :: UINT8 where "SPI_EWSR = 1"
definition SPI_READ_ID :: UINT8 where "SPI_READ_ID = 0"
definition SPI_READ :: UINT8 where "SPI_READ = 1"
definition SPI_RDSR :: UINT8 where "SPI_RDSR = 2"
definition SPI_WRDI_SFDP :: UINT8 where "SPI_WRDI_SFDP = 3"
definition SPI_SERASE :: UINT8 where "SPI_SERASE = 4"
definition SPI_BERASE :: UINT8 where "SPI_BERASE = 5"
definition SPI_PROG :: UINT8 where "SPI_PROG = 6"
definition SPI_WRSR :: UINT8 where "SPI_WRSR = 7"

record 's EFI_SPI_PROTOCOL =
  ReadId :: "UINTN \<Rightarrow> UINT8 list \<Rightarrow> 's \<Rightarrow> EFI_STATUS \<times> UINT8 list \<times> 's"
  Init :: "SPI_INIT_DATA \<Rightarrow> 's \<Rightarrow> EFI_STATUS \<times> 's"
  Lock :: "'s \<Rightarrow> EFI_STATUS \<times> 's"
  Execute :: "UINT8 \<Rightarrow> UINT8 \<Rightarrow> bool \<Rightarrow> bool \<Rightarrow> bool \<Rightarrow> UINTN \<Rightarrow> UINT32 \<Rightarrow> UINT8 list \<Rightarrow> SPI_REGION_TYPE \<Rightarrow> 's \<Rightarrow>
    EFI_STATUS \<times> UINT8 list \<times> 's"

text \<open>
  A pointer argument is an option, \<open>None\<close> for NULL.  \<open>SpiErase\<close> may not return, which is the result \<open>None\<close>.
\<close>

record 's SPI_DEVICE_PROTOCOL =
  DevRead :: "UINTN \<Rightarrow> UINTN option \<Rightarrow> UINT8 list option \<Rightarrow> 's \<Rightarrow> EFI_STATUS \<times> UINT8 list option \<times> 's"
  DevWrite :: "UINTN \<Rightarrow> UINTN option \<Rightarrow> UINT8 list option \<Rightarrow> 's \<Rightarrow> EFI_STATUS \<times> 's"
  DevErase :: "UINTN \<Rightarrow> UINTN \<Rightarrow> 's \<Rightarrow> (EFI_STATUS \<times> 's) option"
  DevLock :: "UINTN \<Rightarrow> UINTN \<Rightarrow> bool \<Rightarrow> 's \<Rightarrow> EFI_STATUS \<times> 's"
  DevSetRange :: "UINTN \<Rightarrow> UINTN \<Rightarrow> bool \<Rightarrow> bool \<Rightarrow> 's \<Rightarrow> EFI_STATUS \<times> 's"
  DevLockRanges :: "'s \<Rightarrow> EFI_STATUS \<times> 's"

section \<open>Flash contents\<close>

type_synonym flash = "nat \<Rightarrow> UINT8"

definition programmed :: "nat \<Rightarrow> UINT8 list \<Rightarrow> flash \<Rightarrow> flash" where
  "programmed a b f = (\<lambda>x. if a \<le> x \<and> x < a + length b then f x AND b ! (x - a) else f x)"

definition erased :: "nat \<Rightarrow> nat \<Rightarrow> flash \<Rightarrow> flash" where
  "erased a n f = (\<lambda>x. if a \<le> x \<and> x < a + n then 0xFF else f x)"

definition flash_bytes :: "nat \<Rightarrow> nat \<Rightarrow> flash \<Rightarrow> UINT8 list" where
  "flash_bytes a n f = map f [a ..< a + n]"

definition same_outside :: "nat \<Rightarrow> nat \<Rightarrow> flash \<Rightarrow> flash \<Rightarrow> bool" where
  "same_outside a n f g \<longleftrightarrow> (\<forall>x. x < a \<or> a + n \<le> x \<longrightarrow> g x = f x)"

lemma programmed_Nil [simp]: "programmed a [] f = f"
  by (auto simp: programmed_def fun_eq_iff)

lemma programmed_append: "programmed (a + length b) c (programmed a b f) = programmed a (b @ c) f"
  by (auto simp: programmed_def nth_append fun_eq_iff)

lemma erased_0 [simp]: "erased a 0 f = f"
  by (auto simp: erased_def fun_eq_iff)

lemma erased_append: "erased (a + n) m (erased a n f) = erased a (n + m) f"
  by (auto simp: erased_def fun_eq_iff)

lemma length_flash_bytes [simp]: "length (flash_bytes a n f) = n"
  by (simp add: flash_bytes_def)

lemma flash_bytes_0 [simp]: "flash_bytes a 0 f = []"
  by (simp add: flash_bytes_def)

lemma flash_bytes_append: "flash_bytes a n f @ flash_bytes (a + n) m f = flash_bytes a (n + m) f"
  using upt_add_eq_append [of a "a + n" m] by (simp add: flash_bytes_def add.assoc)

lemma flash_bytes_cong: "(\<And>x. a \<le> x \<Longrightarrow> x < a + n \<Longrightarrow> f x = g x) \<Longrightarrow> flash_bytes a n f = flash_bytes a n g"
  by (simp add: flash_bytes_def)

lemma same_outside_refl [simp]: "same_outside a n f f"
  by (simp add: same_outside_def)

lemma same_outside_trans: "same_outside a n f g \<Longrightarrow> same_outside a n g h \<Longrightarrow> same_outside a n f h"
  by (simp add: same_outside_def)

lemma same_outside_mono: "same_outside b m f g \<Longrightarrow> a \<le> b \<Longrightarrow> b + m \<le> a + n \<Longrightarrow> same_outside a n f g"
  by (auto simp: same_outside_def)

lemma same_outside_programmed [simp]: "same_outside a (length b) f (programmed a b f)"
  by (auto simp: same_outside_def programmed_def)

lemma same_outside_erased [simp]: "same_outside a n f (erased a n f)"
  by (auto simp: same_outside_def erased_def)

text \<open>Data that is programmed into an erased range is read back.\<close>

lemma flash_bytes_programmed: "flash_bytes a (length b) (programmed a b (erased a (length b) f)) = b"
proof -
  have m: "(0xFF :: UINT8) = mask 8" by (simp add: mask_eq_exp_minus_1)
  have "(0xFF :: UINT8) AND x = x" for x
    using take_bit_length_eq [of x] by (simp add: m and.commute flip: take_bit_eq_mask)
  then show ?thesis by (auto simp: flash_bytes_def programmed_def erased_def intro: nth_equalityI)
qed

lemma flash_bytes_written:
  assumes "off + length b \<le> L"
  shows "flash_bytes (A + off) (length b) (programmed (A + off) b (erased A L f)) = b"
proof -
  have "flash_bytes (A + off) (length b) (programmed (A + off) b (erased A L f)) =
      flash_bytes (A + off) (length b) (programmed (A + off) b (erased (A + off) (length b) f))"
    using assms by (intro flash_bytes_cong) (auto simp: programmed_def erased_def)
  then show ?thesis by (simp add: flash_bytes_programmed)
qed

section \<open>Contracts\<close>

locale spi_controller =
  fixes P :: "'s EFI_SPI_PROTOCOL" and flash :: "'s \<Rightarrow> flash" and ready :: "'s \<Rightarrow> bool" and fsize :: nat
  assumes fsize: "fsize \<le> 2 ^ 27"
    and read_cmd: "\<lbrakk>ready s; 0 < n; unat n \<le> 4096; unat a + unat n \<le> fsize; length b = unat n;
      Execute P SPI_READ 0 True True False a n b EnumSpiRegionAll s = (st, b', s')\<rbrakk> \<Longrightarrow>
      ready s' \<and> flash s' = flash s \<and> length b' = length b \<and>
      (\<not> EFI_ERROR st \<longrightarrow> st = EFI_SUCCESS \<and> b' = flash_bytes (unat a) (unat n) (flash s))"
    and prog_cmd: "\<lbrakk>ready s; 0 < n; unat n \<le> 4096; unat a + unat n \<le> fsize; length b = unat n;
      Execute P SPI_PROG SPI_WREN True True True a n b EnumSpiRegionAll s = (st, b', s')\<rbrakk> \<Longrightarrow>
      ready s' \<and> same_outside (unat a) (unat n) (flash s) (flash s') \<and>
      (\<not> EFI_ERROR st \<longrightarrow> st = EFI_SUCCESS \<and> flash s' = programmed (unat a) b (flash s)) \<and> (EFI_ERROR st \<longrightarrow> st = EFI_DEVICE_ERROR)"
    and erase_cmd: "\<lbrakk>ready s; unat a < fsize;
      Execute P SPI_SERASE SPI_WREN False True False a 0 [] EnumSpiRegionAll s = (st, b', s')\<rbrakk> \<Longrightarrow>
      ready s' \<and> same_outside (unat a div 4096 * 4096) 4096 (flash s) (flash s') \<and>
      (\<not> EFI_ERROR st \<longrightarrow> st = EFI_SUCCESS \<and> flash s' = erased (unat a div 4096 * 4096) 4096 (flash s)) \<and>
      (EFI_ERROR st \<longrightarrow> st = EFI_DEVICE_ERROR)"

text \<open>
  The device driver reports a failed read as a success, so the contract of a read covers only the offsets the
  processor can read without a command, \<open>readable\<close>; the state is not changed there.
\<close>

locale spi_device =
  fixes D :: "'s SPI_DEVICE_PROTOCOL" and flash :: "'s \<Rightarrow> flash" and ready :: "'s \<Rightarrow> bool" and fsize :: nat
    and readable :: "'s \<Rightarrow> nat \<Rightarrow> nat \<Rightarrow> bool"
  assumes dev_size: "fsize \<le> 2 ^ 27"
    and dev_read: "\<lbrakk>ready s; unat a + unat n \<le> fsize; unat n \<le> length b; readable s (unat a) (unat n)\<rbrakk> \<Longrightarrow>
      DevRead D a (Some n) (Some b) s = (EFI_SUCCESS, Some (flash_bytes (unat a) (unat n) (flash s) @ drop (unat n) b), s)"
    and dev_read_quiet: "\<lbrakk>ready s; unat a + unat n \<le> fsize; unat n \<le> length b; DevRead D a (Some n) (Some b) s = (st, b', s')\<rbrakk> \<Longrightarrow>
      ready s' \<and> flash s' = flash s"
    and dev_write: "\<lbrakk>ready s; unat a + unat n \<le> fsize; unat n \<le> length b; DevWrite D a (Some n) (Some b) s = (st, s')\<rbrakk> \<Longrightarrow>
      ready s' \<and> same_outside (unat a) (unat n) (flash s) (flash s') \<and>
      (\<not> EFI_ERROR st \<longrightarrow> st = EFI_SUCCESS \<and> flash s' = programmed (unat a) (take (unat n) b) (flash s)) \<and>
      (EFI_ERROR st \<longrightarrow> st = EFI_DEVICE_ERROR)"
    and dev_erase: "\<lbrakk>ready s; 0 < n; unat a + unat n \<le> fsize; unat a mod 4096 = 0; unat n mod 4096 = 0\<rbrakk> \<Longrightarrow>
      \<exists>st s'. DevErase D a n s = Some (st, s') \<and> ready s' \<and> same_outside (unat a) (unat n) (flash s) (flash s') \<and>
        (\<not> EFI_ERROR st \<longrightarrow> st = EFI_SUCCESS \<and> flash s' = erased (unat a) (unat n) (flash s)) \<and> (EFI_ERROR st \<longrightarrow> st = EFI_DEVICE_ERROR)"
    and dev_lock: "snd (DevLock D a n l s) = s"

text \<open>
  The contract as a device: every command takes effect at once.  It is the specification of the controller in
  executable form, on which statements about clients of the contract can be evaluated.
\<close>

definition ideal_execute :: "UINT8 \<Rightarrow> UINT8 \<Rightarrow> bool \<Rightarrow> bool \<Rightarrow> bool \<Rightarrow> UINTN \<Rightarrow> UINT32 \<Rightarrow> UINT8 list \<Rightarrow> SPI_REGION_TYPE \<Rightarrow> flash \<Rightarrow>
    EFI_STATUS \<times> UINT8 list \<times> flash" where
  "ideal_execute op pre dc at so a n b r f =
    (if op = SPI_READ then (EFI_SUCCESS, flash_bytes (unat a) (unat n) f, f)
     else if op = SPI_PROG then (EFI_SUCCESS, b, programmed (unat a) b f)
     else if op = SPI_SERASE then (EFI_SUCCESS, b, erased (unat a div 4096 * 4096) 4096 f)
     else (EFI_UNSUPPORTED, b, f))"

definition ideal_controller :: "flash EFI_SPI_PROTOCOL" where
  "ideal_controller = \<lparr>ReadId = (\<lambda>a b f. (EFI_SUCCESS, b, f)), Init = (\<lambda>d f. (EFI_SUCCESS, f)), Lock = (\<lambda>f. (EFI_SUCCESS, f)), Execute = ideal_execute\<rparr>"

interpretation ideal: spi_controller ideal_controller id "\<lambda>_. True" "0x800000"
  by unfold_locales
    (auto simp: ideal_controller_def ideal_execute_def SPI_READ_def SPI_PROG_def SPI_SERASE_def; metis same_outside_programmed)+

end
