(* ===== verification/SpiController.thy ===== *)
theory SpiController
  imports SpiProtocol "HOL-Library.State_Monad"
begin

text \<open>
  The driver of the SPI host controller, \<^verbatim>\<open>ChvRefCodePkg/CherryViewSoc/SouthCluster/Spi/Common/SpiCommon.c\<close>, with
  the write-protect hooks of \<^verbatim>\<open>Spi/RuntimeDxe/PchSpi.c\<close> and \<^verbatim>\<open>Spi/Smm/PchSpi.c\<close>.

  The code is a sequence of register accesses, so it is written in the state monad of the library over a state \<open>'h\<close> of
  the hardware.  What an access does is a parameter, the record \<open>spi_bus\<close> of the access routines of IoLib, PciLib and
  the timer library; so is the value of a local variable the code leaves uninitialized.  The private data of the driver
  is the record \<open>SPI_INSTANCE\<close>.  A transfer is cut into cycles of at most 64 bytes inside a 256-byte page; every turn of
  that loop moves at least one byte, so a bound of \<open>DataByteCount + 1\<close> turns is enough for every address and count for
  which \<open>Address + DataByteCount\<close> is a flash address.  The waiting loop polls \<open>WAIT_TIME / WAIT_PERIOD\<close> times.

  The locale \<open>spi_hardware\<close> states what the register manual of the controller says of hardware sequencing: which
  accesses change the data, address and status registers, and what a read, write or erase cycle does to the flash.  The
  lemmas show that the driver then keeps the contract \<open>spi_controller\<close>.
\<close>

section \<open>Hardware and private data\<close>

record 'h spi_bus =
  MmioRead8 :: "UINTN \<Rightarrow> ('h, UINT8) state"
  MmioRead16 :: "UINTN \<Rightarrow> ('h, UINT16) state"
  MmioRead32 :: "UINTN \<Rightarrow> ('h, UINT32) state"
  MmioWrite8 :: "UINTN \<Rightarrow> UINT8 \<Rightarrow> ('h, unit) state"
  MmioWrite16 :: "UINTN \<Rightarrow> UINT16 \<Rightarrow> ('h, unit) state"
  MmioWrite32 :: "UINTN \<Rightarrow> UINT32 \<Rightarrow> ('h, unit) state"
  PciRead32 :: "UINTN \<Rightarrow> ('h, UINT32) state"
  IoRead32 :: "UINTN \<Rightarrow> ('h, UINT32) state"
  IoWrite32 :: "UINTN \<Rightarrow> UINT32 \<Rightarrow> ('h, unit) state"
  PchPmTimerStall :: "UINTN \<Rightarrow> ('h, unit) state"
  ReadMemory :: "UINTN \<Rightarrow> UINTN \<Rightarrow> ('h, UINT8 list) state"
  SpiPhaseInit :: "('h, unit) state"
  Uninitialized :: UINTN

record SPI_INSTANCE =
  InitPrefix :: "UINT8 list"
  InitConfig :: "SPI_COMMAND_CONFIG list"
  InitBiosStartOffset :: UINTN
  InitBiosSize :: UINTN
  SpiIdTable :: "(UINT8 \<times> UINT8 \<times> UINT8) list"
  SpiBase :: UINTN
  NumberComponents :: UINT8
  Comp1Density :: UINT8
  DescriptorMode :: bool

definition R_PCH_SPI_HSFS :: UINTN where "R_PCH_SPI_HSFS = 0x04"
definition R_PCH_SPI_HSFC :: UINTN where "R_PCH_SPI_HSFC = 0x06"
definition R_PCH_SPI_FADDR :: UINTN where "R_PCH_SPI_FADDR = 0x08"
definition R_PCH_SPI_FDATA00 :: UINTN where "R_PCH_SPI_FDATA00 = 0x10"
definition R_PCH_SPI_FREG0_FLASHD :: UINTN where "R_PCH_SPI_FREG0_FLASHD = 0x54"
definition R_PCH_SPI_FREG1_BIOS :: UINTN where "R_PCH_SPI_FREG1_BIOS = 0x58"
definition R_PCH_SPI_FREG2_SEC :: UINTN where "R_PCH_SPI_FREG2_SEC = 0x5C"
definition R_PCH_SPI_FREG4_PLATFORM_DATA :: UINTN where "R_PCH_SPI_FREG4_PLATFORM_DATA = 0x64"
definition R_PCH_SPI_SSFCS :: UINTN where "R_PCH_SPI_SSFCS = 0x90"
definition R_PCH_SPI_PREOP :: UINTN where "R_PCH_SPI_PREOP = 0x94"
definition R_PCH_SPI_OPTYPE :: UINTN where "R_PCH_SPI_OPTYPE = 0x96"
definition R_PCH_SPI_OPMENU0 :: UINTN where "R_PCH_SPI_OPMENU0 = 0x98"
definition R_PCH_SPI_FDOC :: UINTN where "R_PCH_SPI_FDOC = 0xB0"
definition R_PCH_SPI_FDOD :: UINTN where "R_PCH_SPI_FDOD = 0xB4"
definition R_PCH_SPI_VSCC0 :: UINTN where "R_PCH_SPI_VSCC0 = 0xC4"
definition R_PCH_SPI_VSCC1 :: UINTN where "R_PCH_SPI_VSCC1 = 0xC8"
definition R_PCH_SPI_BCR :: UINTN where "R_PCH_SPI_BCR = 0xFC"
definition R_PCH_SMI_EN :: UINTN where "R_PCH_SMI_EN = 0x30"

lemmas register_defs = R_PCH_SPI_HSFS_def R_PCH_SPI_HSFC_def R_PCH_SPI_FADDR_def R_PCH_SPI_FDATA00_def
  R_PCH_SPI_FREG0_FLASHD_def R_PCH_SPI_FREG1_BIOS_def R_PCH_SPI_FREG2_SEC_def R_PCH_SPI_FREG4_PLATFORM_DATA_def
  R_PCH_SPI_SSFCS_def R_PCH_SPI_PREOP_def R_PCH_SPI_OPTYPE_def R_PCH_SPI_OPMENU0_def R_PCH_SPI_FDOC_def
  R_PCH_SPI_FDOD_def R_PCH_SPI_VSCC0_def R_PCH_SPI_VSCC1_def R_PCH_SPI_BCR_def

definition MmioOr8 :: "'h spi_bus \<Rightarrow> UINTN \<Rightarrow> UINT8 \<Rightarrow> ('h, unit) state" where
  "MmioOr8 B a v = do { x \<leftarrow> MmioRead8 B a; MmioWrite8 B a (x OR v) }"

definition MmioAnd8 :: "'h spi_bus \<Rightarrow> UINTN \<Rightarrow> UINT8 \<Rightarrow> ('h, unit) state" where
  "MmioAnd8 B a v = do { x \<leftarrow> MmioRead8 B a; MmioWrite8 B a (x AND v) }"

definition MmioAndThenOr8 :: "'h spi_bus \<Rightarrow> UINTN \<Rightarrow> UINT8 \<Rightarrow> UINT8 \<Rightarrow> ('h, unit) state" where
  "MmioAndThenOr8 B a v w = do { x \<leftarrow> MmioRead8 B a; MmioWrite8 B a ((x AND v) OR w) }"

definition MmioOr16 :: "'h spi_bus \<Rightarrow> UINTN \<Rightarrow> UINT16 \<Rightarrow> ('h, unit) state" where
  "MmioOr16 B a v = do { x \<leftarrow> MmioRead16 B a; MmioWrite16 B a (x OR v) }"

definition MmioAndThenOr32 :: "'h spi_bus \<Rightarrow> UINTN \<Rightarrow> UINT32 \<Rightarrow> UINT32 \<Rightarrow> ('h, unit) state" where
  "MmioAndThenOr32 B a v w = do { x \<leftarrow> MmioRead32 B a; MmioWrite32 B a ((x AND v) OR w) }"

definition DisableBiosWriteProtect :: "'h spi_bus \<Rightarrow> UINTN \<Rightarrow> ('h, unit) state" where
  "DisableBiosWriteProtect B base = MmioOr8 B (base + R_PCH_SPI_BCR) 1"

definition EnableBiosWriteProtect :: "'h spi_bus \<Rightarrow> UINTN \<Rightarrow> ('h, unit) state" where
  "EnableBiosWriteProtect B base = MmioAnd8 B (base + R_PCH_SPI_BCR) (NOT 1)"

section \<open>Waiting for a cycle\<close>

definition WaitCount :: nat where "WaitCount = 6000000 div 10"

text \<open>
  The bits of the two status registers: the cycle in progress, the access error log, the cycle error and the cycle
  done bit.
\<close>

definition status_register :: "bool \<Rightarrow> UINTN" where
  "status_register UseSoftwareSequence = (if UseSoftwareSequence then R_PCH_SPI_SSFCS else R_PCH_SPI_HSFS)"

definition CycleInProgressBit :: "bool \<Rightarrow> UINT16" where
  "CycleInProgressBit UseSoftwareSequence = (if UseSoftwareSequence then 0x01 else 0x20)"

definition AelBit :: "bool \<Rightarrow> UINT16" where
  "AelBit UseSoftwareSequence = (if UseSoftwareSequence then 0x10 else 0x04)"

definition FcErrBit :: "bool \<Rightarrow> UINT16" where
  "FcErrBit UseSoftwareSequence = (if UseSoftwareSequence then 0x08 else 0x02)"

definition FcycleDone :: "bool \<Rightarrow> UINT16" where
  "FcycleDone UseSoftwareSequence = (if UseSoftwareSequence then 0x04 else 0x01)"

primrec wait_loop :: "'h spi_bus \<Rightarrow> UINTN \<Rightarrow> bool \<Rightarrow> bool \<Rightarrow> nat \<Rightarrow> ('h, bool) state" where
  "wait_loop B base sw ErrorCheck 0 = State_Monad.return False"
| "wait_loop B base sw ErrorCheck (Suc ticks) = do {
     Data16 \<leftarrow> MmioRead16 B (base + status_register sw);
     if Data16 AND CycleInProgressBit sw = 0 then do {
       (if sw then MmioWrite8 B (base + status_register sw) (ucast (AelBit sw OR FcErrBit sw OR FcycleDone sw))
        else MmioWrite16 B (base + status_register sw) (AelBit sw OR FcErrBit sw OR FcycleDone sw));
       State_Monad.return (\<not> ((Data16 AND AelBit sw \<noteq> 0 \<or> Data16 AND FcErrBit sw \<noteq> 0) \<and> ErrorCheck)) }
     else do {
       PchPmTimerStall B 10;
       wait_loop B base sw ErrorCheck ticks } }"

definition WaitForSpiCycleComplete :: "'h spi_bus \<Rightarrow> SPI_INSTANCE \<Rightarrow> bool \<Rightarrow> bool \<Rightarrow> ('h, bool) state" where
  "WaitForSpiCycleComplete B I UseSoftwareSequence ErrorCheck = wait_loop B (SpiBase I) UseSoftwareSequence ErrorCheck WaitCount"

section \<open>Addresses\<close>

definition region_limit :: "UINT32 \<Rightarrow> UINTN" where
  "region_limit v = ucast (push_bit 12 (drop_bit 16 (v AND 0x7FFF0000) + 1))"

definition region_base :: "UINT32 \<Rightarrow> UINTN" where
  "region_base v = ucast (push_bit 12 (v AND 0x00007FFF))"

text \<open>Hardware address, base and limit of the region; outside descriptor mode the last two stay uninitialized.\<close>

definition region_bounds :: "'h spi_bus \<Rightarrow> SPI_INSTANCE \<Rightarrow> UINTN \<Rightarrow> ('h, UINTN \<times> UINTN) state" where
  "region_bounds B I reg = do {
     v \<leftarrow> MmioRead32 B (SpiBase I + reg);
     w \<leftarrow> MmioRead32 B (SpiBase I + reg);
     State_Monad.return (region_base v, region_limit w) }"

definition SpiOffset2Physical :: "'h spi_bus \<Rightarrow> SPI_INSTANCE \<Rightarrow> UINTN \<Rightarrow> SPI_REGION_TYPE \<Rightarrow> ('h, UINTN \<times> UINTN \<times> UINTN) state" where
  "SpiOffset2Physical B I SpiRegionOffset SpiRegionType =
    (if DescriptorMode I then do {
       (BaseAddress, LimitAddress) \<leftarrow>
         (case SpiRegionType of
            EnumSpiRegionBios \<Rightarrow> do {
              v \<leftarrow> MmioRead32 B (SpiBase I + R_PCH_SPI_FREG1_BIOS);
              State_Monad.return (region_limit v - InitBiosSize I, region_limit v) }
          | EnumSpiRegionSeC \<Rightarrow> region_bounds B I R_PCH_SPI_FREG2_SEC
          | EnumSpiRegionDescriptor \<Rightarrow> region_bounds B I R_PCH_SPI_FREG0_FLASHD
          | EnumSpiRegionPlatformData \<Rightarrow> region_bounds B I R_PCH_SPI_FREG4_PLATFORM_DATA
          | _ \<Rightarrow> State_Monad.return (0, 0));
       State_Monad.return (SpiRegionOffset + BaseAddress, BaseAddress, LimitAddress) }
     else State_Monad.return
       (if SpiRegionType = EnumSpiRegionAll then SpiRegionOffset else SpiRegionOffset + InitBiosStartOffset I,
        Uninitialized B, Uninitialized B))"

section \<open>Commands\<close>

definition modifies_flash :: "SPI_OPERATION \<Rightarrow> bool" where
  "modifies_flash op \<longleftrightarrow>
    op = EnumSpiOperationProgramData_1_Byte \<or> op = EnumSpiOperationProgramData_64_Byte \<or>
    op = EnumSpiOperationErase_256_Byte \<or> op = EnumSpiOperationErase_4K_Byte \<or> op = EnumSpiOperationErase_8K_Byte \<or>
    op = EnumSpiOperationErase_64K_Byte \<or> op = EnumSpiOperationFullChipErase"

definition uses_software_sequence :: "SPI_INSTANCE \<Rightarrow> SPI_OPERATION \<Rightarrow> bool" where
  "uses_software_sequence I op \<longleftrightarrow>
    op = EnumSpiOperationJedecId \<or> op = EnumSpiOperationReadStatus \<or> op = EnumSpiOperationWriteStatus \<or>
    op = EnumSpiOperationWriteDisable \<or> op = EnumSpiOperationWriteEnable \<or> op = EnumSpiOperationEnableWriteStatus \<or>
    op = EnumSpiOperationOther \<or> op = EnumSpiOperationDiscoveryParameters \<or> \<not> DescriptorMode I"

text \<open>The number of bytes of one cycle.\<close>

definition SpiDataCount :: "SPI_INSTANCE \<Rightarrow> UINT8 \<Rightarrow> SPI_OPERATION \<Rightarrow> UINTN \<Rightarrow> UINT32 \<Rightarrow> UINT32" where
  "SpiDataCount I OpCode op HardwareSpiAddr DataByteCount =
    (let n = (if HardwareSpiAddr + ucast DataByteCount > ((HardwareSpiAddr + 0x100) AND NOT 0xFF)
              then ((ucast HardwareSpiAddr + 0x100) AND NOT 0xFF) - ucast HardwareSpiAddr else DataByteCount)
     in if \<not> DescriptorMode I \<and> (OpCode = 0x02 \<or> op = EnumSpiOperationProgramData_1_Byte) then 1
        else if n \<ge> 64 then 64
        else if n AND NOT 0x07 \<noteq> 0 then n AND NOT 0x07
        else n)"

primrec shift_out :: "'h spi_bus \<Rightarrow> UINTN \<Rightarrow> nat \<Rightarrow> UINT8 list \<Rightarrow> ('h, unit) state" where
  "shift_out B base i [] = State_Monad.return ()"
| "shift_out B base i (b # bs) = do {
     MmioWrite8 B (base + R_PCH_SPI_FDATA00 + of_nat i) b;
     _ \<leftarrow> MmioRead8 B (base + R_PCH_SPI_FDATA00 + of_nat i);
     shift_out B base (Suc i) bs }"

primrec shift_in :: "'h spi_bus \<Rightarrow> UINTN \<Rightarrow> nat \<Rightarrow> nat \<Rightarrow> ('h, UINT8 list) state" where
  "shift_in B base i 0 = State_Monad.return []"
| "shift_in B base i (Suc n) = do {
     b \<leftarrow> MmioRead8 B (base + R_PCH_SPI_FDATA00 + of_nat i);
     bs \<leftarrow> shift_in B base (Suc i) n;
     State_Monad.return (b # bs) }"

definition SpiSoftFreq :: "SPI_CYCLE_FREQUENCY \<Rightarrow> UINT32" where
  "SpiSoftFreq f = (case f of EnumSpiCycle20MHz \<Rightarrow> 0 | EnumSpiCycle33MHz \<Rightarrow> 1 | EnumSpiCycle50MHz \<Rightarrow> 4 | _ \<Rightarrow> 0)"

definition FlashCycle :: "SPI_OPERATION \<Rightarrow> UINT16 option" where
  "FlashCycle op =
    (if op = EnumSpiOperationReadData \<or> op = EnumSpiOperationFastRead \<or> op = EnumSpiOperationDualOutputFastRead then Some (push_bit 1 0)
     else if op = EnumSpiOperationProgramData_1_Byte \<or> op = EnumSpiOperationProgramData_64_Byte then Some (push_bit 1 2)
     else if op = EnumSpiOperationErase_256_Byte \<or> op = EnumSpiOperationErase_4K_Byte \<or> op = EnumSpiOperationErase_8K_Byte \<or>
             op = EnumSpiOperationErase_64K_Byte \<or> op = EnumSpiOperationFullChipErase then Some (push_bit 1 3)
     else None)"

text \<open>Starting a cycle; \<open>False\<close> is an operation hardware sequencing does not know.\<close>

definition start_software_cycle :: "'h spi_bus \<Rightarrow> SPI_INSTANCE \<Rightarrow> UINT8 \<Rightarrow> UINT8 \<Rightarrow> bool \<Rightarrow> bool \<Rightarrow> UINT32 \<Rightarrow> ('h, unit) state" where
  "start_software_cycle B I Index PrefixIndex DataCycle Atomic n = do {
     MmioWrite16 B (SpiBase I + R_PCH_SPI_HSFS) 0x04;
     MmioWrite8 B (SpiBase I + R_PCH_SPI_SSFCS) 0x08;
     (let common = (push_bit 24 (SpiSoftFreq (Frequency (InitConfig I ! unat Index))) AND 0x07000000) OR
            (push_bit 12 (ucast Index) AND 0x7000) OR (push_bit 11 (ucast PrefixIndex) AND 0x800) OR
            (if Atomic then 0x400 else 0) OR 0x200;
          data = 0x400000 OR (push_bit 16 (n - 1) AND 0x3F0000)
      in MmioWrite32 B (SpiBase I + R_PCH_SPI_SSFCS) (0xF8000000 OR (if DataCycle then data OR common else common)));
     _ \<leftarrow> MmioRead32 B (SpiBase I + R_PCH_SPI_SSFCS);
     State_Monad.return () }"

definition start_hardware_cycle :: "'h spi_bus \<Rightarrow> SPI_INSTANCE \<Rightarrow> UINT16 \<Rightarrow> UINT32 \<Rightarrow> ('h, unit) state" where
  "start_hardware_cycle B I cycle n = do {
     MmioWrite16 B (SpiBase I + R_PCH_SPI_HSFS) 0x06;
     MmioWrite16 B (SpiBase I + R_PCH_SPI_HSFC) (ucast (push_bit 8 (n - 1) AND 0x3F00) OR cycle OR 1);
     _ \<leftarrow> MmioRead16 B (SpiBase I + R_PCH_SPI_HSFC);
     State_Monad.return () }"

definition start_cycle :: "'h spi_bus \<Rightarrow> SPI_INSTANCE \<Rightarrow> UINT8 \<Rightarrow> UINT8 \<Rightarrow> bool \<Rightarrow> bool \<Rightarrow> SPI_OPERATION \<Rightarrow> UINT32 \<Rightarrow> ('h, bool) state" where
  "start_cycle B I Index PrefixIndex DataCycle Atomic op n =
    (if uses_software_sequence I op then do {
       start_software_cycle B I Index PrefixIndex DataCycle Atomic n;
       State_Monad.return True }
     else (case FlashCycle op of
             None \<Rightarrow> State_Monad.return False
           | Some cycle \<Rightarrow> do {
               start_hardware_cycle B I cycle n;
               State_Monad.return True }))"

text \<open>
  One turn of the loop up to the end of the cycle: loading the data registers, the address, the command and the wait.
  \<open>None\<close> is an unrecognized operation, otherwise the result tells whether the cycle has completed without an error.
\<close>

definition run_cycle :: "'h spi_bus \<Rightarrow> SPI_INSTANCE \<Rightarrow> UINT8 \<Rightarrow> UINT8 \<Rightarrow> bool \<Rightarrow> bool \<Rightarrow> bool \<Rightarrow> SPI_OPERATION \<Rightarrow>
    UINTN \<Rightarrow> UINT32 \<Rightarrow> UINT8 list \<Rightarrow> ('h, bool option) state" where
  "run_cycle B I Index PrefixIndex DataCycle Atomic ShiftOut op HardwareSpiAddr n Buffer = do {
     (if ShiftOut then shift_out B (SpiBase I) 0 (take (unat n) Buffer) else State_Monad.return ());
     MmioWrite32 B (SpiBase I + R_PCH_SPI_FADDR) (ucast (HardwareSpiAddr AND 0x07FFFFFF));
     _ \<leftarrow> MmioRead32 B (SpiBase I + R_PCH_SPI_FADDR);
     started \<leftarrow> start_cycle B I Index PrefixIndex DataCycle Atomic op n;
     if \<not> started then State_Monad.return None
     else do {
       ok \<leftarrow> WaitForSpiCycleComplete B I (uses_software_sequence I op) True;
       State_Monad.return (Some ok) } }"

definition protect_again :: "'h spi_bus \<Rightarrow> SPI_INSTANCE \<Rightarrow> SPI_OPERATION \<Rightarrow> ('h, unit) state" where
  "protect_again B I op = (if modifies_flash op then EnableBiosWriteProtect B (SpiBase I) else State_Monad.return ())"

text \<open>
  The loop over the cycles of a transfer.  \<open>out\<close> is what the cycles before have read and \<open>Buffer\<close> the rest of the
  buffer; the status comes with the buffer after the transfer.  The first argument bounds the number of cycles; the caller passes
  one more than the byte count, and every cycle of a transfer in descriptor mode takes at least one byte off it, so the bound is
  not reached.
\<close>

primrec SendSpiCmd_loop :: "nat \<Rightarrow> 'h spi_bus \<Rightarrow> SPI_INSTANCE \<Rightarrow> UINT8 \<Rightarrow> UINT8 \<Rightarrow> bool \<Rightarrow> bool \<Rightarrow> bool \<Rightarrow> UINT8 \<Rightarrow> SPI_OPERATION \<Rightarrow>
    UINTN \<Rightarrow> UINT32 \<Rightarrow> UINT8 list \<Rightarrow> UINT8 list \<Rightarrow> ('h, EFI_STATUS \<times> UINT8 list) state" where
  "SendSpiCmd_loop 0 B I Index PrefixIndex DataCycle Atomic ShiftOut OpCode op HardwareSpiAddr DataByteCount out Buffer =
    State_Monad.return (EFI_DEVICE_ERROR, out @ Buffer)"
| "SendSpiCmd_loop (Suc k) B I Index PrefixIndex DataCycle Atomic ShiftOut OpCode op HardwareSpiAddr DataByteCount out Buffer =
    (let n = SpiDataCount I OpCode op HardwareSpiAddr DataByteCount in do {
       r \<leftarrow> run_cycle B I Index PrefixIndex DataCycle Atomic ShiftOut op HardwareSpiAddr n Buffer;
       (case r of
          None \<Rightarrow> State_Monad.return (EFI_ACCESS_DENIED, out @ Buffer)
        | Some ok \<Rightarrow>
          (if \<not> ok then do {
             protect_again B I op;
             State_Monad.return (EFI_DEVICE_ERROR, out @ Buffer) }
           else do {
             new \<leftarrow> (if ShiftOut then State_Monad.return (take (unat n) Buffer) else shift_in B (SpiBase I) 0 (unat n));
             if DataByteCount - n > 0 then
               SendSpiCmd_loop k B I Index PrefixIndex DataCycle Atomic ShiftOut OpCode op (HardwareSpiAddr + ucast n)
                 (DataByteCount - n) (out @ new) (drop (unat n) Buffer)
             else do {
               protect_again B I op;
               State_Monad.return (EFI_SUCCESS, out @ new @ drop (unat n) Buffer) } })) })"

definition SendSpiCmd :: "'h spi_bus \<Rightarrow> SPI_INSTANCE \<Rightarrow> UINT8 \<Rightarrow> UINT8 \<Rightarrow> bool \<Rightarrow> bool \<Rightarrow> bool \<Rightarrow> UINTN \<Rightarrow> UINT32 \<Rightarrow> UINT8 list \<Rightarrow>
    SPI_REGION_TYPE \<Rightarrow> ('h, EFI_STATUS \<times> UINT8 list) state" where
  "SendSpiCmd B I Index PrefixIndex DataCycle Atomic ShiftOut Address DataByteCount Buffer SpiRegionType =
    (let op = Operation (InitConfig I ! unat Index) in do {
       OpCode \<leftarrow> MmioRead8 B (SpiBase I + R_PCH_SPI_OPMENU0 + ucast Index);
       types \<leftarrow> MmioRead16 B (SpiBase I + R_PCH_SPI_OPTYPE);
       if OpCode = 0 \<or> InitBiosSize I = 0 \<and> SpiRegionType = EnumSpiRegionBios then
         State_Monad.return (EFI_INVALID_PARAMETER, Buffer)
       else do {
         (if modifies_flash op then DisableBiosWriteProtect B (SpiBase I) else State_Monad.return ());
         (HardwareSpiAddr, BaseAddress, LimitAddress) \<leftarrow> SpiOffset2Physical B I Address SpiRegionType;
         if drop_bit (unat Index * 2) types AND 3 = 2 \<and> SpiRegionType = EnumSpiRegionBios then do {
           bs \<leftarrow> ReadMemory B (HardwareSpiAddr - BaseAddress + ucast (ucast (NOT (InitBiosSize I - 1)) :: UINT32)) (ucast DataByteCount);
           State_Monad.return (EFI_SUCCESS, bs @ drop (unat DataByteCount) Buffer) }
         else let count = (if DataCycle then DataByteCount else 0)
              in SendSpiCmd_loop (Suc (unat count)) B I Index PrefixIndex DataCycle Atomic ShiftOut OpCode op HardwareSpiAddr count [] Buffer } })"

definition SpiProtocolExecute :: "'h spi_bus \<Rightarrow> SPI_INSTANCE \<Rightarrow> UINT8 \<Rightarrow> UINT8 \<Rightarrow> bool \<Rightarrow> bool \<Rightarrow> bool \<Rightarrow> UINTN \<Rightarrow> UINT32 \<Rightarrow> UINT8 list \<Rightarrow>
    SPI_REGION_TYPE \<Rightarrow> ('h, EFI_STATUS \<times> UINT8 list) state" where
  "SpiProtocolExecute B I Index PrefixIndex DataCycle Atomic ShiftOut Address DataByteCount Buffer SpiRegionType =
    (if Index \<ge> SPI_NUM_OPCODE \<or> PrefixIndex \<ge> SPI_NUM_PREFIX_OPCODE then State_Monad.return (EFI_INVALID_PARAMETER, Buffer)
     else do {
       sw \<leftarrow> WaitForSpiCycleComplete B I True False;
       if \<not> sw then State_Monad.return (EFI_DEVICE_ERROR, Buffer)
       else do {
         hw \<leftarrow> WaitForSpiCycleComplete B I False False;
         if \<not> hw then State_Monad.return (EFI_DEVICE_ERROR, Buffer)
         else do {
           v \<leftarrow> PciRead32 B 0xF8040;
           (let AcpiBase = v AND 0xFF80 in do {
              SmiEnSave \<leftarrow> IoRead32 B (ucast AcpiBase + R_PCH_SMI_EN);
              IoWrite32 B (ucast AcpiBase + R_PCH_SMI_EN) (SmiEnSave AND NOT 1);
              BiosCtlSave \<leftarrow> (if ShiftOut then do {
                  x \<leftarrow> MmioRead8 B (SpiBase I + R_PCH_SPI_BCR);
                  MmioAndThenOr8 B (SpiBase I + R_PCH_SPI_BCR) (NOT 0x0C) 0x04;
                  State_Monad.return (x AND 0x0C) }
                else State_Monad.return 0);
              (Status, b) \<leftarrow> SendSpiCmd B I Index PrefixIndex DataCycle Atomic ShiftOut Address DataByteCount Buffer SpiRegionType;
              (if ShiftOut then MmioAndThenOr8 B (SpiBase I + R_PCH_SPI_BCR) (NOT 0x0C) BiosCtlSave else State_Monad.return ());
              IoWrite32 B (ucast AcpiBase + R_PCH_SMI_EN) SmiEnSave;
              State_Monad.return (Status, b) }) } } })"

section \<open>Identification, initialization and lock\<close>

text \<open>These services change the private data too; they return it with their result.\<close>

definition SpiProtocolReadId :: "'h spi_bus \<Rightarrow> SPI_INSTANCE \<Rightarrow> UINTN \<Rightarrow> UINT8 list \<Rightarrow> ('h, EFI_STATUS \<times> UINT8 list \<times> SPI_INSTANCE) state" where
  "SpiProtocolReadId B I Address Buffer =
    (if fst (SpiIdTable I ! 0) \<noteq> 0 then State_Monad.return (EFI_UNSUPPORTED, Buffer, I)
     else let I' = I\<lparr>InitConfig := (InitConfig I)[0 := \<lparr>Frequency = EnumSpiCycle33MHz, Operation = EnumSpiOperationJedecId\<rparr>]\<rparr> in do {
       MmioWrite8 B (SpiBase I + R_PCH_SPI_OPMENU0) 0x9F;
       _ \<leftarrow> MmioRead8 B (SpiBase I + R_PCH_SPI_OPMENU0);
       MmioWrite16 B (SpiBase I + R_PCH_SPI_OPTYPE) 0;
       _ \<leftarrow> MmioRead16 B (SpiBase I + R_PCH_SPI_OPTYPE);
       (Status, b) \<leftarrow> SpiProtocolExecute B I' 0 0 True True False Address 3 Buffer EnumSpiRegionAll;
       State_Monad.return (if EFI_ERROR Status then Status else EFI_SUCCESS, b, I') })"

definition PchIsSpiDescriptorMode :: "'h spi_bus \<Rightarrow> UINTN \<Rightarrow> ('h, bool) state" where
  "PchIsSpiDescriptorMode B base = do {
     v \<leftarrow> MmioRead16 B (base + R_PCH_SPI_HSFS);
     if v AND 0x4000 = 0x4000 then do {
       MmioAndThenOr32 B (base + R_PCH_SPI_FDOC) (NOT 0x7FFC) 0;
       w \<leftarrow> MmioRead32 B (base + R_PCH_SPI_FDOD);
       State_Monad.return (w = 0x0FF0A55A) }
     else State_Monad.return False }"

definition GetDescriptorValues :: "'h spi_bus \<Rightarrow> SPI_INSTANCE \<Rightarrow> ('h, SPI_INSTANCE) state" where
  "GetDescriptorValues B I = do {
     MmioAndThenOr32 B (SpiBase I + R_PCH_SPI_FDOC) (NOT 0x7FFC) 0x0004;
     v \<leftarrow> MmioRead16 B (SpiBase I + R_PCH_SPI_FDOD);
     MmioAndThenOr32 B (SpiBase I + R_PCH_SPI_FDOC) (NOT 0x7FFC) 0x1000;
     w \<leftarrow> MmioRead32 B (SpiBase I + R_PCH_SPI_FDOD);
     State_Monad.return (I\<lparr>NumberComponents := ucast (drop_bit 8 (v AND 0x0300)) AND 3, Comp1Density := ucast w AND 0x07\<rparr>) }"

definition le32 :: "UINT8 list \<Rightarrow> UINT32" where
  "le32 b = ucast (b ! 0) OR push_bit 8 (ucast (b ! 1)) OR push_bit 16 (ucast (b ! 2)) OR push_bit 24 (ucast (b ! 3))"

text \<open>A read of 32 bits from the descriptor region; an error and all ones both count as absent.\<close>

definition descriptor_dword :: "'h spi_bus \<Rightarrow> SPI_INSTANCE \<Rightarrow> UINT8 \<Rightarrow> UINT32 \<Rightarrow> ('h, UINT32 option) state" where
  "descriptor_dword B I Index a = do {
     (Status, b) \<leftarrow> SpiProtocolExecute B I Index 0 True True False (ucast a) 4 [0, 0, 0, 0] EnumSpiRegionDescriptor;
     State_Monad.return (if EFI_ERROR Status \<or> le32 b = 0xFFFFFFFF then None else Some (le32 b)) }"

text \<open>The search of the VSCC table for the entry of a part, over the offsets of the entries.\<close>

primrec vscc_entry :: "'h spi_bus \<Rightarrow> SPI_INSTANCE \<Rightarrow> UINT8 \<Rightarrow> UINT32 \<Rightarrow> UINT8 \<times> UINT8 \<times> UINT8 \<Rightarrow> nat \<Rightarrow> UINT32 \<Rightarrow> ('h, UINT32 option) state" where
  "vscc_entry B I Index table part 0 off = State_Monad.return None"
| "vscc_entry B I Index table part (Suc k) off = do {
     d \<leftarrow> descriptor_dword B I Index (table + off);
     (case d of
        None \<Rightarrow> State_Monad.return None
      | Some v \<Rightarrow>
        (if v AND 0xFF \<noteq> ucast (fst part) \<or> drop_bit 8 (v AND 0xFF00) \<noteq> ucast (fst (snd part)) \<or>
            drop_bit 16 (v AND 0xFF0000) \<noteq> ucast (snd (snd part))
         then vscc_entry B I Index table part k (off + 8)
         else State_Monad.return (Some off))) }"

definition vscc_value :: "'h spi_bus \<Rightarrow> SPI_INSTANCE \<Rightarrow> UINT8 \<Rightarrow> UINT32 \<Rightarrow> UINT32 \<Rightarrow> nat \<Rightarrow> ('h, UINT32 option) state" where
  "vscc_value B I Index table len i = do {
     e \<leftarrow> vscc_entry B I Index table (SpiIdTable I ! i) (unat (len - 8) div 8 + 1) 0;
     (case e of
        None \<Rightarrow> State_Monad.return None
      | Some off \<Rightarrow> descriptor_dword B I Index (table + off + 4)) }"

text \<open>
  \<open>Inl\<close> carries the status; the first value may have been found when the second has not, and is kept.
\<close>

definition GetDescriptorVsccValues :: "'h spi_bus \<Rightarrow> SPI_INSTANCE \<Rightarrow> UINT8 \<Rightarrow> UINT32 \<Rightarrow> UINT32 \<Rightarrow> ('h, EFI_STATUS \<times> UINT32 \<times> UINT32) state" where
  "GetDescriptorVsccValues B I Index Vscc0Value Vscc1Value =
    (if Index \<ge> SPI_NUM_OPCODE then State_Monad.return (EFI_UNSUPPORTED, Vscc0Value, Vscc1Value)
     else do {
       m \<leftarrow> descriptor_dword B I Index 0xEFC;
       (case m of
          None \<Rightarrow> State_Monad.return (EFI_NOT_FOUND, Vscc0Value, Vscc1Value)
        | Some map1 \<Rightarrow>
          (let table = push_bit 4 (map1 AND 0xFF); len = push_bit 2 (drop_bit 8 (map1 AND 0xFF00)) in
           if len < 8 then State_Monad.return (EFI_NOT_FOUND, Vscc0Value, Vscc1Value)
           else do {
             v0 \<leftarrow> vscc_value B I Index table len 0;
             (case v0 of
                None \<Rightarrow> State_Monad.return (EFI_NOT_FOUND, Vscc0Value, Vscc1Value)
              | Some w0 \<Rightarrow>
                (if NumberComponents I = 0 then State_Monad.return (EFI_SUCCESS, w0, Vscc1Value)
                 else do {
                   v1 \<leftarrow> vscc_value B I Index table len 1;
                   State_Monad.return (case v1 of None \<Rightarrow> (EFI_NOT_FOUND, w0, Vscc1Value) | Some w1 \<Rightarrow> (EFI_SUCCESS, w0, w1)) })) })) })"

text \<open>Opcode type and opcode of an operation.\<close>

definition menu_code :: "SPI_OPERATION \<Rightarrow> UINT16 option \<times> UINT8" where
  "menu_code op =
    (case op of
       EnumSpiOperationReadData \<Rightarrow> (Some 2, 0x03)
     | EnumSpiOperationFastRead \<Rightarrow> (Some 2, 0x0B)
     | EnumSpiOperationDualOutputFastRead \<Rightarrow> (Some 2, 0x3B)
     | EnumSpiOperationDiscoveryParameters \<Rightarrow> (Some 2, 0x5A)
     | EnumSpiOperationProgramData_1_Byte \<Rightarrow> (Some 3, 0x02)
     | EnumSpiOperationProgramData_64_Byte \<Rightarrow> (Some 3, 0x02)
     | EnumSpiOperationErase_256_Byte \<Rightarrow> (Some 3, 0xDB)
     | EnumSpiOperationErase_4K_Byte \<Rightarrow> (Some 3, 0x20)
     | EnumSpiOperationErase_64K_Byte \<Rightarrow> (Some 3, 0xD8)
     | EnumSpiOperationWriteStatus \<Rightarrow> (Some 1, 0x01)
     | EnumSpiOperationWriteDisable \<Rightarrow> (Some 1, 0x04)
     | EnumSpiOperationWriteEnable \<Rightarrow> (Some 1, 0x06)
     | EnumSpiOperationEnableWriteStatus \<Rightarrow> (Some 1, 0x50)
     | EnumSpiOperationFullChipErase \<Rightarrow> (Some 1, 0xC7)
     | EnumSpiOperationReadStatus \<Rightarrow> (Some 0, 0x05)
     | EnumSpiOperationJedecId \<Rightarrow> (Some 0, 0x9F)
     | _ \<Rightarrow> (None, 0))"

definition special_code :: "SPI_SPECIAL_OPCODE_ENTRY list \<Rightarrow> nat \<Rightarrow> UINT16 \<times> UINT8 \<Rightarrow> UINT16 \<times> UINT8" where
  "special_code es i tc =
    fold (\<lambda>e (t, c). if unat (OpcodeIndex e) = i
                       then ((t AND NOT (push_bit (i * 2) 3)) OR push_bit (i * 2) (OpcodeType e), OpcodeCode e) else (t, c)) es tc"

primrec menu_setup :: "'h spi_bus \<Rightarrow> SPI_INSTANCE \<Rightarrow> SPI_INIT_DATA \<Rightarrow> nat list \<Rightarrow> UINT16 \<Rightarrow> ('h, UINT16) state" where
  "menu_setup B I D [] t = State_Monad.return t"
| "menu_setup B I D (i # is) t =
    (let (ty, code) = menu_code (Operation (SpiCmdConfig D ! i));
         (t1, code1) = special_code (SpecialOpcode D) i (case ty of None \<Rightarrow> t | Some k \<Rightarrow> t OR push_bit (i * 2) k, code)
     in do {
       MmioWrite8 B (SpiBase I + R_PCH_SPI_OPMENU0 + of_nat i) code1;
       _ \<leftarrow> MmioRead8 B (SpiBase I + R_PCH_SPI_OPMENU0 + of_nat i);
       menu_setup B I D is t1 })"

text \<open>The last menu position with one of the given operations, or \<open>SPI_NUM_OPCODE\<close>.\<close>

definition last_index :: "(SPI_OPERATION \<Rightarrow> bool) \<Rightarrow> SPI_INIT_DATA \<Rightarrow> UINT8" where
  "last_index P D = fold (\<lambda>i r. if P (Operation (SpiCmdConfig D ! i)) then of_nat i else r) [0 ..< 8] SPI_NUM_OPCODE"

definition is_read :: "SPI_OPERATION \<Rightarrow> bool" where
  "is_read op \<longleftrightarrow> op = EnumSpiOperationReadData \<or> op = EnumSpiOperationFastRead \<or> op = EnumSpiOperationDualOutputFastRead"

text \<open>The capabilities of a part that is not in the table of the descriptor, from the initialization data.\<close>

definition default_vscc :: "SPI_INSTANCE \<Rightarrow> UINT32 \<Rightarrow> UINT32" where
  "default_vscc I v =
    (let w = fold (\<lambda>i w. if Operation (InitConfig I ! i) = EnumSpiOperationErase_4K_Byte then w OR 1 OR push_bit 8 0x20
                         else if Operation (InitConfig I ! i) = EnumSpiOperationProgramData_64_Byte then w OR 4 else w) [0 ..< 8] v
     in if InitPrefix I ! 0 = 0x06 \<or> InitPrefix I ! 1 = 0x06 then w OR 0x10
        else if InitPrefix I ! 0 = 0x50 \<or> InitPrefix I ! 1 = 0x50 then w OR 0x08 else w)"

definition program_vscc :: "'h spi_bus \<Rightarrow> SPI_INSTANCE \<Rightarrow> UINT8 \<Rightarrow> ('h, EFI_STATUS) state" where
  "program_vscc B I ReadDataCmdOpcodeIndex = do {
     (Status, v0, v1) \<leftarrow> GetDescriptorVsccValues B I ReadDataCmdOpcodeIndex 0 0;
     (let w0 = (if EFI_ERROR Status then default_vscc I v0 else v0);
          w1 = (if EFI_ERROR Status then default_vscc I v0 else v1) in do {
        lock \<leftarrow> MmioRead32 B (SpiBase I + R_PCH_SPI_VSCC0);
        if lock AND 0x00800000 \<noteq> 0 then State_Monad.return EFI_ACCESS_DENIED
        else do {
          MmioWrite32 B (SpiBase I + R_PCH_SPI_VSCC0) (w0 AND 0xFFFF);
          MmioWrite32 B (SpiBase I + R_PCH_SPI_VSCC1) ((if NumberComponents I = 0 then w0 else w1) AND 0xFFFF);
          State_Monad.return EFI_SUCCESS } }) }"

definition SpiProtocolInit :: "'h spi_bus \<Rightarrow> SPI_INSTANCE \<Rightarrow> SPI_INIT_DATA option \<Rightarrow> ('h, EFI_STATUS \<times> SPI_INSTANCE) state" where
  "SpiProtocolInit B I data = (case data of None \<Rightarrow> State_Monad.return (EFI_INVALID_PARAMETER, I) | Some InitData \<Rightarrow> do {
     locked \<leftarrow> MmioRead16 B (SpiBase I + R_PCH_SPI_HSFS);
     if locked AND 0x8000 \<noteq> 0 then State_Monad.return (EFI_ACCESS_DENIED, I)
     else do {
       mode \<leftarrow> PchIsSpiDescriptorMode B (SpiBase I);
       I1 \<leftarrow> (if mode then GetDescriptorValues B (I\<lparr>DescriptorMode := True\<rparr>) else State_Monad.return (I\<lparr>DescriptorMode := False\<rparr>));
       MmioOr16 B (SpiBase I + R_PCH_SPI_HSFS) 0x07;
       _ \<leftarrow> MmioRead16 B (SpiBase I + R_PCH_SPI_HSFS);
       MmioOr8 B (SpiBase I + R_PCH_SPI_SSFCS) 0x0C;
       _ \<leftarrow> MmioRead8 B (SpiBase I + R_PCH_SPI_SSFCS);
       (let I2 = I1\<lparr>InitConfig := take 8 (SpiCmdConfig InitData)\<rparr>; JedecIdCmdOpcodeIndex = last_index ((=) EnumSpiOperationJedecId) InitData in do {
          OpcodeTypes \<leftarrow> menu_setup B I2 InitData [0 ..< 8] 0;
          MmioWrite16 B (SpiBase I + R_PCH_SPI_OPTYPE) OpcodeTypes;
          _ \<leftarrow> MmioRead16 B (SpiBase I + R_PCH_SPI_OPTYPE);
          if JedecIdCmdOpcodeIndex \<ge> SPI_NUM_OPCODE then State_Monad.return (EFI_UNSUPPORTED, I2)
          else do {
            (Status, id) \<leftarrow> SpiProtocolExecute B I2 JedecIdCmdOpcodeIndex 0 True True False 0 3 [0, 0, 0] EnumSpiRegionDescriptor;
            if EFI_ERROR Status then State_Monad.return (Status, I2)
            else let I3 = I2\<lparr>SpiIdTable := (SpiIdTable I2)[0 := (id ! 0, id ! 1, id ! 2)], InitBiosStartOffset := BiosStartOffset InitData\<rparr> in do {
              I4 \<leftarrow> (if NumberComponents I3 = 1 then do {
                  (Status1, id1) \<leftarrow> SpiProtocolExecute B I3 JedecIdCmdOpcodeIndex 0 True True False
                    (ucast (push_bit (unat (Comp1Density I3)) 0x80000 :: UINT32)) 3 id EnumSpiRegionAll;
                  State_Monad.return (if EFI_ERROR Status1 then I3
                    else I3\<lparr>SpiIdTable := (SpiIdTable I3)[1 := (id1 ! 0, id1 ! 1, id1 ! 2)]\<rparr>) }
                else State_Monad.return I3);
              MmioWrite16 B (SpiBase I + R_PCH_SPI_PREOP) (push_bit 8 (ucast (PrefixOpcode InitData ! 1)) OR ucast (PrefixOpcode InitData ! 0));
              _ \<leftarrow> MmioRead16 B (SpiBase I + R_PCH_SPI_PREOP);
              (let I5 = I4\<lparr>InitPrefix := take 2 (PrefixOpcode InitData), InitBiosSize := BiosSize InitData\<rparr> in do {
                 Status2 \<leftarrow> (if DescriptorMode I5 then program_vscc B I5 (last_index is_read InitData) else State_Monad.return EFI_SUCCESS);
                 if EFI_ERROR Status2 then State_Monad.return (Status2, I5)
                 else do {
                   SpiPhaseInit B;
                   State_Monad.return (EFI_SUCCESS, I5) } }) } } }) } })"

definition SpiProtocolLock :: "'h spi_bus \<Rightarrow> SPI_INSTANCE \<Rightarrow> ('h, EFI_STATUS) state" where
  "SpiProtocolLock B I = do {
     v \<leftarrow> MmioRead16 B (SpiBase I + R_PCH_SPI_HSFS);
     if v AND 0x8000 \<noteq> 0 then State_Monad.return EFI_ACCESS_DENIED
     else do {
       MmioOr16 B (SpiBase I + R_PCH_SPI_HSFS) 0x8000;
       _ \<leftarrow> MmioRead16 B (SpiBase I + R_PCH_SPI_HSFS);
       w \<leftarrow> MmioRead16 B (SpiBase I + R_PCH_SPI_HSFS);
       State_Monad.return (if w AND 0x8000 = 0 then EFI_DEVICE_ERROR else EFI_SUCCESS) } }"

text \<open>The protocol the driver installs; the state is its private data with the hardware.\<close>

definition SpiProtocol :: "'h spi_bus \<Rightarrow> (SPI_INSTANCE \<times> 'h) EFI_SPI_PROTOCOL" where
  "SpiProtocol B =
    \<lparr>ReadId = (\<lambda>a b (I, h). let ((st, b', I'), h') = run_state (SpiProtocolReadId B I a b) h in (st, b', I', h')),
     Init = (\<lambda>d (I, h). let ((st, I'), h') = run_state (SpiProtocolInit B I (Some d)) h in (st, I', h')),
     Lock = (\<lambda>(I, h). let (st, h') = run_state (SpiProtocolLock B I) h in (st, I, h')),
     Execute = (\<lambda>op pre dc at so a n b r (I, h).
       let ((st, b'), h') = run_state (SpiProtocolExecute B I op pre dc at so a n b r) h in (st, b', I, h'))\<rparr>"

section \<open>Hardware sequencing\<close>

text \<open>A step that keeps a view of the hardware.\<close>

definition keeps :: "('h \<Rightarrow> 'v) \<Rightarrow> ('h, 'a) state \<Rightarrow> bool" where
  "keeps view m \<longleftrightarrow> state_io_rel (\<lambda>h h'. view h' = view h) m"

named_theorems keeps_intro

lemma keepsD: "keeps view m \<Longrightarrow> run_state m h = (x, h') \<Longrightarrow> view h' = view h"
  by (auto simp: keeps_def)

lemma keeps_return [keeps_intro]: "keeps view (State_Monad.return x)"
  by (auto simp: keeps_def)

lemma keeps_bind [keeps_intro]: "keeps view m \<Longrightarrow> (\<And>x. keeps view (f x)) \<Longrightarrow> keeps view (State_Monad.bind m f)"
  by (auto simp: keeps_def state_io_rel_def split: prod.splits) (metis snd_conv)

lemma keeps_if [keeps_intro]: "(c \<Longrightarrow> keeps view m) \<Longrightarrow> (\<not> c \<Longrightarrow> keeps view m') \<Longrightarrow> keeps view (if c then m else m')"
  by simp

lemma keeps_mono: "keeps (\<lambda>h. (u h, v h)) m \<Longrightarrow> keeps u m"
  by (auto simp: keeps_def state_io_rel_def)

lemma run_bind:
  assumes "run_state (State_Monad.bind m f) h = (y, h')"
  obtains x h1 where "run_state m h = (x, h1)" "run_state (f x) h1 = (y, h')"
  using assms by (auto split: prod.splits)

text \<open>
  What the registers do.  Reads, the timer and the ports outside the controller change neither the flash nor the data
  and address registers nor the outcome of a cycle; the control registers that are written outside a cycle change none
  of the first three.  Starting a cycle with the go bit performs it on the flash at the address register, for the count
  and of the kind in the control register, unless it fails; a write cycle must not cross a 256-byte page.  When the
  status register no longer shows a cycle in progress its error bits tell the outcome.
\<close>

locale spi_hardware =
  fixes B :: "'h spi_bus" and base :: UINTN and flash :: "'h \<Rightarrow> flash" and fdata :: "'h \<Rightarrow> nat \<Rightarrow> UINT8"
    and faddr :: "'h \<Rightarrow> nat" and failed :: "'h \<Rightarrow> bool" and fsize :: nat
  assumes fsize: "fsize \<le> 2 ^ 27"
    and reads: "keeps (\<lambda>h. ((flash h, fdata h, faddr h), failed h)) (MmioRead8 B a)"
      "keeps (\<lambda>h. ((flash h, fdata h, faddr h), failed h)) (MmioRead16 B a)"
      "keeps (\<lambda>h. ((flash h, fdata h, faddr h), failed h)) (MmioRead32 B a)"
      "keeps (\<lambda>h. ((flash h, fdata h, faddr h), failed h)) (PchPmTimerStall B t)"
    and ports: "keeps (\<lambda>h. (flash h, fdata h, faddr h)) (PciRead32 B p)"
      "keeps (\<lambda>h. (flash h, fdata h, faddr h)) (IoRead32 B p)" "keeps (\<lambda>h. (flash h, fdata h, faddr h)) (IoWrite32 B p w)"
    and control: "keeps (\<lambda>h. (flash h, fdata h, faddr h)) (MmioWrite8 B (base + R_PCH_SPI_BCR) x)"
      "keeps (\<lambda>h. (flash h, fdata h, faddr h)) (MmioWrite8 B (base + R_PCH_SPI_SSFCS) x)"
      "keeps (\<lambda>h. (flash h, fdata h, faddr h)) (MmioWrite16 B (base + R_PCH_SPI_HSFS) y)"
    and write_data: "\<lbrakk>i < 64; run_state (MmioWrite8 B (base + R_PCH_SPI_FDATA00 + of_nat i) x) h = (u, h')\<rbrakk> \<Longrightarrow>
      flash h' = flash h \<and> fdata h' = (fdata h)(i := x) \<and> faddr h' = faddr h"
    and read_data: "\<lbrakk>i < 64; run_state (MmioRead8 B (base + R_PCH_SPI_FDATA00 + of_nat i)) h = (x, h')\<rbrakk> \<Longrightarrow> x = fdata h i"
    and write_address: "run_state (MmioWrite32 B (base + R_PCH_SPI_FADDR) z) h = (u, h') \<Longrightarrow>
      flash h' = flash h \<and> fdata h' = fdata h \<and> faddr h' = unat z"
    and outcome: "\<lbrakk>run_state (MmioRead16 B (base + R_PCH_SPI_HSFS)) h = (y, h'); y AND 0x20 = 0\<rbrakk> \<Longrightarrow>
      failed h \<longleftrightarrow> y AND 0x04 \<noteq> 0 \<or> y AND 0x02 \<noteq> 0"
    and read_cycle: "\<lbrakk>run_state (MmioWrite16 B (base + R_PCH_SPI_HSFC) (ucast (push_bit 8 ((n :: UINT32) - 1) AND 0x3F00) OR 0 OR 1)) h = (u, h');
      0 < n; unat n \<le> 64; faddr h + unat n \<le> fsize\<rbrakk> \<Longrightarrow>
      flash h' = flash h \<and> (\<not> failed h' \<longrightarrow> (\<forall>i < unat n. fdata h' i = flash h (faddr h + i)))"
    and write_cycle: "\<lbrakk>run_state (MmioWrite16 B (base + R_PCH_SPI_HSFC) (ucast (push_bit 8 ((n :: UINT32) - 1) AND 0x3F00) OR 4 OR 1)) h = (u, h');
      0 < n; unat n \<le> 64; faddr h + unat n \<le> fsize; faddr h mod 256 + unat n \<le> 256\<rbrakk> \<Longrightarrow>
      same_outside (faddr h) (unat n) (flash h) (flash h') \<and>
      (\<not> failed h' \<longrightarrow> flash h' = programmed (faddr h) (map (fdata h) [0 ..< unat n]) (flash h))"
    and erase_cycle: "\<lbrakk>run_state (MmioWrite16 B (base + R_PCH_SPI_HSFC) (ucast (push_bit 8 (0 - 1 :: UINT32) AND 0x3F00) OR 6 OR 1)) h = (u, h');
      faddr h < fsize\<rbrakk> \<Longrightarrow>
      same_outside (faddr h div 4096 * 4096) 4096 (flash h) (flash h') \<and>
      (\<not> failed h' \<longrightarrow> flash h' = erased (faddr h div 4096 * 4096) 4096 (flash h))"
    and menu_set: "\<lbrakk>run_state (MmioRead8 B (base + R_PCH_SPI_OPMENU0 + ucast Ix)) h = (x, h'); Ix < SPI_NUM_OPCODE\<rbrakk> \<Longrightarrow> x \<noteq> 0"
begin

abbreviation view :: "'h \<Rightarrow> flash \<times> (nat \<Rightarrow> UINT8) \<times> nat" where
  "view h \<equiv> (flash h, fdata h, faddr h)"

lemmas quiet_reads = reads [THEN keeps_mono]

lemmas quiet [keeps_intro] = quiet_reads ports control

lemma wait_loop_outcome:
  "run_state (wait_loop B base sw e k) h = (ok, h') \<Longrightarrow> view h' = view h \<and> (\<not> sw \<and> e \<and> ok \<longrightarrow> \<not> failed h)"
proof (induction k arbitrary: h)
  case (Suc k)
  obtain d h1 where d: "run_state (MmioRead16 B (base + status_register sw)) h = (d, h1)" by (meson surj_pair)
  have v1: "view h1 = view h" "failed h1 = failed h" using keepsD [OF reads(2) d] by auto
  show ?case
  proof (cases "d AND CycleInProgressBit sw = 0")
    case True
    have "view h' = view h1" using Suc.prems d True control(2,3)
      by (auto simp: status_register_def dest!: keepsD split: prod.splits if_splits)
    moreover have "\<not> failed h" if "\<not> sw" "e" "ok"
      using Suc.prems d True that outcome [of h d h1]
      by (auto simp: status_register_def CycleInProgressBit_def AelBit_def FcErrBit_def split: prod.splits if_splits)
    ultimately show ?thesis using v1 by auto
  next
    case False
    obtain u h2 where s: "run_state (PchPmTimerStall B 10) h1 = (u, h2)" by (meson surj_pair)
    have v2: "view h2 = view h1" "failed h2 = failed h1" using keepsD [OF reads(4) s] by auto
    have "run_state (wait_loop B base sw e k) h2 = (ok, h')" using Suc.prems d s False by (simp split: prod.splits)
    from Suc.IH [OF this] show ?thesis using v1 v2 by simp
  qed
qed (auto split: prod.splits)

lemma shift_out_loads:
  "run_state (shift_out B base i bs) h = (u, h') \<Longrightarrow> i + length bs \<le> 64 \<Longrightarrow>
    flash h' = flash h \<and> faddr h' = faddr h \<and> (\<forall>j. fdata h' j = (if i \<le> j \<and> j < i + length bs then bs ! (j - i) else fdata h j))"
proof (induction bs arbitrary: i h)
  case (Cons b bs)
  obtain u1 h1 where w: "run_state (MmioWrite8 B (base + R_PCH_SPI_FDATA00 + of_nat i) b) h = (u1, h1)" by (meson surj_pair)
  obtain u2 h2 where r: "run_state (MmioRead8 B (base + R_PCH_SPI_FDATA00 + of_nat i)) h1 = (u2, h2)" by (meson surj_pair)
  have s: "run_state (shift_out B base (Suc i) bs) h2 = (u, h')" using Cons.prems(1) w r by simp
  have "view h2 = (flash h, (fdata h)(i := b), faddr h)"
    using write_data [OF _ w] keepsD [OF quiet_reads(1) r] Cons.prems(2) by simp
  then show ?case using Cons.IH [OF s] Cons.prems(2) by (auto simp: nth_Cons' not_less_eq_eq)
qed auto

lemma shift_in_reads:
  "run_state (shift_in B base i n) h = (bs, h') \<Longrightarrow> i + n \<le> 64 \<Longrightarrow> view h' = view h \<and> bs = map (fdata h) [i ..< i + n]"
proof (induction n arbitrary: i h bs h')
  case (Suc n)
  obtain b h1 where r: "run_state (MmioRead8 B (base + R_PCH_SPI_FDATA00 + of_nat i)) h = (b, h1)" by (meson surj_pair)
  obtain cs h2 where s: "run_state (shift_in B base (Suc i) n) h1 = (cs, h2)" by (meson surj_pair)
  have "view h1 = view h" "b = fdata h i" using keepsD [OF quiet_reads(1) r] read_data [OF _ r] Suc.prems(2) by auto
  moreover have "view h2 = view h1 \<and> cs = map (fdata h1) [Suc i ..< Suc i + n]" using Suc.IH [OF s] Suc.prems(2) by simp
  moreover have "bs = b # cs" "h' = h2" using Suc.prems(1) r s by auto
  moreover have "[i ..< i + Suc n] = i # [Suc i ..< Suc i + n]" by (simp add: upt_conv_Cons del: upt_Suc)
  ultimately show ?case by simp
qed simp

end

lemma unat_address_mask: "unat (a :: UINTN) < 2 ^ 27 \<Longrightarrow> unat (ucast (a AND 0x07FFFFFF) :: UINT32) = unat a"
proof -
  assume a: "unat a < 2 ^ 27"
  have m: "(0x07FFFFFF :: UINTN) = mask 27" by (simp add: mask_eq_exp_minus_1)
  have "unat (a AND 0x07FFFFFF) = unat a" unfolding m using a by (simp add: unat_and_mask64)
  then show ?thesis using a by (simp add: unat_down)
qed

text \<open>A driver whose opcode menu holds the operations the device driver uses, in descriptor mode.\<close>

definition menu_ready :: "UINTN \<Rightarrow> SPI_INSTANCE \<Rightarrow> bool" where
  "menu_ready base I \<longleftrightarrow> SpiBase I = base \<and> DescriptorMode I \<and>
    Operation (InitConfig I ! unat SPI_READ) = EnumSpiOperationReadData \<and>
    Operation (InitConfig I ! unat SPI_PROG) = EnumSpiOperationProgramData_1_Byte \<and>
    Operation (InitConfig I ! unat SPI_SERASE) = EnumSpiOperationErase_4K_Byte"

context spi_hardware
begin

text \<open>The three kinds of cycle, from the load of the data registers to the end of the wait.\<close>

lemma cycle_start:
  assumes I: "SpiBase I = base" "DescriptorMode I" and op: "FlashCycle op = Some c" "\<not> uses_software_sequence I op"
    and run: "run_state (run_cycle B I Index Prefix dc at so op a n buf) h = (r, h')" and a: "unat a < 2 ^ 27"
    and n: "unat n \<le> 64"
  obtains ok h1 h2 u where "r = Some ok" "flash h1 = flash h" "faddr h1 = unat a"
    "so \<longrightarrow> (\<forall>j < unat n. j < length buf \<longrightarrow> fdata h1 j = buf ! j)"
    "run_state (MmioWrite16 B (base + R_PCH_SPI_HSFC) (ucast (push_bit 8 (n - 1) AND 0x3F00) OR c OR 1)) h1 = (u, h2)"
    "view h' = view h2" "ok \<longrightarrow> \<not> failed h2"
proof -
  let ?load = "if so then shift_out B base 0 (take (unat n) buf) else State_Monad.return ()"
  obtain u1 h1 where 1: "run_state ?load h = (u1, h1)" by (meson surj_pair)
  obtain u2 h2 where 2: "run_state (MmioWrite32 B (base + R_PCH_SPI_FADDR) (ucast (a AND 0x07FFFFFF))) h1 = (u2, h2)" by (meson surj_pair)
  obtain u3 h3 where 3: "run_state (MmioRead32 B (base + R_PCH_SPI_FADDR)) h2 = (u3, h3)" by (meson surj_pair)
  obtain u4 h4 where 4: "run_state (MmioWrite16 B (base + R_PCH_SPI_HSFS) 0x06) h3 = (u4, h4)" by (meson surj_pair)
  let ?v = "ucast (push_bit 8 (n - 1) AND 0x3F00) OR c OR 1"
  obtain u5 h5 where 5: "run_state (MmioWrite16 B (base + R_PCH_SPI_HSFC) ?v) h4 = (u5, h5)" by (meson surj_pair)
  obtain u6 h6 where 6: "run_state (MmioRead16 B (base + R_PCH_SPI_HSFC)) h5 = (u6, h6)" by (meson surj_pair)
  obtain ok h7 where 7: "run_state (wait_loop B base False True WaitCount) h6 = (ok, h7)" by (meson surj_pair)
  have l: "flash h1 = flash h" "so \<longrightarrow> (\<forall>j < unat n. j < length buf \<longrightarrow> fdata h1 j = buf ! j)"
    using 1 n shift_out_loads [of 0 "take (unat n) buf" h u1 h1] by (auto split: if_splits)
  have v2: "flash h2 = flash h1" "fdata h2 = fdata h1" "faddr h2 = unat a"
    using write_address [OF 2] a by (auto simp: unat_address_mask)
  have v4: "view h3 = view h2" "view h4 = view h3" using keepsD [OF quiet_reads(3) 3] keepsD [OF control(3) 4] by auto
  have v6: "view h6 = view h5" "failed h6 = failed h5" using keepsD [OF reads(2) 6] by auto
  have v7: "view h7 = view h6" "ok \<longrightarrow> \<not> failed h6" using wait_loop_outcome [OF 7] by auto
  have "r = Some ok" "h' = h7"
    using run 1 2 3 4 5 6 7 op I
    by (auto simp: run_cycle_def start_cycle_def start_hardware_cycle_def WaitForSpiCycleComplete_def split: if_splits)
  then show thesis using that [of ok h4 u5 h5] l v2 v4 v6 v7 5 by auto
qed

lemma read_cycle_runs:
  assumes I: "menu_ready base I" and run: "run_state (run_cycle B I Index Prefix dc at False EnumSpiOperationReadData a n buf) h = (r, h')"
    and n: "0 < n" "unat n \<le> 64" "unat a + unat n \<le> fsize"
  shows "\<exists>ok. r = Some ok \<and> flash h' = flash h \<and> (ok \<longrightarrow> (\<forall>i < unat n. fdata h' i = flash h (unat a + i)))"
proof -
  have c: "FlashCycle EnumSpiOperationReadData = Some 0" "\<not> uses_software_sequence I EnumSpiOperationReadData"
    "SpiBase I = base" "DescriptorMode I" using I by (simp_all add: FlashCycle_def uses_software_sequence_def menu_ready_def)
  have a27: "unat a < 2 ^ 27" using n(1,3) fsize by (simp add: word_less_nat_alt)
  obtain ok h1 h2 u where s: "r = Some ok" "flash h1 = flash h" "faddr h1 = unat a"
      "run_state (MmioWrite16 B (base + R_PCH_SPI_HSFC) (ucast (push_bit 8 (n - 1) AND 0x3F00) OR 0 OR 1)) h1 = (u, h2)"
      "view h' = view h2" "ok \<longrightarrow> \<not> failed h2"
    by (rule cycle_start [OF c(3,4,1,2) run a27 n(2)])
  show ?thesis using s read_cycle [OF s(4) n(1,2)] n(3) by auto
qed

lemma write_cycle_runs:
  assumes I: "menu_ready base I"
    and run: "run_state (run_cycle B I Index Prefix dc at True EnumSpiOperationProgramData_1_Byte a n buf) h = (r, h')"
    and n: "0 < n" "unat n \<le> 64" "unat a + unat n \<le> fsize" "unat a mod 256 + unat n \<le> 256" "unat n \<le> length buf"
  shows "\<exists>ok. r = Some ok \<and> same_outside (unat a) (unat n) (flash h) (flash h') \<and>
    (ok \<longrightarrow> flash h' = programmed (unat a) (take (unat n) buf) (flash h))"
proof -
  have c: "FlashCycle EnumSpiOperationProgramData_1_Byte = Some 4" "\<not> uses_software_sequence I EnumSpiOperationProgramData_1_Byte"
    "SpiBase I = base" "DescriptorMode I" using I by (simp_all add: FlashCycle_def uses_software_sequence_def menu_ready_def)
  have a27: "unat a < 2 ^ 27" using n(1,3) fsize by (simp add: word_less_nat_alt)
  obtain ok h1 h2 u where s: "r = Some ok" "flash h1 = flash h" "faddr h1 = unat a" "\<forall>j < unat n. fdata h1 j = buf ! j"
      "run_state (MmioWrite16 B (base + R_PCH_SPI_HSFC) (ucast (push_bit 8 (n - 1) AND 0x3F00) OR 4 OR 1)) h1 = (u, h2)"
      "view h' = view h2" "ok \<longrightarrow> \<not> failed h2"
    by (rule cycle_start [OF c(3,4,1,2) run a27 n(2)]) (use n(5) in auto)
  have "map (fdata h1) [0 ..< unat n] = take (unat n) buf" using s(4) n(5) by (auto intro: nth_equalityI)
  then show ?thesis using s write_cycle [OF s(5) n(1,2)] n(3,4) by auto
qed

lemma erase_cycle_runs:
  assumes I: "menu_ready base I" and run: "run_state (run_cycle B I Index Prefix dc at so EnumSpiOperationErase_4K_Byte a 0 buf) h = (r, h')"
    and a: "unat a < fsize"
  shows "\<exists>ok. r = Some ok \<and> same_outside (unat a div 4096 * 4096) 4096 (flash h) (flash h') \<and>
    (ok \<longrightarrow> flash h' = erased (unat a div 4096 * 4096) 4096 (flash h))"
proof -
  have c: "FlashCycle EnumSpiOperationErase_4K_Byte = Some 6" "\<not> uses_software_sequence I EnumSpiOperationErase_4K_Byte"
    "SpiBase I = base" "DescriptorMode I" using I by (simp_all add: FlashCycle_def uses_software_sequence_def menu_ready_def)
  obtain ok h1 h2 u where s: "r = Some ok" "flash h1 = flash h" "faddr h1 = unat a"
      "run_state (MmioWrite16 B (base + R_PCH_SPI_HSFC) (ucast (push_bit 8 (0 - 1 :: UINT32) AND 0x3F00) OR 6 OR 1)) h1 = (u, h2)"
      "view h' = view h2" "ok \<longrightarrow> \<not> failed h2"
    using cycle_start [OF c(3,4,1,2) run] a fsize by auto
  show ?thesis using s erase_cycle [OF s(4)] a by auto
qed

end

lemma unat_and_mask: "unat ((w :: 'a::len word) AND mask n) = unat w mod 2 ^ n"
  by (simp flip: take_bit_eq_mask add: unsigned_take_bit_eq take_bit_nat_def)

lemma unat_and_not_mask: "unat ((w :: 'a::len word) AND NOT (mask n)) = unat w div 2 ^ n * 2 ^ n"
proof -
  have "(w AND mask n) AND (w AND NOT (mask n)) = w AND (mask n AND NOT (mask n))"
    by (simp only: ac_simps and.left_idem)
  then have "(w AND mask n) + (w AND NOT (mask n)) = (w AND mask n) OR (w AND NOT (mask n))"
    by (intro disjunctive_add_eq_or) simp
  also have "\<dots> = w" by (simp flip: bit.conj_disj_distrib)
  finally have "w AND NOT (mask n) = w - (w AND mask n)" by (simp add: algebra_simps)
  moreover have "w AND mask n \<le> w" by (simp add: word_le_nat_alt unat_and_mask)
  ultimately have "unat (w AND NOT (mask n)) = unat w - unat w mod 2 ^ n" by (simp add: unat_sub unat_and_mask)
  then show ?thesis by (simp add: minus_mod_eq_div_mult)
qed

lemma next_page: "unat ((a :: UINTN) + 0x100) = unat a + 256 \<Longrightarrow> unat ((a + 0x100) AND NOT 0xFF) = (unat a div 256 + 1) * 256"
proof -
  assume *: "unat (a + 0x100) = unat a + 256"
  have "(0xFF :: UINTN) = mask 8" by (simp add: mask_eq_exp_minus_1)
  then have "unat ((a + 0x100) AND NOT 0xFF) = unat (a + 0x100) div 256 * 256" using unat_and_not_mask [of "a + 0x100" 8] by simp
  then show ?thesis by (simp add: * div_add_self2 add_mult_distrib)
qed

lemma next_page32: "unat ((a :: UINT32) + 0x100) = unat a + 256 \<Longrightarrow> unat ((a + 0x100) AND NOT 0xFF) = (unat a div 256 + 1) * 256"
proof -
  assume *: "unat (a + 0x100) = unat a + 256"
  have "(0xFF :: UINT32) = mask 8" by (simp add: mask_eq_exp_minus_1)
  then have "unat ((a + 0x100) AND NOT 0xFF) = unat (a + 0x100) div 256 * 256" using unat_and_not_mask [of "a + 0x100" 8] by simp
  then show ?thesis by (simp add: * div_add_self2 add_mult_distrib)
qed

lemma page_trim:
  fixes x m :: nat
  shows "(x div 256 + 1) * 256 < x + m \<longleftrightarrow> 256 - x mod 256 < m" "(x div 256 + 1) * 256 - x = 256 - x mod 256" "x \<le> (x div 256 + 1) * 256"
proof -
  have "x = x div 256 * 256 + x mod 256" "x mod 256 < 256" by simp_all
  then obtain q r where "x = q * 256 + r" "r < 256" "x div 256 = q" "x mod 256 = r" by blast
  then show "(x div 256 + 1) * 256 < x + m \<longleftrightarrow> 256 - x mod 256 < m" "(x div 256 + 1) * 256 - x = 256 - x mod 256"
    "x \<le> (x div 256 + 1) * 256" by auto
qed

lemma SpiDataCount_unat:
  assumes I: "DescriptorMode I" and a: "unat a + unat m \<le> 2 ^ 27"
  shows "unat (SpiDataCount I OpCode op a m) =
    (let t = min (unat m) (256 - unat a mod 256) in if 64 \<le> t then 64 else if 8 \<le> t then t div 8 * 8 else t)"
proof -
  have b: "unat a < 4294967296 - 256" "unat a < 2 ^ 64 - 256" using a by auto
  have u: "unat (ucast a :: UINT32) = unat a" using b by (simp add: unat_down)
  have p64: "unat ((a + 0x100) AND NOT 0xFF) = (unat a div 256 + 1) * 256"
    using b by (intro next_page) (simp add: unat_word_ariths)
  have p32: "unat ((ucast a + 0x100) AND NOT 0xFF :: UINT32) = (unat a div 256 + 1) * 256"
    using b next_page32 [of "ucast a"] u by (simp add: unat_word_ariths)
  have s: "unat (a + ucast m) = unat a + unat m" using a unat_add_noov [of a "ucast m"] by simp
  let ?t = "if a + ucast m > ((a + 0x100) AND NOT 0xFF) then ((ucast a + 0x100) AND NOT 0xFF) - ucast a else m"
  have le: "(ucast a :: UINT32) \<le> (ucast a + 0x100) AND NOT 0xFF"
    unfolding word_le_nat_alt p32 u by (rule page_trim(3))
  have t: "unat ?t = min (unat m) (256 - unat a mod 256)"
  proof (cases "a + ucast m > ((a + 0x100) AND NOT 0xFF)")
    case True
    then have "256 - unat a mod 256 < unat m" unfolding word_less_nat_alt p64 s page_trim(1) .
    moreover have "unat (((ucast a + 0x100) AND NOT 0xFF :: UINT32) - ucast a) = 256 - unat a mod 256"
      unfolding unat_sub [OF le] p32 u by (rule page_trim(2))
    ultimately show ?thesis using True by simp
  next
    case False
    then have "\<not> 256 - unat a mod 256 < unat m" unfolding word_less_nat_alt p64 s page_trim(1) .
    then show ?thesis using False by simp
  qed
  have m7: "unat (?t AND NOT 0x07) = unat ?t div 8 * 8"
    using unat_and_not_mask [of ?t 3] by (simp add: mask_eq_exp_minus_1)
  have z: "?t AND NOT 0x07 = 0 \<longleftrightarrow> unat ?t < 8" using m7 by (metis div_eq_0_iff mult_is_0 unat_eq_zero zero_neq_numeral)
  show ?thesis
    unfolding SpiDataCount_def Let_def using I t m7 z by (simp add: word_le_nat_alt not_less)
qed

lemma count_facts:
  fixes OpCode op
  assumes "DescriptorMode I" "unat a + unat m \<le> 2 ^ 27" "0 < m"
  defines "n \<equiv> SpiDataCount I OpCode op a m"
  shows "0 < n" "unat n \<le> 64" "unat n \<le> unat m" "unat a mod 256 + unat n \<le> 256"
    "unat (m - n) = unat m - unat n" "unat (a + ucast n) = unat a + unat n"
proof -
  have m: "0 < unat m" using assms(3) by (simp add: word_less_nat_alt)
  have r: "unat a mod 256 < 256" by simp
  have n: "0 < unat n" "unat n \<le> 64" "unat n \<le> unat m" "unat n \<le> 256 - unat a mod 256"
    unfolding n_def SpiDataCount_unat [OF assms(1,2)] Let_def using m r by (auto intro: order_trans [OF div_times_less_eq_dividend])
  then show "0 < n" "unat n \<le> 64" "unat n \<le> unat m" by (simp_all add: word_less_nat_alt)
  show "unat a mod 256 + unat n \<le> 256" using n(4) r by linarith
  show "unat (m - n) = unat m - unat n" using n(3) by (simp add: unat_sub word_le_nat_alt)
  show "unat (a + ucast n) = unat a + unat n" using assms(2) n(3) unat_add_noov [of a "ucast n"] by simp
qed

context spi_hardware
begin

lemma protect_quiet: "menu_ready base I \<Longrightarrow> keeps view (protect_again B I op)"
  unfolding protect_again_def EnableBiosWriteProtect_def MmioAnd8_def by (simp add: menu_ready_def) (intro conjI impI keeps_intro)

lemma program_loop:
  "menu_ready base I \<Longrightarrow> unat m < k \<Longrightarrow> 0 < m \<Longrightarrow> unat a + unat m \<le> fsize \<Longrightarrow> unat m \<le> length buf \<Longrightarrow>
    run_state (SendSpiCmd_loop k B I Ix Px dc at True OpCode EnumSpiOperationProgramData_1_Byte a m out buf) h = ((st, b'), h') \<Longrightarrow>
    same_outside (unat a) (unat m) (flash h) (flash h') \<and>
    (\<not> EFI_ERROR st \<longrightarrow> st = EFI_SUCCESS \<and> flash h' = programmed (unat a) (take (unat m) buf) (flash h)) \<and>
    (EFI_ERROR st \<longrightarrow> st = EFI_DEVICE_ERROR)"
proof (induction k arbitrary: a m out buf h)
  case (Suc k)
  let ?op = "EnumSpiOperationProgramData_1_Byte"
  let ?n = "SpiDataCount I OpCode ?op a m"
  have I: "DescriptorMode I" using Suc.prems(1) by (simp add: menu_ready_def)
  note n = count_facts [OF I order_trans [OF Suc.prems(4) fsize] Suc.prems(3), of OpCode ?op]
  obtain r h1 where c: "run_state (run_cycle B I Ix Px dc at True ?op a ?n buf) h = (r, h1)" by (meson surj_pair)
  obtain ok where ok: "r = Some ok" "same_outside (unat a) (unat ?n) (flash h) (flash h1)"
      "ok \<longrightarrow> flash h1 = programmed (unat a) (take (unat ?n) buf) (flash h)"
    using write_cycle_runs [OF Suc.prems(1) c n(1,2) _ n(4)] n(3) Suc.prems(4,5) by auto
  have so: "same_outside (unat a) (unat m) (flash h) (flash h1)"
    using ok(2) by (rule same_outside_mono) (use n(3) in auto)
  obtain u h2 where p: "run_state (protect_again B I ?op) h1 = (u, h2)" by (meson surj_pair)
  have v: "flash h2 = flash h1" using keepsD [OF protect_quiet [OF Suc.prems(1)] p] by simp
  consider "\<not> ok" | "ok" "m - ?n = 0" | "ok" "0 < m - ?n" by (auto simp: word_gt_0)
  then show ?case
  proof cases
    case 1
    then show ?thesis using Suc.prems(6) c ok p v so by (simp add: Let_def)
  next
    case 2
    then have "unat ?n = unat m" using n(3,5) by simp
    then show ?thesis using 2 Suc.prems(6) c ok p v so by (simp add: Let_def)
  next
    case 3
    have rest: "run_state (SendSpiCmd_loop k B I Ix Px dc at True OpCode ?op (a + ucast ?n) (m - ?n) (out @ take (unat ?n) buf)
        (drop (unat ?n) buf)) h1 = ((st, b'), h')" using Suc.prems(6) c ok 3 by (simp add: Let_def)
    have IH: "same_outside (unat a + unat ?n) (unat m - unat ?n) (flash h1) (flash h') \<and>
        (\<not> EFI_ERROR st \<longrightarrow> st = EFI_SUCCESS \<and>
          flash h' = programmed (unat a + unat ?n) (take (unat m - unat ?n) (drop (unat ?n) buf)) (flash h1)) \<and>
        (EFI_ERROR st \<longrightarrow> st = EFI_DEVICE_ERROR)"
      using Suc.IH [OF Suc.prems(1) _ 3(2) _ _ rest] n Suc.prems(2,4,5) by (simp add: word_less_nat_alt)
    have "same_outside (unat a) (unat m) (flash h1) (flash h')"
      using conjunct1 [OF IH] by (rule same_outside_mono) (use n(3) in auto)
    then have "same_outside (unat a) (unat m) (flash h) (flash h')" using so same_outside_trans by blast
    moreover have "flash h' = programmed (unat a) (take (unat m) buf) (flash h)" if "\<not> EFI_ERROR st"
    proof -
      have len: "length (take (unat ?n) buf) = unat ?n" using n(3) Suc.prems(5) by simp
      have "take (unat ?n) buf @ take (unat m - unat ?n) (drop (unat ?n) buf) = take (unat m) buf"
        using n(3) take_add [of "unat ?n" "unat m - unat ?n" buf] by simp
      then show ?thesis
        using IH that ok(3) 3(1) len programmed_append [of "unat a" "take (unat ?n) buf" "take (unat m - unat ?n) (drop (unat ?n) buf)" "flash h"]
        by simp
    qed
    ultimately show ?thesis using IH by blast
  qed
qed simp

lemma read_loop:
  "menu_ready base I \<Longrightarrow> unat m < k \<Longrightarrow> 0 < m \<Longrightarrow> unat a + unat m \<le> fsize \<Longrightarrow> unat m = length buf \<Longrightarrow>
    run_state (SendSpiCmd_loop k B I Ix Px dc at False OpCode EnumSpiOperationReadData a m out buf) h = ((st, b'), h') \<Longrightarrow>
    flash h' = flash h \<and> length b' = length out + length buf \<and>
    (\<not> EFI_ERROR st \<longrightarrow> st = EFI_SUCCESS \<and> b' = out @ flash_bytes (unat a) (unat m) (flash h))"
proof (induction k arbitrary: a m out buf h)
  case (Suc k)
  let ?op = "EnumSpiOperationReadData"
  let ?n = "SpiDataCount I OpCode ?op a m"
  have I: "DescriptorMode I" "SpiBase I = base" using Suc.prems(1) by (simp_all add: menu_ready_def)
  note n = count_facts [OF I(1) order_trans [OF Suc.prems(4) fsize] Suc.prems(3), of OpCode ?op]
  obtain r h1 where c: "run_state (run_cycle B I Ix Px dc at False ?op a ?n buf) h = (r, h1)" by (meson surj_pair)
  obtain ok where ok: "r = Some ok" "flash h1 = flash h" "ok \<longrightarrow> (\<forall>i < unat ?n. fdata h1 i = flash h (unat a + i))"
    using read_cycle_runs [OF Suc.prems(1) c n(1,2)] n(3) Suc.prems(4) by auto
  obtain new h2 where s: "run_state (shift_in B base 0 (unat ?n)) h1 = (new, h2)" by (meson surj_pair)
  have new: "flash h2 = flash h" "new = map (fdata h1) [0 ..< unat ?n]" using shift_in_reads [OF s] n(2) ok(2) by auto
  then have new': "ok \<longrightarrow> new = flash_bytes (unat a) (unat ?n) (flash h)"
    using ok(3) by (auto simp: flash_bytes_def intro: nth_equalityI)
  have q: "flash h'' = flash h'''" if "run_state (protect_again B I ?op) h''' = (u, h'')" for u h'' h'''
    using keepsD [OF protect_quiet [OF Suc.prems(1)] that] by simp
  obtain u h3 where p: "run_state (protect_again B I ?op) h1 = (u, h3)" by (meson surj_pair)
  obtain w h4 where p2: "run_state (protect_again B I ?op) h2 = (w, h4)" by (meson surj_pair)
  consider "\<not> ok" | "ok" "m - ?n = 0" | "ok" "0 < m - ?n" by (auto simp: word_gt_0)
  then show ?case
  proof cases
    case 1
    then show ?thesis using Suc.prems(6) c ok p q [OF p] by (auto simp: Let_def)
  next
    case 2
    then have m: "unat ?n = unat m" using n(3,5) by simp
    have "st = EFI_SUCCESS" "b' = out @ new @ drop (unat ?n) buf" "h' = h4"
      using Suc.prems(6) c ok s p2 2 I(2) by (simp_all add: Let_def)
    then show ?thesis using m new new' 2(1) Suc.prems(5) q [OF p2] by simp
  next
    case 3
    have rest: "run_state (SendSpiCmd_loop k B I Ix Px dc at False OpCode ?op (a + ucast ?n) (m - ?n) (out @ new)
        (drop (unat ?n) buf)) h2 = ((st, b'), h')" using Suc.prems(6) c ok s 3 I(2) by (simp add: Let_def)
    have IH: "flash h' = flash h2 \<and> length b' = length (out @ new) + length (drop (unat ?n) buf) \<and>
        (\<not> EFI_ERROR st \<longrightarrow> st = EFI_SUCCESS \<and> b' = (out @ new) @ flash_bytes (unat a + unat ?n) (unat m - unat ?n) (flash h2))"
      using Suc.IH [OF Suc.prems(1) _ 3(2) _ _ rest] n Suc.prems(2,4,5) by (simp add: word_less_nat_alt)
    then show ?thesis
      using new new' 3(1) n(3) Suc.prems(5) flash_bytes_append [of "unat a" "unat ?n" "flash h" "unat m - unat ?n"] by auto
  qed
qed simp

lemma erase_loop:
  assumes "menu_ready base I" "unat a < fsize"
    and run: "run_state (SendSpiCmd_loop (Suc 0) B I Ix Px dc at False OpCode EnumSpiOperationErase_4K_Byte a 0 [] buf) h = ((st, b'), h')"
  shows "same_outside (unat a div 4096 * 4096) 4096 (flash h) (flash h') \<and>
    (\<not> EFI_ERROR st \<longrightarrow> st = EFI_SUCCESS \<and> flash h' = erased (unat a div 4096 * 4096) 4096 (flash h)) \<and>
    (EFI_ERROR st \<longrightarrow> st = EFI_DEVICE_ERROR)"
proof -
  let ?op = "EnumSpiOperationErase_4K_Byte"
  have I: "DescriptorMode I" "SpiBase I = base" using assms(1) by (simp_all add: menu_ready_def)
  have n: "SpiDataCount I OpCode ?op a 0 = 0"
    using SpiDataCount_unat [OF I(1), of a 0 OpCode ?op] assms(2) fsize by (simp add: unat_eq_zero)
  obtain r h1 where c: "run_state (run_cycle B I Ix Px dc at False ?op a 0 buf) h = (r, h1)" by (meson surj_pair)
  obtain ok where ok: "r = Some ok" "same_outside (unat a div 4096 * 4096) 4096 (flash h) (flash h1)"
      "ok \<longrightarrow> flash h1 = erased (unat a div 4096 * 4096) 4096 (flash h)"
    using erase_cycle_runs [OF assms(1) c assms(2)] by auto
  obtain u h2 where p: "run_state (protect_again B I ?op) h1 = (u, h2)" by (meson surj_pair)
  have v: "flash h2 = flash h1" using keepsD [OF protect_quiet [OF assms(1)] p] by simp
  show ?thesis using run c ok p v n by (cases ok) (auto simp: Let_def)
qed

end

context spi_hardware
begin

lemma SendSpiCmd_all:
  assumes I: "menu_ready base I" and ix: "Ix < SPI_NUM_OPCODE"
    and run: "run_state (SendSpiCmd B I Ix Px dc at so a m buf EnumSpiRegionAll) h = ((st, b'), h')"
  shows "\<exists>h1 OpCode. view h1 = view h \<and>
      run_state (SendSpiCmd_loop (Suc (unat (if dc then m else 0))) B I Ix Px dc at so OpCode (Operation (InitConfig I ! unat Ix)) a
        (if dc then m else 0) [] buf) h1 = ((st, b'), h')"
proof -
  let ?op = "Operation (InitConfig I ! unat Ix)"
  have b: "SpiBase I = base" "DescriptorMode I" using I by (simp_all add: menu_ready_def)
  obtain oc h1 where 1: "run_state (MmioRead8 B (base + R_PCH_SPI_OPMENU0 + ucast Ix)) h = (oc, h1)" by (meson surj_pair)
  obtain ty h2 where 2: "run_state (MmioRead16 B (base + R_PCH_SPI_OPTYPE)) h1 = (ty, h2)" by (meson surj_pair)
  let ?dis = "if modifies_flash ?op then DisableBiosWriteProtect B (SpiBase I) else State_Monad.return ()"
  obtain u h3 where 3: "run_state ?dis h2 = (u, h3)" by (meson surj_pair)
  have kd: "keeps view ?dis" unfolding DisableBiosWriteProtect_def MmioOr8_def b by (intro keeps_intro)
  have v: "view h1 = view h" "view h2 = view h1" "view h3 = view h2"
    using keepsD [OF quiet_reads(1) 1] keepsD [OF quiet_reads(2) 2] keepsD [OF kd 3] by auto
  have "oc \<noteq> 0" by (rule menu_set [OF 1 ix])
  then have "run_state (SendSpiCmd_loop (Suc (unat (if dc then m else 0))) B I Ix Px dc at so oc ?op a (if dc then m else 0) [] buf) h3 = ((st, b'), h')"
    using run 1 2 3 b by (simp add: SendSpiCmd_def SpiOffset2Physical_def Let_def del: SendSpiCmd_loop.simps)
  then show ?thesis using v by (metis (no_types))
qed

lemma Execute_all:
  assumes I: "menu_ready base I" and ix: "Ix < SPI_NUM_OPCODE" "Px < SPI_NUM_PREFIX_OPCODE"
    and run: "run_state (SpiProtocolExecute B I Ix Px dc at so a m buf EnumSpiRegionAll) h = ((st, b'), h')"
  shows "st = EFI_DEVICE_ERROR \<and> b' = buf \<and> view h' = view h \<or>
    (\<exists>h1 h2 OpCode. view h1 = view h \<and> view h' = view h2 \<and>
      run_state (SendSpiCmd_loop (Suc (unat (if dc then m else 0))) B I Ix Px dc at so OpCode (Operation (InitConfig I ! unat Ix)) a
        (if dc then m else 0) [] buf) h1 = ((st, b'), h2))"
proof -
  have b: "SpiBase I = base" using I by (simp add: menu_ready_def)
  have nix: "\<not> SPI_NUM_OPCODE \<le> Ix" "\<not> SPI_NUM_PREFIX_OPCODE \<le> Px" using ix by (simp_all add: not_le)
  obtain sw h1 where 1: "run_state (wait_loop B base True False WaitCount) h = (sw, h1)" by (meson surj_pair)
  obtain hw h2 where 2: "run_state (wait_loop B base False False WaitCount) h1 = (hw, h2)" by (meson surj_pair)
  obtain x h3 where 3: "run_state (PciRead32 B 0xF8040) h2 = (x, h3)" by (meson surj_pair)
  let ?smi = "ucast (x AND 0xFF80) + R_PCH_SMI_EN"
  obtain en h4 where 4: "run_state (IoRead32 B ?smi) h3 = (en, h4)" by (meson surj_pair)
  obtain u h5 where 5: "run_state (IoWrite32 B ?smi (en AND NOT 1)) h4 = (u, h5)" by (meson surj_pair)
  let ?save = "if so then do {
      x \<leftarrow> MmioRead8 B (SpiBase I + R_PCH_SPI_BCR);
      MmioAndThenOr8 B (SpiBase I + R_PCH_SPI_BCR) (NOT 0x0C) 0x04;
      State_Monad.return (x AND 0x0C) } else State_Monad.return 0"
  obtain sv h6 where 6: "run_state ?save h5 = (sv, h6)" by (meson surj_pair)
  obtain st1 b1 h7 where 7: "run_state (SendSpiCmd B I Ix Px dc at so a m buf EnumSpiRegionAll) h6 = ((st1, b1), h7)" by (metis surj_pair)
  let ?rest = "if so then MmioAndThenOr8 B (SpiBase I + R_PCH_SPI_BCR) (NOT 0x0C) sv else State_Monad.return ()"
  obtain u1 h8 where 8: "run_state ?rest h7 = (u1, h8)" by (meson surj_pair)
  obtain u2 h9 where 9: "run_state (IoWrite32 B ?smi en) h8 = (u2, h9)" by (meson surj_pair)
  have k: "keeps view ?save" "keeps view ?rest" unfolding MmioAndThenOr8_def b by (intro keeps_intro)+
  have v2: "view h1 = view h" "view h2 = view h" using wait_loop_outcome [OF 1] wait_loop_outcome [OF 2] by auto
  have v6: "view h6 = view h"
    using v2 keepsD [OF ports(1) 3] keepsD [OF ports(2) 4] keepsD [OF ports(3) 5] keepsD [OF k(1) 6] by simp
  have v9: "view h9 = view h7" using keepsD [OF k(2) 8] keepsD [OF ports(3) 9] by simp
  show ?thesis
  proof (cases "sw \<and> hw")
    case False
    then have "st = EFI_DEVICE_ERROR \<and> b' = buf \<and> (h' = h1 \<or> h' = h2)"
      using run 1 2 nix b by (cases sw) (simp_all add: SpiProtocolExecute_def WaitForSpiCycleComplete_def)
    then show ?thesis using v2 by auto
  next
    case True
    have "st = st1" "b' = b1" "h' = h9"
      using run 1 2 3 4 5 6 7 8 9 True nix b
      by (simp_all add: SpiProtocolExecute_def WaitForSpiCycleComplete_def Let_def)
    then show ?thesis using SendSpiCmd_all [OF I ix(1) 7] v6 v9 by (metis (no_types))
  qed
qed

end

context spi_hardware
begin

lemma Execute_run:
  assumes "Execute (SpiProtocol B) op pre dc at so a n b EnumSpiRegionAll s = (st, b', s')"
  obtains h' where "run_state (SpiProtocolExecute B (fst s) op pre dc at so a n b EnumSpiRegionAll) (snd s) = ((st, b'), h')"
    "s' = (fst s, h')"
  using assms by (auto simp: SpiProtocol_def Let_def split: prod.splits)

lemmas opcode_bounds = SPI_NUM_OPCODE_def SPI_NUM_PREFIX_OPCODE_def SPI_READ_def SPI_PROG_def SPI_SERASE_def SPI_WREN_def

lemma read_command:
  assumes ok: "menu_ready base (fst s)" and n: "0 < n" "unat a + unat n \<le> fsize" "length b = unat n"
    and ex: "Execute (SpiProtocol B) SPI_READ 0 True True False a n b EnumSpiRegionAll s = (st, b', s')"
  shows "menu_ready base (fst s') \<and> flash (snd s') = flash (snd s) \<and> length b' = length b \<and>
    (\<not> EFI_ERROR st \<longrightarrow> st = EFI_SUCCESS \<and> b' = flash_bytes (unat a) (unat n) (flash (snd s)))"
proof -
  obtain h' where run: "run_state (SpiProtocolExecute B (fst s) SPI_READ 0 True True False a n b EnumSpiRegionAll) (snd s) = ((st, b'), h')"
    and s': "s' = (fst s, h')" by (rule Execute_run [OF ex])
  have bnd: "SPI_READ < SPI_NUM_OPCODE" "0 < SPI_NUM_PREFIX_OPCODE" by (simp_all add: opcode_bounds)
  have op: "Operation (InitConfig (fst s) ! unat SPI_READ) = EnumSpiOperationReadData" using ok by (simp add: menu_ready_def)
  consider "st = EFI_DEVICE_ERROR" "b' = b" "view h' = view (snd s)"
    | h1 h2 OpCode where "view h1 = view (snd s)" "view h' = view h2"
      "run_state (SendSpiCmd_loop (Suc (unat n)) B (fst s) SPI_READ 0 True True False OpCode EnumSpiOperationReadData a n [] b) h1 = ((st, b'), h2)"
    using Execute_all [OF ok bnd run] unfolding op if_True if_False unat_0 by blast
  then show ?thesis
  proof cases
    case 2
    show ?thesis using read_loop [OF ok lessI n(1,2) n(3) [symmetric] 2(3)] 2(1,2) ok s' by simp
  qed (use ok s' in simp)
qed

lemma prog_command:
  assumes ok: "menu_ready base (fst s)" and n: "0 < n" "unat a + unat n \<le> fsize" "length b = unat n"
    and ex: "Execute (SpiProtocol B) SPI_PROG SPI_WREN True True True a n b EnumSpiRegionAll s = (st, b', s')"
  shows "menu_ready base (fst s') \<and> same_outside (unat a) (unat n) (flash (snd s)) (flash (snd s')) \<and>
    (\<not> EFI_ERROR st \<longrightarrow> st = EFI_SUCCESS \<and> flash (snd s') = programmed (unat a) b (flash (snd s))) \<and> (EFI_ERROR st \<longrightarrow> st = EFI_DEVICE_ERROR)"
proof -
  obtain h' where run: "run_state (SpiProtocolExecute B (fst s) SPI_PROG SPI_WREN True True True a n b EnumSpiRegionAll) (snd s) = ((st, b'), h')"
    and s': "s' = (fst s, h')" by (rule Execute_run [OF ex])
  have bnd: "SPI_PROG < SPI_NUM_OPCODE" "SPI_WREN < SPI_NUM_PREFIX_OPCODE" by (simp_all add: opcode_bounds)
  have op: "Operation (InitConfig (fst s) ! unat SPI_PROG) = EnumSpiOperationProgramData_1_Byte" using ok by (simp add: menu_ready_def)
  consider "st = EFI_DEVICE_ERROR" "b' = b" "view h' = view (snd s)"
    | h1 h2 OpCode where "view h1 = view (snd s)" "view h' = view h2"
      "run_state (SendSpiCmd_loop (Suc (unat n)) B (fst s) SPI_PROG SPI_WREN True True True OpCode EnumSpiOperationProgramData_1_Byte a n [] b) h1 = ((st, b'), h2)"
    using Execute_all [OF ok bnd run] unfolding op if_True if_False unat_0 by blast
  then show ?thesis
  proof cases
    case 2
    show ?thesis using program_loop [OF ok lessI n(1,2) eq_imp_le [OF n(3) [symmetric]] 2(3)] 2(1,2) n(3) ok s' by simp
  qed (use ok s' in simp)
qed

lemma erase_command:
  assumes ok: "menu_ready base (fst s)" and a: "unat a < fsize"
    and ex: "Execute (SpiProtocol B) SPI_SERASE SPI_WREN False True False a 0 [] EnumSpiRegionAll s = (st, b', s')"
  shows "menu_ready base (fst s') \<and> same_outside (unat a div 4096 * 4096) 4096 (flash (snd s)) (flash (snd s')) \<and>
    (\<not> EFI_ERROR st \<longrightarrow> st = EFI_SUCCESS \<and> flash (snd s') = erased (unat a div 4096 * 4096) 4096 (flash (snd s))) \<and>
    (EFI_ERROR st \<longrightarrow> st = EFI_DEVICE_ERROR)"
proof -
  obtain h' where run: "run_state (SpiProtocolExecute B (fst s) SPI_SERASE SPI_WREN False True False a 0 [] EnumSpiRegionAll) (snd s) = ((st, b'), h')"
    and s': "s' = (fst s, h')" by (rule Execute_run [OF ex])
  have bnd: "SPI_SERASE < SPI_NUM_OPCODE" "SPI_WREN < SPI_NUM_PREFIX_OPCODE" by (simp_all add: opcode_bounds)
  have op: "Operation (InitConfig (fst s) ! unat SPI_SERASE) = EnumSpiOperationErase_4K_Byte" using ok by (simp add: menu_ready_def)
  consider "st = EFI_DEVICE_ERROR" "view h' = view (snd s)"
    | h1 h2 OpCode where "view h1 = view (snd s)" "view h' = view h2"
      "run_state (SendSpiCmd_loop (Suc 0) B (fst s) SPI_SERASE SPI_WREN False True False OpCode EnumSpiOperationErase_4K_Byte a 0 [] []) h1 = ((st, b'), h2)"
    using Execute_all [OF ok bnd run] unfolding op if_True if_False unat_0 by blast
  then show ?thesis
  proof cases
    case 2
    show ?thesis using erase_loop [OF ok a 2(3)] 2(1,2) ok s' by simp
  qed (use ok s' in simp)
qed

end

sublocale spi_hardware \<subseteq> ctl: spi_controller "SpiProtocol B" "\<lambda>s. flash (snd s)" "\<lambda>s. menu_ready base (fst s)" fsize
proof (unfold_locales, goal_cases)
  case (2 s n a b st b' s')
  then show ?case using read_command [of s n a b st b' s'] by blast
next
  case (3 s n a b st b' s')
  then show ?case using prog_command [of s n a b st b' s'] by blast
next
  case (4 s a st b' s')
  then show ?case using erase_command [of s a st b' s'] by blast
qed (rule fsize)

context spi_hardware
begin

lemma controller: "spi_controller (SpiProtocol B) (\<lambda>s. flash (snd s)) (\<lambda>s. menu_ready base (fst s)) fsize"
  by (rule ctl.spi_controller_axioms)

end

section \<open>A simulated controller\<close>

text \<open>
  Registers that behave as the contract says: every cycle succeeds and is finished when its status is first read.
\<close>

record sim_hw =
  SimFlash :: flash
  SimData :: "nat \<Rightarrow> UINT8"
  SimAddr :: nat
  SimBcr :: UINT8

definition sim_base :: UINTN where "sim_base = 0xFED01000"

definition sim_go :: "UINT16 \<Rightarrow> sim_hw \<Rightarrow> sim_hw" where
  "sim_go v h =
    (let n = unat (drop_bit 8 (v AND 0x3F00)) + 1
     in if v AND 6 = 0 then h\<lparr>SimData := (\<lambda>i. if i < n then SimFlash h (SimAddr h + i) else SimData h i)\<rparr>
        else if v AND 6 = 4 then h\<lparr>SimFlash := programmed (SimAddr h) (map (SimData h) [0 ..< n]) (SimFlash h)\<rparr>
        else h\<lparr>SimFlash := erased (SimAddr h div 4096 * 4096) 4096 (SimFlash h)\<rparr>)"

definition sim_bus :: "sim_hw spi_bus" where
  "sim_bus =
    \<lparr>MmioRead8 = (\<lambda>a. State (\<lambda>h. (if a - (sim_base + R_PCH_SPI_FDATA00) < 64 then SimData h (unat (a - (sim_base + R_PCH_SPI_FDATA00)))
       else if a = sim_base + R_PCH_SPI_BCR then SimBcr h else 0xFF, h))),
     MmioRead16 = (\<lambda>a. State_Monad.return 0), MmioRead32 = (\<lambda>a. State_Monad.return 0),
     MmioWrite8 = (\<lambda>a v. State (\<lambda>h. ((), if a - (sim_base + R_PCH_SPI_FDATA00) < 64
       then h\<lparr>SimData := (SimData h)(unat (a - (sim_base + R_PCH_SPI_FDATA00)) := v)\<rparr>
       else if a = sim_base + R_PCH_SPI_BCR then h\<lparr>SimBcr := v\<rparr> else h))),
     MmioWrite16 = (\<lambda>a v. State (\<lambda>h. ((), if a = sim_base + R_PCH_SPI_HSFC \<and> v AND 1 \<noteq> 0 then sim_go v h else h))),
     MmioWrite32 = (\<lambda>a v. State (\<lambda>h. ((), if a = sim_base + R_PCH_SPI_FADDR then h\<lparr>SimAddr := unat v\<rparr> else h))),
     PciRead32 = (\<lambda>a. State_Monad.return 0), IoRead32 = (\<lambda>a. State_Monad.return 0), IoWrite32 = (\<lambda>a v. State_Monad.return ()),
     PchPmTimerStall = (\<lambda>t. State_Monad.return ()), ReadMemory = (\<lambda>a n. State_Monad.return (replicate (unat n) 0)),
     SpiPhaseInit = State_Monad.return (), Uninitialized = 0\<rparr>"

lemma cycle_counts:
  "list_all (\<lambda>c. list_all (\<lambda>k. let v = ucast (push_bit 8 (of_nat k - 1 :: UINT32) AND 0x3F00) OR c OR 1 :: UINT16 in
     unat (drop_bit 8 (v AND 0x3F00)) + 1 = k \<and> v AND 6 = c \<and> v AND 1 \<noteq> 0) [1 ..< 65]) [0, 4, 6]"
  by code_simp

lemma cycle_word:
  assumes "unat (n :: UINT32) \<le> 64" "0 < n" "c = 0 \<or> c = 4"
  defines "v \<equiv> ucast (push_bit 8 (n - 1) AND 0x3F00) OR c OR 1 :: UINT16"
  shows "unat (drop_bit 8 (v AND 0x3F00)) + 1 = unat n" "v AND 6 = c" "v AND 1 \<noteq> 0"
proof -
  have n: "unat n \<in> set [1 ..< 65]" "of_nat (unat n) = n" using assms(1,2) by (auto simp: word_less_nat_alt)
  then have "unat (drop_bit 8 (v AND 0x3F00)) + 1 = unat n \<and> v AND 6 = c \<and> v AND 1 \<noteq> 0"
    using cycle_counts assms(3) unfolding v_def list_all_iff Let_def by (metis list.set_intros)
  then show "unat (drop_bit 8 (v AND 0x3F00)) + 1 = unat n" "v AND 6 = c" "v AND 1 \<noteq> 0" by auto
qed

lemma erase_word: "(ucast (push_bit 8 (0 - 1 :: UINT32) AND 0x3F00) OR 6 OR 1 :: UINT16) = 0x3F07"
  by code_simp

lemma data_register: "i < 64 \<Longrightarrow> (of_nat i :: UINTN) < 64 \<and> unat (of_nat i :: UINTN) = i"
  by (simp add: word_less_nat_alt unat_of_nat)

lemmas sim_defs = sim_bus_def sim_base_def register_defs

interpretation sim: spi_hardware sim_bus sim_base SimFlash SimData SimAddr "\<lambda>_. False" "0x800000"
proof (unfold_locales, goal_cases)
  case (12 i x h u h')
  then show ?case using data_register [of i] by (auto simp: sim_bus_def)
next
  case (13 i h x h')
  then show ?case using data_register [of i] by (auto simp: sim_bus_def)
next
  case (16 n h u h')
  then show ?case using cycle_word [of n 0] by (auto simp: sim_bus_def sim_go_def Let_def)
next
  case (17 n h u h')
  then show ?case
    using cycle_word [of n 4] same_outside_programmed [of "SimAddr h" "map (SimData h) [0 ..< unat n]" "SimFlash h"]
    by (auto simp: sim_bus_def sim_go_def Let_def)
next
  case (18 h u h')
  then show ?case unfolding erase_word by (auto simp: sim_bus_def sim_go_def Let_def)
next
  case (19 Ix h x h')
  have "unat (ucast Ix :: UINTN) < 8" using 19(2) by (simp add: word_less_nat_alt SPI_NUM_OPCODE_def unsigned_ucast_eq take_bit_nat_def)
  then show ?case using 19(1) by (auto simp: sim_defs word_less_nat_alt word_unat_eq_iff unat_word_ariths split: if_splits)
qed (auto simp: sim_defs keeps_def)

section \<open>Write protection\<close>

lemma control_bytes:
  "list_all (\<lambda>n. let x = of_nat n :: UINT8 in x AND 1 = 0 \<longrightarrow>
     ((x AND NOT 0x0C) OR 0x04) AND NOT 0x0C OR (x AND 0x0C) = x \<and>
     ((((x AND NOT 0x0C) OR 0x04) AND NOT 1) AND NOT 0x0C) OR (x AND 0x0C) = x \<and> x AND NOT 1 = x) [0 ..< 256]"
  by code_simp

lemma restored_byte:
  assumes "(x :: UINT8) AND 1 = 0"
  shows "((x AND NOT 0x0C) OR 0x04) AND NOT 0x0C OR (x AND 0x0C) = x"
    "((((x AND NOT 0x0C) OR 0x04) AND NOT 1) AND NOT 0x0C) OR (x AND 0x0C) = x" "x AND NOT 1 = x"
proof -
  have "unat x < 256" using unsigned_less [of x] by simp
  then have "unat x \<in> set [0 ..< 256]" by simp
  from bspec [OF control_bytes [unfolded list_all_iff Let_def] this]
  show "((x AND NOT 0x0C) OR 0x04) AND NOT 0x0C OR (x AND 0x0C) = x"
    "((((x AND NOT 0x0C) OR 0x04) AND NOT 1) AND NOT 0x0C) OR (x AND 0x0C) = x" "x AND NOT 1 = x"
    using assms by auto
qed

text \<open>
  The BIOS control register keeps what is written to it, and no other access of the driver changes it.
\<close>

locale bcr_hardware =
  fixes B :: "'h spi_bus" and base :: UINTN and bcr :: "'h \<Rightarrow> UINT8"
  assumes bcr_reads: "keeps bcr (MmioRead8 B a)" "keeps bcr (MmioRead16 B a)" "keeps bcr (MmioRead32 B a)"
      "keeps bcr (PchPmTimerStall B t)" "keeps bcr (PciRead32 B a)" "keeps bcr (IoRead32 B a)" "keeps bcr (IoWrite32 B a x)"
    and bcr_others: "keeps bcr (MmioWrite8 B (base + R_PCH_SPI_SSFCS) y)" "i < 64 \<Longrightarrow> keeps bcr (MmioWrite8 B (base + R_PCH_SPI_FDATA00 + of_nat i) y)"
      "keeps bcr (MmioWrite16 B (base + R_PCH_SPI_HSFS) z)" "keeps bcr (MmioWrite16 B (base + R_PCH_SPI_HSFC) z)"
      "keeps bcr (MmioWrite32 B (base + R_PCH_SPI_FADDR) x)" "keeps bcr (MmioWrite32 B (base + R_PCH_SPI_SSFCS) x)"
    and bcr_write: "run_state (MmioWrite8 B (base + R_PCH_SPI_BCR) y) h = (u, h') \<Longrightarrow> bcr h' = y"
    and bcr_read: "run_state (MmioRead8 B (base + R_PCH_SPI_BCR)) h = (y, h') \<Longrightarrow> y = bcr h"
begin

lemmas bcr_quiet [keeps_intro] = bcr_reads bcr_others(1,3-6)

lemma wait_bcr [keeps_intro]: "keeps bcr (wait_loop B base sw e k)"
  by (induction k) (auto simp: status_register_def intro!: keeps_intro)

lemma shift_out_bcr: "i + length bs \<le> 64 \<Longrightarrow> keeps bcr (shift_out B base i bs)"
  by (induction bs arbitrary: i) (auto intro!: keeps_intro bcr_others(2))

lemma shift_in_bcr [keeps_intro]: "keeps bcr (shift_in B base i n)"
  by (induction n arbitrary: i) (auto intro!: keeps_intro)

lemma start_bcr: assumes "SpiBase I = base" shows "keeps bcr (start_cycle B I Ix Px dc at op n)"
  by (auto simp: start_cycle_def start_software_cycle_def start_hardware_cycle_def Let_def split: option.splits
      intro!: keeps_intro bcr_quiet [folded assms])

lemma run_cycle_bcr:
  assumes "SpiBase I = base" "unat n \<le> 64"
  shows "keeps bcr (run_cycle B I Ix Px dc at so op a n buf)"
  unfolding run_cycle_def assms(1) WaitForSpiCycleComplete_def
  using assms by (intro keeps_intro shift_out_bcr start_bcr) auto

lemma run_cycle_Some:
  "modifies_flash op \<Longrightarrow> run_state (run_cycle B I Ix Px dc at so op a n buf) h = (r, h') \<Longrightarrow> r \<noteq> None"
  by (auto simp: run_cycle_def start_cycle_def modifies_flash_def FlashCycle_def split: prod.splits if_splits)

definition protected_after :: "SPI_OPERATION \<Rightarrow> UINT8 \<Rightarrow> UINT8" where
  "protected_after op x = (if modifies_flash op then x AND NOT 1 else x)"

lemma protect_bit:
  assumes "SpiBase I = base" "run_state (protect_again B I op) h = (u, h')"
  shows "bcr h' = protected_after op (bcr h)"
proof (cases "modifies_flash op")
  case True
  obtain v h1 where r: "run_state (MmioRead8 B (base + R_PCH_SPI_BCR)) h = (v, h1)" by (meson surj_pair)
  have "run_state (MmioWrite8 B (base + R_PCH_SPI_BCR) (v AND NOT 1)) h1 = (u, h')"
    using assms True r by (simp add: protect_again_def EnableBiosWriteProtect_def MmioAnd8_def)
  then show ?thesis using bcr_write bcr_read [OF r] True by (auto simp: protected_after_def)
next
  case False
  then show ?thesis using assms(2) by (simp add: protect_again_def protected_after_def)
qed

lemma loop_protects:
  "SpiBase I = base \<Longrightarrow> DescriptorMode I \<Longrightarrow> unat m < k \<Longrightarrow> unat a + unat m \<le> 2 ^ 27 \<Longrightarrow>
    run_state (SendSpiCmd_loop k B I Ix Px dc at so OpCode op a m out buf) h = (r, h') \<Longrightarrow> bcr h' = protected_after op (bcr h)"
proof (induction k arbitrary: a m out buf h)
  case (Suc k)
  let ?n = "SpiDataCount I OpCode op a m"
  note n = SpiDataCount_unat [OF Suc.prems(2,4), of OpCode op, unfolded Let_def]
  have n64: "unat ?n \<le> 64" unfolding n by (auto intro: order_trans [OF div_times_less_eq_dividend])
  have n0: "m = 0 \<Longrightarrow> ?n = 0" using n by (simp add: unat_eq_zero)
  obtain c h1 where c: "run_state (run_cycle B I Ix Px dc at so op a ?n buf) h = (c, h1)" by (meson surj_pair)
  have b1: "bcr h1 = bcr h" by (rule keepsD [OF run_cycle_bcr [OF Suc.prems(1) n64] c])
  let ?in = "if so then State_Monad.return (take (unat ?n) buf) else shift_in B (SpiBase I) 0 (unat ?n)"
  obtain new h2 where s: "run_state ?in h1 = (new, h2)" by (meson surj_pair)
  have b2: "bcr h2 = bcr h1" by (rule keepsD [OF _ s], unfold Suc.prems(1)) (intro keeps_intro)
  obtain u h3 where p1: "run_state (protect_again B I op) h1 = (u, h3)" by (meson surj_pair)
  obtain v h4 where p2: "run_state (protect_again B I op) h2 = (v, h4)" by (meson surj_pair)
  consider "c = None" | "c = Some False" | "c = Some True" "\<not> 0 < m - ?n" | "c = Some True" "0 < m - ?n" "0 < m"
    using n0 by (cases c) (force simp: word_gt_0)+
  then show ?case
  proof cases
    case 1
    then have "\<not> modifies_flash op" using run_cycle_Some [OF _ c] by auto
    then show ?thesis using 1 b1 Suc.prems(5) c by (simp add: Let_def protected_after_def)
  next
    case 2
    then show ?thesis using Suc.prems(1,5) c p1 b1 protect_bit [OF Suc.prems(1) p1] by (simp add: Let_def)
  next
    case 3
    then have "h' = h4" using Suc.prems(5) c s p2 by (simp add: Let_def del: word_gt_0 word_neq_0_conv)
    then show ?thesis using b1 b2 protect_bit [OF Suc.prems(1) p2] by simp
  next
    case 4
    note f = count_facts [OF Suc.prems(2,4) 4(3), of OpCode op]
    have "run_state (SendSpiCmd_loop k B I Ix Px dc at so OpCode op (a + ucast ?n) (m - ?n) (out @ new) (drop (unat ?n) buf)) h2 = (r, h')"
      using Suc.prems(5) c s 4(1,2) by (simp add: Let_def del: word_gt_0 word_neq_0_conv)
    from Suc.IH [OF Suc.prems(1,2) _ _ this] show ?thesis using f Suc.prems(3,4) b1 b2 by (simp add: word_less_nat_alt)
  qed
qed simp

lemma SendSpiCmd_protects:
  assumes I: "SpiBase I = base" "DescriptorMode I" and a: "unat a + unat m \<le> 2 ^ 27"
    and run: "run_state (SendSpiCmd B I Ix Px dc at so a m buf EnumSpiRegionAll) h = (r, h')"
  shows "bcr h' = bcr h \<or> bcr h' = bcr h AND NOT 1"
proof -
  let ?op = "Operation (InitConfig I ! unat Ix)" and ?m = "if dc then m else 0"
  obtain oc h1 where 1: "run_state (MmioRead8 B (base + R_PCH_SPI_OPMENU0 + ucast Ix)) h = (oc, h1)" by (meson surj_pair)
  obtain ty h2 where 2: "run_state (MmioRead16 B (base + R_PCH_SPI_OPTYPE)) h1 = (ty, h2)" by (meson surj_pair)
  have v: "bcr h1 = bcr h" "bcr h2 = bcr h" using keepsD [OF bcr_reads(1) 1] keepsD [OF bcr_reads(2) 2] by auto
  let ?dis = "if modifies_flash ?op then DisableBiosWriteProtect B (SpiBase I) else State_Monad.return ()"
  obtain u h3 where 3: "run_state ?dis h2 = (u, h3)" by (meson surj_pair)
  show ?thesis
  proof (cases "oc = 0")
    case True
    then show ?thesis using run 1 2 v I by (auto simp: SendSpiCmd_def Let_def)
  next
    case False
    have l: "run_state (SendSpiCmd_loop (Suc (unat ?m)) B I Ix Px dc at so oc ?op a ?m [] buf) h3 = (r, h')"
      using run 1 2 3 False I by (simp add: SendSpiCmd_def SpiOffset2Physical_def Let_def del: SendSpiCmd_loop.simps)
    have "bcr h' = protected_after ?op (bcr h3)" by (rule loop_protects [OF I _ _ l]) (use a in auto)
    moreover have "bcr h3 = (if modifies_flash ?op then bcr h OR 1 else bcr h)"
    proof (cases "modifies_flash ?op")
      case True
      obtain x h4 where r: "run_state (MmioRead8 B (base + R_PCH_SPI_BCR)) h2 = (x, h4)" by (meson surj_pair)
      have "run_state (MmioWrite8 B (base + R_PCH_SPI_BCR) (x OR 1)) h4 = (u, h3)"
        using 3 True r I(1) by (simp add: DisableBiosWriteProtect_def MmioOr8_def)
      then show ?thesis using bcr_write bcr_read [OF r] True v by auto
    qed (use 3 v in simp)
    moreover have "(x OR 1) AND NOT 1 = x AND NOT 1" for x :: UINT8
      by (simp add: bit.conj_disj_distrib2)
    ultimately show ?thesis by (simp add: protected_after_def)
  qed
qed

lemma AndThenOr_bcr:
  assumes "run_state (MmioAndThenOr8 B (base + R_PCH_SPI_BCR) v w) h = (u, h')" shows "bcr h' = bcr h AND v OR w"
proof -
  obtain x h1 where r: "run_state (MmioRead8 B (base + R_PCH_SPI_BCR)) h = (x, h1)" by (meson surj_pair)
  then have "run_state (MmioWrite8 B (base + R_PCH_SPI_BCR) (x AND v OR w)) h1 = (u, h')"
    using assms by (simp add: MmioAndThenOr8_def)
  then show ?thesis using bcr_write bcr_read [OF r] by auto
qed

lemma Execute_protects:
  assumes I: "SpiBase I = base" "DescriptorMode I" and a: "unat a + unat m \<le> 2 ^ 27" and p: "bcr h AND 1 = 0"
    and run: "run_state (SpiProtocolExecute B I Ix Px dc at so a m buf EnumSpiRegionAll) h = (r, h')"
  shows "bcr h' = bcr h"
proof -
  obtain sw h1 where 1: "run_state (wait_loop B base True False WaitCount) h = (sw, h1)" by (meson surj_pair)
  obtain hw h2 where 2: "run_state (wait_loop B base False False WaitCount) h1 = (hw, h2)" by (meson surj_pair)
  obtain x h3 where 3: "run_state (PciRead32 B 0xF8040) h2 = (x, h3)" by (meson surj_pair)
  let ?smi = "ucast (x AND 0xFF80) + R_PCH_SMI_EN"
  obtain en h4 where 4: "run_state (IoRead32 B ?smi) h3 = (en, h4)" by (meson surj_pair)
  obtain u h5 where 5: "run_state (IoWrite32 B ?smi (en AND NOT 1)) h4 = (u, h5)" by (meson surj_pair)
  have v: "bcr h1 = bcr h" "bcr h2 = bcr h" "bcr h5 = bcr h"
    using keepsD [OF wait_bcr 1] keepsD [OF wait_bcr 2] keepsD [OF bcr_reads(5) 3] keepsD [OF bcr_reads(6) 4] keepsD [OF bcr_reads(7) 5]
    by auto
  let ?save = "if so then do {
      x \<leftarrow> MmioRead8 B (SpiBase I + R_PCH_SPI_BCR);
      MmioAndThenOr8 B (SpiBase I + R_PCH_SPI_BCR) (NOT 0x0C) 0x04;
      State_Monad.return (x AND 0x0C) } else State_Monad.return 0"
  obtain sv h6 where 6: "run_state ?save h5 = (sv, h6)" by (meson surj_pair)
  have b6: "if so then sv = bcr h AND 0x0C \<and> bcr h6 = (bcr h AND NOT 0x0C) OR 0x04 else bcr h6 = bcr h"
  proof (cases so)
    case True
    obtain y k where r: "run_state (MmioRead8 B (base + R_PCH_SPI_BCR)) h5 = (y, k)" by (meson surj_pair)
    obtain u k1 where w: "run_state (MmioAndThenOr8 B (base + R_PCH_SPI_BCR) (NOT 0x0C) 0x04) k = (u, k1)" by (meson surj_pair)
    have "sv = y AND 0x0C" "k1 = h6" using 6 True r w I(1) by simp_all
    then show ?thesis using AndThenOr_bcr [OF w] bcr_read [OF r] keepsD [OF bcr_reads(1) r] v True by simp
  qed (use 6 v in simp)
  obtain q h7 where 7: "run_state (SendSpiCmd B I Ix Px dc at so a m buf EnumSpiRegionAll) h6 = (q, h7)" by (meson surj_pair)
  let ?rest = "if so then MmioAndThenOr8 B (SpiBase I + R_PCH_SPI_BCR) (NOT 0x0C) sv else State_Monad.return ()"
  obtain u1 h8 where 8: "run_state ?rest h7 = (u1, h8)" by (meson surj_pair)
  obtain u2 h9 where 9: "run_state (IoWrite32 B ?smi en) h8 = (u2, h9)" by (meson surj_pair)
  have b9: "bcr h9 = (if so then bcr h7 AND NOT 0x0C OR sv else bcr h7)"
    using keepsD [OF bcr_reads(7) 9] 8 AndThenOr_bcr I(1) by (auto split: if_splits)
  have "bcr h9 = bcr h" using SendSpiCmd_protects [OF I a 7] b6 b9 restored_byte [OF p] by (auto split: if_splits)
  moreover have "h' \<in> {h, h1, h2, h9}"
    using run 1 2 3 4 5 6 7 8 9 I
    by (cases sw; cases hw; cases q) (auto simp: SpiProtocolExecute_def WaitForSpiCycleComplete_def Let_def split: if_splits)
  ultimately show ?thesis using v by auto
qed

end

interpretation sim_bcr: bcr_hardware sim_bus sim_base SimBcr
proof (unfold_locales, goal_cases)
  case (9 i y)
  then show ?case using data_register [of i] by (auto simp: sim_bus_def keeps_def state_io_rel_def)
qed (auto simp: sim_defs sim_go_def keeps_def Let_def)

text \<open>C18. 
  The controller driver keeps the contract its client relies on, for every controller whose registers behave as the
  hardware does: a command that succeeds reads, programs or erases exactly the range it names, and a command that fails
  changes nothing outside that range.
\<close>
theorem SpiProtocol_keeps_contract:
  assumes "spi_hardware B base flash fdata faddr failed fsize"
  shows "spi_controller (SpiProtocol B) (\<lambda>s. flash (snd s)) (\<lambda>s. menu_ready base (fst s)) fsize"
  using assms by (rule spi_hardware.controller)

theorem SpiProtocol_keeps_contract_witness:
  "spi_controller (SpiProtocol sim_bus) (\<lambda>s. SimFlash (snd s)) (\<lambda>s. menu_ready sim_base (fst s)) 0x800000"
  by (rule SpiProtocol_keeps_contract [OF sim.spi_hardware_axioms])


definition sim_instance :: SPI_INSTANCE where
  "sim_instance =
    \<lparr>InitPrefix = [0x06, 0x50],
     InitConfig = map (\<lambda>op. \<lparr>Frequency = EnumSpiCycle20MHz, Operation = op\<rparr>)
       [EnumSpiOperationJedecId, EnumSpiOperationReadData, EnumSpiOperationReadStatus, EnumSpiOperationWriteDisable,
        EnumSpiOperationErase_4K_Byte, EnumSpiOperationErase_64K_Byte, EnumSpiOperationProgramData_1_Byte, EnumSpiOperationWriteStatus],
     InitBiosStartOffset = 0, InitBiosSize = 0x800000, SpiIdTable = [], SpiBase = sim_base, NumberComponents = 1, Comp1Density = 4,
     DescriptorMode = True\<rparr>"

definition sim_start :: sim_hw where
  "sim_start = \<lparr>SimFlash = (\<lambda>_. 0xFF), SimData = (\<lambda>_. 0), SimAddr = 0, SimBcr = 0x08\<rparr>"


text \<open>A property of every result of a step.\<close>

definition yields :: "('a \<Rightarrow> bool) \<Rightarrow> ('h, 'a) state \<Rightarrow> bool" where
  "yields P m \<longleftrightarrow> (\<forall>h. P (fst (run_state m h)))"

lemma yieldsD: "yields P m \<Longrightarrow> run_state m h = (x, h') \<Longrightarrow> P x"
  unfolding yields_def by (metis fst_conv)

lemma yields_return: "P x \<Longrightarrow> yields P (State_Monad.return x)"
  by (simp add: yields_def)

lemma yields_bind: "(\<And>x. yields P (f x)) \<Longrightarrow> yields P (State_Monad.bind m f)"
  by (auto simp: yields_def split: prod.split)

lemma yields_bind_known: "yields Q m \<Longrightarrow> (\<And>x. Q x \<Longrightarrow> yields P (f x)) \<Longrightarrow> yields P (State_Monad.bind m f)"
  unfolding yields_def by (auto split: prod.split) (metis fst_conv)

lemma yields_if: "(c \<Longrightarrow> yields P m) \<Longrightarrow> (\<not> c \<Longrightarrow> yields P m') \<Longrightarrow> yields P (if c then m else m')"
  by simp

lemma yields_pair: "(\<And>x y. yields P (f x y)) \<Longrightarrow> yields P (case p of (x, y) \<Rightarrow> f x y)"
  by (cases p) simp

lemma yields_Let: "yields P (f x) \<Longrightarrow> yields P (Let x f)"
  by simp

lemmas yields_intro = yields_return yields_bind yields_if yields_pair yields_Let

definition initialized_from :: "SPI_INSTANCE \<Rightarrow> SPI_INIT_DATA \<Rightarrow> EFI_STATUS \<times> SPI_INSTANCE \<Rightarrow> bool" where
  "initialized_from I D r \<longleftrightarrow> SpiBase (snd r) = SpiBase I \<and> (\<not> EFI_ERROR (fst r) \<longrightarrow>
     InitConfig (snd r) = take 8 (SpiCmdConfig D) \<and> InitPrefix (snd r) = take 2 (PrefixOpcode D) \<and>
     InitBiosStartOffset (snd r) = BiosStartOffset D \<and> InitBiosSize (snd r) = BiosSize D)"

lemma Init_yields: "yields (initialized_from I D) (SpiProtocolInit B I (Some D))"
proof -
  have desc: "yields (\<lambda>I1. SpiBase I1 = SpiBase I) (if mode then GetDescriptorValues B (I\<lparr>DescriptorMode := True\<rparr>)
      else State_Monad.return (I\<lparr>DescriptorMode := False\<rparr>))" for mode
    unfolding GetDescriptorValues_def by (intro yields_intro) auto
  have second: "yields (\<lambda>I4. SpiBase I4 = SpiBase I3 \<and> InitConfig I4 = InitConfig I3 \<and> InitBiosStartOffset I4 = InitBiosStartOffset I3)
      (if NumberComponents I3 = 1 then do {
                  (Status1, id1) \<leftarrow> SpiProtocolExecute B I3 j 0 True True False
                    (ucast (push_bit (unat (Comp1Density I3)) 0x80000 :: UINT32)) 3 id EnumSpiRegionAll;
                  State_Monad.return (if EFI_ERROR Status1 then I3
                    else I3\<lparr>SpiIdTable := (SpiIdTable I3)[1 := (id1 ! 0, id1 ! 1, id1 ! 2)]\<rparr>) }
                else State_Monad.return I3)" for I3 j id
    by (intro yields_intro) auto
  show ?thesis
    unfolding SpiProtocolInit_def option.case
    by (intro yields_bind_known [OF desc] yields_bind_known [OF second] yields_intro)
      (auto simp: initialized_from_def)
qed

text \<open>
  SpiProtocolInit.  An initialization that succeeds leaves the menu, the prefix opcodes and the place of the BIOS
  region of the initialization data in the private data of the driver, whatever the hardware answers; an initialization
  never moves the register base.
\<close>
theorem SpiProtocolInit_keeps_data:
  assumes "run_state (SpiProtocolInit B I (Some D)) h = ((st, I'), h')"
  shows "SpiBase I' = SpiBase I \<and> (\<not> EFI_ERROR st \<longrightarrow> InitConfig I' = take 8 (SpiCmdConfig D) \<and> InitPrefix I' = take 2 (PrefixOpcode D) \<and>
    InitBiosStartOffset I' = BiosStartOffset D \<and> InitBiosSize I' = BiosSize D)"
  using yieldsD [OF Init_yields assms] by (simp add: initialized_from_def)

definition sim_data :: SPI_INIT_DATA where
  "sim_data = \<lparr>PrefixOpcode = [0x06, 0x50], SpiCmdConfig = InitConfig sim_instance, SpecialOpcode = [], BiosStartOffset = 0x400000,
     BiosSize = 0x400000\<rparr>"

theorem SpiProtocolInit_keeps_data_witness:
  "SpiBase (snd (fst (run_state (SpiProtocolInit sim_bus sim_instance (Some sim_data)) sim_start))) = sim_base"
proof -
  obtain st I' h' where r: "run_state (SpiProtocolInit sim_bus sim_instance (Some sim_data)) sim_start = ((st, I'), h')" by (metis surj_pair)
  have "SpiBase sim_instance = sim_base" by (simp add: sim_instance_def)
  then show ?thesis using SpiProtocolInit_keeps_data [OF r] r by simp
qed

text \<open>
  SendSpiCmd.  Every cycle of a transfer moves between 1 and 64 bytes, no more than are left, and never crosses
  a 256-byte page of the part; neither the rest of the byte count nor the next address wraps.
\<close>
theorem SpiDataCount_bounds:
  assumes "DescriptorMode I" "unat a + unat m \<le> 2 ^ 27" "0 < m"
  shows "let n = SpiDataCount I OpCode op a m in 0 < n \<and> unat n \<le> 64 \<and> unat n \<le> unat m \<and> unat a mod 256 + unat n \<le> 256 \<and>
    unat (m - n) = unat m - unat n \<and> unat (a + ucast n) = unat a + unat n"
  using count_facts [OF assms, of OpCode op] unfolding Let_def by blast

theorem SpiDataCount_bounds_witness:
  "let n = SpiDataCount sim_instance 2 EnumSpiOperationProgramData_1_Byte 0x10F8 0x20 in 0 < n \<and> unat n \<le> 64 \<and> unat n \<le> 0x20 \<and>
    0xF8 + unat n \<le> 256"
  using SpiDataCount_bounds [of sim_instance "0x10F8" "0x20" 2 EnumSpiOperationProgramData_1_Byte]
  by (simp add: sim_instance_def Let_def)

end
