(* ===== verification/SpiDevice.thy ===== *)
theory SpiDevice
  imports SpiProtocol "HOL-Library.Multiset"
begin

text \<open>
  The driver of the SPI flash device, \<^verbatim>\<open>BraswellPlatformPkg/Flash/SpiDeviceDxe\<close>: \<^verbatim>\<open>SpiDevice.c\<close> with the two
  phase-specific halves \<^verbatim>\<open>SpiDeviceDxe.c\<close> and \<^verbatim>\<open>SpiDeviceSmm.c\<close>.

  The variables of the driver are in the record \<open>spi_driver\<close>: the controller it has located, the base of the
  non-volatile storage, the build constants, the test for memory-mapped reads of the phase, and the memory as the
  processor sees it.  A buffer is the list of its bytes; a transfer that is longer than its buffer shows as a list
  that has grown.  The loops of \<open>SpiRead\<close> and \<open>SpiWrite\<close> end because each turn moves at least one byte; the loop of
  \<open>SpiErase\<close> ends only when the remaining size reaches zero in steps of 4096, so it is a partial function.

  The lemmas show, for any controller that keeps the contract \<open>spi_controller\<close>: a write programs exactly the
  requested bytes and an aligned erase erases exactly the requested sectors; which sectors an unaligned erase
  touches, and when it does not end; which part the search for a flash description selects; and what the SMI
  handler does with a size that exceeds its buffer.
\<close>

section \<open>Data\<close>

record flash_pcds =
  PcdFlashAreaBaseAddress :: UINT32
  PcdFlashAreaSize :: UINT32
  PcdBiosImageBase :: UINT32
  PcdBiosImageSize :: UINT32
  PcdFlashNvStorageVariableBase :: UINT32

definition BIOS_REGION_FLASH_OFFSET :: "flash_pcds \<Rightarrow> UINT32" where
  "BIOS_REGION_FLASH_OFFSET pcd = PcdBiosImageBase pcd - PcdFlashAreaBaseAddress pcd"

definition VN_STORAGE_REGION_FLASH_OFFSET :: "flash_pcds \<Rightarrow> UINT32" where
  "VN_STORAGE_REGION_FLASH_OFFSET pcd = PcdFlashNvStorageVariableBase pcd - PcdFlashAreaBaseAddress pcd"

definition SIZE_4KB :: UINTN where "SIZE_4KB = 0x1000"

record 's spi_driver =
  mSpiProtocol :: "'s EFI_SPI_PROTOCOL"
  mNvStorageBase :: UINTN
  Pcds :: flash_pcds
  UsesMmio :: "UINTN \<Rightarrow> 's \<Rightarrow> bool"
  MemoryOf :: "'s \<Rightarrow> memory"

text \<open>The test for memory-mapped reads: outside SMM it is false once the system is at runtime.\<close>

definition ReadUsingMmio_Smm :: "flash_pcds \<Rightarrow> UINTN \<Rightarrow> bool" where
  "ReadUsingMmio_Smm pcd SpiOffset \<longleftrightarrow>
    ucast (BIOS_REGION_FLASH_OFFSET pcd) \<le> SpiOffset \<and>
    SpiOffset < ucast (BIOS_REGION_FLASH_OFFSET pcd + PcdBiosImageSize pcd)"

definition ReadUsingMmio_Dxe :: "flash_pcds \<Rightarrow> bool \<Rightarrow> UINTN \<Rightarrow> bool" where
  "ReadUsingMmio_Dxe pcd EfiAtRuntime SpiOffset \<longleftrightarrow>
    ucast (BIOS_REGION_FLASH_OFFSET pcd) \<le> SpiOffset \<and>
    SpiOffset < ucast (BIOS_REGION_FLASH_OFFSET pcd + PcdBiosImageSize pcd) \<and> \<not> EfiAtRuntime"

section \<open>Read, write and erase\<close>

text \<open>The part of a buffer a command transfers, and the buffer after the part has been replaced.\<close>

definition chunk :: "nat \<Rightarrow> UINTN \<Rightarrow> UINT8 list \<Rightarrow> UINT8 list" where
  "chunk p n b = take (unat n) (drop p b)"

definition put_chunk :: "nat \<Rightarrow> UINTN \<Rightarrow> UINT8 list \<Rightarrow> UINT8 list \<Rightarrow> UINT8 list" where
  "put_chunk p n c b = take p b @ c @ drop (p + unat n) b"

definition chunk_length :: "UINTN \<Rightarrow> UINTN" where
  "chunk_length RemainingBytes = (if RemainingBytes > SIZE_4KB then SIZE_4KB else RemainingBytes)"

lemma unat_chunk_length: "unat (chunk_length r) = min 4096 (unat r)"
  by (auto simp: chunk_length_def SIZE_4KB_def word_less_nat_alt)

lemma unat_minus_chunk [simp]: "unat (r - chunk_length r) = unat r - unat (chunk_length r)"
  by (simp add: unat_sub_noov unat_chunk_length)

function SpiRead_loop :: "'s EFI_SPI_PROTOCOL \<Rightarrow> UINTN \<Rightarrow> UINTN \<Rightarrow> nat \<Rightarrow> UINT8 list \<Rightarrow> 's \<Rightarrow> UINT8 list \<times> 's" where
  "SpiRead_loop Spi RemainingBytes RegionOffset p Buffer s =
    (if RemainingBytes = 0 then (Buffer, s)
     else let Length = chunk_length RemainingBytes;
              (Status, c, s1) = Execute Spi SPI_READ 0 True True False (ucast (ucast RegionOffset :: UINT32)) (ucast Length)
                                  (chunk p Length Buffer) EnumSpiRegionAll s;
              Buffer1 = put_chunk p Length c Buffer
          in if EFI_ERROR Status then (Buffer1, s1)
             else SpiRead_loop Spi (RemainingBytes - Length) (RegionOffset + Length) (p + unat Length) Buffer1 s1)"
  by auto
termination
  by (relation "measure (\<lambda>(Spi, r, _). unat r)") (auto simp: unat_chunk_length unat_gt_0)

definition SpiRead :: "'s spi_driver \<Rightarrow> UINTN \<Rightarrow> UINTN option \<Rightarrow> UINT8 list option \<Rightarrow> 's \<Rightarrow> EFI_STATUS \<times> UINT8 list option \<times> 's" where
  "SpiRead D SpiOffset Size Buffer s =
    (case (Size, Buffer) of
       (Some n, Some b) \<Rightarrow>
         (if SpiOffset + n > ucast (PcdFlashAreaSize (Pcds D)) then (EFI_INVALID_PARAMETER, Buffer, s)
          else if UsesMmio D SpiOffset s then
            (EFI_SUCCESS,
             Some (mem_bytes (SpiOffset + ucast (PcdFlashAreaBaseAddress (Pcds D))) n (MemoryOf D s) @ drop (unat n) b), s)
          else if ucast (VN_STORAGE_REGION_FLASH_OFFSET (Pcds D)) \<le> SpiOffset \<and>
                  SpiOffset < ucast (VN_STORAGE_REGION_FLASH_OFFSET (Pcds D) + PcdFlashAreaSize (Pcds D)) then
            (EFI_SUCCESS,
             Some (mem_bytes (SpiOffset - ucast (VN_STORAGE_REGION_FLASH_OFFSET (Pcds D)) + mNvStorageBase D) n (MemoryOf D s) @
                   drop (unat n) b), s)
          else let (b', s') = SpiRead_loop (mSpiProtocol D) n SpiOffset 0 b s in (EFI_SUCCESS, Some b', s'))
     | _ \<Rightarrow> (EFI_INVALID_PARAMETER, Buffer, s))"

function SpiWrite_loop :: "'s EFI_SPI_PROTOCOL \<Rightarrow> UINTN \<Rightarrow> UINTN \<Rightarrow> nat \<Rightarrow> UINT8 list \<Rightarrow> EFI_STATUS \<Rightarrow> 's \<Rightarrow> EFI_STATUS \<times> 's" where
  "SpiWrite_loop Spi RemainingBytes RegionOffset p Buffer Status s =
    (if RemainingBytes = 0 then (Status, s)
     else let Length = chunk_length RemainingBytes;
              (Status1, _, s1) = Execute Spi SPI_PROG SPI_WREN True True True (ucast (ucast RegionOffset :: UINT32)) (ucast Length)
                                   (chunk p Length Buffer) EnumSpiRegionAll s
          in if EFI_ERROR Status1 then (Status1, s1)
             else SpiWrite_loop Spi (RemainingBytes - Length) (RegionOffset + Length) (p + unat Length) Buffer Status1 s1)"
  by auto
termination
  by (relation "measure (\<lambda>(Spi, r, _). unat r)") (auto simp: unat_chunk_length unat_gt_0)

definition SpiWrite :: "'s spi_driver \<Rightarrow> UINTN \<Rightarrow> UINTN option \<Rightarrow> UINT8 list option \<Rightarrow> 's \<Rightarrow> EFI_STATUS \<times> 's" where
  "SpiWrite D SpiOffset Size Buffer s =
    (case (Size, Buffer) of
       (Some n, Some b) \<Rightarrow>
         (if SpiOffset + n > ucast (PcdFlashAreaSize (Pcds D)) then (EFI_INVALID_PARAMETER, s)
          else SpiWrite_loop (mSpiProtocol D) n SpiOffset 0 b EFI_SUCCESS s)
     | _ \<Rightarrow> (EFI_INVALID_PARAMETER, s))"

partial_function (option) SpiErase_loop :: "'s EFI_SPI_PROTOCOL \<Rightarrow> UINTN \<Rightarrow> UINTN \<Rightarrow> EFI_STATUS \<Rightarrow> 's \<Rightarrow> (EFI_STATUS \<times> 's) option" where
  "SpiErase_loop Spi BytesRemaining RegionOffset Status s =
    (if BytesRemaining = 0 then Some (Status, s)
     else let (Status1, _, s1) = Execute Spi SPI_SERASE SPI_WREN False True False (ucast (ucast RegionOffset :: UINT32)) 0 []
                                   EnumSpiRegionAll s
          in if EFI_ERROR Status1 then Some (Status1, s1)
             else SpiErase_loop Spi (BytesRemaining - SIZE_4KB) (RegionOffset + SIZE_4KB) Status1 s1)"

definition SpiErase :: "'s spi_driver \<Rightarrow> UINTN \<Rightarrow> UINTN \<Rightarrow> 's \<Rightarrow> (EFI_STATUS \<times> 's) option" where
  "SpiErase D SpiOffset Size s =
    (if SpiOffset + Size > ucast (PcdFlashAreaSize (Pcds D)) then Some (EFI_INVALID_PARAMETER, s)
     else if SpiOffset AND (SIZE_4KB - 1) \<noteq> 0 then
       SpiErase_loop (mSpiProtocol D) (Size + (SpiOffset AND (SIZE_4KB - 1))) (SpiOffset AND (SIZE_4KB - 1)) EFI_INVALID_PARAMETER s
     else SpiErase_loop (mSpiProtocol D) Size SpiOffset EFI_INVALID_PARAMETER s)"

definition SpiLock :: "'s spi_driver \<Rightarrow> UINTN \<Rightarrow> UINTN \<Rightarrow> bool \<Rightarrow> 's \<Rightarrow> EFI_STATUS \<times> 's" where
  "SpiLock D SpiOffset Size L s = (EFI_UNSUPPORTED, s)"

definition SpiSetRange :: "'s spi_driver \<Rightarrow> UINTN \<Rightarrow> UINTN \<Rightarrow> bool \<Rightarrow> bool \<Rightarrow> 's \<Rightarrow> EFI_STATUS \<times> 's" where
  "SpiSetRange D SpiOffset Size ReadLock WriteLock s = (EFI_UNSUPPORTED, s)"

definition SpiLockRanges :: "'s spi_driver \<Rightarrow> 's \<Rightarrow> EFI_STATUS \<times> 's" where
  "SpiLockRanges D s = Lock (mSpiProtocol D) s"

definition mSpiDevProtocol :: "'s spi_driver \<Rightarrow> 's SPI_DEVICE_PROTOCOL" where
  "mSpiDevProtocol D =
    \<lparr>DevRead = SpiRead D, DevWrite = SpiWrite D, DevErase = SpiErase D, DevLock = SpiLock D,
     DevSetRange = SpiSetRange D, DevLockRanges = SpiLockRanges D\<rparr>"

declare SpiRead_loop.simps [simp del] SpiWrite_loop.simps [simp del]

section \<open>Transfers in chunks\<close>

lemma SpiWrite_loop_0 [simp]: "SpiWrite_loop P 0 off p b st s = (st, s)"
  by (simp add: SpiWrite_loop.simps)

lemma take_chunk:
  assumes "p + unat r \<le> length b"
  shows "chunk p (chunk_length r) b @ take (unat (r - chunk_length r)) (drop (p + unat (chunk_length r)) b) = take (unat r) (drop p b)"
proof -
  let ?m = "unat (chunk_length r)"
  have "unat r = ?m + (unat r - ?m)" by (simp add: unat_chunk_length)
  then have "take (unat r) (drop p b) = take ?m (drop p b) @ take (unat r - ?m) (drop ?m (drop p b))"
    using take_add [of ?m "unat r - ?m" "drop p b"] by metis
  then show ?thesis by (simp add: chunk_def add.commute)
qed

lemma chunk_step:
  assumes "r \<noteq> 0" "unat off + unat r \<le> 2 ^ 27"
  shows "0 < unat (chunk_length r)" "unat (chunk_length r) \<le> 4096" "unat (chunk_length r) \<le> unat r"
    "unat (ucast (ucast off :: UINT32) :: UINTN) = unat off" "unat (ucast (chunk_length r) :: UINT32) = unat (chunk_length r)"
    "unat (off + chunk_length r) = unat off + unat (chunk_length r)"
  using assms by (auto simp: unat_chunk_length unat_gt_0 unat_down_up unat_down unat_add_noov)

context spi_controller
begin

lemma SpiWrite_loop_programs:
  assumes "ready s" "unat off + unat r \<le> fsize" "p + unat r \<le> length b" "SpiWrite_loop P r off p b EFI_SUCCESS s = (st, s')"
  shows "ready s' \<and> same_outside (unat off) (unat r) (flash s) (flash s') \<and>
    (\<not> EFI_ERROR st \<longrightarrow> st = EFI_SUCCESS \<and> flash s' = programmed (unat off) (take (unat r) (drop p b)) (flash s)) \<and>
    (EFI_ERROR st \<longrightarrow> st = EFI_DEVICE_ERROR)"
  using assms
proof (induction "unat r" arbitrary: r off p s rule: less_induct)
  case less
  show ?case
  proof (cases "r = 0")
    case True
    then show ?thesis using less.prems by simp
  next
    case False
    let ?L = "chunk_length r" and ?a = "ucast (ucast off :: UINT32) :: UINTN" and ?n = "ucast (chunk_length r) :: UINT32"
    note L = chunk_step [OF False order_trans [OF less.prems(2) fsize]]
    obtain st1 b1 s1 where e: "Execute P SPI_PROG SPI_WREN True True True ?a ?n (chunk p ?L b) EnumSpiRegionAll s = (st1, b1, s1)"
      by (metis prod_cases3)
    have len: "length (chunk p ?L b) = unat ?n" using less.prems(3) L by (simp add: chunk_def)
    have one: "ready s1 \<and> same_outside (unat ?a) (unat ?n) (flash s) (flash s1) \<and>
        (\<not> EFI_ERROR st1 \<longrightarrow> st1 = EFI_SUCCESS \<and> flash s1 = programmed (unat ?a) (chunk p ?L b) (flash s)) \<and>
        (EFI_ERROR st1 \<longrightarrow> st1 = EFI_DEVICE_ERROR)"
      using prog_cmd [OF less.prems(1) _ _ _ len e] L less.prems(2) by (simp add: word_less_nat_alt)
    have so1: "same_outside (unat off) (unat r) (flash s) (flash s1)"
      using one L by (auto intro: same_outside_mono)
    show ?thesis
    proof (cases "EFI_ERROR st1")
      case True
      then show ?thesis using less.prems(4) False e one so1 by (simp add: SpiWrite_loop.simps [of P r] Let_def)
    next
      case ok: False
      have rest: "SpiWrite_loop P (r - ?L) (off + ?L) (p + unat ?L) b EFI_SUCCESS s1 = (st, s')"
        using less.prems(4) False e one ok by (simp add: SpiWrite_loop.simps [of P r] Let_def)
      have IH: "ready s' \<and> same_outside (unat (off + ?L)) (unat (r - ?L)) (flash s1) (flash s') \<and>
         (\<not> EFI_ERROR st \<longrightarrow> st = EFI_SUCCESS \<and>
            flash s' = programmed (unat (off + ?L)) (take (unat (r - ?L)) (drop (p + unat ?L) b)) (flash s1)) \<and>
         (EFI_ERROR st \<longrightarrow> st = EFI_DEVICE_ERROR)"
        using L less.prems one by (intro less.hyps [OF _ _ _ _ rest]) auto
      have "same_outside (unat off) (unat r) (flash s1) (flash s')" using IH L by (auto intro: same_outside_mono)
      then have "same_outside (unat off) (unat r) (flash s) (flash s')" using so1 same_outside_trans by blast
      moreover have "flash s' = programmed (unat off) (take (unat r) (drop p b)) (flash s)" if "\<not> EFI_ERROR st"
        using IH that one ok L len programmed_append [of "unat off" "chunk p ?L b"] take_chunk [OF less.prems(3)] by simp
      ultimately show ?thesis using IH by blast
    qed
  qed
qed

lemma length_put_chunk: "length c = unat n \<Longrightarrow> p + unat n \<le> length b \<Longrightarrow> length (put_chunk p n c b) = length b"
  by (simp add: put_chunk_def)

lemma SpiRead_loop_quiet:
  assumes "ready s" "unat off + unat r \<le> fsize" "p + unat r \<le> length b" "SpiRead_loop P r off p b s = (b', s')"
  shows "ready s' \<and> flash s' = flash s"
  using assms
proof (induction "unat r" arbitrary: r off p b s rule: less_induct)
  case less
  show ?case
  proof (cases "r = 0")
    case True
    then show ?thesis using less.prems by (simp add: SpiRead_loop.simps)
  next
    case False
    let ?L = "chunk_length r" and ?a = "ucast (ucast off :: UINT32) :: UINTN" and ?n = "ucast (chunk_length r) :: UINT32"
    note L = chunk_step [OF False order_trans [OF less.prems(2) fsize]]
    obtain st1 c s1 where e: "Execute P SPI_READ 0 True True False ?a ?n (chunk p ?L b) EnumSpiRegionAll s = (st1, c, s1)"
      by (metis prod_cases3)
    have len: "length (chunk p ?L b) = unat ?n" using less.prems(3) L by (simp add: chunk_def)
    have one: "ready s1 \<and> flash s1 = flash s \<and> length c = unat ?L"
      using read_cmd [OF less.prems(1) _ _ _ len e] L less.prems(2) len by (simp add: word_less_nat_alt)
    show ?thesis
    proof (cases "EFI_ERROR st1")
      case True
      then show ?thesis using less.prems(4) False e one by (simp add: SpiRead_loop.simps [of P r] Let_def)
    next
      case ok: False
      have rest: "SpiRead_loop P (r - ?L) (off + ?L) (p + unat ?L) (put_chunk p ?L c b) s1 = (b', s')"
        using less.prems(4) False e ok by (simp add: SpiRead_loop.simps [of P r] Let_def)
      have "length (put_chunk p ?L c b) = length b" using one L less.prems(3) by (intro length_put_chunk) auto
      then show ?thesis using one L less.prems less.hyps [OF _ _ _ _ rest] by simp
    qed
  qed
qed

end

section \<open>Erasing sector by sector\<close>

lemma SpiErase_loop_0 [simp]: "SpiErase_loop P 0 off st s = Some (st, s)"
  by (simp add: SpiErase_loop.simps)

lemma minus_4K_mod: "unat (n - SIZE_4KB) mod 4096 = unat (n :: UINTN) mod 4096"
proof (cases "unat n < 4096")
  case True
  then have "unat (n - SIZE_4KB) = unat n + 18446744073709551616 - 4096"
    by (simp add: unat_sub_if' SIZE_4KB_def)
  then have "unat (n - SIZE_4KB) = unat n + 4503599627370495 * 4096" by simp
  then show ?thesis by (simp only: mod_mult_self1)
next
  case False
  then have "unat n = unat (n - SIZE_4KB) + 4096" by (simp add: unat_sub_noov SIZE_4KB_def)
  then show ?thesis by (metis mod_add_self2)
qed

lemma SpiErase_loop_result:
  assumes "SpiErase_loop P n off st s = Some (st', s')"
  shows "EFI_ERROR st' \<or> unat n mod 4096 = 0"
proof -
  have "EFI_ERROR (fst z) \<or> unat n mod 4096 = 0" if "SpiErase_loop P n off st s = Some z" for z
  proof (rule SpiErase_loop.raw_induct [where P = "\<lambda>Spi n off st s z. EFI_ERROR (fst z) \<or> unat n mod 4096 = 0", OF _ that], goal_cases)
    case (1 f Spi n off st s z)
    show ?case
    proof (cases "n = 0")
      case False
      obtain st1 b1 s1 where "Execute Spi SPI_SERASE SPI_WREN False True False (ucast (ucast off :: UINT32)) 0 []
          EnumSpiRegionAll s = (st1, b1, s1)" by (metis prod_cases3)
      then show ?thesis using 1(1) [of Spi "n - SIZE_4KB" "off + SIZE_4KB" st1 s1 z] 1(2) False minus_4K_mod [of n]
        by (auto split: if_splits)
    qed simp
  qed
  then show ?thesis using assms by fastforce
qed

context spi_controller
begin

lemma SpiErase_loop_erases:
  assumes "ready s" "unat n = 4096 * k" "unat off div 4096 * 4096 + unat n \<le> fsize" "n = 0 \<longrightarrow> st0 = EFI_SUCCESS"
  shows "\<exists>st s'. SpiErase_loop P n off st0 s = Some (st, s') \<and> ready s' \<and>
    same_outside (unat off div 4096 * 4096) (unat n) (flash s) (flash s') \<and>
    (\<not> EFI_ERROR st \<longrightarrow> st = EFI_SUCCESS \<and> flash s' = erased (unat off div 4096 * 4096) (unat n) (flash s)) \<and>
    (EFI_ERROR st \<longrightarrow> st = EFI_DEVICE_ERROR)"
  using assms
proof (induction k arbitrary: n off st0 s)
  case 0
  then have "n = 0" by (simp add: unat_eq_zero)
  then show ?case using 0 by simp
next
  case (Suc k)
  let ?a = "ucast (ucast off :: UINT32) :: UINTN" and ?b = "unat off div 4096 * 4096"
  have n0: "n \<noteq> 0" using Suc.prems(2) by auto
  have "unat off < 4096 + ?b" by (rule dividend_less_div_times) simp
  then have small: "unat off < fsize"
    by (rule order.strict_trans2) (use Suc.prems(2,3) in simp)
  have off: "unat off < 2 ^ 27" using small fsize by linarith
  then have a: "unat ?a = unat off" by (intro unat_down_up) simp
  have n1: "unat (n - SIZE_4KB) = 4096 * k" using Suc.prems(2) by (simp add: unat_sub_noov SIZE_4KB_def)
  have o1: "unat (off + SIZE_4KB) = unat off + 4096" using off by (simp add: unat_add_noov SIZE_4KB_def)
  have d1: "unat (off + SIZE_4KB) div 4096 * 4096 = ?b + 4096" by (simp add: o1 div_add_self2 add_mult_distrib)
  obtain st1 b1 s1 where e: "Execute P SPI_SERASE SPI_WREN False True False ?a 0 [] EnumSpiRegionAll s = (st1, b1, s1)"
    by (metis prod_cases3)
  have one: "ready s1 \<and> same_outside ?b 4096 (flash s) (flash s1) \<and>
      (\<not> EFI_ERROR st1 \<longrightarrow> st1 = EFI_SUCCESS \<and> flash s1 = erased ?b 4096 (flash s)) \<and> (EFI_ERROR st1 \<longrightarrow> st1 = EFI_DEVICE_ERROR)"
    using erase_cmd [OF Suc.prems(1) _ e] small a by simp
  have so1: "same_outside ?b (unat n) (flash s) (flash s1)"
    using one Suc.prems(2) by (auto intro: same_outside_mono)
  show ?case
  proof (cases "EFI_ERROR st1")
    case True
    then show ?thesis using n0 e one so1 by (simp add: SpiErase_loop.simps [of P n])
  next
    case ok: False
    obtain st s' where rest: "SpiErase_loop P (n - SIZE_4KB) (off + SIZE_4KB) st1 s1 = Some (st, s')"
      and IH: "ready s'" "same_outside (?b + 4096) (unat (n - SIZE_4KB)) (flash s1) (flash s')"
        "\<not> EFI_ERROR st \<longrightarrow> st = EFI_SUCCESS \<and> flash s' = erased (?b + 4096) (unat (n - SIZE_4KB)) (flash s1)" "EFI_ERROR st \<longrightarrow> st = EFI_DEVICE_ERROR"
      using Suc.IH [of s1 "n - SIZE_4KB" "off + SIZE_4KB" st1] one ok n1 Suc.prems(2,3) unfolding d1 by auto
    have "same_outside ?b (unat n) (flash s1) (flash s')"
      using IH(2) n1 Suc.prems(2) by (auto intro: same_outside_mono)
    then have "same_outside ?b (unat n) (flash s) (flash s')" using so1 same_outside_trans by blast
    moreover have "\<not> EFI_ERROR st \<longrightarrow> flash s' = erased ?b (unat n) (flash s)"
      using IH(3) one ok n1 Suc.prems(2) erased_append [of ?b 4096 "unat (n - SIZE_4KB)" "flash s"] by simp
    ultimately show ?thesis using rest IH n0 e ok by (simp add: SpiErase_loop.simps [of P n])
  qed
qed

end

section \<open>The driver over a controller that keeps its contract\<close>

text \<open>
  What the processor reads from memory: the flash area shows the contents of the flash from the first
  memory-mapped offset on, and the non-volatile storage is mapped at \<open>mNvStorageBase\<close>.
\<close>

locale spi_driver_ok = spi_controller "mSpiProtocol D" flash ready fsize
  for D :: "'s spi_driver" and flash ready fsize +
  fixes nvsize :: nat
  assumes area: "fsize = unat (PcdFlashAreaSize (Pcds D))"
    and window: "\<lbrakk>ready s; UsesMmio D off s; unat off \<le> x; x < fsize\<rbrakk> \<Longrightarrow>
      MemoryOf D s (of_nat x + ucast (PcdFlashAreaBaseAddress (Pcds D))) = flash s x"
    and nv_window: "\<lbrakk>ready s; unat (VN_STORAGE_REGION_FLASH_OFFSET (Pcds D)) \<le> x; x < unat (VN_STORAGE_REGION_FLASH_OFFSET (Pcds D)) + nvsize\<rbrakk> \<Longrightarrow>
      MemoryOf D s (of_nat x - ucast (VN_STORAGE_REGION_FLASH_OFFSET (Pcds D)) + mNvStorageBase D) = flash s x"
    and nv_size: "unat (VN_STORAGE_REGION_FLASH_OFFSET (Pcds D)) + nvsize \<le> fsize"
begin

definition readable :: "'s \<Rightarrow> nat \<Rightarrow> nat \<Rightarrow> bool" where
  "readable s a n \<longleftrightarrow> UsesMmio D (of_nat a) s \<or>
    unat (VN_STORAGE_REGION_FLASH_OFFSET (Pcds D)) \<le> a \<and> a + n \<le> unat (VN_STORAGE_REGION_FLASH_OFFSET (Pcds D)) + nvsize \<and> 0 < n"

lemma in_area: "unat a + unat n \<le> fsize \<Longrightarrow> \<not> (ucast (PcdFlashAreaSize (Pcds D)) :: UINTN) < a + n"
  using fsize by (auto simp: word_less_nat_alt area unat_add_noov not_less)

lemma window_bytes:
  assumes "ready s" "unat a + unat n \<le> fsize" "UsesMmio D a s"
  shows "mem_bytes (a + ucast (PcdFlashAreaBaseAddress (Pcds D))) n (MemoryOf D s) = flash_bytes (unat a) (unat n) (flash s)"
proof -
  have "MemoryOf D s (a + ucast (PcdFlashAreaBaseAddress (Pcds D)) + of_nat i) = flash s (unat a + i)" if "i < unat n" for i
    using window [OF assms(1,3), of "unat a + i"] that assms(2) by (simp add: algebra_simps)
  then show ?thesis by (auto simp: mem_bytes_def flash_bytes_def intro: nth_equalityI)
qed

lemma nv_window_bytes:
  assumes "ready s" "unat (VN_STORAGE_REGION_FLASH_OFFSET (Pcds D)) \<le> unat a"
    "unat a + unat n \<le> unat (VN_STORAGE_REGION_FLASH_OFFSET (Pcds D)) + nvsize"
  shows "mem_bytes (a - ucast (VN_STORAGE_REGION_FLASH_OFFSET (Pcds D)) + mNvStorageBase D) n (MemoryOf D s) =
    flash_bytes (unat a) (unat n) (flash s)"
proof -
  have "MemoryOf D s (a - ucast (VN_STORAGE_REGION_FLASH_OFFSET (Pcds D)) + mNvStorageBase D + of_nat i) = flash s (unat a + i)"
    if "i < unat n" for i
    using nv_window [OF assms(1), of "unat a + i"] that assms(2,3) by (simp add: algebra_simps)
  then show ?thesis by (auto simp: mem_bytes_def flash_bytes_def intro: nth_equalityI)
qed

lemma nv_branch:
  assumes "unat (VN_STORAGE_REGION_FLASH_OFFSET (Pcds D)) \<le> unat a" "unat a < fsize"
  shows "(ucast (VN_STORAGE_REGION_FLASH_OFFSET (Pcds D)) :: UINTN) \<le> a \<and>
    a < ucast (VN_STORAGE_REGION_FLASH_OFFSET (Pcds D) + PcdFlashAreaSize (Pcds D))"
proof -
  have "unat (VN_STORAGE_REGION_FLASH_OFFSET (Pcds D) + PcdFlashAreaSize (Pcds D)) =
      unat (VN_STORAGE_REGION_FLASH_OFFSET (Pcds D)) + unat (PcdFlashAreaSize (Pcds D))"
    using assms fsize area by (simp add: unat_word_ariths)
  then show ?thesis using assms area by (simp add: word_le_nat_alt word_less_nat_alt)
qed

lemma read_readable:
  assumes "ready s" "unat a + unat n \<le> fsize" "unat n \<le> length b" "readable s (unat a) (unat n)"
  shows "SpiRead D a (Some n) (Some b) s = (EFI_SUCCESS, Some (flash_bytes (unat a) (unat n) (flash s) @ drop (unat n) b), s)"
proof (cases "UsesMmio D a s")
  case True
  then show ?thesis using assms in_area window_bytes by (simp add: SpiRead_def)
next
  case False
  then have nv: "unat (VN_STORAGE_REGION_FLASH_OFFSET (Pcds D)) \<le> unat a"
      "unat a + unat n \<le> unat (VN_STORAGE_REGION_FLASH_OFFSET (Pcds D)) + nvsize" "0 < unat n"
    using assms(4) by (auto simp: readable_def)
  then show ?thesis using False assms in_area [OF assms(2)] nv_branch [OF nv(1)] nv_window_bytes [OF assms(1) nv(1,2)] nv_size
    by (simp add: SpiRead_def)
qed

lemma read_quiet:
  assumes "ready s" "unat a + unat n \<le> fsize" "unat n \<le> length b" "SpiRead D a (Some n) (Some b) s = (st, b', s')"
  shows "ready s' \<and> flash s' = flash s"
  using assms SpiRead_loop_quiet [OF assms(1,2), of 0 b] by (auto simp: SpiRead_def split: if_splits prod.splits)

lemma write_programs:
  assumes "ready s" "unat a + unat n \<le> fsize" "unat n \<le> length b" "SpiWrite D a (Some n) (Some b) s = (st, s')"
  shows "ready s' \<and> same_outside (unat a) (unat n) (flash s) (flash s') \<and>
    (\<not> EFI_ERROR st \<longrightarrow> st = EFI_SUCCESS \<and> flash s' = programmed (unat a) (take (unat n) b) (flash s)) \<and>
    (EFI_ERROR st \<longrightarrow> st = EFI_DEVICE_ERROR)"
  using SpiWrite_loop_programs [of s a n 0 b st s'] assms in_area [OF assms(2)] by (simp add: SpiWrite_def)

lemma erase_aligned:
  assumes "ready s" "0 < n" "unat a + unat n \<le> fsize" "unat a mod 4096 = 0" "unat n mod 4096 = 0"
  shows "\<exists>st s'. SpiErase D a n s = Some (st, s') \<and> ready s' \<and> same_outside (unat a) (unat n) (flash s) (flash s') \<and>
    (\<not> EFI_ERROR st \<longrightarrow> st = EFI_SUCCESS \<and> flash s' = erased (unat a) (unat n) (flash s)) \<and> (EFI_ERROR st \<longrightarrow> st = EFI_DEVICE_ERROR)"
proof -
  have al: "unat a div 4096 * 4096 = unat a" using assms(4) by auto
  have m: "a AND (SIZE_4KB - 1) = 0" using assms(4) and_page_mask_eq_0 [of a] by (simp add: SIZE_4KB_def EFI_PAGE_MASK_def)
  show ?thesis
    using SpiErase_loop_erases [of s n "unat n div 4096" a EFI_INVALID_PARAMETER] assms in_area [OF assms(3)] al m
    by (simp add: SpiErase_def dvd_mult_div_cancel mod_eq_0_iff_dvd)
qed

end

sublocale spi_driver_ok \<subseteq> dev: spi_device "mSpiDevProtocol D" flash ready fsize readable
proof (unfold_locales, goal_cases)
  case (3 s a n b st b' s')
  then show ?case using read_quiet [of s a n b st b' s'] by (simp add: mSpiDevProtocol_def)
qed (use fsize in \<open>simp_all add: mSpiDevProtocol_def read_readable write_programs erase_aligned SpiLock_def\<close>)

section \<open>Finding the flash part and programming the opcode menu\<close>

record SPI_FLASH_PART_OPCODE_ENTRY =
  MaxFrequency :: UINT32
  MaxTransferLength :: UINT32
  EnableWrite :: bool
  Opcode :: UINT8
  AddressBytes :: UINT8
  EntryOpcodeIndex :: UINT8

record FLASH_PART_DESCRIPTION =
  PartNumber :: string
  StatusBytes :: UINT8
  WriteEnable :: UINT8
  WriteStatusEnable :: UINT8
  JededIdResponseLengthInBytes :: UINT8
  OpcodeTableEntries :: UINT8
  OpcodeTable :: "SPI_FLASH_PART_OPCODE_ENTRY list"

text \<open>\<open>GetFlashDescription\<close> returns a description or NULL, and the value it writes to the size if it writes one.\<close>

record SPI_FLASH_PART_PROTOCOL =
  Priority :: UINT32
  GetFlashDescription :: "UINT8 list option \<Rightarrow> FLASH_PART_DESCRIPTION option \<times> UINT64 option"

text \<open>The boot services the search and the entry points call; \<open>PoolHas\<close> tells whether an allocation succeeds.\<close>

record 's spi_services =
  LocateParts :: "'s \<Rightarrow> EFI_STATUS \<times> UINTN list"
  OpenPart :: "UINTN \<Rightarrow> 's \<Rightarrow> EFI_STATUS \<times> SPI_FLASH_PART_PROTOCOL"
  PoolHas :: "UINTN \<Rightarrow> 's \<Rightarrow> bool"
  LocateSpi :: "'s \<Rightarrow> EFI_STATUS \<times> 's EFI_SPI_PROTOCOL"
  InstallDevice :: "'s \<Rightarrow> EFI_STATUS \<times> 's"
  InstallDxeTag :: "'s \<Rightarrow> EFI_STATUS \<times> 's"
  RegisterHandler :: "'s \<Rightarrow> EFI_STATUS \<times> 's"
  CreateAddressChangeEvent :: "'s \<Rightarrow> 's"

definition JedecIdRead :: "'s EFI_SPI_PROTOCOL \<Rightarrow> FLASH_PART_DESCRIPTION option \<Rightarrow> UINTN \<Rightarrow> UINT8 list option \<Rightarrow> 's \<Rightarrow>
    EFI_STATUS \<times> UINT8 list option \<times> 's" where
  "JedecIdRead Spi Description BufferLength JedecId s =
    (case (JedecId, Description) of
       (Some b, Some d) \<Rightarrow>
         (if BufferLength < ucast (JededIdResponseLengthInBytes d) then (EFI_INVALID_PARAMETER, JedecId, s)
          else let (Status, b', s') = ReadId Spi 0 b s in (Status, Some b', s'))
     | _ \<Rightarrow> (EFI_INVALID_PARAMETER, JedecId, s))"

text \<open>
  The state of the search: the description found, if any, the buffer for the JEDEC ID, the size the caller will
  get, and the machine.
\<close>

type_synonym 's search = "FLASH_PART_DESCRIPTION option \<times> UINT8 list \<times> UINT64 \<times> 's"

type_synonym 's jedec_operation = "FLASH_PART_DESCRIPTION \<Rightarrow> UINTN \<Rightarrow> UINT8 list \<Rightarrow> 's \<Rightarrow> EFI_STATUS \<times> UINT8 list \<times> 's"

definition try_part :: "'s jedec_operation \<Rightarrow> SPI_FLASH_PART_PROTOCOL \<Rightarrow> 's search \<Rightarrow> 's search" where
  "try_part PerformJedecIdOperation Protocol = (\<lambda>(found, JedecId, FlashSize, s).
    (case fst (GetFlashDescription Protocol None) of
       None \<Rightarrow> (None, JedecId, FlashSize, s)
     | Some Description \<Rightarrow>
       (if OpcodeTableEntries Description = 0 then (None, JedecId, FlashSize, s)
        else let (Status, JedecId1, s1) = PerformJedecIdOperation Description (ucast (JededIdResponseLengthInBytes Description)) JedecId s
             in if EFI_ERROR Status then (None, JedecId1, FlashSize, s1)
                else let (Description1, written) = GetFlashDescription Protocol (Some JedecId1)
                     in (Description1, JedecId1, (case written of None \<Rightarrow> FlashSize | Some n \<Rightarrow> n), s1))))"

text \<open>The walk over the handles; it stops at the first part that supports the flash.\<close>

primrec walk_parts :: "'s jedec_operation \<Rightarrow> (SPI_FLASH_PART_PROTOCOL \<Rightarrow> bool) \<Rightarrow> SPI_FLASH_PART_PROTOCOL list \<Rightarrow> 's search \<Rightarrow> 's search" where
  "walk_parts perform sel [] st = st"
| "walk_parts perform sel (p # ps) st =
    (if sel p then let st1 = try_part perform p st in if fst st1 \<noteq> None then st1 else walk_parts perform sel ps st1
     else walk_parts perform sel ps st)"

definition highest_priority :: "UINT32 \<Rightarrow> SPI_FLASH_PART_PROTOCOL list \<Rightarrow> UINT32" where
  "highest_priority MaxPriority ps =
    foldl (\<lambda>P p. if MaxPriority \<ge> Priority p \<and> P < Priority p then Priority p else P) 0 ps"

lemma highest_priority_fold:
  "foldl (\<lambda>P p. if M \<ge> Priority p \<and> P < Priority p then Priority p else P) k ps \<le> max k M \<and>
   k \<le> foldl (\<lambda>P p. if M \<ge> Priority p \<and> P < Priority p then Priority p else P) k ps \<and>
   (\<forall>p\<in>set ps. Priority p \<le> M \<longrightarrow> Priority p \<le> foldl (\<lambda>P p. if M \<ge> Priority p \<and> P < Priority p then Priority p else P) k ps)"
proof (induction ps arbitrary: k)
  case (Cons p ps)
  show ?case using Cons.IH [of k] Cons.IH [of "Priority p"] by (auto simp: max_def split: if_splits)
qed (simp add: max_def)

lemma highest_priority_le: "highest_priority M ps \<le> M"
  using highest_priority_fold [of M 0 ps] by (simp add: highest_priority_def)

lemma highest_priority_max: "p \<in> set ps \<Longrightarrow> Priority p \<le> M \<Longrightarrow> Priority p \<le> highest_priority M ps"
  using highest_priority_fold [of M 0 ps] by (simp add: highest_priority_def)

function search_parts :: "'s jedec_operation \<Rightarrow> UINT32 \<Rightarrow> SPI_FLASH_PART_PROTOCOL list \<Rightarrow> 's search \<Rightarrow> 's search" where
  "search_parts perform MaxPriority ps st =
    (let P = highest_priority MaxPriority ps
     in if P = 0 then st
        else let st1 = walk_parts perform (\<lambda>p. P = Priority p) ps st
             in if fst st1 \<noteq> None then st1 else search_parts perform (P - 1) ps st1)"
  by auto
termination
proof (relation "measure (\<lambda>(perform, M, _). unat M)", goal_cases)
  case (2 perform M ps st P st1)
  then have "unat (P - 1) < unat P" using unat_gt_0 [of P] by (simp add: unat_sub word_le_nat_alt Suc_le_eq)
  moreover have "unat P \<le> unat M" using highest_priority_le [of M ps] 2 by (simp add: word_le_nat_alt)
  ultimately show ?case by simp
qed simp

declare search_parts.simps [simp del]

fun open_parts :: "'s spi_services \<Rightarrow> UINTN list \<Rightarrow> 's \<Rightarrow> SPI_FLASH_PART_PROTOCOL list option" where
  "open_parts B [] s = Some []"
| "open_parts B (h # hs) s =
    (let (Status, p) = OpenPart B h s
     in if EFI_ERROR Status then None else map_option ((#) p) (open_parts B hs s))"

text \<open>The size of the JEDEC ID buffer; a part without a description is a NULL pointer that is followed.\<close>

fun jedec_length :: "UINTN \<Rightarrow> SPI_FLASH_PART_PROTOCOL list \<Rightarrow> UINTN option" where
  "jedec_length n [] = Some n"
| "jedec_length n (p # ps) =
    (case fst (GetFlashDescription p None) of
       None \<Rightarrow> None
     | Some d \<Rightarrow> jedec_length (if n < ucast (JededIdResponseLengthInBytes d) then ucast (JededIdResponseLengthInBytes d) else n) ps)"

definition FindFlashSupport :: "'s spi_services \<Rightarrow> 's jedec_operation \<Rightarrow> 's \<Rightarrow> (UINT64 \<times> FLASH_PART_DESCRIPTION option \<times> 's) option" where
  "FindFlashSupport B perform s =
    (let (Status, HandleArray) = LocateParts B s
     in if EFI_ERROR Status then Some (0, None, s)
        else if \<not> PoolHas B (of_nat (length HandleArray) * 8) s then Some (0, None, s)
        else (case open_parts B HandleArray s of
                None \<Rightarrow> Some (0, None, s)
              | Some ps \<Rightarrow>
                (case jedec_length 0 ps of
                   None \<Rightarrow> None
                 | Some BufferLength \<Rightarrow>
                   (if \<not> PoolHas B BufferLength s then Some (0, None, s)
                    else let (found, JedecId, FlashSize, s1) =
                               search_parts perform 0xffffffff ps (None, replicate (unat BufferLength) 0, 0, s)
                         in Some (FlashSize, found, s1)))))"

definition OpcodeMap :: "UINT8 list" where
  "OpcodeMap = [SPI_READ_ID, SPI_RDSR, SPI_WRSR, SPI_READ, SPI_PROG, SPI_SERASE, SPI_BERASE, SPI_WRDI_SFDP]"

definition menu_frequency :: "UINT32 \<Rightarrow> SPI_CYCLE_FREQUENCY" where
  "menu_frequency f =
    (if f = 20000000 then EnumSpiCycle20MHz
     else if f = 33000000 then EnumSpiCycle33MHz
     else if f = 50000000 then EnumSpiCycle50MHz
     else if f = 66000000 then EnumSpiCycle66MHz
     else EnumSpiCycle33MHz)"

text \<open>The operation of an opcode index; an unknown index leaves the entry as it is.\<close>

definition menu_operation :: "UINT8 \<Rightarrow> SPI_OPERATION \<Rightarrow> SPI_OPERATION" where
  "menu_operation i old =
    (if i = 0 then EnumSpiOperationJedecId
     else if i = 1 then EnumSpiOperationReadStatus
     else if i = 2 then EnumSpiOperationWriteStatus
     else if i = 3 then EnumSpiOperationReadData
     else if i = 4 then EnumSpiOperationProgramData_1_Byte
     else if i = 5 then EnumSpiOperationErase_4K_Byte
     else if i = 6 then EnumSpiOperationErase_64K_Byte
     else if i = 7 then EnumSpiOperationWriteDisable
     else old)"

definition menu_entry :: "SPI_FLASH_PART_OPCODE_ENTRY \<Rightarrow> SPI_COMMAND_CONFIG \<Rightarrow> SPI_COMMAND_CONFIG" where
  "menu_entry e old = \<lparr>Frequency = menu_frequency (MaxFrequency e), Operation = menu_operation (EntryOpcodeIndex e) (Operation old)\<rparr>"

text \<open>The loop over the opcode table; an index past the end of a table has no result.\<close>

fun menu_loop :: "nat \<Rightarrow> nat \<Rightarrow> SPI_FLASH_PART_OPCODE_ENTRY list \<Rightarrow> SPI_COMMAND_CONFIG list \<Rightarrow> SPI_COMMAND_CONFIG list option" where
  "menu_loop 0 Index table cfg = Some cfg"
| "menu_loop (Suc k) Index table cfg =
    (if length OpcodeMap \<le> Index \<or> length table \<le> Index then None
     else let c = unat (OpcodeMap ! Index)
          in menu_loop k (Index + 1) table
               (cfg[c := menu_entry (table ! Index) (cfg ! c)]))"

definition SpiFlashInit_table :: "flash_pcds \<Rightarrow> FLASH_PART_DESCRIPTION \<Rightarrow> SPI_INIT_DATA option" where
  "SpiFlashInit_table pcd d =
    map_option (\<lambda>cfg. \<lparr>PrefixOpcode = [WriteEnable d, WriteStatusEnable d], SpiCmdConfig = cfg, SpecialOpcode = [],
                       BiosStartOffset = ucast (BIOS_REGION_FLASH_OFFSET pcd), BiosSize = ucast (PcdBiosImageSize pcd)\<rparr>)
      (menu_loop (unat (OpcodeTableEntries d)) 0 (OpcodeTable d)
         (replicate 8 \<lparr>Frequency = EnumSpiCycle20MHz, Operation = EnumSpiOperationWriteStatus\<rparr>))"

definition SpiFlashInit :: "'s spi_driver \<Rightarrow> FLASH_PART_DESCRIPTION \<Rightarrow> 's \<Rightarrow> (EFI_STATUS \<times> 's) option" where
  "SpiFlashInit D d s = map_option (\<lambda>t. Init (mSpiProtocol D) t s) (SpiFlashInit_table (Pcds D) d)"

section \<open>Entry points and the SMI handler\<close>

text \<open>
  The common part of the two entry points: locating the controller, whose failure is an assertion, searching the
  part and programming the controller.  The result is the driver and, when the part is supported, the
  continuation \<open>publish\<close> that installs the protocol.
\<close>

definition jedec_operation :: "'s EFI_SPI_PROTOCOL \<Rightarrow> 's jedec_operation" where
  "jedec_operation Spi d n b s = (let (Status, b', s') = JedecIdRead Spi (Some d) n (Some b) s in (Status, the b', s'))"

definition configure_device :: "'s spi_services \<Rightarrow> 's spi_driver \<Rightarrow> ('s \<Rightarrow> EFI_STATUS \<times> 's) \<Rightarrow> 's \<Rightarrow> (EFI_STATUS \<times> 's) option" where
  "configure_device B D publish s =
    (case FindFlashSupport B (jedec_operation (mSpiProtocol D)) s of
       None \<Rightarrow> None
     | Some (FlashSize, FlashDescription, s1) \<Rightarrow>
       (if FlashSize = 0 then Some (EFI_UNSUPPORTED, s1)
        else (case FlashDescription of
                None \<Rightarrow> None
              | Some d \<Rightarrow>
                (case SpiFlashInit D d s1 of
                   None \<Rightarrow> None
                 | Some (Status, s2) \<Rightarrow> Some (if EFI_ERROR Status then (EFI_UNSUPPORTED, s2) else publish s2)))))"

definition publish_Dxe :: "'s spi_services \<Rightarrow> 's \<Rightarrow> EFI_STATUS \<times> 's" where
  "publish_Dxe B s =
    (let (Status, s1) = InstallDevice B s
     in if EFI_ERROR Status then (EFI_OUT_OF_RESOURCES, s1) else (EFI_SUCCESS, CreateAddressChangeEvent B s1))"

definition publish_Smm :: "'s spi_services \<Rightarrow> 's \<Rightarrow> EFI_STATUS \<times> 's" where
  "publish_Smm B s =
    (let (Status, s1) = InstallDevice B s
     in if EFI_ERROR Status then (EFI_OUT_OF_RESOURCES, s1)
        else let (Status1, s2) = InstallDxeTag B s1
             in if EFI_ERROR Status1 then (Status1, s2)
                else let (Status2, s3) = RegisterHandler B s2
                     in if EFI_ERROR Status2 then (Status2, s3) else (EFI_SUCCESS, s3))"

definition InitSpiDevice_Dxe :: "'s spi_services \<Rightarrow> flash_pcds \<Rightarrow> ('s \<Rightarrow> bool) \<Rightarrow> ('s \<Rightarrow> memory) \<Rightarrow> 's \<Rightarrow>
    ('s spi_driver \<times> EFI_STATUS \<times> 's) option" where
  "InitSpiDevice_Dxe B pcd EfiAtRuntime mem s =
    (let (Status, Spi) = LocateSpi B s;
         D = \<lparr>mSpiProtocol = Spi, mNvStorageBase = ucast (PcdFlashNvStorageVariableBase pcd), Pcds = pcd,
              UsesMmio = (\<lambda>off s. ReadUsingMmio_Dxe pcd (EfiAtRuntime s) off), MemoryOf = mem\<rparr>
     in if EFI_ERROR Status then None
        else map_option (\<lambda>(st, s'). (D, st, s')) (configure_device B D (publish_Dxe B) s))"

definition InitSpiDevice_Smm :: "'s spi_services \<Rightarrow> flash_pcds \<Rightarrow> ('s \<Rightarrow> memory) \<Rightarrow> 's \<Rightarrow> ('s spi_driver \<times> EFI_STATUS \<times> 's) option" where
  "InitSpiDevice_Smm B pcd mem s =
    (let (Status, Spi) = LocateSpi B s;
         D = \<lparr>mSpiProtocol = Spi, mNvStorageBase = ucast (PcdFlashNvStorageVariableBase pcd), Pcds = pcd,
              UsesMmio = (\<lambda>off s. ReadUsingMmio_Smm pcd off), MemoryOf = mem\<rparr>
     in if EFI_ERROR Status then None
        else map_option (\<lambda>(st, s'). (D, st, s')) (configure_device B D (publish_Smm B) s))"

text \<open>
  The communication buffer of the SMI handler: the function, the returned status and the fields of the three
  parameter headers; \<open>Data\<close> are the bytes behind the header up to the end of the buffer.
\<close>

record spi_comm =
  Function :: UINTN
  ReturnStatus :: EFI_STATUS
  Offset :: UINTN
  Size :: UINTN
  LockBlocks :: bool
  ReadLock :: bool
  WriteLock :: bool
  Data :: "UINT8 list"

definition SPI_DEV_FUNCTION_READ :: UINTN where "SPI_DEV_FUNCTION_READ = 1"
definition SPI_DEV_FUNCTION_WRITE :: UINTN where "SPI_DEV_FUNCTION_WRITE = 2"
definition SPI_DEV_FUNCTION_ERASE :: UINTN where "SPI_DEV_FUNCTION_ERASE = 3"
definition SPI_DEV_FUNCTION_LOCK :: UINTN where "SPI_DEV_FUNCTION_LOCK = 4"
definition SPI_DEV_FUNCTION_SET_RANGE :: UINTN where "SPI_DEV_FUNCTION_SET_RANGE = 5"
definition SPI_DEV_FUNCTION_LOCK_RANGES :: UINTN where "SPI_DEV_FUNCTION_LOCK_RANGES = 6"

definition SpiDeviceSmmHandler :: "'s spi_driver \<Rightarrow> spi_comm \<Rightarrow> 's \<Rightarrow> (EFI_STATUS \<times> spi_comm \<times> 's) option" where
  "SpiDeviceSmmHandler D c s =
    (let reply = (\<lambda>Status c s. (EFI_SUCCESS, c\<lparr>ReturnStatus := Status\<rparr>, s))
     in if Function c = SPI_DEV_FUNCTION_READ then
          (let (st, b, s') = SpiRead D (Offset c) (Some (Size c)) (Some (Data c)) s in Some (reply st (c\<lparr>Data := the b\<rparr>) s'))
        else if Function c = SPI_DEV_FUNCTION_WRITE then
          (let (st, s') = SpiWrite D (Offset c) (Some (Size c)) (Some (Data c)) s in Some (reply st c s'))
        else if Function c = SPI_DEV_FUNCTION_ERASE then
          map_option (\<lambda>(st, s'). reply st c s') (SpiErase D (Offset c) (Size c) s)
        else if Function c = SPI_DEV_FUNCTION_LOCK then
          (let (st, s') = SpiLock D (Offset c) (Size c) (LockBlocks c) s in Some (reply st c s'))
        else if Function c = SPI_DEV_FUNCTION_SET_RANGE then
          (let (st, s') = SpiSetRange D (Offset c) (Size c) (ReadLock c) (WriteLock c) s in Some (reply st c s'))
        else if Function c = SPI_DEV_FUNCTION_LOCK_RANGES then
          (let (st, s') = SpiLockRanges D s in Some (reply st c s'))
        else Some (reply EFI_UNSUPPORTED c s))"

section \<open>Search order\<close>

text \<open>The parts in the order of the documentation: by descending priority, equal priorities in handle order.\<close>

abbreviation rank :: "SPI_FLASH_PART_PROTOCOL \<Rightarrow> int" where
  "rank p \<equiv> - uint (Priority p)"

abbreviation ranked :: "UINT32 \<Rightarrow> SPI_FLASH_PART_PROTOCOL list \<Rightarrow> SPI_FLASH_PART_PROTOCOL list" where
  "ranked M ps \<equiv> sort_key rank (filter (\<lambda>p. Priority p \<noteq> 0 \<and> Priority p \<le> M) ps)"

lemma walk_filter: "walk_parts perform sel ps st = walk_parts perform (\<lambda>_. True) (filter sel ps) st"
  by (induction ps arbitrary: st) (auto simp: Let_def)

lemma walk_append:
  "walk_parts perform (\<lambda>_. True) (ps @ qs) st =
    (let st1 = walk_parts perform (\<lambda>_. True) ps st in if ps \<noteq> [] \<and> fst st1 \<noteq> None then st1 else walk_parts perform (\<lambda>_. True) qs st1)"
  by (induction ps arbitrary: st) (auto simp: Let_def)

lemma walk_None: "ps \<noteq> [] \<or> fst st = None \<Longrightarrow> fst (walk_parts perform (\<lambda>_. True) ps st) \<noteq> None \<Longrightarrow> ps \<noteq> []"
  by (cases ps) auto

lemma mset_filter_split:
  assumes "\<forall>p\<in>set ps. S p = (Q p \<noteq> R p)" "\<forall>p\<in>set ps. \<not> (Q p \<and> R p)"
  shows "mset (filter Q ps) + mset (filter R ps) = mset (filter S ps)"
  using assms by (induction ps) auto

lemma filter_or:
  "(\<forall>x\<in>set xs. \<not> A x) \<or> (\<forall>x\<in>set xs. \<not> B x) \<Longrightarrow> filter A xs @ filter B xs = filter (\<lambda>x. A x \<or> B x) xs"
  by (elim disjE) (simp_all cong: filter_cong)

lemma ranked_split:
  assumes P: "P = highest_priority M ps" "P \<noteq> 0"
  shows "ranked M ps = filter (\<lambda>p. P = Priority p) ps @ ranked (P - 1) ps"
proof (rule properties_for_sort_key)
  have u: "unat (P - 1) = unat P - 1" "0 < unat P"
    using P(2) unat_gt_0 [of P] by (simp_all add: unat_sub word_le_nat_alt Suc_le_eq)
  have sel': "Priority p \<noteq> 0 \<and> Priority p \<le> M \<longleftrightarrow> P = Priority p \<or> Priority p \<noteq> 0 \<and> Priority p < P" if "p \<in> set ps" for p
    using that P highest_priority_max [of p ps M] highest_priority_le [of M ps] by auto
  have pred: "Priority p \<le> P - 1 \<longleftrightarrow> Priority p < P" for p
    using u by (auto simp: word_le_nat_alt word_less_nat_alt)
  show "mset (filter (\<lambda>p. P = Priority p) ps @ ranked (P - 1) ps) = mset (filter (\<lambda>p. Priority p \<noteq> 0 \<and> Priority p \<le> M) ps)"
    unfolding mset_append mset_sort by (rule mset_filter_split) (use P(2) sel' in \<open>auto simp: pred\<close>)
  show "filter (\<lambda>x. rank k = rank x) (filter (\<lambda>p. P = Priority p) ps @ ranked (P - 1) ps) =
      filter (\<lambda>x. rank k = rank x) (filter (\<lambda>p. Priority p \<noteq> 0 \<and> Priority p \<le> M) ps)" for k
  proof -
    have st: "filter (\<lambda>x. rank k = rank x) (ranked (P - 1) ps) =
        filter (\<lambda>x. rank k = rank x) (filter (\<lambda>p. Priority p \<noteq> 0 \<and> Priority p \<le> P - 1) ps)"
      using sort_key_stable [of rank "rank k"] by (simp only: eq_commute)
    have eq: "rank k = rank x \<longleftrightarrow> Priority x = Priority k" for x by (auto simp: word_uint_eq_iff)
    have "filter (\<lambda>x. P = Priority x \<and> Priority x = Priority k) ps @
        filter (\<lambda>x. (Priority x \<noteq> 0 \<and> Priority x \<le> P - 1) \<and> Priority x = Priority k) ps =
        filter (\<lambda>x. P = Priority x \<and> Priority x = Priority k \<or>
          (Priority x \<noteq> 0 \<and> Priority x \<le> P - 1) \<and> Priority x = Priority k) ps"
      by (rule filter_or) (auto simp: pred)
    also have "\<dots> = filter (\<lambda>x. (Priority x \<noteq> 0 \<and> Priority x \<le> M) \<and> Priority x = Priority k) ps"
      by (rule filter_cong) (use sel' in \<open>auto simp: pred\<close>)
    finally show ?thesis unfolding filter_append unfolding st unfolding filter_filter eq .
  qed
  show "sorted (map rank (filter (\<lambda>p. P = Priority p) ps @ ranked (P - 1) ps))"
  proof -
    have "sorted (map rank (filter (\<lambda>p. P = Priority p) xs))" for xs by (induction xs) auto
    then show ?thesis using sorted_sort_key [of rank] by (auto simp: sorted_append pred word_less_def)
  qed
qed

lemma search_parts_ranked: "fst st = None \<Longrightarrow> search_parts perform M ps st = walk_parts perform (\<lambda>_. True) (ranked M ps) st"
proof (induction perform M ps st rule: search_parts.induct)
  case (1 perform M ps st)
  let ?P = "highest_priority M ps"
  show ?case
  proof (cases "?P = 0")
    case True
    have "filter (\<lambda>p. Priority p \<noteq> 0 \<and> Priority p \<le> M) ps = []"
      using True highest_priority_max [of _ ps M] by (auto simp: filter_empty_conv)
    then show ?thesis using True by (simp add: search_parts.simps)
  next
    case False
    let ?st1 = "walk_parts perform (\<lambda>p. ?P = Priority p) ps st"
    have w: "walk_parts perform (\<lambda>_. True) (ranked M ps) st =
        (if fst ?st1 \<noteq> None then ?st1 else walk_parts perform (\<lambda>_. True) (ranked (?P - 1) ps) ?st1)"
      using walk_None [of "filter (\<lambda>p. ?P = Priority p) ps" st perform] "1.prems"
      by (auto simp: ranked_split [OF refl False] walk_append Let_def simp flip: walk_filter)
    show ?thesis
      using "1.IH" [OF refl False refl] False unfolding w by (simp add: search_parts.simps [of perform M] Let_def)
  qed
qed

section \<open>Properties of the driver\<close>

text \<open>The build constants of the platform, \<^verbatim>\<open>BraswellPlatformPkg/PlatformPkg.fdf\<close>.\<close>

definition braswell_pcds :: flash_pcds where
  "braswell_pcds =
    \<lparr>PcdFlashAreaBaseAddress = 0xFF800000, PcdFlashAreaSize = 0x00800000, PcdBiosImageBase = 0xFFC00000,
     PcdBiosImageSize = 0x00400000, PcdFlashNvStorageVariableBase = 0xFFC00000\<rparr>"

text \<open>The driver of a machine whose flash area is mapped below 4 GB and whose controller is the ideal one.\<close>

definition ideal_driver :: "flash spi_driver" where
  "ideal_driver =
    \<lparr>mSpiProtocol = ideal_controller, mNvStorageBase = 0xFFC00000, Pcds = braswell_pcds,
     UsesMmio = (\<lambda>off f. ReadUsingMmio_Smm braswell_pcds off), MemoryOf = (\<lambda>f a. f (unat (a - 0xFF800000)))\<rparr>"

interpretation ideal_dev: spi_driver_ok ideal_driver id "\<lambda>_. True" "0x800000" "0x2E000"
proof -
  have ctl: "spi_controller (mSpiProtocol ideal_driver) id (\<lambda>_. True) 0x800000"
    using ideal.spi_controller_axioms by (simp add: ideal_driver_def)
  show "spi_driver_ok ideal_driver id (\<lambda>_. True) 0x800000 0x2E000"
    by (intro spi_driver_ok.intro [OF ctl] spi_driver_ok_axioms.intro)
      (auto simp: ideal_driver_def braswell_pcds_def VN_STORAGE_REGION_FLASH_OFFSET_def unat_of_nat)
qed

text \<open>
  SpiWrite.  For every controller that keeps its contract: a write inside the flash area changes no byte outside the
  range, and when it reports success every byte of the range is the old byte ANDed with the byte of the buffer.
\<close>

theorem SpiWrite_programs_range:
  assumes "spi_driver_ok D flash ready fsize nvsize" "ready s" "unat SpiOffset + unat n \<le> fsize" "unat n \<le> length b"
  shows "\<exists>st s'. SpiWrite D SpiOffset (Some n) (Some b) s = (st, s') \<and> ready s' \<and>
    (\<forall>x. x < unat SpiOffset \<or> unat SpiOffset + unat n \<le> x \<longrightarrow> flash s' x = flash s x) \<and>
    (\<not> EFI_ERROR st \<longrightarrow> st = EFI_SUCCESS \<and>
       (\<forall>i < unat n. flash s' (unat SpiOffset + i) = flash s (unat SpiOffset + i) AND b ! i))"
proof -
  obtain st s' where w: "SpiWrite D SpiOffset (Some n) (Some b) s = (st, s')" by fastforce
  show ?thesis using spi_driver_ok.write_programs [OF assms w] assms(4) w
    by (auto simp: same_outside_def programmed_def)
qed

theorem SpiWrite_programs_range_witness:
  "\<exists>st f. SpiWrite ideal_driver 0x400000 (Some 2) (Some [0x12, 0x34]) (\<lambda>_. 0xFF) = (st, f) \<and>
    (\<forall>x. x < 0x400000 \<or> 0x400002 \<le> x \<longrightarrow> f x = 0xFF) \<and>
    (\<not> EFI_ERROR st \<longrightarrow> st = EFI_SUCCESS \<and> (\<forall>i < (2 :: nat). f (0x400000 + i) = 0xFF AND [0x12, 0x34] ! i))"
  using SpiWrite_programs_range [OF ideal_dev.spi_driver_ok_axioms, where s = "\<lambda>_. 0xFF" and SpiOffset = "0x400000" and n = 2 and b = "[0x12, 0x34]"] by simp

text \<open>C25. 
  SpiErase.  An erase whose offset and size are multiples of 4096 ends; it changes no byte outside the range, and when
  it reports success every byte of the range is 0xFF.
\<close>

theorem SpiErase_erases_range:
  assumes "spi_driver_ok D flash ready fsize nvsize" "ready s" "0 < n" "unat SpiOffset + unat n \<le> fsize"
    and "unat SpiOffset mod 4096 = 0" "unat n mod 4096 = 0"
  shows "\<exists>st s'. SpiErase D SpiOffset n s = Some (st, s') \<and> ready s' \<and>
    (\<forall>x. x < unat SpiOffset \<or> unat SpiOffset + unat n \<le> x \<longrightarrow> flash s' x = flash s x) \<and>
    (\<not> EFI_ERROR st \<longrightarrow> st = EFI_SUCCESS \<and> (\<forall>i < unat n. flash s' (unat SpiOffset + i) = 0xFF))"
  using spi_driver_ok.erase_aligned [OF assms] by (fastforce simp: same_outside_def erased_def)

theorem SpiErase_erases_range_witness:
  "\<exists>st f. SpiErase ideal_driver 0x401000 0x2000 (\<lambda>_. 7) = Some (st, f) \<and>
    (\<forall>x. x < 0x401000 \<or> 0x403000 \<le> x \<longrightarrow> f x = 7) \<and>
    (\<not> EFI_ERROR st \<longrightarrow> st = EFI_SUCCESS \<and> (\<forall>i < (0x2000 :: nat). f (0x401000 + i) = 0xFF))"
  using SpiErase_erases_range [OF ideal_dev.spi_driver_ok_axioms, where s = "\<lambda>_. 7" and n = "0x2000" and SpiOffset = "0x401000"] by simp

lemma unat_page_offset: "unat (a AND (SIZE_4KB - 1)) = unat a mod 4096"
  using unat_and_page_mask [of a] by (simp add: SIZE_4KB_def EFI_PAGE_MASK_def)

text \<open>C31. 
  SpiErase at an offset that is not a multiple of 4096.  The offset is replaced by its remainder instead of being
  aligned down, so a successful erase hits the sectors at the start of the flash device, whatever the offset is.
\<close>

theorem SpiErase_unaligned_start_of_flash:
  assumes ok: "spi_driver_ok D flash ready fsize nvsize" and "ready s" and in_flash: "unat SpiOffset + unat n \<le> fsize"
    and off: "unat SpiOffset mod 4096 \<noteq> 0" and n: "(unat n + unat SpiOffset mod 4096) mod 4096 = 0"
  shows "\<exists>st s'. SpiErase D SpiOffset n s = Some (st, s') \<and>
    (\<not> EFI_ERROR st \<longrightarrow> flash s' = erased 0 (unat n + unat SpiOffset mod 4096) (flash s))"
proof -
  let ?r = "SpiOffset AND (SIZE_4KB - 1)"
  have b: "fsize \<le> 2 ^ 27" using ok by (simp add: spi_driver_ok_def spi_controller_def)
  have r: "unat ?r = unat SpiOffset mod 4096" by (rule unat_page_offset)
  have m: "unat SpiOffset mod 4096 \<le> unat SpiOffset" by (rule mod_less_eq_dividend)
  have sum: "unat (n + ?r) = unat n + unat SpiOffset mod 4096"
    unfolding r [symmetric] using in_flash b m by (intro unat_add_noov) (simp add: r)
  then obtain k where k: "unat (n + ?r) = 4096 * k" using n by (auto simp: mod_eq_0_iff_dvd dvd_def)
  have d: "unat ?r div 4096 * 4096 = 0" by (simp add: r)
  have nz: "n + ?r \<noteq> 0" using sum off by (auto simp flip: unat_eq_zero)
  obtain st s' where "SpiErase_loop (mSpiProtocol D) (n + ?r) ?r EFI_INVALID_PARAMETER s = Some (st, s')"
    "\<not> EFI_ERROR st \<longrightarrow> flash s' = erased 0 (unat (n + ?r)) (flash s)"
    using spi_controller.SpiErase_loop_erases [OF spi_driver_ok.axioms(1) [OF ok] assms(2) k, of ?r EFI_INVALID_PARAMETER]
      d nz sum m in_flash by auto
  moreover have "\<not> (ucast (PcdFlashAreaSize (Pcds D)) :: UINTN) < SpiOffset + n" by (rule spi_driver_ok.in_area [OF ok in_flash])
  moreover have "?r \<noteq> 0" using off r by (auto simp flip: unat_eq_zero)
  ultimately show ?thesis by (auto simp: SpiErase_def sum)
qed

theorem SpiErase_unaligned_start_of_flash_witness:
  "\<exists>st f. SpiErase ideal_driver 0x401800 0x800 (\<lambda>_. 7) = Some (st, f) \<and> (\<not> EFI_ERROR st \<longrightarrow> f = erased 0 0x1000 (\<lambda>_. 7))"
  using SpiErase_unaligned_start_of_flash [OF ideal_dev.spi_driver_ok_axioms, where s = "\<lambda>_. 7" and SpiOffset = "0x401800" and n = "0x800"] by simp

text \<open>
  SpiErase with a size that is not a multiple of 4096.  The remaining size wraps past zero, so the loop does not end
  unless a command fails.
\<close>

theorem SpiErase_wraps_past_zero:
  assumes "unat (SpiOffset + n) \<le> unat (PcdFlashAreaSize (Pcds D))" "(unat n + unat SpiOffset mod 4096) mod 4096 \<noteq> 0"
    and "SpiErase D SpiOffset n s = Some (st, s')"
  shows "EFI_ERROR st"
proof -
  have area: "\<not> (ucast (PcdFlashAreaSize (Pcds D)) :: UINTN) < SpiOffset + n" using assms(1) by (simp add: word_less_nat_alt)
  show ?thesis
  proof (cases "SpiOffset AND (SIZE_4KB - 1) = 0")
    case True
    then have "unat SpiOffset mod 4096 = 0" by (metis unat_page_offset unat_0)
    then show ?thesis using SpiErase_loop_result [of "mSpiProtocol D" n SpiOffset EFI_INVALID_PARAMETER s st s'] assms True area
      by (auto simp: SpiErase_def)
  next
    case False
    let ?m = "n + (SpiOffset AND (SIZE_4KB - 1))"
    have "unat ?m mod 4096 = (unat n + unat SpiOffset mod 4096) mod 4096"
      by (simp add: unat_word_ariths unat_page_offset mod_mod_cancel)
    then show ?thesis using SpiErase_loop_result [of "mSpiProtocol D" ?m _ EFI_INVALID_PARAMETER s st s'] assms False area
      by (auto simp: SpiErase_def)
  qed
qed

text \<open>
  SpiRead of memory-mapped contents, or of the non-volatile storage at its runtime address: the first bytes of the
  buffer are the contents of the flash, the others keep their values, and the machine is not changed.
\<close>

theorem SpiRead_mapped_contents:
  assumes "spi_driver_ok D flash ready fsize nvsize" "ready s" "unat SpiOffset + unat n \<le> fsize" "unat n \<le> length b"
    and "UsesMmio D SpiOffset s \<or>
      unat (VN_STORAGE_REGION_FLASH_OFFSET (Pcds D)) \<le> unat SpiOffset \<and> 0 < n \<and>
      unat SpiOffset + unat n \<le> unat (VN_STORAGE_REGION_FLASH_OFFSET (Pcds D)) + nvsize"
  shows "SpiRead D SpiOffset (Some n) (Some b) s =
    (EFI_SUCCESS, Some (map (\<lambda>i. flash s (unat SpiOffset + i)) [0 ..< unat n] @ drop (unat n) b), s)"
proof -
  have "spi_driver_ok.readable D nvsize s (unat SpiOffset) (unat n)"
    unfolding spi_driver_ok.readable_def [OF assms(1)] using assms(5) by (auto simp: word_less_nat_alt)
  moreover have "map (\<lambda>i. flash s (unat SpiOffset + i)) [0 ..< unat n] = flash_bytes (unat SpiOffset) (unat n) (flash s)"
    by (auto simp: flash_bytes_def intro: nth_equalityI)
  ultimately show ?thesis using spi_driver_ok.read_readable [OF assms(1-4)] by simp
qed

text \<open>SpiRead through the controller reports success when its first command has failed and nothing has been read.\<close>

theorem SpiRead_hides_device_error:
  assumes "\<not> UsesMmio D SpiOffset s" "SpiOffset < ucast (VN_STORAGE_REGION_FLASH_OFFSET (Pcds D))" "n \<noteq> 0"
    and "SpiOffset + n \<le> ucast (PcdFlashAreaSize (Pcds D))"
    and "\<And>a m c. Execute (mSpiProtocol D) SPI_READ 0 True True False a m c EnumSpiRegionAll s = (EFI_DEVICE_ERROR, c, s)"
  shows "SpiRead D SpiOffset (Some n) (Some b) s = (EFI_SUCCESS, Some b, s)"
  using assms by (auto simp: SpiRead_def SpiRead_loop.simps [of _ n] Let_def put_chunk_def chunk_def not_less dest: leD)

text \<open>
  The SMI handler takes the size of a read from the communication buffer without comparing it with the length of that
  buffer: with a larger size the read writes past its end.
\<close>

theorem SpiDeviceSmmHandler_read_past_end:
  assumes "Function c = SPI_DEV_FUNCTION_READ" "UsesMmio D (Offset c) s" "unat (Offset c + Size c) \<le> unat (PcdFlashAreaSize (Pcds D))"
    and "length (Data c) < unat (Size c)" "SpiDeviceSmmHandler D c s = Some (st, c', s')"
  shows "st = EFI_SUCCESS \<and> ReturnStatus c' = EFI_SUCCESS \<and> length (Data c) < length (Data c')"
  using assms by (auto simp: SpiDeviceSmmHandler_def SpiRead_def word_less_nat_alt Let_def split: if_splits)

text \<open>C26. 
  FindFlashSupport tries the parts by descending priority, parts of equal priority in the order of their handles, and
  never a part of priority zero; it stops at the first part that supports the flash.
\<close>

theorem FindFlashSupport_by_priority:
  assumes "LocateParts B s = (EFI_SUCCESS, hs)" "PoolHas B (of_nat (length hs) * 8) s" "open_parts B hs s = Some ps"
    and "jedec_length 0 ps = Some L" "PoolHas B L s"
  shows "FindFlashSupport B perform s =
    (let (found, _, FlashSize, s1) =
           walk_parts perform (\<lambda>_. True) (sort_key (\<lambda>p. - uint (Priority p)) (filter (\<lambda>p. Priority p \<noteq> 0) ps))
             (None, replicate (unat L) 0, 0, s)
     in Some (FlashSize, found, s1))"
proof -
  have "Priority p \<le> 0xffffffff" for p :: SPI_FLASH_PART_PROTOCOL
  proof -
    have "(0xffffffff :: UINT32) = - 1" by simp
    then show ?thesis by (metis word_order.extremum)
  qed
  then show ?thesis using assms by (simp add: FindFlashSupport_def search_parts_ranked)
qed

text \<open>Two generic parts of priority 1 and one specific part of priority 5 that all answer with their own size.\<close>

definition sample_description :: "string \<Rightarrow> FLASH_PART_DESCRIPTION" where
  "sample_description n = \<lparr>PartNumber = n, StatusBytes = 1, WriteEnable = 6, WriteStatusEnable = 0x50, JededIdResponseLengthInBytes = 3,
    OpcodeTableEntries = 1, OpcodeTable = []\<rparr>"

definition sample_part :: "UINT32 \<Rightarrow> string \<Rightarrow> UINT64 \<Rightarrow> SPI_FLASH_PART_PROTOCOL" where
  "sample_part p n z = \<lparr>Priority = p, GetFlashDescription = (\<lambda>j. (Some (sample_description n), map_option (\<lambda>_. z) j))\<rparr>"

definition sample_services :: "unit spi_services" where
  "sample_services =
    \<lparr>LocateParts = (\<lambda>s. (EFI_SUCCESS, [0, 1, 2])),
     OpenPart = (\<lambda>h s. (EFI_SUCCESS, if h = 1 then sample_part 5 ''W25Q64'' 8 else sample_part 1 ''generic'' 4)),
     PoolHas = (\<lambda>n s. True), LocateSpi = (\<lambda>s. (EFI_NOT_FOUND, \<lparr>ReadId = (\<lambda>a b s. (EFI_UNSUPPORTED, b, s)),
       Init = (\<lambda>d s. (EFI_UNSUPPORTED, s)), Lock = (\<lambda>s. (EFI_UNSUPPORTED, s)),
       Execute = (\<lambda>op p dc a so ad n b r s. (EFI_UNSUPPORTED, b, s))\<rparr>)),
     InstallDevice = (\<lambda>s. (EFI_SUCCESS, s)), InstallDxeTag = (\<lambda>s. (EFI_SUCCESS, s)), RegisterHandler = (\<lambda>s. (EFI_SUCCESS, s)),
     CreateAddressChangeEvent = (\<lambda>s. s)\<rparr>"

theorem FindFlashSupport_by_priority_witness:
  "FindFlashSupport sample_services (\<lambda>d n b s. (EFI_SUCCESS, b, s)) () = Some (8, Some (sample_description ''W25Q64''), ())"
proof -
  let ?g = "sample_part 1 ''generic'' 4" and ?w = "sample_part 5 ''W25Q64'' 8"
  have "sort_key (\<lambda>p. - uint (Priority p)) (filter (\<lambda>p. Priority p \<noteq> 0) [?g, ?w, ?g]) = [?w, ?g, ?g]"
    by (simp add: sample_part_def)
  then show ?thesis
    using FindFlashSupport_by_priority [of sample_services "()" "[0, 1, 2]" "[?g, ?w, ?g]" 3 "\<lambda>d n b s. (EFI_SUCCESS, b, s)"]
    by (simp add: sample_services_def try_part_def) (simp add: sample_part_def sample_description_def)
qed

lemmas opcode_defs = OpcodeMap_def SPI_READ_ID_def SPI_RDSR_def SPI_WRSR_def SPI_READ_def SPI_PROG_def SPI_SERASE_def
  SPI_BERASE_def SPI_WRDI_SFDP_def SPI_WREN_def SPI_EWSR_def

lemma map_OpcodeMap: "map unat OpcodeMap = [0, 2, 7, 1, 6, 4, 5, 3]"
  by (simp add: opcode_defs)

lemma length_OpcodeMap [simp]: "length OpcodeMap = 8"
  by (simp add: OpcodeMap_def)

lemma OpcodeMap_less: "j < 8 \<Longrightarrow> unat (OpcodeMap ! j) < 8"
proof -
  assume "j < 8"
  have "\<forall>x\<in>set (map unat OpcodeMap). x < 8" unfolding map_OpcodeMap by simp
  then show ?thesis using \<open>j < 8\<close> by simp
qed

lemma OpcodeMap_inj: "i < 8 \<Longrightarrow> j < 8 \<Longrightarrow> unat (OpcodeMap ! i) = unat (OpcodeMap ! j) \<longleftrightarrow> i = j"
proof -
  have "distinct (map unat OpcodeMap)" unfolding map_OpcodeMap by simp
  then show "i < 8 \<Longrightarrow> j < 8 \<Longrightarrow> ?thesis" using nth_eq_iff_index_eq [of "map unat OpcodeMap" i j] by simp
qed

lemma menu_loop_entries:
  "Index + k \<le> 8 \<Longrightarrow> length table = 8 \<Longrightarrow> length cfg = 8 \<Longrightarrow>
    \<exists>cfg'. menu_loop k Index table cfg = Some cfg' \<and> length cfg' = 8 \<and>
      (\<forall>j < 8. cfg' ! unat (OpcodeMap ! j) =
        (if Index \<le> j \<and> j < Index + k then menu_entry (table ! j) (cfg ! unat (OpcodeMap ! j)) else cfg ! unat (OpcodeMap ! j)))"
proof (induction k arbitrary: Index cfg)
  case (Suc k)
  let ?c = "unat (OpcodeMap ! Index)"
  let ?cfg = "cfg[?c := menu_entry (table ! Index) (cfg ! ?c)]"
  obtain cfg' where c: "menu_loop k (Index + 1) table ?cfg = Some cfg'" "length cfg' = 8"
    and j: "\<forall>j < 8. cfg' ! unat (OpcodeMap ! j) =
        (if Index + 1 \<le> j \<and> j < Index + 1 + k then menu_entry (table ! j) (?cfg ! unat (OpcodeMap ! j)) else ?cfg ! unat (OpcodeMap ! j))"
    using Suc.IH [of "Index + 1" ?cfg] Suc.prems by auto
  have "?cfg ! unat (OpcodeMap ! j) = (if j = Index then menu_entry (table ! Index) (cfg ! ?c) else cfg ! unat (OpcodeMap ! j))" if "j < 8" for j
    using OpcodeMap_inj [of Index j] OpcodeMap_less [of Index] Suc.prems that by (auto simp: nth_list_update)
  then have "\<forall>j < 8. cfg' ! unat (OpcodeMap ! j) =
      (if Index \<le> j \<and> j < Index + Suc k then menu_entry (table ! j) (cfg ! unat (OpcodeMap ! j)) else cfg ! unat (OpcodeMap ! j))"
    using j by (auto simp: not_less_eq_eq)
  moreover have "menu_loop (Suc k) Index table cfg = Some cfg'" using c Suc.prems by (simp add: Let_def)
  ultimately show ?case using c(2) by blast
qed auto

text \<open>
  SpiFlashInit.  A full opcode table in the order of its opcode indices puts every operation into the menu position the
  driver uses it by, and the controller is initialized with that menu.
\<close>

theorem SpiFlashInit_menu:
  assumes "OpcodeTableEntries d = 8" "length (OpcodeTable d) = 8" "\<forall>i < 8. unat (EntryOpcodeIndex (OpcodeTable d ! i)) = i"
  shows "\<exists>t. SpiFlashInit D d s = Some (Init (mSpiProtocol D) t s) \<and>
    PrefixOpcode t ! unat SPI_WREN = WriteEnable d \<and> PrefixOpcode t ! unat SPI_EWSR = WriteStatusEnable d \<and>
    Operation (SpiCmdConfig t ! unat SPI_READ_ID) = EnumSpiOperationJedecId \<and>
    Operation (SpiCmdConfig t ! unat SPI_READ) = EnumSpiOperationReadData \<and>
    Operation (SpiCmdConfig t ! unat SPI_RDSR) = EnumSpiOperationReadStatus \<and>
    Operation (SpiCmdConfig t ! unat SPI_WRDI_SFDP) = EnumSpiOperationWriteDisable \<and>
    Operation (SpiCmdConfig t ! unat SPI_SERASE) = EnumSpiOperationErase_4K_Byte \<and>
    Operation (SpiCmdConfig t ! unat SPI_BERASE) = EnumSpiOperationErase_64K_Byte \<and>
    Operation (SpiCmdConfig t ! unat SPI_PROG) = EnumSpiOperationProgramData_1_Byte \<and>
    Operation (SpiCmdConfig t ! unat SPI_WRSR) = EnumSpiOperationWriteStatus \<and> length (SpiCmdConfig t) = 8"
proof -
  let ?zero = "replicate 8 \<lparr>Frequency = EnumSpiCycle20MHz, Operation = EnumSpiOperationWriteStatus\<rparr>"
  have ix: "EntryOpcodeIndex (OpcodeTable d ! i) = of_nat i" if "i < 8" for i
    using assms(3) that by (simp add: word_unat_eq_iff unat_of_nat)
  obtain cfg where c: "menu_loop 8 0 (OpcodeTable d) ?zero = Some cfg" "length cfg = 8"
    and j: "\<And>j. j < 8 \<Longrightarrow> Operation (cfg ! unat (OpcodeMap ! j)) = menu_operation (of_nat j) (Operation (?zero ! unat (OpcodeMap ! j)))"
    using menu_loop_entries [of 0 8 "OpcodeTable d" ?zero] assms(2) ix by (auto simp: menu_entry_def)
  let ?t = "\<lparr>PrefixOpcode = [WriteEnable d, WriteStatusEnable d], SpiCmdConfig = cfg, SpecialOpcode = [],
    BiosStartOffset = ucast (BIOS_REGION_FLASH_OFFSET (Pcds D)), BiosSize = ucast (PcdBiosImageSize (Pcds D))\<rparr>"
  have "SpiFlashInit D d s = Some (Init (mSpiProtocol D) ?t s)"
    using assms(1) c by (simp add: SpiFlashInit_def SpiFlashInit_table_def)
  then show ?thesis
    using c(2) j [of 0] j [of 1] j [of 2] j [of 3] j [of 4] j [of 5] j [of 6] j [of 7]
    by (intro exI [of _ ?t]) (simp add: menu_operation_def opcode_defs)
qed

end
