(* ===== verification/FvbService.thy ===== *)
theory FvbService
  imports SpiDevice
begin

text \<open>
  The firmware volume block driver, \<^verbatim>\<open>BraswellPlatformPkg/Flash/FvbRuntimeDxe\<close>: \<^verbatim>\<open>FvbService.c\<close> and
  \<^verbatim>\<open>FvbInfo.c\<close>, with the SMM half of the protocol installation in \<^verbatim>\<open>FvbServiceSmm.c\<close> and the checksum routines of
  \<^verbatim>\<open>MdePkg/Library/BaseLib/CheckSum.c\<close>.

  The driver keeps one record per firmware volume, \<open>EFI_FW_VOL_INSTANCE\<close>, with a copy of the volume header.  The
  records lie one behind the other in a buffer and are reached by their number, so the buffer is the list of the
  records; an access past its end, a block map that is read past the end of its header, and a failing assertion have
  the result \<open>None\<close>.  Headers exist as records and as the bytes they have in flash.  The flash device is a parameter
  of type \<open>SPI_DEVICE_PROTOCOL\<close>; flushing the processor cache after a change of the flash has no counterpart because
  the memory of the model always shows the flash.

  The lemmas show which flash range a block number denotes, that a write or an erase changes nothing but the addressed
  bytes and only in a write-enabled volume, that locked attributes stay, that the blocks of a volume read back
  what was written, and what the initialization does with a volume whose header is damaged.
\<close>

section \<open>Volume headers\<close>

record EFI_FV_BLOCK_MAP_ENTRY =
  NumBlocks :: UINT32
  Length :: UINT32

record EFI_FIRMWARE_VOLUME_HEADER =
  ZeroVector :: "UINT8 list"
  FileSystemGuid :: "UINT8 list"
  FvLength :: UINT64
  Signature :: UINT32
  Attributes :: UINT32
  HeaderLength :: UINT16
  Checksum :: UINT16
  ExtHeaderOffset :: UINT16
  Reserved :: UINT8
  Revision :: UINT8
  BlockMap :: "EFI_FV_BLOCK_MAP_ENTRY list"

definition EFI_FVB2_READ_DISABLED_CAP :: UINT32 where "EFI_FVB2_READ_DISABLED_CAP = 0x01"
definition EFI_FVB2_READ_ENABLED_CAP :: UINT32 where "EFI_FVB2_READ_ENABLED_CAP = 0x02"
definition EFI_FVB2_READ_STATUS :: UINT32 where "EFI_FVB2_READ_STATUS = 0x04"
definition EFI_FVB2_WRITE_DISABLED_CAP :: UINT32 where "EFI_FVB2_WRITE_DISABLED_CAP = 0x08"
definition EFI_FVB2_WRITE_ENABLED_CAP :: UINT32 where "EFI_FVB2_WRITE_ENABLED_CAP = 0x10"
definition EFI_FVB2_WRITE_STATUS :: UINT32 where "EFI_FVB2_WRITE_STATUS = 0x20"
definition EFI_FVB2_LOCK_CAP :: UINT32 where "EFI_FVB2_LOCK_CAP = 0x40"
definition EFI_FVB2_LOCK_STATUS :: UINT32 where "EFI_FVB2_LOCK_STATUS = 0x80"
definition EFI_FVB2_STICKY_WRITE :: UINT32 where "EFI_FVB2_STICKY_WRITE = 0x200"
definition EFI_FVB2_MEMORY_MAPPED :: UINT32 where "EFI_FVB2_MEMORY_MAPPED = 0x400"
definition EFI_FVB2_ERASE_POLARITY :: UINT32 where "EFI_FVB2_ERASE_POLARITY = 0x800"
definition EFI_FVB2_READ_LOCK_CAP :: UINT32 where "EFI_FVB2_READ_LOCK_CAP = 0x1000"
definition EFI_FVB2_WRITE_LOCK_CAP :: UINT32 where "EFI_FVB2_WRITE_LOCK_CAP = 0x4000"
definition EFI_FVB2_WRITE_LOCK_STATUS :: UINT32 where "EFI_FVB2_WRITE_LOCK_STATUS = 0x8000"
definition EFI_FVB2_ALIGNMENT :: UINT32 where "EFI_FVB2_ALIGNMENT = 0x1F0000"

definition EFI_FVB2_CAPABILITIES :: UINT32 where
  "EFI_FVB2_CAPABILITIES = EFI_FVB2_READ_DISABLED_CAP OR EFI_FVB2_READ_ENABLED_CAP OR EFI_FVB2_WRITE_DISABLED_CAP OR
     EFI_FVB2_WRITE_ENABLED_CAP OR EFI_FVB2_LOCK_CAP"

definition EFI_FVB2_STATUS :: UINT32 where
  "EFI_FVB2_STATUS = EFI_FVB2_READ_STATUS OR EFI_FVB2_WRITE_STATUS OR EFI_FVB2_LOCK_STATUS"

lemmas fvb2_defs = EFI_FVB2_READ_DISABLED_CAP_def EFI_FVB2_READ_ENABLED_CAP_def EFI_FVB2_READ_STATUS_def EFI_FVB2_WRITE_DISABLED_CAP_def
  EFI_FVB2_WRITE_ENABLED_CAP_def EFI_FVB2_WRITE_STATUS_def EFI_FVB2_LOCK_CAP_def EFI_FVB2_LOCK_STATUS_def EFI_FVB2_STICKY_WRITE_def
  EFI_FVB2_MEMORY_MAPPED_def EFI_FVB2_ERASE_POLARITY_def EFI_FVB2_READ_LOCK_CAP_def EFI_FVB2_WRITE_LOCK_CAP_def
  EFI_FVB2_WRITE_LOCK_STATUS_def EFI_FVB2_ALIGNMENT_def EFI_FVB2_CAPABILITIES_def EFI_FVB2_STATUS_def

definition EFI_FVH_SIGNATURE :: UINT32 where "EFI_FVH_SIGNATURE = 0x4856465F"
definition EFI_FVH_REVISION :: UINT8 where "EFI_FVH_REVISION = 2"
definition EFI_LBA_LIST_TERMINATOR :: EFI_LBA where "EFI_LBA_LIST_TERMINATOR = 0xFFFFFFFFFFFFFFFF"

definition gEfiSystemNvDataFvGuid :: "UINT8 list" where
  "gEfiSystemNvDataFvGuid = [0x8D, 0x2B, 0xF1, 0xFF, 0x96, 0x76, 0x8B, 0x4C, 0xA9, 0x85, 0x27, 0x47, 0x07, 0x5B, 0x4F, 0x50]"

definition gEfiFirmwareFileSystem2Guid :: "UINT8 list" where
  "gEfiFirmwareFileSystem2Guid = [0x78, 0xE5, 0x8C, 0x8C, 0x3D, 0x8A, 0x1C, 0x4F, 0x99, 0x35, 0x89, 0x61, 0x85, 0xC3, 0x2D, 0xD3]"

text \<open>The layout of a header in memory: little-endian fields without padding, 56 bytes before the block map.\<close>

definition bytes16 :: "UINT16 \<Rightarrow> UINT8 list" where
  "bytes16 w = [ucast w, ucast (drop_bit 8 w)]"

definition bytes32 :: "UINT32 \<Rightarrow> UINT8 list" where
  "bytes32 w = [ucast w, ucast (drop_bit 8 w), ucast (drop_bit 16 w), ucast (drop_bit 24 w)]"

definition bytes64 :: "UINT64 \<Rightarrow> UINT8 list" where
  "bytes64 w = bytes32 (ucast w) @ bytes32 (ucast (drop_bit 32 w))"

definition entry_bytes :: "EFI_FV_BLOCK_MAP_ENTRY \<Rightarrow> UINT8 list" where
  "entry_bytes e = bytes32 (NumBlocks e) @ bytes32 (Length e)"

definition header_bytes :: "EFI_FIRMWARE_VOLUME_HEADER \<Rightarrow> UINT8 list" where
  "header_bytes h = ZeroVector h @ FileSystemGuid h @ bytes64 (FvLength h) @ bytes32 (Signature h) @ bytes32 (Attributes h) @
     bytes16 (HeaderLength h) @ bytes16 (Checksum h) @ bytes16 (ExtHeaderOffset h) @ [Reserved h, Revision h] @
     concat (map entry_bytes (BlockMap h))"

definition word16 :: "UINT8 list \<Rightarrow> UINT16" where
  "word16 b = ucast (b ! 0) OR push_bit 8 (ucast (b ! 1))"

definition word32 :: "UINT8 list \<Rightarrow> UINT32" where
  "word32 b = ucast (b ! 0) OR push_bit 8 (ucast (b ! 1)) OR push_bit 16 (ucast (b ! 2)) OR push_bit 24 (ucast (b ! 3))"

definition word64 :: "UINT8 list \<Rightarrow> UINT64" where
  "word64 b = ucast (word32 b) OR push_bit 32 (ucast (word32 (drop 4 b)))"

fun parse_entries :: "nat \<Rightarrow> UINT8 list \<Rightarrow> EFI_FV_BLOCK_MAP_ENTRY list" where
  "parse_entries 0 b = []"
| "parse_entries (Suc k) b = \<lparr>NumBlocks = word32 b, Length = word32 (drop 4 b)\<rparr> # parse_entries k (drop 8 b)"

definition parse_header :: "UINT8 list \<Rightarrow> EFI_FIRMWARE_VOLUME_HEADER" where
  "parse_header b =
    \<lparr>ZeroVector = take 16 b, FileSystemGuid = take 16 (drop 16 b), FvLength = word64 (drop 32 b), Signature = word32 (drop 40 b),
     Attributes = word32 (drop 44 b), HeaderLength = word16 (drop 48 b), Checksum = word16 (drop 50 b),
     ExtHeaderOffset = word16 (drop 52 b), Reserved = b ! 54, Revision = b ! 55,
     BlockMap = parse_entries ((length b - 56) div 8) (drop 56 b)\<rparr>"

text \<open>The header at an address: the length is read first, then the bytes it covers, at least the fixed part.\<close>

definition header_length_at :: "memory \<Rightarrow> UINT64 \<Rightarrow> UINT16" where
  "header_length_at m a = word16 (mem_bytes (a + 48) 2 m)"

definition header_at :: "memory \<Rightarrow> UINT64 \<Rightarrow> EFI_FIRMWARE_VOLUME_HEADER" where
  "header_at m a = parse_header (mem_bytes a (max 56 (ucast (header_length_at m a))) m)"

fun words16 :: "UINT8 list \<Rightarrow> UINT16 list" where
  "words16 (x # y # b) = word16 [x, y] # words16 b"
| "words16 b = []"

definition CalculateSum16 :: "UINT16 list \<Rightarrow> UINTN \<Rightarrow> UINT16" where
  "CalculateSum16 Buffer Len = fold (\<lambda>x Sum. Sum + x) (take (unat (Len div 2)) Buffer) 0"

definition CalculateCheckSum16 :: "UINT16 list \<Rightarrow> UINTN \<Rightarrow> UINT16" where
  "CalculateCheckSum16 Buffer Len = - CalculateSum16 Buffer Len"

section \<open>The volumes of the driver\<close>

record EFI_FW_VOL_INSTANCE =
  FvBase :: UINTN
  NumOfBlocks :: UINTN
  FvFlashLinearAddress :: UINTN
  VolumeHeader :: EFI_FIRMWARE_VOLUME_HEADER

type_synonym fvb_instances = "EFI_FW_VOL_INSTANCE list"

definition GetFvbInstance :: "fvb_instances \<Rightarrow> UINTN \<Rightarrow> EFI_FW_VOL_INSTANCE option" where
  "GetFvbInstance g Instance = (if length g \<le> unat Instance then None else Some (g ! unat Instance))"

definition FvbGetVolumeAttributes :: "fvb_instances \<Rightarrow> UINTN \<Rightarrow> UINT32 option" where
  "FvbGetVolumeAttributes g Instance = map_option (\<lambda>fw. Attributes (VolumeHeader fw)) (GetFvbInstance g Instance)"

text \<open>
  The search of a block in the block map: the offset of the block in the volume, its length and the number of blocks left
  in the map entry.  \<open>Some None\<close> is EFI_INVALID_PARAMETER.
\<close>

fun FvbGetLbaAddress_loop :: "EFI_FV_BLOCK_MAP_ENTRY list \<Rightarrow> EFI_LBA \<Rightarrow> EFI_LBA \<Rightarrow> UINTN \<Rightarrow> (UINTN \<times> UINTN \<times> UINTN) option option" where
  "FvbGetLbaAddress_loop [] Lba StartLba Off = None"
| "FvbGetLbaAddress_loop (e # es) Lba StartLba Off =
    (if NumBlocks e = 0 \<or> Length e = 0 then Some None
     else let NextLba = StartLba + ucast (NumBlocks e)
          in if Lba \<ge> StartLba \<and> Lba < NextLba
             then Some (Some (Off + (Lba - StartLba) * ucast (Length e), ucast (Length e), NextLba - Lba))
             else FvbGetLbaAddress_loop es Lba NextLba (Off + ucast (NumBlocks e * Length e)))"

record lba_info =
  FlashLinearAddress :: UINTN
  LbaAddress :: UINTN
  LbaLength :: UINTN
  LbaNumOfBlocks :: UINTN

definition FvbGetLbaAddress :: "fvb_instances \<Rightarrow> UINTN \<Rightarrow> EFI_LBA \<Rightarrow> lba_info option option" where
  "FvbGetLbaAddress g Instance Lba =
    (case GetFvbInstance g Instance of
       None \<Rightarrow> None
     | Some fw \<Rightarrow>
       map_option (map_option (\<lambda>(Off, len, num).
           \<lparr>FlashLinearAddress = FvFlashLinearAddress fw + Off, LbaAddress = FvBase fw + Off, LbaLength = len, LbaNumOfBlocks = num\<rparr>))
         (FvbGetLbaAddress_loop (BlockMap (VolumeHeader fw)) Lba 0 0))"

text \<open>The boundary check reads and writes share: a transfer ends with its block.\<close>

definition clip_to_block :: "UINTN \<Rightarrow> UINTN \<Rightarrow> UINTN \<Rightarrow> UINTN \<times> EFI_STATUS" where
  "clip_to_block len BlockOffset n =
    (if len < n + BlockOffset then (ucast (ucast (len - BlockOffset) :: UINT32), EFI_BAD_BUFFER_SIZE) else (n, EFI_SUCCESS))"

definition FvbReadBlock :: "'s SPI_DEVICE_PROTOCOL \<Rightarrow> fvb_instances \<Rightarrow> UINTN \<Rightarrow> EFI_LBA \<Rightarrow> UINTN \<Rightarrow> UINTN option \<Rightarrow> UINT8 list option \<Rightarrow> 's \<Rightarrow>
    (EFI_STATUS \<times> UINTN option \<times> UINT8 list option \<times> 's) option" where
  "FvbReadBlock D g Instance Lba BlockOffset NumBytes Buffer s =
    (case (NumBytes, Buffer) of
       (Some n, Some b) \<Rightarrow>
       (if n = 0 then Some (EFI_INVALID_PARAMETER, NumBytes, Buffer, s)
        else case FvbGetLbaAddress g Instance Lba of
          None \<Rightarrow> None
        | Some None \<Rightarrow> Some (EFI_INVALID_PARAMETER, NumBytes, Buffer, s)
        | Some (Some lba) \<Rightarrow>
          (case FvbGetVolumeAttributes g Instance of
             None \<Rightarrow> None
           | Some attr \<Rightarrow>
             (if attr AND EFI_FVB2_READ_STATUS = 0 then Some (EFI_ACCESS_DENIED, NumBytes, Buffer, s)
              else if BlockOffset > LbaLength lba then Some (EFI_INVALID_PARAMETER, NumBytes, Buffer, s)
              else let (n1, Status) = clip_to_block (LbaLength lba) BlockOffset n;
                       (Status1, b1, s1) = DevRead D (FlashLinearAddress lba + BlockOffset) (Some n1) Buffer s
                   in Some (if Status1 = EFI_DEVICE_ERROR then Status1 else Status, Some n1, b1, s1))))
     | _ \<Rightarrow> Some (EFI_INVALID_PARAMETER, NumBytes, Buffer, s))"

definition FvbWriteBlock :: "'s SPI_DEVICE_PROTOCOL \<Rightarrow> fvb_instances \<Rightarrow> UINTN \<Rightarrow> EFI_LBA \<Rightarrow> UINTN \<Rightarrow> UINTN option \<Rightarrow> UINT8 list option \<Rightarrow> 's \<Rightarrow>
    (EFI_STATUS \<times> UINTN option \<times> 's) option" where
  "FvbWriteBlock D g Instance Lba BlockOffset NumBytes Buffer s =
    (case (NumBytes, Buffer) of
       (Some n, Some b) \<Rightarrow>
       (if n = 0 then Some (EFI_INVALID_PARAMETER, NumBytes, s)
        else case FvbGetLbaAddress g Instance Lba of
          None \<Rightarrow> None
        | Some None \<Rightarrow> Some (EFI_INVALID_PARAMETER, NumBytes, s)
        | Some (Some lba) \<Rightarrow>
          (case FvbGetVolumeAttributes g Instance of
             None \<Rightarrow> None
           | Some attr \<Rightarrow>
             (if attr AND EFI_FVB2_WRITE_STATUS = 0 then Some (EFI_ACCESS_DENIED, NumBytes, s)
              else if BlockOffset > LbaLength lba then Some (EFI_INVALID_PARAMETER, NumBytes, s)
              else let (n1, Status) = clip_to_block (LbaLength lba) BlockOffset n;
                       (_, s1) = DevLock D (FlashLinearAddress lba) (LbaLength lba) False s;
                       (Status1, s2) = DevWrite D (FlashLinearAddress lba + BlockOffset) (Some n1) Buffer s1;
                       (_, s3) = DevLock D (FlashLinearAddress lba) (LbaLength lba) True s2
                   in Some (if Status1 = EFI_DEVICE_ERROR then Status1 else Status, Some n1, s3))))
     | _ \<Rightarrow> Some (EFI_INVALID_PARAMETER, NumBytes, s))"

definition FvbEraseBlock :: "'s SPI_DEVICE_PROTOCOL \<Rightarrow> fvb_instances \<Rightarrow> UINTN \<Rightarrow> EFI_LBA \<Rightarrow> 's \<Rightarrow> (EFI_STATUS \<times> 's) option" where
  "FvbEraseBlock D g Instance Lba s =
    (case FvbGetVolumeAttributes g Instance of
       None \<Rightarrow> None
     | Some attr \<Rightarrow>
       (if attr AND EFI_FVB2_WRITE_STATUS = 0 then Some (EFI_ACCESS_DENIED, s)
        else case FvbGetLbaAddress g Instance Lba of
          None \<Rightarrow> None
        | Some None \<Rightarrow> Some (EFI_INVALID_PARAMETER, s)
        | Some (Some lba) \<Rightarrow>
          (let (_, s1) = DevLock D (FlashLinearAddress lba) (LbaLength lba) False s
           in case DevErase D (FlashLinearAddress lba) (LbaLength lba) s1 of
                None \<Rightarrow> None
              | Some (Status1, s2) \<Rightarrow>
                (let (_, s3) = DevLock D (FlashLinearAddress lba) (LbaLength lba) True s2
                 in Some (if Status1 = EFI_DEVICE_ERROR then Status1 else EFI_SUCCESS, s3)))))"

text \<open>The checks on a change of the attributes in their order, for the old and the requested attributes.\<close>

definition UnchangedAttributes :: UINT32 where
  "UnchangedAttributes = EFI_FVB2_READ_DISABLED_CAP OR EFI_FVB2_READ_ENABLED_CAP OR EFI_FVB2_WRITE_DISABLED_CAP OR
     EFI_FVB2_WRITE_ENABLED_CAP OR EFI_FVB2_LOCK_CAP OR EFI_FVB2_STICKY_WRITE OR EFI_FVB2_MEMORY_MAPPED OR EFI_FVB2_ERASE_POLARITY OR
     EFI_FVB2_READ_LOCK_CAP OR EFI_FVB2_WRITE_LOCK_CAP OR EFI_FVB2_ALIGNMENT"

definition check_attributes :: "UINT32 \<Rightarrow> UINT32 \<Rightarrow> EFI_STATUS" where
  "check_attributes OldAttributes NewAttributes =
    (let Capabilities = OldAttributes AND EFI_FVB2_CAPABILITIES; OldStatus = OldAttributes AND EFI_FVB2_STATUS;
         NewStatus = NewAttributes AND EFI_FVB2_STATUS
     in if (OldAttributes AND UnchangedAttributes) XOR (NewAttributes AND UnchangedAttributes) \<noteq> 0 then EFI_INVALID_PARAMETER
        else if OldAttributes AND EFI_FVB2_LOCK_STATUS \<noteq> 0 \<and> OldStatus XOR NewStatus \<noteq> 0 then EFI_ACCESS_DENIED
        else if Capabilities AND EFI_FVB2_READ_DISABLED_CAP = 0 \<and> NewStatus AND EFI_FVB2_READ_STATUS = 0 then EFI_INVALID_PARAMETER
        else if Capabilities AND EFI_FVB2_READ_ENABLED_CAP = 0 \<and> NewStatus AND EFI_FVB2_READ_STATUS \<noteq> 0 then EFI_INVALID_PARAMETER
        else if Capabilities AND EFI_FVB2_WRITE_DISABLED_CAP = 0 \<and> NewStatus AND EFI_FVB2_WRITE_STATUS = 0 then EFI_INVALID_PARAMETER
        else if Capabilities AND EFI_FVB2_WRITE_ENABLED_CAP = 0 \<and> NewStatus AND EFI_FVB2_WRITE_STATUS \<noteq> 0 then EFI_INVALID_PARAMETER
        else if Capabilities AND EFI_FVB2_LOCK_CAP = 0 \<and> NewStatus AND EFI_FVB2_LOCK_STATUS \<noteq> 0 then EFI_INVALID_PARAMETER
        else EFI_SUCCESS)"

definition set_attributes :: "UINT32 \<Rightarrow> EFI_FW_VOL_INSTANCE \<Rightarrow> EFI_FW_VOL_INSTANCE" where
  "set_attributes a fw = fw\<lparr>VolumeHeader := (VolumeHeader fw)\<lparr>Attributes := a\<rparr>\<rparr>"

definition FvbSetVolumeAttributes :: "fvb_instances \<Rightarrow> UINTN \<Rightarrow> UINT32 \<Rightarrow> (EFI_STATUS \<times> UINT32 \<times> fvb_instances) option" where
  "FvbSetVolumeAttributes g Instance Attr =
    (case GetFvbInstance g Instance of
       None \<Rightarrow> None
     | Some fw \<Rightarrow>
       (let OldAttributes = Attributes (VolumeHeader fw); Status = check_attributes OldAttributes Attr;
            NewAttributes = (OldAttributes AND NOT EFI_FVB2_STATUS) OR (Attr AND EFI_FVB2_STATUS)
        in if Status \<noteq> EFI_SUCCESS then Some (Status, Attr, g)
           else Some (EFI_SUCCESS, NewAttributes, g[unat Instance := set_attributes NewAttributes fw])))"

section \<open>The protocol\<close>

datatype EFI_DEVICE_PATH = MemMapDevPath UINT64 UINT64 | PiwgDevPath "UINT8 list"

record EFI_FW_VOL_BLOCK_DEVICE =
  Instance :: UINTN
  DevicePath :: EFI_DEVICE_PATH

definition FvbProtocolGetPhysicalAddress :: "fvb_instances \<Rightarrow> EFI_FW_VOL_BLOCK_DEVICE \<Rightarrow> (EFI_STATUS \<times> EFI_PHYSICAL_ADDRESS) option" where
  "FvbProtocolGetPhysicalAddress g This = map_option (\<lambda>fw. (EFI_SUCCESS, FvBase fw)) (GetFvbInstance g (Instance This))"

text \<open>The two numbers keep what the caller has in them when the block does not exist.\<close>

definition FvbProtocolGetBlockSize :: "fvb_instances \<Rightarrow> EFI_FW_VOL_BLOCK_DEVICE \<Rightarrow> EFI_LBA \<Rightarrow> UINTN \<times> UINTN \<Rightarrow> (EFI_STATUS \<times> UINTN \<times> UINTN) option" where
  "FvbProtocolGetBlockSize g This Lba out =
    map_option (\<lambda>r. case r of None \<Rightarrow> (EFI_INVALID_PARAMETER, out) | Some lba \<Rightarrow> (EFI_SUCCESS, LbaLength lba, LbaNumOfBlocks lba))
      (FvbGetLbaAddress g (Instance This) Lba)"

definition FvbProtocolGetAttributes :: "fvb_instances \<Rightarrow> EFI_FW_VOL_BLOCK_DEVICE \<Rightarrow> (EFI_STATUS \<times> UINT32) option" where
  "FvbProtocolGetAttributes g This = map_option (\<lambda>a. (EFI_SUCCESS, a)) (FvbGetVolumeAttributes g (Instance This))"

definition FvbProtocolSetAttributes :: "fvb_instances \<Rightarrow> EFI_FW_VOL_BLOCK_DEVICE \<Rightarrow> UINT32 \<Rightarrow> (EFI_STATUS \<times> UINT32 \<times> fvb_instances) option" where
  "FvbProtocolSetAttributes g This Attr = FvbSetVolumeAttributes g (Instance This) Attr"

text \<open>The argument list of \<open>EraseBlocks\<close> up to its end; a pair whose block is the terminator ends it.\<close>

fun check_lbas :: "UINTN \<Rightarrow> (EFI_LBA \<times> UINT32) list \<Rightarrow> bool" where
  "check_lbas N [] = True"
| "check_lbas N ((StartingLba, NumOfLba) # args) =
    (if StartingLba = EFI_LBA_LIST_TERMINATOR then True
     else if NumOfLba = 0 then False
     else if StartingLba + ucast NumOfLba > N then False
     else check_lbas N args)"

fun erase_lba_range :: "nat \<Rightarrow> 's SPI_DEVICE_PROTOCOL \<Rightarrow> fvb_instances \<Rightarrow> UINTN \<Rightarrow> EFI_LBA \<Rightarrow> 's \<Rightarrow> (EFI_STATUS \<times> 's) option" where
  "erase_lba_range 0 D g Inst Lba s = Some (EFI_SUCCESS, s)"
| "erase_lba_range (Suc k) D g Inst Lba s =
    (case FvbEraseBlock D g Inst Lba s of
       None \<Rightarrow> None
     | Some (Status, s1) \<Rightarrow> (if EFI_ERROR Status then Some (Status, s1) else erase_lba_range k D g Inst (Lba + 1) s1))"

fun erase_lbas :: "'s SPI_DEVICE_PROTOCOL \<Rightarrow> fvb_instances \<Rightarrow> UINTN \<Rightarrow> (EFI_LBA \<times> UINT32) list \<Rightarrow> 's \<Rightarrow> (EFI_STATUS \<times> 's) option" where
  "erase_lbas D g Inst [] s = Some (EFI_SUCCESS, s)"
| "erase_lbas D g Inst ((StartingLba, NumOfLba) # args) s =
    (if StartingLba = EFI_LBA_LIST_TERMINATOR then Some (EFI_SUCCESS, s)
     else case erase_lba_range (unat NumOfLba) D g Inst StartingLba s of
            None \<Rightarrow> None
          | Some (Status, s1) \<Rightarrow> (if EFI_ERROR Status then Some (Status, s1) else erase_lbas D g Inst args s1))"

definition FvbProtocolEraseBlocks :: "'s SPI_DEVICE_PROTOCOL \<Rightarrow> fvb_instances \<Rightarrow> EFI_FW_VOL_BLOCK_DEVICE \<Rightarrow> (EFI_LBA \<times> UINT32) list \<Rightarrow> 's \<Rightarrow>
    (EFI_STATUS \<times> 's) option" where
  "FvbProtocolEraseBlocks D g This args s =
    (case GetFvbInstance g (Instance This) of
       None \<Rightarrow> None
     | Some fw \<Rightarrow>
       (if Attributes (VolumeHeader fw) AND EFI_FVB2_WRITE_STATUS = 0 then Some (EFI_ACCESS_DENIED, s)
        else if \<not> check_lbas (NumOfBlocks fw) args then Some (EFI_INVALID_PARAMETER, s)
        else erase_lbas D g (Instance This) args s))"

definition FvbProtocolWrite :: "'s SPI_DEVICE_PROTOCOL \<Rightarrow> fvb_instances \<Rightarrow> EFI_FW_VOL_BLOCK_DEVICE \<Rightarrow> EFI_LBA \<Rightarrow> UINTN \<Rightarrow> UINTN option \<Rightarrow>
    UINT8 list option \<Rightarrow> 's \<Rightarrow> (EFI_STATUS \<times> UINTN option \<times> 's) option" where
  "FvbProtocolWrite D g This Lba Off NumBytes Buffer s = FvbWriteBlock D g (Instance This) Lba Off NumBytes Buffer s"

definition FvbProtocolRead :: "'s SPI_DEVICE_PROTOCOL \<Rightarrow> fvb_instances \<Rightarrow> EFI_FW_VOL_BLOCK_DEVICE \<Rightarrow> EFI_LBA \<Rightarrow> UINTN \<Rightarrow> UINTN option \<Rightarrow>
    UINT8 list option \<Rightarrow> 's \<Rightarrow> (EFI_STATUS \<times> UINTN option \<times> UINT8 list option \<times> 's) option" where
  "FvbProtocolRead D g This Lba Off NumBytes Buffer s = FvbReadBlock D g (Instance This) Lba Off NumBytes Buffer s"

section \<open>Initialization\<close>

record fvb_pcds =
  FlashAreaBaseAddress :: UINT32
  PcdFlashMinEraseSize :: UINT32
  PcdFlashFvMainBase :: UINT32
  PcdFlashFvMainSize :: UINT32
  NvStorageVariableBase :: UINT32
  PcdFlashNvStorageVariableSize :: UINT32
  PcdFlashFvRecoveryBase :: UINT32
  PcdFlashFvRecoverySize :: UINT32
  PcdFlashFvRecovery2Base :: UINT32
  PcdFlashFvRecovery2Size :: UINT32
  PcdFlashPayloadBase :: UINT32
  PcdFlashPayloadSize :: UINT32
  PcdFlashNvStorageFtwWorkingBase :: UINT32
  PcdFlashNvStorageFtwWorkingSize :: UINT32
  PcdFlashNvStorageFtwSpareBase :: UINT32
  PcdFlashNvStorageFtwSpareSize :: UINT32

definition BOOT_ASSUMING_NO_CONFIGURATION_CHANGES :: UINT32 where "BOOT_ASSUMING_NO_CONFIGURATION_CHANGES = 0x02"
definition BOOT_ON_FLASH_UPDATE :: UINT32 where "BOOT_ON_FLASH_UPDATE = 0x12"
definition BOOT_IN_RECOVERY_MODE :: UINT32 where "BOOT_IN_RECOVERY_MODE = 0x20"

definition FLASH_LINEAR_ADDRESS :: "fvb_pcds \<Rightarrow> UINT64 \<Rightarrow> UINT64" where
  "FLASH_LINEAR_ADDRESS pcd Base = Base - ucast (FlashAreaBaseAddress pcd)"

text \<open>The header templates of \<^verbatim>\<open>FvbInfo.c\<close>, filled in for a base, a size and a block size.\<close>

definition media_info :: "fvb_pcds \<Rightarrow> UINT8 list \<Rightarrow> UINT16 \<Rightarrow> UINT32 \<Rightarrow> EFI_FIRMWARE_VOLUME_HEADER" where
  "media_info pcd guid ext sz =
    \<lparr>ZeroVector = replicate 16 0, FileSystemGuid = guid, FvLength = ucast sz, Signature = EFI_FVH_SIGNATURE, Attributes = 0x0004FEFF,
     HeaderLength = 72, Checksum = 0, ExtHeaderOffset = ext, Reserved = 0, Revision = 2,
     BlockMap = [\<lparr>NumBlocks = sz div PcdFlashMinEraseSize pcd, Length = PcdFlashMinEraseSize pcd\<rparr>, \<lparr>NumBlocks = 0, Length = 0\<rparr>]\<rparr>"

definition mPlatformFvbMediaInfo :: "fvb_pcds \<Rightarrow> (UINT32 \<times> UINT32 \<times> EFI_FIRMWARE_VOLUME_HEADER) list" where
  "mPlatformFvbMediaInfo pcd =
    [(PcdFlashFvMainBase pcd, PcdFlashFvMainSize pcd, media_info pcd gEfiFirmwareFileSystem2Guid 0 (PcdFlashFvMainSize pcd)),
     (NvStorageVariableBase pcd, PcdFlashNvStorageVariableSize pcd, media_info pcd gEfiSystemNvDataFvGuid 0 (PcdFlashNvStorageVariableSize pcd)),
     (PcdFlashFvRecoveryBase pcd, PcdFlashFvRecoverySize pcd, media_info pcd gEfiFirmwareFileSystem2Guid 0 (PcdFlashFvRecoverySize pcd)),
     (PcdFlashFvRecovery2Base pcd, PcdFlashFvRecovery2Size pcd, media_info pcd gEfiFirmwareFileSystem2Guid 0 (PcdFlashFvRecovery2Size pcd)),
     (PcdFlashPayloadBase pcd, PcdFlashPayloadSize pcd, media_info pcd gEfiFirmwareFileSystem2Guid 0x60 (PcdFlashPayloadSize pcd))]"

definition mPlatformFtwFvbInfo :: "fvb_pcds \<Rightarrow> (UINT32 \<times> UINT32 \<times> EFI_FIRMWARE_VOLUME_HEADER) list" where
  "mPlatformFtwFvbInfo pcd =
    [(PcdFlashNvStorageFtwWorkingBase pcd, PcdFlashNvStorageFtwWorkingSize pcd, media_info pcd gEfiSystemNvDataFvGuid 0 (PcdFlashNvStorageFtwWorkingSize pcd)),
     (PcdFlashNvStorageFtwSpareBase pcd, PcdFlashNvStorageFtwSpareSize pcd, media_info pcd gEfiSystemNvDataFvGuid 0 (PcdFlashNvStorageFtwSpareSize pcd))]"

text \<open>
  The lookup the two routines share.  A size that is not a multiple of the block size is an assertion.  The tables are
  static, so the checksum of a header is still in its table when the routine is called again; the bytes that are summed do
  not include it.
\<close>

definition with_checksum :: "EFI_FIRMWARE_VOLUME_HEADER \<Rightarrow> EFI_FIRMWARE_VOLUME_HEADER" where
  "with_checksum h = h\<lparr>Checksum := CalculateCheckSum16 (words16 (header_bytes h)) (ucast (HeaderLength h) div 2)\<rparr>"

definition find_info :: "fvb_pcds \<Rightarrow> (UINT32 \<times> UINT32 \<times> EFI_FIRMWARE_VOLUME_HEADER) list \<Rightarrow> EFI_PHYSICAL_ADDRESS \<Rightarrow>
    (EFI_STATUS \<times> EFI_FIRMWARE_VOLUME_HEADER option) option" where
  "find_info pcd table FvBaseAddress =
    (if PcdFlashMinEraseSize pcd = 0 \<or> \<not> list_all (\<lambda>(_, sz, _). sz mod PcdFlashMinEraseSize pcd = 0) table then None
     else Some (case find (\<lambda>(b, _). ucast b = FvBaseAddress) table of
                  None \<Rightarrow> (EFI_NOT_FOUND, None)
                | Some (_, _, h) \<Rightarrow> (EFI_SUCCESS, Some (with_checksum h))))"

definition GetFtwFvbInfo :: "fvb_pcds \<Rightarrow> EFI_PHYSICAL_ADDRESS \<Rightarrow> (EFI_STATUS \<times> EFI_FIRMWARE_VOLUME_HEADER option) option" where
  "GetFtwFvbInfo pcd FvBaseAddress = find_info pcd (mPlatformFtwFvbInfo pcd) FvBaseAddress"

definition GetFvbInfo :: "fvb_pcds \<Rightarrow> EFI_PHYSICAL_ADDRESS \<Rightarrow> (EFI_STATUS \<times> EFI_FIRMWARE_VOLUME_HEADER option) option" where
  "GetFvbInfo pcd FvBaseAddress = find_info pcd (mPlatformFvbMediaInfo pcd) FvBaseAddress"

definition IsFvHeaderValid :: "fvb_pcds \<Rightarrow> EFI_PHYSICAL_ADDRESS \<Rightarrow> memory \<Rightarrow> bool" where
  "IsFvHeaderValid pcd Base m =
    (let h = header_at m Base
     in if FileSystemGuid h \<noteq> (if Base = ucast (NvStorageVariableBase pcd) then gEfiSystemNvDataFvGuid else gEfiFirmwareFileSystem2Guid) then False
        else if Revision h \<noteq> EFI_FVH_REVISION \<or> Signature h \<noteq> EFI_FVH_SIGNATURE \<or> FvLength h = - 1 \<or> HeaderLength h AND 1 \<noteq> 0 then False
        else CalculateCheckSum16 (words16 (mem_bytes Base (ucast (HeaderLength h)) m)) (ucast (HeaderLength h)) = 0)"

text \<open>
  The services the initialization uses: the flash device, the memory the flash is mapped into, and the installation of
  an interface in the SMM and in the boot services database, which takes and returns a handle.
\<close>

datatype fvb_interface = FvbInterface EFI_FW_VOL_BLOCK_DEVICE | DevicePathInterface EFI_DEVICE_PATH

record 's fvb_services =
  mSpiDeviceProtocol :: "'s SPI_DEVICE_PROTOCOL"
  MappedMemory :: "'s \<Rightarrow> memory"
  SmmInstall :: "UINTN \<Rightarrow> fvb_interface \<Rightarrow> 's \<Rightarrow> EFI_STATUS \<times> UINTN \<times> 's"
  BsInstall :: "UINTN \<Rightarrow> fvb_interface \<Rightarrow> 's \<Rightarrow> EFI_STATUS \<times> UINTN \<times> 's"

definition fvb_device :: "EFI_FW_VOL_INSTANCE \<Rightarrow> UINTN \<Rightarrow> memory \<Rightarrow> EFI_FW_VOL_BLOCK_DEVICE" where
  "fvb_device fw InstanceNum m =
    \<lparr>Instance = InstanceNum,
     DevicePath = (if ExtHeaderOffset (VolumeHeader fw) = 0 then MemMapDevPath (FvBase fw) (FvBase fw + FvLength (VolumeHeader fw) - 1)
                   else PiwgDevPath (mem_bytes (FvBase fw + ucast (ExtHeaderOffset (VolumeHeader fw))) 16 m))\<rparr>"

definition InstallFvbProtocol :: "'s fvb_services \<Rightarrow> EFI_FW_VOL_INSTANCE \<Rightarrow> UINTN \<Rightarrow> 's \<Rightarrow> 's option" where
  "InstallFvbProtocol V fw InstanceNum s =
    (let d = fvb_device fw InstanceNum (MappedMemory V s); (Status, FvbHandle, s1) = SmmInstall V 0 (FvbInterface d) s
     in if EFI_ERROR Status then None
        else let (Status1, _, s2) = SmmInstall V FvbHandle (DevicePathInterface (DevicePath d)) s1
             in if EFI_ERROR Status1 then None
                else let (_, _, s3) = BsInstall V 0 (FvbInterface d) s2 in Some s3)"

fun count_blocks :: "EFI_FV_BLOCK_MAP_ENTRY list \<Rightarrow> UINTN \<Rightarrow> UINTN option" where
  "count_blocks [] N = None"
| "count_blocks (e # es) N = (if NumBlocks e = 0 then Some N else count_blocks es (N + ucast (NumBlocks e)))"

definition platform_fvs :: "fvb_pcds \<Rightarrow> UINT32 \<Rightarrow> UINT32 list" where
  "platform_fvs pcd BootMode =
    (if BootMode = BOOT_IN_RECOVERY_MODE then [NvStorageVariableBase pcd, PcdFlashPayloadBase pcd]
     else [PcdFlashFvMainBase pcd, NvStorageVariableBase pcd, PcdFlashFvRecoveryBase pcd, PcdFlashFvRecovery2Base pcd, PcdFlashPayloadBase pcd])"

definition platform_lock_list :: "fvb_pcds \<Rightarrow> UINT32 list" where
  "platform_lock_list pcd = [PcdFlashFvMainBase pcd, PcdFlashFvRecoveryBase pcd, PcdFlashFvRecovery2Base pcd, PcdFlashPayloadBase pcd]"

text \<open>\<open>sizeof (EFI_FW_VOL_INSTANCE) - sizeof (EFI_FIRMWARE_VOLUME_HEADER)\<close> is 24.\<close>

definition record_reserved :: "memory \<Rightarrow> UINT32 \<Rightarrow> UINTN" where
  "record_reserved m b = ucast (header_length_at m (ucast b)) + 24"

definition instance_buffer_size :: "fvb_pcds \<Rightarrow> UINT32 \<Rightarrow> memory \<Rightarrow> UINTN" where
  "instance_buffer_size pcd BootMode m =
    fold (\<lambda>b n. if b = 0 then n else n + record_reserved m b) (platform_fvs pcd BootMode) 0"

definition write_back_header :: "'s fvb_services \<Rightarrow> UINTN \<Rightarrow> EFI_FIRMWARE_VOLUME_HEADER \<Rightarrow> 's \<Rightarrow> 's option" where
  "write_back_header V Addr h s =
    (let D = mSpiDeviceProtocol V; len = ucast (Length (BlockMap h ! 0)); (_, s1) = DevLock D Addr len False s
     in case DevErase D Addr len s1 of
          None \<Rightarrow> None
        | Some (_, s2) \<Rightarrow>
          (let (_, s3) = DevWrite D Addr (Some (ucast (HeaderLength h))) (Some (header_bytes h)) s2; (_, s4) = DevLock D Addr len True s3
           in Some s4))"

definition lock_volume :: "fvb_pcds \<Rightarrow> UINT32 \<Rightarrow> EFI_FW_VOL_INSTANCE \<Rightarrow> EFI_FW_VOL_INSTANCE" where
  "lock_volume pcd BootMode fw =
    (if BootMode \<noteq> BOOT_IN_RECOVERY_MODE \<and> BootMode \<noteq> BOOT_ON_FLASH_UPDATE then
       fold (\<lambda>b fw. if FvBase fw = ucast b
                     then set_attributes ((Attributes (VolumeHeader fw) AND NOT EFI_FVB2_WRITE_STATUS) OR (EFI_FVB2_LOCK_STATUS OR EFI_FVB2_WRITE_LOCK_STATUS)) fw
                     else fw)
         (platform_lock_list pcd) fw
     else fw)"

text \<open>
  One turn of the loop over the volumes.  A header in flash that claims to be shorter than its fixed part has no result
  although it may pass the checks: its copy would overlap the next record.
\<close>

definition volume_header :: "'s fvb_services \<Rightarrow> fvb_pcds \<Rightarrow> EFI_PHYSICAL_ADDRESS \<Rightarrow> 's \<Rightarrow> (EFI_FIRMWARE_VOLUME_HEADER \<times> 's) option" where
  "volume_header V pcd Base s =
    (if IsFvHeaderValid pcd Base (MappedMemory V s) then
       (let h = header_at (MappedMemory V s) Base in if HeaderLength h < 56 then None else Some (h, s))
     else case GetFvbInfo pcd Base of
       Some (EFI_SUCCESS, Some h) \<Rightarrow> map_option (\<lambda>s1. (h, s1)) (write_back_header V (FLASH_LINEAR_ADDRESS pcd Base) h s)
     | _ \<Rightarrow> None)"

definition add_volume :: "'s fvb_services \<Rightarrow> EFI_FW_VOL_INSTANCE \<Rightarrow> fvb_instances \<times> 's \<Rightarrow> (fvb_instances \<times> 's) option" where
  "add_volume V fw = (\<lambda>(g, s).
    (case count_blocks (BlockMap (VolumeHeader fw)) 0 of
       None \<Rightarrow> None
     | Some N \<Rightarrow> (let fw1 = fw\<lparr>NumOfBlocks := N\<rparr> in map_option (\<lambda>s1. (g @ [fw1], s1)) (InstallFvbProtocol V fw1 (of_nat (length g)) s))))"

definition init_volume :: "'s fvb_services \<Rightarrow> fvb_pcds \<Rightarrow> UINT32 \<Rightarrow> UINT32 \<Rightarrow> fvb_instances \<times> 's \<Rightarrow> (fvb_instances \<times> 's) option" where
  "init_volume V pcd BootMode Base = (\<lambda>(g, s).
    (if BootMode = BOOT_ASSUMING_NO_CONFIGURATION_CHANGES \<and> Base \<noteq> NvStorageVariableBase pcd \<and> Base \<noteq> PcdFlashPayloadBase pcd then Some (g, s)
     else if Base = 0 then Some (g, s)
     else case volume_header V pcd (ucast Base) s of
            None \<Rightarrow> None
          | Some (h, s1) \<Rightarrow>
            add_volume V (lock_volume pcd BootMode
                \<lparr>FvBase = ucast Base, NumOfBlocks = 0, FvFlashLinearAddress = FLASH_LINEAR_ADDRESS pcd (ucast Base), VolumeHeader = h\<rparr>) (g, s1)))"

definition init_ftw :: "'s fvb_services \<Rightarrow> fvb_pcds \<Rightarrow> UINT32 \<Rightarrow> fvb_instances \<times> 's \<Rightarrow> (fvb_instances \<times> 's) option" where
  "init_ftw V pcd Base gs =
    (case GetFtwFvbInfo pcd (ucast Base) of
       Some (EFI_SUCCESS, Some h) \<Rightarrow>
         add_volume V \<lparr>FvBase = ucast Base, NumOfBlocks = 0, FvFlashLinearAddress = FLASH_LINEAR_ADDRESS pcd (ucast Base), VolumeHeader = h\<rparr> gs
     | _ \<Rightarrow> None)"

primrec each_volume :: "('b \<Rightarrow> 'a \<Rightarrow> 'a option) \<Rightarrow> 'b list \<Rightarrow> 'a \<Rightarrow> 'a option" where
  "each_volume f [] x = Some x"
| "each_volume f (b # bs) x = (case f b x of None \<Rightarrow> None | Some y \<Rightarrow> each_volume f bs y)"

definition FvbInitialize :: "'s fvb_services \<Rightarrow> fvb_pcds \<Rightarrow> UINT32 \<Rightarrow> 's \<Rightarrow> (EFI_STATUS \<times> fvb_instances \<times> 's) option" where
  "FvbInitialize V pcd BootMode s =
    (case each_volume (init_volume V pcd BootMode) (platform_fvs pcd BootMode) ([], s) of
       None \<Rightarrow> None
     | Some gs \<Rightarrow>
       map_option (\<lambda>gs. (EFI_SUCCESS, gs))
         (if PcdFlashNvStorageFtwWorkingBase pcd = 0 \<or> PcdFlashNvStorageFtwSpareBase pcd = 0 then Some gs
          else each_volume (init_ftw V pcd) [PcdFlashNvStorageFtwWorkingBase pcd, PcdFlashNvStorageFtwSpareBase pcd] gs))"

section \<open>Blocks of a volume\<close>

text \<open>
  What a block map means: the lengths of all blocks in order.  A volume is well formed when its map ends with an empty
  entry and the blocks do not add up to 4 GB.
\<close>

primrec block_lengths :: "EFI_FV_BLOCK_MAP_ENTRY list \<Rightarrow> nat list" where
  "block_lengths [] = []"
| "block_lengths (e # es) =
    (if NumBlocks e = 0 \<or> Length e = 0 then [] else replicate (unat (NumBlocks e)) (unat (Length e)) @ block_lengths es)"

definition block_offset :: "EFI_FV_BLOCK_MAP_ENTRY list \<Rightarrow> nat \<Rightarrow> nat" where
  "block_offset es i = sum_list (take i (block_lengths es))"

definition map_ok :: "EFI_FV_BLOCK_MAP_ENTRY list \<Rightarrow> bool" where
  "map_ok es \<longleftrightarrow> list_ex (\<lambda>e. NumBlocks e = 0 \<or> Length e = 0) es \<and> sum_list (block_lengths es) < 2 ^ 32"

lemma length_le_sum: "\<forall>n \<in> set ns. 0 < n \<Longrightarrow> length ns \<le> sum_list (ns :: nat list)"
  by (induction ns) auto

lemma block_lengths_pos: "n \<in> set (block_lengths es) \<Longrightarrow> 0 < n"
  by (induction es) (auto simp: unat_gt_0 split: if_splits)

lemma few_blocks: "map_ok es \<Longrightarrow> length (block_lengths es) < 2 ^ 32"
  using length_le_sum [of "block_lengths es"] block_lengths_pos by (auto simp: map_ok_def intro: le_less_trans)

lemma map_ok_tail:
  assumes "map_ok (e # es)" "NumBlocks e \<noteq> 0" "Length e \<noteq> 0"
  shows "map_ok es" "unat (NumBlocks e) * unat (Length e) < 2 ^ 32"
  using assms by (auto simp: map_ok_def sum_list_replicate)

lemma block_offset_bound:
  assumes "i < length (block_lengths es)" shows "block_offset es i + block_lengths es ! i \<le> sum_list (block_lengths es)"
proof -
  have "sum_list (block_lengths es) = sum_list (take i (block_lengths es)) + sum_list (drop i (block_lengths es))"
    by (metis append_take_drop_id sum_list_append)
  moreover have "drop i (block_lengths es) = block_lengths es ! i # drop (Suc i) (block_lengths es)"
    using assms by (rule Cons_nth_drop_Suc [symmetric])
  ultimately show ?thesis by (simp add: block_offset_def)
qed

text \<open>What the search returns for a block number that counts from the current map entry.\<close>

definition lba_found :: "EFI_FV_BLOCK_MAP_ENTRY list \<Rightarrow> nat \<Rightarrow> UINTN \<Rightarrow> UINTN \<times> UINTN \<times> UINTN \<Rightarrow> bool" where
  "lba_found es i Off r \<longleftrightarrow> (case r of (off, len, num) \<Rightarrow>
     unat off = unat Off + block_offset es i \<and> unat len = block_lengths es ! i \<and>
     0 < unat num \<and> i + unat num \<le> length (block_lengths es) \<and> (\<forall>j < unat num. block_lengths es ! (i + j) = unat len))"

lemma loop_finds:
  "map_ok es \<Longrightarrow> unat StartLba \<le> unat Lba \<Longrightarrow> unat StartLba + length (block_lengths es) < 2 ^ 64 \<Longrightarrow>
    unat Off + sum_list (block_lengths es) < 2 ^ 64 \<Longrightarrow> i = unat Lba - unat StartLba \<Longrightarrow>
    (if i < length (block_lengths es) then \<exists>r. FvbGetLbaAddress_loop es Lba StartLba Off = Some (Some r) \<and> lba_found es i Off r
     else FvbGetLbaAddress_loop es Lba StartLba Off = Some None)"
proof (induction es arbitrary: StartLba Off i)
  case Nil
  then show ?case by (simp add: map_ok_def)
next
  case (Cons e es)
  show ?case
  proof (cases "NumBlocks e = 0 \<or> Length e = 0")
    case True
    then show ?thesis by auto
  next
    case False
    let ?n = "unat (NumBlocks e)" and ?l = "unat (Length e)" and ?Next = "StartLba + ucast (NumBlocks e)"
    have t: "map_ok es" "?n * ?l < 2 ^ 32" using map_ok_tail [OF Cons.prems(1)] False by auto
    have bl: "block_lengths (e # es) = replicate ?n ?l @ block_lengths es" using False by simp
    have nx: "unat ?Next = unat StartLba + ?n" using Cons.prems(3) bl by (simp add: unat_add_noov)
    have i: "unat Lba = unat StartLba + i" using Cons.prems(2,5) by simp
    show ?thesis
    proof (cases "i < ?n")
      case True
      then have c: "StartLba \<le> Lba \<and> Lba < ?Next" using i nx by (simp add: word_le_nat_alt word_less_nat_alt)
      have le: "i * ?l \<le> ?n * ?l" using True by simp
      then have il: "i * ?l < 2 ^ 32" using t(2) by (rule le_less_trans)
      have "?n * ?l \<le> sum_list (block_lengths (e # es))" using bl by (simp add: sum_list_replicate)
      then have sum: "unat Off + i * ?l < 2 ^ 64" using le Cons.prems(4) by linarith
      have mul: "unat ((Lba - StartLba) * ucast (Length e)) = i * ?l"
        using il i by (simp add: unat_word_ariths unat_sub_noov)
      have off: "unat (Off + (Lba - StartLba) * ucast (Length e)) = unat Off + i * ?l"
        using sum mul by (simp add: unat_add_noov)
      have num: "unat (?Next - Lba) = ?n - i" using i nx True by (simp add: unat_sub_noov)
      show ?thesis using c False bl True off num
        by (auto simp: lba_found_def block_offset_def sum_list_replicate nth_append Let_def)
    next
      case False': False
      then have c: "\<not> (StartLba \<le> Lba \<and> Lba < ?Next)" using i nx by (simp add: word_less_nat_alt)
      have mul: "unat (NumBlocks e * Length e) = ?n * ?l" using t(2) by (simp add: unat_word_ariths)
      have off: "unat (Off + ucast (NumBlocks e * Length e)) = unat Off + ?n * ?l"
        using Cons.prems(4) bl by (simp add: unat_add_noov mul sum_list_replicate)
      have IH: "if i - ?n < length (block_lengths es) then
           \<exists>r. FvbGetLbaAddress_loop es Lba ?Next (Off + ucast (NumBlocks e * Length e)) = Some (Some r) \<and>
             lba_found es (i - ?n) (Off + ucast (NumBlocks e * Length e)) r
         else FvbGetLbaAddress_loop es Lba ?Next (Off + ucast (NumBlocks e * Length e)) = Some None"
        using Cons.IH [of ?Next "Off + ucast (NumBlocks e * Length e)" "i - ?n"] t(1) nx i False' off Cons.prems(3,4) bl
        by (simp add: sum_list_replicate)
      have step: "FvbGetLbaAddress_loop (e # es) Lba StartLba Off = FvbGetLbaAddress_loop es Lba ?Next (Off + ucast (NumBlocks e * Length e))"
        using c False by (auto simp: Let_def)
      have "lba_found es (i - ?n) (Off + ucast (NumBlocks e * Length e)) r \<Longrightarrow> lba_found (e # es) i Off r" for r
        unfolding lba_found_def bl block_offset_def using off False' by (auto simp: sum_list_replicate nth_append)
      then show ?thesis using IH False' unfolding step bl by (auto split: if_splits)
    qed
  qed
qed

text \<open>
  A well-formed record of a volume on a flash of a given size: the volume lies inside the flash, its blocks are whole
  sectors, and the number of its blocks is that of its block map.
\<close>

definition fv_ok :: "nat \<Rightarrow> EFI_FW_VOL_INSTANCE \<Rightarrow> bool" where
  "fv_ok fsize fw \<longleftrightarrow> (let es = BlockMap (VolumeHeader fw) in map_ok es \<and>
     unat (FvFlashLinearAddress fw) + sum_list (block_lengths es) \<le> fsize \<and> unat (FvFlashLinearAddress fw) mod 4096 = 0 \<and>
     list_all (\<lambda>n. n mod 4096 = 0) (block_lengths es) \<and> unat (NumOfBlocks fw) = length (block_lengths es))"

definition fv_blocks :: "EFI_FW_VOL_INSTANCE \<Rightarrow> nat list" where
  "fv_blocks fw = block_lengths (BlockMap (VolumeHeader fw))"

definition block_address :: "EFI_FW_VOL_INSTANCE \<Rightarrow> nat \<Rightarrow> nat" where
  "block_address fw i = unat (FvFlashLinearAddress fw) + block_offset (BlockMap (VolumeHeader fw)) i"

definition has_attribute :: "EFI_FW_VOL_INSTANCE \<Rightarrow> UINT32 \<Rightarrow> bool" where
  "has_attribute fw a \<longleftrightarrow> Attributes (VolumeHeader fw) AND a \<noteq> 0"

lemma block_in_volume:
  assumes "fv_ok fsize fw" "i < length (fv_blocks fw)"
  shows "block_address fw i + fv_blocks fw ! i \<le> fsize" "fv_blocks fw ! i < 2 ^ 32" "0 < fv_blocks fw ! i" "fv_blocks fw ! i mod 4096 = 0"
  using assms block_offset_bound [of i "BlockMap (VolumeHeader fw)"] block_lengths_pos [of "fv_blocks fw ! i" "BlockMap (VolumeHeader fw)"]
  by (auto simp: fv_ok_def fv_blocks_def block_address_def map_ok_def Let_def list_all_length)

lemma sum_take_mod: "list_all (\<lambda>n. n mod 4096 = 0) ns \<Longrightarrow> sum_list (take i ns) mod 4096 = (0 :: nat)"
  by (induction ns arbitrary: i) (auto simp: take_Cons split: nat.splits intro: dvd_add simp flip: dvd_eq_mod_eq_0)

lemma block_address_mod: "fv_ok fsize fw \<Longrightarrow> block_address fw i mod 4096 = 0"
  using sum_take_mod [of "fv_blocks fw" i]
  by (auto simp: fv_ok_def fv_blocks_def block_address_def block_offset_def Let_def intro: dvd_add simp flip: dvd_eq_mod_eq_0)

lemma lba_address:
  assumes g: "GetFvbInstance g inst = Some fw" and ok: "fv_ok fsize fw" and fs: "fsize \<le> 2 ^ 27"
  shows "if unat Lba < length (fv_blocks fw) then \<exists>lba. FvbGetLbaAddress g inst Lba = Some (Some lba) \<and>
      unat (FlashLinearAddress lba) = block_address fw (unat Lba) \<and> unat (LbaLength lba) = fv_blocks fw ! unat Lba \<and>
      0 < unat (LbaNumOfBlocks lba) \<and> unat Lba + unat (LbaNumOfBlocks lba) \<le> length (fv_blocks fw) \<and>
      (\<forall>j < unat (LbaNumOfBlocks lba). fv_blocks fw ! (unat Lba + j) = unat (LbaLength lba)) \<and>
      LbaAddress lba - FlashLinearAddress lba = FvBase fw - FvFlashLinearAddress fw
    else FvbGetLbaAddress g inst Lba = Some None"
proof -
  let ?es = "BlockMap (VolumeHeader fw)"
  have m: "map_ok ?es" "unat (FvFlashLinearAddress fw) + sum_list (block_lengths ?es) \<le> fsize" using ok by (auto simp: fv_ok_def Let_def)
  have "if unat Lba < length (block_lengths ?es) then
      \<exists>r. FvbGetLbaAddress_loop ?es Lba 0 0 = Some (Some r) \<and> lba_found ?es (unat Lba) 0 r
     else FvbGetLbaAddress_loop ?es Lba 0 0 = Some None"
    using loop_finds [of ?es 0 Lba 0 "unat Lba"] m(1) few_blocks [OF m(1)] by (simp add: map_ok_def)
  moreover have "unat (FvFlashLinearAddress fw + off) = unat (FvFlashLinearAddress fw) + unat off"
    if "lba_found ?es (unat Lba) 0 (off, len, num)" "unat Lba < length (block_lengths ?es)" for off len num
    using that m(2) fs block_offset_bound [OF that(2)] by (intro unat_add_noov) (simp add: lba_found_def)
  ultimately show ?thesis using g
    by (auto simp: FvbGetLbaAddress_def fv_blocks_def block_address_def split: if_splits) (auto simp: lba_found_def)
qed

lemma volume_attributes: "GetFvbInstance g i = Some fw \<Longrightarrow> FvbGetVolumeAttributes g i = Some (Attributes (VolumeHeader fw))"
  by (simp add: FvbGetVolumeAttributes_def)

text \<open>The number of bytes that fit into the rest of a block, and where they are.\<close>

lemma clip_count:
  fixes n off len :: UINTN
  assumes "unat len < 2 ^ 32" "unat off \<le> unat len" "unat n \<le> 2 ^ 63" "clip_to_block len off n = (n1, st)"
  shows "unat n1 = min (unat n) (unat len - unat off)" "st = (if unat n1 = unat n then EFI_SUCCESS else EFI_BAD_BUFFER_SIZE)"
proof -
  have sum: "unat (n + off) = unat n + unat off" using assms(1-3) by (intro unat_add_noov) simp
  have iff: "len < n + off \<longleftrightarrow> unat len - unat off < unat n" using assms(2) by (auto simp: word_less_nat_alt sum)
  have "unat (ucast (ucast (len - off) :: UINT32) :: UINTN) = unat len - unat off"
    using assms(1,2) by (simp add: unat_down unat_sub_noov)
  then show "unat n1 = min (unat n) (unat len - unat off)" "st = (if unat n1 = unat n then EFI_SUCCESS else EFI_BAD_BUFFER_SIZE)"
    using iff assms(4) by (auto simp: clip_to_block_def split: if_splits)
qed

lemma clipped_range:
  fixes Lba off
  assumes "fv_ok fsize fw" "fsize \<le> 2 ^ 27" "unat Lba < length (fv_blocks fw)" "unat off \<le> fv_blocks fw ! unat Lba" "unat n \<le> 2 ^ 63"
    and lba: "unat (FlashLinearAddress lba) = block_address fw (unat Lba)" "unat (LbaLength lba) = fv_blocks fw ! unat Lba"
    and c: "clip_to_block (LbaLength lba) off n = (n1, st)"
  defines "k \<equiv> min (unat n) (fv_blocks fw ! unat Lba - unat off)" and "a \<equiv> block_address fw (unat Lba) + unat off"
  shows "unat n1 = k" "st = (if k = unat n then EFI_SUCCESS else EFI_BAD_BUFFER_SIZE)" "unat (FlashLinearAddress lba + off) = a" "a + k \<le> fsize"
    "\<not> LbaLength lba < off"
proof -
  note B = block_in_volume [OF assms(1,3)]
  have o: "unat off \<le> unat (LbaLength lba)" using assms(4) lba by simp
  then show "\<not> LbaLength lba < off" by (simp add: word_less_nat_alt)
  show k: "unat n1 = k" "st = (if k = unat n then EFI_SUCCESS else EFI_BAD_BUFFER_SIZE)"
    using clip_count [OF _ o assms(5) c] B(2) lba by (auto simp: k_def)
  show "unat (FlashLinearAddress lba + off) = a" using B(1) assms(2,4) lba by (subst unat_add_noov) (simp_all add: a_def)
  show "a + k \<le> fsize" using B(1) assms(4) by (auto simp: a_def k_def)
qed

context spi_device
begin

lemma lock_step [simp]: "(case DevLock D x y z u of (c, v) \<Rightarrow> f v) = f u"
  by (simp add: case_prod_beta dev_lock)

lemma write_block:
  fixes Lba off
  assumes r: "ready s" and g: "GetFvbInstance g inst = Some fw" and ok: "fv_ok fsize fw"
    and n: "0 < n" "unat n \<le> length b" "length b \<le> 2 ^ 63"
  defines "k \<equiv> min (unat n) (fv_blocks fw ! unat Lba - unat off)" and "a \<equiv> block_address fw (unat Lba) + unat off"
  shows "if length (fv_blocks fw) \<le> unat Lba then FvbWriteBlock D g inst Lba off (Some n) (Some b) s = Some (EFI_INVALID_PARAMETER, Some n, s)
    else if \<not> has_attribute fw EFI_FVB2_WRITE_STATUS then FvbWriteBlock D g inst Lba off (Some n) (Some b) s = Some (EFI_ACCESS_DENIED, Some n, s)
    else if fv_blocks fw ! unat Lba < unat off then FvbWriteBlock D g inst Lba off (Some n) (Some b) s = Some (EFI_INVALID_PARAMETER, Some n, s)
    else \<exists>st n' s'. FvbWriteBlock D g inst Lba off (Some n) (Some b) s = Some (st, Some n', s') \<and> unat n' = k \<and>
      ready s' \<and> same_outside a k (flash s) (flash s') \<and>
      (st = EFI_DEVICE_ERROR \<or> st = (if k = unat n then EFI_SUCCESS else EFI_BAD_BUFFER_SIZE) \<and> flash s' = programmed a (take k b) (flash s))"
proof (cases "unat Lba < length (fv_blocks fw)")
  case False
  then show ?thesis using lba_address [OF g ok dev_size, of Lba] n(1) by (auto simp: FvbWriteBlock_def)
next
  case inside: True
  then obtain lba where lba: "FvbGetLbaAddress g inst Lba = Some (Some lba)" "unat (FlashLinearAddress lba) = block_address fw (unat Lba)"
      "unat (LbaLength lba) = fv_blocks fw ! unat Lba" using lba_address [OF g ok dev_size, of Lba] by auto
  show ?thesis
  proof (cases "has_attribute fw EFI_FVB2_WRITE_STATUS \<and> unat off \<le> fv_blocks fw ! unat Lba")
    case False
    then show ?thesis using inside lba n(1) volume_attributes [OF g] by (auto simp: FvbWriteBlock_def has_attribute_def word_less_nat_alt)
  next
    case True
    have n0: "n \<noteq> 0" using n(1) by auto
    obtain n1 st0 where c: "clip_to_block (LbaLength lba) off n = (n1, st0)" by (meson surj_pair)
    note C = clipped_range [OF ok dev_size inside _ _ lba(2,3) c, folded k_def a_def]
    obtain st s' where w: "DevWrite D (FlashLinearAddress lba + off) (Some n1) (Some b) s = (st, s')" by (meson surj_pair)
    note W = dev_write [OF r _ _ w]
    have "FvbWriteBlock D g inst Lba off (Some n) (Some b) s = Some (if st = EFI_DEVICE_ERROR then st else st0, Some n1, s')"
      using True lba(1) n n0 C(5) c w volume_attributes [OF g] by (simp add: FvbWriteBlock_def has_attribute_def)
    moreover have "unat n1 = k" "st0 = (if k = unat n then EFI_SUCCESS else EFI_BAD_BUFFER_SIZE)" "k \<le> length b"
      using C n True by (simp_all add: k_def)
    ultimately show ?thesis using inside True W C n by auto
  qed
qed

lemma read_block:
  fixes Lba off
  assumes r: "ready s" and g: "GetFvbInstance g inst = Some fw" and ok: "fv_ok fsize fw"
    and n: "0 < n" "unat n \<le> length b" "length b \<le> 2 ^ 63"
  defines "k \<equiv> min (unat n) (fv_blocks fw ! unat Lba - unat off)" and "a \<equiv> block_address fw (unat Lba) + unat off"
  shows "if length (fv_blocks fw) \<le> unat Lba then FvbReadBlock D g inst Lba off (Some n) (Some b) s = Some (EFI_INVALID_PARAMETER, Some n, Some b, s)
    else if \<not> has_attribute fw EFI_FVB2_READ_STATUS then FvbReadBlock D g inst Lba off (Some n) (Some b) s = Some (EFI_ACCESS_DENIED, Some n, Some b, s)
    else if fv_blocks fw ! unat Lba < unat off then FvbReadBlock D g inst Lba off (Some n) (Some b) s = Some (EFI_INVALID_PARAMETER, Some n, Some b, s)
    else \<exists>st n' b' s'. FvbReadBlock D g inst Lba off (Some n) (Some b) s = Some (st, Some n', b', s') \<and> unat n' = k \<and>
      ready s' \<and> flash s' = flash s \<and>
      (readable s a k \<longrightarrow> st = (if k = unat n then EFI_SUCCESS else EFI_BAD_BUFFER_SIZE) \<and>
         b' = Some (flash_bytes a k (flash s) @ drop k b) \<and> s' = s)"
proof (cases "unat Lba < length (fv_blocks fw)")
  case False
  then show ?thesis using lba_address [OF g ok dev_size, of Lba] n(1) by (auto simp: FvbReadBlock_def)
next
  case inside: True
  then obtain lba where lba: "FvbGetLbaAddress g inst Lba = Some (Some lba)" "unat (FlashLinearAddress lba) = block_address fw (unat Lba)"
      "unat (LbaLength lba) = fv_blocks fw ! unat Lba" using lba_address [OF g ok dev_size, of Lba] by auto
  show ?thesis
  proof (cases "has_attribute fw EFI_FVB2_READ_STATUS \<and> unat off \<le> fv_blocks fw ! unat Lba")
    case False
    then show ?thesis using inside lba n(1) volume_attributes [OF g] by (auto simp: FvbReadBlock_def has_attribute_def word_less_nat_alt)
  next
    case True
    have n0: "n \<noteq> 0" using n(1) by auto
    obtain n1 st0 where c: "clip_to_block (LbaLength lba) off n = (n1, st0)" by (meson surj_pair)
    note C = clipped_range [OF ok dev_size inside _ _ lba(2,3) c, folded k_def a_def]
    obtain st b' s' where w: "DevRead D (FlashLinearAddress lba + off) (Some n1) (Some b) s = (st, b', s')" by (metis surj_pair)
    note Q = dev_read_quiet [OF r _ _ w] and R = dev_read [OF r, of "FlashLinearAddress lba + off" n1 b]
    have "FvbReadBlock D g inst Lba off (Some n) (Some b) s = Some (if st = EFI_DEVICE_ERROR then st else st0, Some n1, b', s')"
      using True lba(1) n n0 C(5) c w volume_attributes [OF g] by (simp add: FvbReadBlock_def has_attribute_def)
    moreover have k: "unat n1 = k" "st0 = (if k = unat n then EFI_SUCCESS else EFI_BAD_BUFFER_SIZE)" "k \<le> length b"
        "unat (FlashLinearAddress lba + off) = a" "a + k \<le> fsize" using C n True by (simp_all add: k_def)
    moreover have "readable s a k \<Longrightarrow> st = EFI_SUCCESS \<and> b' = Some (flash_bytes a k (flash s) @ drop k b) \<and> s' = s"
      using R w k by simp
    ultimately show ?thesis using inside True Q by auto
  qed
qed

end

context spi_device
begin

lemma erase_block:
  assumes r: "ready s" and g: "GetFvbInstance g inst = Some fw" and ok: "fv_ok fsize fw"
  shows "if \<not> has_attribute fw EFI_FVB2_WRITE_STATUS then FvbEraseBlock D g inst Lba s = Some (EFI_ACCESS_DENIED, s)
    else if length (fv_blocks fw) \<le> unat Lba then FvbEraseBlock D g inst Lba s = Some (EFI_INVALID_PARAMETER, s)
    else \<exists>st s'. FvbEraseBlock D g inst Lba s = Some (st, s') \<and> ready s' \<and>
      same_outside (block_address fw (unat Lba)) (fv_blocks fw ! unat Lba) (flash s) (flash s') \<and>
      (st = EFI_DEVICE_ERROR \<or> st = EFI_SUCCESS \<and> flash s' = erased (block_address fw (unat Lba)) (fv_blocks fw ! unat Lba) (flash s))"
proof -
  note L = lba_address [OF g ok dev_size, of Lba]
  show ?thesis
  proof (cases "has_attribute fw EFI_FVB2_WRITE_STATUS \<and> unat Lba < length (fv_blocks fw)")
    case False
    then show ?thesis using L volume_attributes [OF g] by (auto simp: FvbEraseBlock_def has_attribute_def)
  next
    case True
    then obtain lba where lba: "FvbGetLbaAddress g inst Lba = Some (Some lba)" "unat (FlashLinearAddress lba) = block_address fw (unat Lba)"
        "unat (LbaLength lba) = fv_blocks fw ! unat Lba" using L by auto
    note B = block_in_volume [OF ok, of "unat Lba"]
    have p: "0 < LbaLength lba" "unat (FlashLinearAddress lba) + unat (LbaLength lba) \<le> fsize" "unat (FlashLinearAddress lba) mod 4096 = 0"
        "unat (LbaLength lba) mod 4096 = 0"
      using B True lba block_address_mod [OF ok] by (simp_all add: word_less_nat_alt)
    obtain st s' where e: "DevErase D (FlashLinearAddress lba) (LbaLength lba) s = Some (st, s')" and E: "ready s'"
        "same_outside (unat (FlashLinearAddress lba)) (unat (LbaLength lba)) (flash s) (flash s')"
        "\<not> EFI_ERROR st \<longrightarrow> st = EFI_SUCCESS \<and> flash s' = erased (unat (FlashLinearAddress lba)) (unat (LbaLength lba)) (flash s)" "EFI_ERROR st \<longrightarrow> st = EFI_DEVICE_ERROR"
      using dev_erase [OF r p] by blast
    have "FvbEraseBlock D g inst Lba s = Some (if st = EFI_DEVICE_ERROR then st else EFI_SUCCESS, s')"
      using True lba(1) e volume_attributes [OF g] by (simp add: FvbEraseBlock_def has_attribute_def)
    then show ?thesis using True E lba by auto
  qed
qed

end

lemma block_address_Suc: "i < length (fv_blocks fw) \<Longrightarrow> block_address fw (Suc i) = block_address fw i + fv_blocks fw ! i"
  by (simp add: block_address_def block_offset_def fv_blocks_def take_Suc_conv_app_nth)

lemma block_address_mono: "i \<le> j \<Longrightarrow> block_address fw i \<le> block_address fw j"
proof -
  assume "i \<le> j"
  then obtain d where "j = i + d" using le_Suc_ex by blast
  then show ?thesis by (simp add: block_address_def block_offset_def take_add)
qed

definition fv_size :: "EFI_FW_VOL_INSTANCE \<Rightarrow> nat" where
  "fv_size fw = sum_list (fv_blocks fw)"

lemma block_inside: "i < length (fv_blocks fw) \<Longrightarrow> unat (FvFlashLinearAddress fw) \<le> block_address fw i \<and>
    block_address fw i + fv_blocks fw ! i \<le> unat (FvFlashLinearAddress fw) + fv_size fw"
  using block_offset_bound [of i "BlockMap (VolumeHeader fw)"] by (simp add: block_address_def fv_size_def fv_blocks_def)

text \<open>The flash after a range of blocks has been erased.\<close>

definition erased_blocks :: "EFI_FW_VOL_INSTANCE \<Rightarrow> nat \<Rightarrow> nat \<Rightarrow> flash \<Rightarrow> flash" where
  "erased_blocks fw i k f = erased (block_address fw i) (block_address fw (i + k) - block_address fw i) f"

lemma erased_blocks_Suc:
  assumes "i < length (fv_blocks fw)"
  shows "erased_blocks fw (Suc i) k (erased (block_address fw i) (fv_blocks fw ! i) f) = erased_blocks fw i (Suc k) f"
proof -
  have "block_address fw (Suc i) \<le> block_address fw (Suc (i + k))" by (rule block_address_mono) simp
  then show ?thesis using block_address_Suc [OF assms] erased_append [of "block_address fw i" "fv_blocks fw ! i"]
    by (simp add: erased_blocks_def)
qed

context spi_device
begin

lemma erase_range_inside:
  "ready s \<Longrightarrow> GetFvbInstance g inst = Some fw \<Longrightarrow> fv_ok fsize fw \<Longrightarrow> \<exists>st s'. erase_lba_range k D g inst Lba s = Some (st, s') \<and> ready s' \<and>
    same_outside (unat (FvFlashLinearAddress fw)) (fv_size fw) (flash s) (flash s') \<and> (\<not> has_attribute fw EFI_FVB2_WRITE_STATUS \<longrightarrow> s' = s)"
proof (induction k arbitrary: Lba s)
  case (Suc k)
  note E = erase_block [OF Suc.prems, of Lba]
  show ?case
  proof (cases "has_attribute fw EFI_FVB2_WRITE_STATUS \<and> unat Lba < length (fv_blocks fw)")
    case False
    then show ?thesis using E Suc.prems(1) by (auto split: if_splits)
  next
    case True
    then obtain st s1 where e: "FvbEraseBlock D g inst Lba s = Some (st, s1)" "ready s1"
        "same_outside (block_address fw (unat Lba)) (fv_blocks fw ! unat Lba) (flash s) (flash s1)" using E by auto
    have o: "same_outside (unat (FvFlashLinearAddress fw)) (fv_size fw) (flash s) (flash s1)"
      using same_outside_mono [OF e(3)] block_inside True by blast
    show ?thesis using Suc.IH [OF e(2) Suc.prems(2,3), of "Lba + 1"] e o True same_outside_trans [OF o] by (auto split: if_splits)
  qed
qed simp

lemma erase_lbas_inside:
  "ready s \<Longrightarrow> GetFvbInstance g inst = Some fw \<Longrightarrow> fv_ok fsize fw \<Longrightarrow> \<exists>st s'. erase_lbas D g inst args s = Some (st, s') \<and> ready s' \<and>
    same_outside (unat (FvFlashLinearAddress fw)) (fv_size fw) (flash s) (flash s') \<and> (\<not> has_attribute fw EFI_FVB2_WRITE_STATUS \<longrightarrow> s' = s)"
proof (induction args arbitrary: s)
  case (Cons x args)
  obtain l n where x: "x = (l, n)" by (cases x)
  obtain st s1 where e: "erase_lba_range (unat n) D g inst l s = Some (st, s1)" "ready s1"
      "same_outside (unat (FvFlashLinearAddress fw)) (fv_size fw) (flash s) (flash s1)" "\<not> has_attribute fw EFI_FVB2_WRITE_STATUS \<longrightarrow> s1 = s"
    using erase_range_inside [OF Cons.prems, of "unat n" l] by blast
  show ?case using Cons.IH [OF e(2) Cons.prems(2,3)] Cons.prems(1) e x same_outside_trans [OF e(3)] by auto
qed simp

end

section \<open>Erasing a list of block ranges\<close>

text \<open>The ranges up to the terminator, and whether they are ranges of the volume.\<close>

definition lba_ranges :: "(EFI_LBA \<times> UINT32) list \<Rightarrow> (nat \<times> nat) list" where
  "lba_ranges args = map (\<lambda>(l, n). (unat l, unat n)) (takeWhile (\<lambda>(l, n). l \<noteq> EFI_LBA_LIST_TERMINATOR) args)"

definition ranges_inside :: "nat \<Rightarrow> (nat \<times> nat) list \<Rightarrow> bool" where
  "ranges_inside N rs \<longleftrightarrow> (\<forall>(l, n) \<in> set rs. 0 < n \<and> l + n \<le> N)"

definition erased_ranges :: "EFI_FW_VOL_INSTANCE \<Rightarrow> (nat \<times> nat) list \<Rightarrow> flash \<Rightarrow> flash" where
  "erased_ranges fw rs f = fold (\<lambda>(l, n). erased_blocks fw l n) rs f"

lemma check_lbas_ranges:
  assumes "\<forall>(l, n) \<in> set (lba_ranges args). l + n < 2 ^ 64"
  shows "check_lbas N args \<longleftrightarrow> ranges_inside (unat N) (lba_ranges args)"
  using assms
proof (induction args)
  case (Cons x args)
  obtain l n where x: "x = (l, n)" by (cases x)
  show ?case
  proof (cases "l = EFI_LBA_LIST_TERMINATOR")
    case False
    then have "unat (l + ucast n) = unat l + unat n" using Cons.prems x unat_add_noov [of l "ucast n"] by (simp add: lba_ranges_def)
    then show ?thesis using False Cons x
      by (auto simp: lba_ranges_def ranges_inside_def word_less_nat_alt unat_gt_0 not_less unat_eq_zero)
  qed (simp add: x lba_ranges_def ranges_inside_def)
qed (simp add: lba_ranges_def ranges_inside_def)

context spi_device
begin

lemma erase_range_erases:
  "ready s \<Longrightarrow> GetFvbInstance g inst = Some fw \<Longrightarrow> fv_ok fsize fw \<Longrightarrow> has_attribute fw EFI_FVB2_WRITE_STATUS \<Longrightarrow>
    unat Lba + k \<le> length (fv_blocks fw) \<Longrightarrow> erase_lba_range k D g inst Lba s = Some (st, s') \<Longrightarrow>
    ready s' \<and> (st = EFI_DEVICE_ERROR \<or> st = EFI_SUCCESS \<and> flash s' = erased_blocks fw (unat Lba) k (flash s))"
proof (induction k arbitrary: Lba s)
  case (Suc k)
  have i: "unat Lba < length (fv_blocks fw)" using Suc.prems(5) by simp
  obtain st1 s1 where e: "FvbEraseBlock D g inst Lba s = Some (st1, s1)" "ready s1"
      "st1 = EFI_DEVICE_ERROR \<or> st1 = EFI_SUCCESS \<and> flash s1 = erased (block_address fw (unat Lba)) (fv_blocks fw ! unat Lba) (flash s)"
    using erase_block [OF Suc.prems(1-3), of Lba] Suc.prems(4) i by auto
  have "length (fv_blocks fw) < 2 ^ 32" using few_blocks Suc.prems(3) by (auto simp: fv_ok_def fv_blocks_def Let_def)
  then have l: "unat (Lba + 1) = Suc (unat Lba)" using i unat_suc_noov [of Lba] by simp
  show ?case
  proof (cases "st1 = EFI_DEVICE_ERROR")
    case True
    then show ?thesis using Suc.prems(6) e by simp
  next
    case False
    then show ?thesis using Suc.IH [OF e(2) Suc.prems(2-4), of "Lba + 1"] Suc.prems(5,6) e l erased_blocks_Suc [OF i] by auto
  qed
qed (simp add: erased_blocks_def)

lemma erase_lbas_erases:
  "ready s \<Longrightarrow> GetFvbInstance g inst = Some fw \<Longrightarrow> fv_ok fsize fw \<Longrightarrow> has_attribute fw EFI_FVB2_WRITE_STATUS \<Longrightarrow>
    ranges_inside (length (fv_blocks fw)) (lba_ranges args) \<Longrightarrow> erase_lbas D g inst args s = Some (st, s') \<Longrightarrow>
    st = EFI_DEVICE_ERROR \<or> st = EFI_SUCCESS \<and> flash s' = erased_ranges fw (lba_ranges args) (flash s)"
proof (induction args arbitrary: s)
  case (Cons x args)
  obtain l n where x: "x = (l, n)" by (cases x)
  show ?case
  proof (cases "l = EFI_LBA_LIST_TERMINATOR")
    case True
    then show ?thesis using Cons.prems(6) x by (simp add: lba_ranges_def erased_ranges_def)
  next
    case False
    then have r: "lba_ranges (x # args) = (unat l, unat n) # lba_ranges args" using x by (simp add: lba_ranges_def)
    obtain st1 s1 where e: "erase_lba_range (unat n) D g inst l s = Some (st1, s1)" using erase_range_inside [OF Cons.prems(1-3)] by blast
    have E: "ready s1 \<and> (st1 = EFI_DEVICE_ERROR \<or> st1 = EFI_SUCCESS \<and> flash s1 = erased_blocks fw (unat l) (unat n) (flash s))"
      by (rule erase_range_erases [OF Cons.prems(1-4) _ e]) (use Cons.prems(5) r in \<open>simp add: ranges_inside_def\<close>)
    then show ?thesis using Cons.IH [of s1] Cons.prems e r False x by (auto simp: ranges_inside_def erased_ranges_def)
  qed
qed (simp add: lba_ranges_def erased_ranges_def)

lemma erase_blocks:
  assumes "ready s" and g: "GetFvbInstance g (Instance This) = Some fw" and ok: "fv_ok fsize fw"
    and nowrap: "\<forall>(l, n) \<in> set (lba_ranges args). l + n < 2 ^ 64"
  shows "if \<not> has_attribute fw EFI_FVB2_WRITE_STATUS then FvbProtocolEraseBlocks D g This args s = Some (EFI_ACCESS_DENIED, s)
    else if \<not> ranges_inside (length (fv_blocks fw)) (lba_ranges args) then FvbProtocolEraseBlocks D g This args s = Some (EFI_INVALID_PARAMETER, s)
    else \<exists>st s'. FvbProtocolEraseBlocks D g This args s = Some (st, s') \<and> ready s' \<and>
      same_outside (unat (FvFlashLinearAddress fw)) (fv_size fw) (flash s) (flash s') \<and>
      (st = EFI_DEVICE_ERROR \<or> st = EFI_SUCCESS \<and> flash s' = erased_ranges fw (lba_ranges args) (flash s))"
proof -
  have "unat (NumOfBlocks fw) = length (fv_blocks fw)" using ok by (simp add: fv_ok_def fv_blocks_def Let_def)
  then have "check_lbas (NumOfBlocks fw) args \<longleftrightarrow> ranges_inside (length (fv_blocks fw)) (lba_ranges args)"
    using check_lbas_ranges [OF nowrap] by simp
  then show ?thesis
    using g erase_lbas_inside [OF assms(1) g ok, of args] erase_lbas_erases [OF assms(1) g ok, of args]
    by (auto simp: FvbProtocolEraseBlocks_def has_attribute_def)
qed

text \<open>Whatever its arguments are, the call ends, stays inside its volume and does nothing to a volume that is not write enabled.\<close>

lemma erase_blocks_inside:
  assumes "ready s" and g: "GetFvbInstance g (Instance This) = Some fw" and ok: "fv_ok fsize fw"
  shows "\<exists>st s'. FvbProtocolEraseBlocks D g This args s = Some (st, s') \<and> ready s' \<and>
    same_outside (unat (FvFlashLinearAddress fw)) (fv_size fw) (flash s) (flash s') \<and> (\<not> has_attribute fw EFI_FVB2_WRITE_STATUS \<longrightarrow> s' = s)"
  using g erase_lbas_inside [OF assms, of args] assms(1) by (auto simp: FvbProtocolEraseBlocks_def has_attribute_def)

end

section \<open>Attributes\<close>

lemma status_masks: "EFI_FVB2_STATUS = 0xA4" "UnchangedAttributes = 0x1F5E5B"
  by (simp_all add: UnchangedAttributes_def fvb2_defs)

lemma xor_zero: "x XOR y = 0 \<longleftrightarrow> x = y" for x y :: UINT32
  by (auto simp: bit_eq_iff bit_xor_iff)

lemma keep_bits: "(x AND NOT m) OR (y AND m) = x" if "x AND m = y AND m" for x y m :: UINT32
proof (rule bit_word_eqI)
  fix n assume "n < LENGTH(32)"
  have "bit (x AND m) n = bit (y AND m) n" using that by simp
  then show "bit ((x AND NOT m) OR (y AND m)) n = bit x n"
    using \<open>n < LENGTH(32)\<close> by (auto simp: bit_and_iff bit_or_iff bit_not_iff)
qed

lemma set_locked:
  assumes "GetFvbInstance g i = Some fw" "has_attribute fw EFI_FVB2_LOCK_STATUS" "FvbSetVolumeAttributes g i a = Some (st, a', g')"
  shows "g' = g"
proof (cases "check_attributes (Attributes (VolumeHeader fw)) a = EFI_SUCCESS")
  case True
  have "Attributes (VolumeHeader fw) AND EFI_FVB2_STATUS = a AND EFI_FVB2_STATUS"
    using True assms(2) by (auto simp: check_attributes_def has_attribute_def xor_zero Let_def split: if_splits)
  from keep_bits [OF this] have "g' = g[unat i := set_attributes (Attributes (VolumeHeader fw)) fw]"
    using True assms(1,3) by (auto simp: FvbSetVolumeAttributes_def Let_def)
  moreover have "set_attributes (Attributes (VolumeHeader fw)) fw = fw" by (simp add: set_attributes_def)
  ultimately show ?thesis using assms(1) by (auto simp: GetFvbInstance_def split: if_splits)
qed (use assms in \<open>simp add: FvbSetVolumeAttributes_def Let_def\<close>)

text \<open>The status bits the capabilities of a volume allow.\<close>

definition status_allowed :: "UINT32 \<Rightarrow> UINT32 \<Rightarrow> bool" where
  "status_allowed caps a \<longleftrightarrow>
     (if a AND EFI_FVB2_READ_STATUS = 0 then caps AND EFI_FVB2_READ_DISABLED_CAP \<noteq> 0 else caps AND EFI_FVB2_READ_ENABLED_CAP \<noteq> 0) \<and>
     (if a AND EFI_FVB2_WRITE_STATUS = 0 then caps AND EFI_FVB2_WRITE_DISABLED_CAP \<noteq> 0 else caps AND EFI_FVB2_WRITE_ENABLED_CAP \<noteq> 0) \<and>
     (a AND EFI_FVB2_LOCK_STATUS \<noteq> 0 \<longrightarrow> caps AND EFI_FVB2_LOCK_CAP \<noteq> 0)"

lemma and_sub: "(x AND m) AND n = x AND n" if "m AND n = n" for x m n :: UINT32
  using that by (metis and.assoc)

lemmas capability_bits = and_sub [of EFI_FVB2_CAPABILITIES EFI_FVB2_READ_DISABLED_CAP] and_sub [of EFI_FVB2_CAPABILITIES EFI_FVB2_READ_ENABLED_CAP]
  and_sub [of EFI_FVB2_CAPABILITIES EFI_FVB2_WRITE_DISABLED_CAP] and_sub [of EFI_FVB2_CAPABILITIES EFI_FVB2_WRITE_ENABLED_CAP]
  and_sub [of EFI_FVB2_CAPABILITIES EFI_FVB2_LOCK_CAP] and_sub [of EFI_FVB2_STATUS EFI_FVB2_READ_STATUS]
  and_sub [of EFI_FVB2_STATUS EFI_FVB2_WRITE_STATUS] and_sub [of EFI_FVB2_STATUS EFI_FVB2_LOCK_STATUS]

lemma check_success:
  "check_attributes old a = EFI_SUCCESS \<longleftrightarrow> old AND UnchangedAttributes = a AND UnchangedAttributes \<and>
     (old AND EFI_FVB2_LOCK_STATUS \<noteq> 0 \<longrightarrow> old AND EFI_FVB2_STATUS = a AND EFI_FVB2_STATUS) \<and> status_allowed old a"
proof -
  have b: "(x AND EFI_FVB2_CAPABILITIES) AND EFI_FVB2_READ_DISABLED_CAP = x AND EFI_FVB2_READ_DISABLED_CAP"
      "(x AND EFI_FVB2_CAPABILITIES) AND EFI_FVB2_READ_ENABLED_CAP = x AND EFI_FVB2_READ_ENABLED_CAP"
      "(x AND EFI_FVB2_CAPABILITIES) AND EFI_FVB2_WRITE_DISABLED_CAP = x AND EFI_FVB2_WRITE_DISABLED_CAP"
      "(x AND EFI_FVB2_CAPABILITIES) AND EFI_FVB2_WRITE_ENABLED_CAP = x AND EFI_FVB2_WRITE_ENABLED_CAP"
      "(x AND EFI_FVB2_CAPABILITIES) AND EFI_FVB2_LOCK_CAP = x AND EFI_FVB2_LOCK_CAP"
      "(x AND EFI_FVB2_STATUS) AND EFI_FVB2_READ_STATUS = x AND EFI_FVB2_READ_STATUS"
      "(x AND EFI_FVB2_STATUS) AND EFI_FVB2_WRITE_STATUS = x AND EFI_FVB2_WRITE_STATUS"
      "(x AND EFI_FVB2_STATUS) AND EFI_FVB2_LOCK_STATUS = x AND EFI_FVB2_LOCK_STATUS" for x :: UINT32
    by (rule and_sub, simp add: fvb2_defs)+
  show ?thesis unfolding check_attributes_def Let_def b xor_zero status_allowed_def by auto
qed

lemma set_spec:
  assumes g: "GetFvbInstance g i = Some fw" and s: "FvbSetVolumeAttributes g i a = Some (st, a', g')"
  shows "if check_attributes (Attributes (VolumeHeader fw)) a = EFI_SUCCESS then
      st = EFI_SUCCESS \<and> g' = g[unat i := set_attributes a' fw] \<and>
      a' AND NOT EFI_FVB2_STATUS = Attributes (VolumeHeader fw) AND NOT EFI_FVB2_STATUS \<and> a' AND EFI_FVB2_STATUS = a AND EFI_FVB2_STATUS
    else st = check_attributes (Attributes (VolumeHeader fw)) a \<and> g' = g \<and> a' = a"
proof -
  have m: "((x AND NOT m) OR (y AND m)) AND NOT m = x AND NOT m" "((x AND NOT m) OR (y AND m)) AND m = y AND m" for x y m :: UINT32
    by (auto intro!: bit_word_eqI simp: bit_and_iff bit_or_iff bit_not_iff)
  show ?thesis using assms m [of "Attributes (VolumeHeader fw)" EFI_FVB2_STATUS a] by (auto simp: FvbSetVolumeAttributes_def Let_def)
qed

section \<open>Sequences of calls\<close>

text \<open>
  A call of the protocol that returns.  A caller passes a buffer that holds the number of bytes it asks for; buffers do
  not fill the address space.
\<close>

definition buffer_fits :: "UINTN option \<Rightarrow> UINT8 list option \<Rightarrow> bool" where
  "buffer_fits NumBytes Buffer \<longleftrightarrow> (case (NumBytes, Buffer) of (Some n, Some b) \<Rightarrow> unat n \<le> length b \<and> length b \<le> 2 ^ 63 | _ \<Rightarrow> True)"

inductive fvb_step :: "'s SPI_DEVICE_PROTOCOL \<Rightarrow> fvb_instances \<times> 's \<Rightarrow> fvb_instances \<times> 's \<Rightarrow> bool" for D where
  step_read: "FvbProtocolRead D g This Lba off n b s = Some (st, n', b', s') \<Longrightarrow> buffer_fits n b \<Longrightarrow> fvb_step D (g, s) (g, s')"
| step_write: "FvbProtocolWrite D g This Lba off n b s = Some (st, n', s') \<Longrightarrow> buffer_fits n b \<Longrightarrow> fvb_step D (g, s) (g, s')"
| step_erase: "FvbProtocolEraseBlocks D g This args s = Some (st, s') \<Longrightarrow> fvb_step D (g, s) (g, s')"
| step_attributes: "FvbProtocolSetAttributes g This a = Some (st, a', g') \<Longrightarrow> fvb_step D (g, s) (g', s)"

inductive_cases fvb_stepE: "fvb_step D (g, s) (g', s')"

text \<open>
  The volumes of a flash may overlap, as the variable volume and the volumes of its fault tolerant write areas do; a
  volume is guarded when the other volumes are apart from it.
\<close>

definition fv_apart :: "EFI_FW_VOL_INSTANCE \<Rightarrow> EFI_FW_VOL_INSTANCE \<Rightarrow> bool" where
  "fv_apart v w \<longleftrightarrow> unat (FvFlashLinearAddress v) + fv_size v \<le> unat (FvFlashLinearAddress w) \<or>
     unat (FvFlashLinearAddress w) + fv_size w \<le> unat (FvFlashLinearAddress v)"

definition guarded :: "nat \<Rightarrow> nat \<Rightarrow> fvb_instances \<Rightarrow> bool" where
  "guarded fsize j g \<longleftrightarrow> j < length g \<and> (\<forall>i < length g. fv_ok fsize (g ! i) \<and> (i \<noteq> j \<longrightarrow> fv_apart (g ! j) (g ! i)))"

definition write_locked :: "EFI_FW_VOL_INSTANCE \<Rightarrow> bool" where
  "write_locked fw \<longleftrightarrow> has_attribute fw EFI_FVB2_LOCK_STATUS \<and> \<not> has_attribute fw EFI_FVB2_WRITE_STATUS"

definition fv_bytes :: "EFI_FW_VOL_INSTANCE \<Rightarrow> flash \<Rightarrow> UINT8 list" where
  "fv_bytes fw f = flash_bytes (unat (FvFlashLinearAddress fw)) (fv_size fw) f"

lemma fv_bytes_apart: "same_outside (unat (FvFlashLinearAddress w)) (fv_size w) f f' \<Longrightarrow> fv_apart v w \<Longrightarrow> fv_bytes v f' = fv_bytes v f"
  by (auto simp: fv_bytes_def fv_apart_def same_outside_def intro!: flash_bytes_cong)

lemma fv_ok_set [simp]: "fv_ok fsize (set_attributes a fw) = fv_ok fsize fw" "fv_size (set_attributes a fw) = fv_size fw"
    "FvFlashLinearAddress (set_attributes a fw) = FvFlashLinearAddress fw"
  by (simp_all add: fv_ok_def set_attributes_def fv_size_def fv_blocks_def)

lemma guarded_set: "guarded fsize j g \<Longrightarrow> guarded fsize j (g[i := set_attributes a (g ! i)])"
  by (cases "i < length g") (auto simp: guarded_def fv_apart_def nth_list_update)

lemma set_step:
  assumes "FvbSetVolumeAttributes g i a = Some (st, a', g')" "guarded fsize j g" "write_locked (g ! j)"
  shows "guarded fsize j g' \<and> length g' = length g \<and> g' ! j = g ! j"
proof -
  obtain fw where fw: "GetFvbInstance g i = Some fw" using assms(1) by (auto simp: FvbSetVolumeAttributes_def split: option.splits)
  then have i: "unat i < length g" "fw = g ! unat i" by (auto simp: GetFvbInstance_def split: if_splits)
  have "g' = g \<or> (\<exists>x. g' = g[unat i := set_attributes x fw])" using set_spec [OF fw assms(1)] by (auto split: if_splits)
  moreover have "write_locked fw \<Longrightarrow> g' = g" using set_locked [OF fw _ assms(1)] by (simp add: write_locked_def)
  ultimately show ?thesis using guarded_set [OF assms(2)] assms(2,3) i by (cases "write_locked fw") (auto simp: nth_list_update)
qed

context spi_device
begin

lemma write_inside:
  assumes "ready s" and g: "GetFvbInstance g inst = Some fw" and ok: "fv_ok fsize fw" and "buffer_fits NumBytes Buffer"
  shows "\<exists>st n' s'. FvbWriteBlock D g inst Lba off NumBytes Buffer s = Some (st, n', s') \<and> ready s' \<and>
    same_outside (unat (FvFlashLinearAddress fw)) (fv_size fw) (flash s) (flash s') \<and> (\<not> has_attribute fw EFI_FVB2_WRITE_STATUS \<longrightarrow> s' = s)"
proof (cases "\<exists>n b. NumBytes = Some n \<and> Buffer = Some b \<and> n \<noteq> 0")
  case True
  then obtain n b where nb: "NumBytes = Some n" "Buffer = Some b" "0 < n" "unat n \<le> length b" "length b \<le> 2 ^ 63"
    using assms(4) by (auto simp: buffer_fits_def word_gt_0)
  note W = write_block [OF assms(1) g ok nb(3-5), of Lba off]
  show ?thesis
  proof (cases "unat Lba < length (fv_blocks fw) \<and> has_attribute fw EFI_FVB2_WRITE_STATUS \<and> unat off \<le> fv_blocks fw ! unat Lba")
    case True
    let ?k = "min (unat n) (fv_blocks fw ! unat Lba - unat off)" and ?a = "block_address fw (unat Lba) + unat off"
    obtain st n' s' where w: "FvbWriteBlock D g inst Lba off (Some n) (Some b) s = Some (st, Some n', s')" "ready s'" "same_outside ?a ?k (flash s) (flash s')"
      using W True by auto
    have "same_outside (unat (FvFlashLinearAddress fw)) (fv_size fw) (flash s) (flash s')"
      by (rule same_outside_mono [OF w(3)]) (use block_inside [of "unat Lba" fw] True in auto)
    then show ?thesis using w nb True by simp
  qed (use W assms(1) nb in \<open>auto split: if_splits\<close>)
next
  case False
  then have "FvbWriteBlock D g inst Lba off NumBytes Buffer s = Some (EFI_INVALID_PARAMETER, NumBytes, s)"
    by (auto simp: FvbWriteBlock_def split: option.splits)
  then show ?thesis using assms(1) by simp
qed

lemma read_inside:
  assumes "ready s" and g: "GetFvbInstance g inst = Some fw" and ok: "fv_ok fsize fw" and "buffer_fits NumBytes Buffer"
  shows "\<exists>st n' b' s'. FvbReadBlock D g inst Lba off NumBytes Buffer s = Some (st, n', b', s') \<and> ready s' \<and> flash s' = flash s"
proof (cases "\<exists>n b. NumBytes = Some n \<and> Buffer = Some b \<and> n \<noteq> 0")
  case True
  then obtain n b where nb: "NumBytes = Some n" "Buffer = Some b" "0 < n" "unat n \<le> length b" "length b \<le> 2 ^ 63"
    using assms(4) by (auto simp: buffer_fits_def word_gt_0)
  show ?thesis using read_block [OF assms(1) g ok nb(3-5), of Lba off] nb(1,2) assms(1) by (auto split: if_splits)
next
  case False
  then have "FvbReadBlock D g inst Lba off NumBytes Buffer s = Some (EFI_INVALID_PARAMETER, NumBytes, Buffer, s)"
    by (auto simp: FvbReadBlock_def split: option.splits)
  then show ?thesis using assms(1) by simp
qed

lemma instance_ok:
  assumes "guarded fsize j g" "GetFvbInstance g i = Some fw"
  shows "unat i < length g" "fw = g ! unat i" "fv_ok fsize fw"
  using assms by (auto simp: GetFvbInstance_def guarded_def split: if_splits)

lemma change_apart:
  assumes "guarded fsize j g" "GetFvbInstance g i = Some fw" "write_locked (g ! j)"
    and "same_outside (unat (FvFlashLinearAddress fw)) (fv_size fw) (flash s) (flash s')" "\<not> has_attribute fw EFI_FVB2_WRITE_STATUS \<longrightarrow> s' = s"
  shows "fv_bytes (g ! j) (flash s') = fv_bytes (g ! j) (flash s)"
proof (cases "j = unat i")
  case True
  then show ?thesis using assms(3,5) instance_ok(2) [OF assms(1,2)] by (simp add: write_locked_def)
next
  case False
  then have "fv_apart (g ! j) fw" using assms(1) instance_ok(1,2) [OF assms(1,2)] by (simp add: guarded_def)
  then show ?thesis by (rule fv_bytes_apart [OF assms(4)])
qed

lemma step_keeps_locked:
  assumes "fvb_step D (g, s) (g', s')" "guarded fsize j g" "ready s" "write_locked (g ! j)"
  shows "guarded fsize j g' \<and> ready s' \<and> length g' = length g \<and> g' ! j = g ! j \<and> fv_bytes (g ! j) (flash s') = fv_bytes (g ! j) (flash s)"
  using assms(1)
proof (rule fvb_stepE)
  fix This Lba off n b st n' b'
  assume "g' = g" and r: "FvbProtocolRead D g This Lba off n b s = Some (st, n', b', s')" and f: "buffer_fits n b"
  show ?thesis
  proof (cases "GetFvbInstance g (Instance This)")
    case None
    then have "s' = s" using r by (auto simp: FvbProtocolRead_def FvbReadBlock_def FvbGetLbaAddress_def split: option.splits if_splits)
    then show ?thesis using \<open>g' = g\<close> assms by simp
  next
    case (Some fw)
    then show ?thesis using read_inside [OF assms(3) Some instance_ok(3) [OF assms(2) Some] f, of Lba off] r \<open>g' = g\<close> assms
      by (simp add: FvbProtocolRead_def)
  qed
next
  fix This Lba off n b st n'
  assume "g' = g" and w: "FvbProtocolWrite D g This Lba off n b s = Some (st, n', s')" and f: "buffer_fits n b"
  show ?thesis
  proof (cases "GetFvbInstance g (Instance This)")
    case None
    then have "s' = s" using w by (auto simp: FvbProtocolWrite_def FvbWriteBlock_def FvbGetLbaAddress_def split: option.splits if_splits)
    then show ?thesis using \<open>g' = g\<close> assms by simp
  next
    case (Some fw)
    then show ?thesis
      using write_inside [OF assms(3) Some instance_ok(3) [OF assms(2) Some] f, of Lba off] w \<open>g' = g\<close> assms change_apart [OF assms(2) Some assms(4)]
      by (simp add: FvbProtocolWrite_def)
  qed
next
  fix This args st
  assume "g' = g" and e: "FvbProtocolEraseBlocks D g This args s = Some (st, s')"
  then obtain fw where fw: "GetFvbInstance g (Instance This) = Some fw" by (auto simp: FvbProtocolEraseBlocks_def split: option.splits)
  show ?thesis
    using erase_blocks_inside [OF assms(3) fw instance_ok(3) [OF assms(2) fw], of args] e \<open>g' = g\<close> assms change_apart [OF assms(2) fw assms(4)]
    by simp
next
  fix This a st a'
  assume "s' = s" "FvbProtocolSetAttributes g This a = Some (st, a', g')"
  then show ?thesis using set_step [of g "Instance This" a st a' g' fsize j] assms by (simp add: FvbProtocolSetAttributes_def)
qed

lemma steps_keep_locked:
  assumes "(fvb_step D)\<^sup>*\<^sup>* (g, s) (g', s')" "guarded fsize j g" "ready s" "write_locked (g ! j)"
  shows "g' ! j = g ! j \<and> fv_bytes (g ! j) (flash s') = fv_bytes (g ! j) (flash s)"
proof -
  have "guarded fsize j g' \<and> ready s' \<and> length g' = length g \<and> g' ! j = g ! j \<and> fv_bytes (g ! j) (flash s') = fv_bytes (g ! j) (flash s)"
    using assms(1)
  proof (induction rule: rtranclp_induct2)
    case (step g1 s1 g2 s2)
    then show ?case using step_keeps_locked [OF step.hyps(2), of j] assms(4) by auto
  qed (use assms in simp)
  then show ?thesis by simp
qed

end

section \<open>Volumes after the initialization\<close>

definition lock_once :: "UINT32 \<Rightarrow> EFI_FW_VOL_INSTANCE \<Rightarrow> EFI_FW_VOL_INSTANCE" where
  "lock_once b fw = (if FvBase fw = ucast b
     then set_attributes ((Attributes (VolumeHeader fw) AND NOT EFI_FVB2_WRITE_STATUS) OR (EFI_FVB2_LOCK_STATUS OR EFI_FVB2_WRITE_LOCK_STATUS)) fw
     else fw)"

lemma FvBase_lock [simp]: "FvBase (lock_once b fw) = FvBase fw" "FvBase (fold lock_once bs fw) = FvBase fw"
  by (simp add: lock_once_def set_attributes_def) (induction bs arbitrary: fw, auto simp: lock_once_def set_attributes_def)

lemma or_and_cover: "(a OR b) AND c = c" if "b AND c = c" for a b c :: UINT32
proof (rule bit_word_eqI)
  fix n
  have "bit (b AND c) n = bit c n" using that by simp
  then show "bit ((a OR b) AND c) n = bit c n" by (auto simp: bit_and_iff bit_or_iff)
qed

lemma clear_and: "((x AND NOT m) OR b) AND m = 0" if "b AND m = 0" for x b m :: UINT32
  using that by (simp only: bit.conj_disj_distrib2 and.assoc bit.conj_cancel_left bit.conj_zero_right bit.disj_zero_right)

lemma lock_once_locks: "FvBase fw = ucast b \<or> write_locked fw \<Longrightarrow> write_locked (lock_once b fw)"
  using or_and_cover [of "EFI_FVB2_LOCK_STATUS OR EFI_FVB2_WRITE_LOCK_STATUS" EFI_FVB2_LOCK_STATUS]
    clear_and [of "EFI_FVB2_LOCK_STATUS OR EFI_FVB2_WRITE_LOCK_STATUS" EFI_FVB2_WRITE_STATUS]
  by (auto simp: lock_once_def write_locked_def has_attribute_def set_attributes_def)
    (simp_all add: fvb2_defs)

lemma fold_locks: "(\<exists>b \<in> set bs. FvBase fw = ucast b) \<or> write_locked fw \<Longrightarrow> write_locked (fold lock_once bs fw)"
proof (induction bs arbitrary: fw)
  case (Cons b bs)
  have "(\<exists>b \<in> set bs. FvBase (lock_once b fw) = ucast b) \<or> write_locked (lock_once b fw)"
    using Cons.prems lock_once_locks [of fw b] by auto
  then show ?case using Cons.IH [of "lock_once b fw"] by auto
qed simp

lemma lock_volume_locks:
  assumes "BootMode \<noteq> BOOT_IN_RECOVERY_MODE" "BootMode \<noteq> BOOT_ON_FLASH_UPDATE" "b \<in> set (platform_lock_list pcd)" "FvBase fw = ucast b"
  shows "write_locked (lock_volume pcd BootMode fw)"
  using fold_locks [of "platform_lock_list pcd" fw] assms by (auto simp: lock_volume_def lock_once_def [abs_def])

lemma FvBase_lock_volume [simp]: "FvBase (lock_volume pcd BootMode fw) = FvBase fw"
  using FvBase_lock(2) [of "platform_lock_list pcd" fw] by (auto simp: lock_volume_def lock_once_def [abs_def])

definition volumes_locked :: "fvb_pcds \<Rightarrow> fvb_instances \<Rightarrow> bool" where
  "volumes_locked pcd g \<longleftrightarrow> (\<forall>fw \<in> set g. \<forall>b \<in> set (platform_lock_list pcd). FvBase fw = ucast b \<longrightarrow> write_locked fw)"

lemma write_locked_NumOfBlocks [simp]: "write_locked (fw\<lparr>NumOfBlocks := N\<rparr>) = write_locked fw"
  by (simp add: write_locked_def has_attribute_def)

lemma add_volume_locked:
  assumes "add_volume V fw (g, s) = Some (g', s')" "volumes_locked pcd g"
    "\<forall>b \<in> set (platform_lock_list pcd). FvBase fw = ucast b \<longrightarrow> write_locked fw"
  shows "volumes_locked pcd g'"
proof -
  obtain N where "g' = g @ [fw\<lparr>NumOfBlocks := N\<rparr>]" using assms(1) by (auto simp: add_volume_def Let_def split: option.splits)
  then show ?thesis using assms(2,3) unfolding volumes_locked_def by simp
qed

lemma each_volume_inv:
  "each_volume f bs x = Some y \<Longrightarrow> P x \<Longrightarrow> (\<And>b x y. b \<in> set bs \<Longrightarrow> f b x = Some y \<Longrightarrow> P x \<Longrightarrow> P y) \<Longrightarrow> P y"
proof (induction bs arbitrary: x)
  case (Cons b bs)
  then obtain z where z: "f b x = Some z" "each_volume f bs z = Some y" by (auto split: option.splits)
  then have "P z" using Cons.prems by auto
  then show ?case using Cons.IH [OF z(2)] Cons.prems(3) by auto
qed simp

lemma init_volume_locked:
  assumes "BootMode \<noteq> BOOT_IN_RECOVERY_MODE" "BootMode \<noteq> BOOT_ON_FLASH_UPDATE"
    and "init_volume V pcd BootMode b gs = Some gs'" "volumes_locked pcd (fst gs)"
  shows "volumes_locked pcd (fst gs')"
proof -
  obtain g s g' s' where p: "gs = (g, s)" "gs' = (g', s')" by (metis surj_pair)
  show ?thesis
  proof (cases "gs' = gs")
    case False
    then obtain h s1 where "add_volume V (lock_volume pcd BootMode
        \<lparr>FvBase = ucast b, NumOfBlocks = 0, FvFlashLinearAddress = FLASH_LINEAR_ADDRESS pcd (ucast b), VolumeHeader = h\<rparr>) (g, s1) = Some (g', s')"
      using assms(3) p by (auto simp: init_volume_def split: if_splits option.splits)
    from add_volume_locked [OF this] show ?thesis using assms(4) p lock_volume_locks [OF assms(1,2)] by auto
  qed (use assms(4) in simp)
qed

text \<open>In a normal boot every volume of the lock list is write locked when the initialization has returned.\<close>

lemma FvbInitialize_locks:
  assumes "FvbInitialize V pcd BootMode s = Some (st, g, s')" and m: "BootMode \<noteq> BOOT_IN_RECOVERY_MODE" "BootMode \<noteq> BOOT_ON_FLASH_UPDATE"
    and ftw: "PcdFlashNvStorageFtwWorkingBase pcd \<notin> set (platform_lock_list pcd)" "PcdFlashNvStorageFtwSpareBase pcd \<notin> set (platform_lock_list pcd)"
  shows "volumes_locked pcd g"
proof -
  obtain gs where gs: "each_volume (init_volume V pcd BootMode) (platform_fvs pcd BootMode) ([], s) = Some gs"
    using assms(1) by (auto simp: FvbInitialize_def split: option.splits)
  have L: "volumes_locked pcd (fst gs)"
  proof (rule each_volume_inv [OF gs])
    show "volumes_locked pcd (fst ([], s))" by (simp add: volumes_locked_def)
  qed (rule init_volume_locked [OF m])
  have "volumes_locked pcd (fst y)" if "init_ftw V pcd b x = Some y" "volumes_locked pcd (fst x)"
      "b \<in> {PcdFlashNvStorageFtwWorkingBase pcd, PcdFlashNvStorageFtwSpareBase pcd}" for b x y
  proof -
    have "(ucast b :: UINT64) \<noteq> ucast c" if "c \<in> set (platform_lock_list pcd)" for c
      using that ftw \<open>b \<in> _\<close> by (metis insert_iff empty_iff unat_up word_unat_eq_iff)
    then show ?thesis using that(1,2) add_volume_locked [of V _ "fst x" "snd x" "fst y" "snd y" pcd]
      by (auto simp: init_ftw_def split: option.splits prod.splits EFI_STATUS.splits)
  qed
  then have "volumes_locked pcd (fst (g, s'))"
    using assms(1) gs L each_volume_inv [of "init_ftw V pcd" "[PcdFlashNvStorageFtwWorkingBase pcd, PcdFlashNvStorageFtwSpareBase pcd]" gs "(g, s')"
        "\<lambda>x. volumes_locked pcd (fst x)"]
    by (auto simp: FvbInitialize_def split: if_splits)
  then show ?thesis by simp
qed

section \<open>Headers in memory\<close>

lemma length_bytes [simp]: "length (bytes16 w) = 2" "length (bytes32 v) = 4" "length (bytes64 x) = 8" "length (entry_bytes e) = 8"
  by (simp_all add: bytes16_def bytes32_def bytes64_def entry_bytes_def)

lemma word16_bytes16 [simp]: "word16 (bytes16 w @ r) = w"
  by (rule bit_word_eqI) (auto simp: word16_def bytes16_def bit_or_iff bit_push_bit_iff bit_drop_bit_eq bit_ucast_iff)

lemma word32_bytes32 [simp]: "word32 (bytes32 w @ r) = w"
proof (rule bit_word_eqI)
  fix n assume "n < LENGTH(32)"
  then consider "n < 8" | "8 \<le> n" "n < 16" | "16 \<le> n" "n < 24" | "24 \<le> n" "n < 32" by fastforce
  then show "bit (word32 (bytes32 w @ r)) n = bit w n"
    by cases (auto simp: word32_def bytes32_def bit_or_iff bit_push_bit_iff bit_drop_bit_eq bit_ucast_iff)
qed

lemma word64_bytes64 [simp]: "word64 (bytes64 w @ r) = w"
proof -
  have "word32 (drop 4 (bytes64 w @ r)) = ucast (drop_bit 32 w)" "word32 (bytes64 w @ r) = ucast w" by (simp_all add: bytes64_def)
  then show ?thesis
    unfolding word64_def by (intro bit_word_eqI) (auto simp: bit_or_iff bit_push_bit_iff bit_drop_bit_eq bit_ucast_iff)
qed

lemma parse_entries_bytes: "parse_entries (length es) (concat (map entry_bytes es) @ r) = es"
  by (induction es) (simp_all add: entry_bytes_def)

lemma length_entries [simp]: "length (concat (map entry_bytes es)) = 8 * length es"
  by (induction es) simp_all

definition header_formed :: "EFI_FIRMWARE_VOLUME_HEADER \<Rightarrow> bool" where
  "header_formed h \<longleftrightarrow> length (ZeroVector h) = 16 \<and> length (FileSystemGuid h) = 16 \<and> unat (HeaderLength h) = 56 + 8 * length (BlockMap h)"

lemma parse_header_bytes:
  assumes "header_formed h" shows "parse_header (header_bytes h) = h"
proof -
  let ?e = "concat (map entry_bytes (BlockMap h))"
  have z: "length (ZeroVector h) = 16" "length (FileSystemGuid h) = 16" using assms by (simp_all add: header_formed_def)
  have "parse_entries (length (BlockMap h)) ?e = BlockMap h" using parse_entries_bytes [of "BlockMap h" "[]"] by simp
  then show ?thesis using z by (simp add: parse_header_def header_bytes_def nth_append)
qed

lemma mem_bytes_part:
  assumes "i + unat n \<le> unat k" "i < 2 ^ 64" shows "mem_bytes (a + of_nat i) n m = take (unat n) (drop i (mem_bytes a k m))"
  using assms by (intro nth_equalityI) (auto simp: mem_bytes_def add.assoc)

lemma unat_up16 [simp]: "unat (ucast (w :: UINT16) :: UINTN) = unat w"
  by (simp add: unsigned_ucast_eq take_bit_nat_def order.strict_trans [OF unsigned_less])

lemma header_at_bytes:
  assumes "header_formed h" and m: "mem_bytes a (ucast (HeaderLength h)) m = header_bytes h"
  shows "header_at m a = h"
proof -
  have n: "unat (ucast (HeaderLength h) :: UINTN) = unat (HeaderLength h)" "56 \<le> unat (HeaderLength h)"
    using assms(1) by (simp_all add: header_formed_def)
  then have "mem_bytes (a + 48) 2 m = take 2 (drop 48 (header_bytes h))" using mem_bytes_part [of 48 2 "ucast (HeaderLength h)" a m] m by simp
  also have "\<dots> = bytes16 (HeaderLength h)" using assms(1) by (simp add: header_bytes_def header_formed_def)
  finally have "header_length_at m a = HeaderLength h" using word16_bytes16 [of "HeaderLength h" "[]"] by (simp add: header_length_at_def)
  moreover have "max 56 (ucast (HeaderLength h) :: UINTN) = ucast (HeaderLength h)" using n by (simp add: max_def word_le_nat_alt)
  ultimately show ?thesis using m parse_header_bytes [OF assms(1)] by (simp add: header_at_def)
qed

lemma words16_bytes16 [simp]: "words16 (bytes16 w @ r) = w # words16 r"
  using word16_bytes16 [of w "[]"] by (simp add: bytes16_def)

lemma bytes32_split: "bytes32 w = bytes16 (ucast w) @ bytes16 (ucast (drop_bit 16 w))"
  by (simp add: bytes32_def bytes16_def) (auto intro!: bit_word_eqI simp: bit_ucast_iff bit_drop_bit_eq)

lemma words16_bytes32 [simp]: "words16 (bytes32 w @ r) = ucast w # ucast (drop_bit 16 w) # words16 r"
  by (simp add: bytes32_split)

lemma words16_append: "even (length a) \<Longrightarrow> words16 (a @ b) = words16 a @ words16 b"
  by (induction a rule: words16.induct) auto

lemma length_words16: "length (words16 b) = length b div 2"
  by (induction b rule: words16.induct) auto

lemma CalculateSum16_sum: "CalculateSum16 b n = sum_list (take (unat (n div 2)) b)"
proof -
  have "fold (\<lambda>x Sum. Sum + x) xs a = a + sum_list xs" for xs and a :: UINT16
    by (induction xs arbitrary: a) (simp_all add: add.assoc)
  then show ?thesis by (simp add: CalculateSum16_def)
qed

lemma media_words:
  fixes pcd ext sz
  assumes "length guid = 16"
  defines "h \<equiv> media_info pcd guid ext sz" and "bl \<equiv> PcdFlashMinEraseSize pcd"
  shows "words16 (header_bytes (h\<lparr>Checksum := c\<rparr>)) =
    (replicate 8 0 @ words16 guid @ [ucast sz, ucast (drop_bit 16 sz)]) @
    [0, 0, 0x465F, 0x4856, 0xFEFF, 4, 72, c, ext, 0x200, ucast (sz div bl), ucast (drop_bit 16 (sz div bl)), ucast bl, ucast (drop_bit 16 bl), 0, 0, 0, 0]"
proof -
  have z: "words16 (replicate 16 0 @ r) = replicate 8 0 @ words16 r" for r
    by (simp add: numeral_eq_Suc word16_def)
  have e: "words16 ([0, 2] @ r) = 0x200 # words16 r" "words16 (bytes32 0) = [0, 0]" for r
    by (simp_all add: word16_def bytes32_def)
  have "drop_bit 32 (ucast sz :: UINT64) = 0" by (simp add: word_unat_eq_iff unat_of_drop_bit)
  then have u: "ucast (drop_bit 32 (ucast sz :: UINT64)) = (0 :: UINT32)" "ucast (ucast sz :: UINT64) = sz"
    by (simp_all add: word_unat_eq_iff unat_down)
  have k: "ucast (0x4856465F :: UINT32) = (0x465F :: UINT16)" "ucast (drop_bit 16 (0x4856465F :: UINT32)) = (0x4856 :: UINT16)"
      "ucast (0x4FEFF :: UINT32) = (0xFEFF :: UINT16)" "ucast (drop_bit 16 (0x4FEFF :: UINT32)) = (4 :: UINT16)"
    by simp_all
  show ?thesis unfolding h_def media_info_def bl_def header_bytes_def EFI_FVH_SIGNATURE_def
    using assms(1) e by (simp add: z words16_append entry_bytes_def bytes64_def u)
qed

text \<open>
  The checksum of a restored header is taken over the first 36 bytes only, so the whole header sums up to what the other
  words sum up to.
\<close>

lemma restored_sum:
  fixes pcd ext sz
  assumes "length guid = 16"
  defines "bl \<equiv> PcdFlashMinEraseSize pcd"
  shows "CalculateSum16 (words16 (header_bytes (with_checksum (media_info pcd guid ext sz)))) 72 =
    0x9000 + ext + ucast (sz div bl) + ucast (drop_bit 16 (sz div bl)) + ucast bl + ucast (drop_bit 16 bl)"
proof -
  let ?f = "replicate 8 0 @ words16 guid @ [ucast sz, ucast (drop_bit 16 sz)]"
  let ?h = "media_info pcd guid ext sz"
  have g: "length (words16 guid) = 8" using assms(1) by (simp add: length_words16)
  have l: "length ?f = 18" using assms(1) by (simp add: length_words16)
  have n: "unat ((72 :: UINTN) div 2) = 36" "unat ((36 :: UINTN) div 2) = 18" "ucast (72 :: UINT16) div 2 = (36 :: UINTN)"
    by (simp_all add: unat_div)
  have "?h = ?h\<lparr>Checksum := 0\<rparr>" by (simp add: media_info_def)
  then have "words16 (header_bytes ?h) = words16 (header_bytes (?h\<lparr>Checksum := 0\<rparr>))" by (rule arg_cong)
  then have "CalculateSum16 (words16 (header_bytes ?h)) 36 = sum_list ?f"
    unfolding CalculateSum16_sum n media_words [OF assms(1)] by (simp add: g)
  then have c: "with_checksum ?h = ?h\<lparr>Checksum := - sum_list ?f\<rparr>"
    unfolding with_checksum_def CalculateCheckSum16_def by (simp add: media_info_def n)
  have w: "(0x19000 :: UINT16) = 0x9000" by code_simp
  have "CalculateSum16 (words16 (header_bytes (with_checksum ?h))) 72 =
      0x19000 + (ext + ucast (sz div bl) + ucast (drop_bit 16 (sz div bl)) + ucast bl + ucast (drop_bit 16 bl))"
    unfolding CalculateSum16_sum n c media_words [OF assms(1)] bl_def using l g by (simp add: add_ac)
  then show ?thesis unfolding w by (simp only: add_ac)
qed

end
