(* ===== verification/FvbProperties.thy ===== *)
theory FvbProperties
  imports FvbService
begin

text \<open>
  The properties of the firmware volume block driver, with the flash layout of the platform and an ideal flash device as
  the instances their witnesses use, and the lemmas on the initialization that need both.
\<close>

section \<open>Properties\<close>

text \<open>The flash layout of \<^verbatim>\<open>PlatformPkg.fdf\<close>, and the records of its main and its variable volume.\<close>

definition braswell_layout :: fvb_pcds where
  "braswell_layout =
    \<lparr>FlashAreaBaseAddress = 0xFF800000, PcdFlashMinEraseSize = 0x1000, PcdFlashFvMainBase = 0xFFC83000, PcdFlashFvMainSize = 0x200000,
     NvStorageVariableBase = 0xFFC00000, PcdFlashNvStorageVariableSize = 0x2E000, PcdFlashFvRecoveryBase = 0xFFFCE000,
     PcdFlashFvRecoverySize = 0x32000, PcdFlashFvRecovery2Base = 0xFFE83000, PcdFlashFvRecovery2Size = 0x35000,
     PcdFlashPayloadBase = 0xFFED0000, PcdFlashPayloadSize = 0x3F000, PcdFlashNvStorageFtwWorkingBase = 0xFFC2E000,
     PcdFlashNvStorageFtwWorkingSize = 0x2000, PcdFlashNvStorageFtwSpareBase = 0xFFC30000, PcdFlashNvStorageFtwSpareSize = 0x30000\<rparr>"

definition layout_volume :: "UINT64 \<Rightarrow> UINT8 list \<Rightarrow> UINT32 \<Rightarrow> EFI_FW_VOL_INSTANCE" where
  "layout_volume Base guid sz = \<lparr>FvBase = Base, NumOfBlocks = ucast (sz div 0x1000), FvFlashLinearAddress = FLASH_LINEAR_ADDRESS braswell_layout Base,
     VolumeHeader = media_info braswell_layout guid 0 sz\<rparr>"

definition main_volume :: EFI_FW_VOL_INSTANCE where
  "main_volume = lock_volume braswell_layout 0 (layout_volume 0xFFC83000 gEfiFirmwareFileSystem2Guid 0x200000)"

definition nv_volume :: EFI_FW_VOL_INSTANCE where
  "nv_volume = layout_volume 0xFFC00000 gEfiSystemNvDataFvGuid 0x2E000"

definition layout_volumes :: fvb_instances where
  "layout_volumes = [main_volume, nv_volume]"

lemma main_volume: "main_volume = set_attributes 0x4FEDF (layout_volume 0xFFC83000 gEfiFirmwareFileSystem2Guid 0x200000)"
  by (simp add: main_volume_def lock_volume_def platform_lock_list_def braswell_layout_def layout_volume_def set_attributes_def media_info_def fvb2_defs
      BOOT_IN_RECOVERY_MODE_def BOOT_ON_FLASH_UPDATE_def)

lemma layout_blocks: "fv_blocks nv_volume = replicate 46 4096" "fv_blocks main_volume = replicate 512 4096"
  by (simp_all add: fv_blocks_def main_volume set_attributes_def nv_volume_def layout_volume_def media_info_def braswell_layout_def unat_div)

lemma layout_base: "unat (FvFlashLinearAddress nv_volume) = 0x400000" "unat (FvFlashLinearAddress main_volume) = 0x483000"
  by (simp_all add: main_volume nv_volume_def layout_volume_def FLASH_LINEAR_ADDRESS_def braswell_layout_def)

lemma layout_fv_ok: "fv_ok 0x800000 nv_volume" "fv_ok 0x800000 main_volume"
  by (simp_all add: fv_ok_def main_volume set_attributes_def nv_volume_def layout_volume_def media_info_def braswell_layout_def FLASH_LINEAR_ADDRESS_def
      map_ok_def sum_list_replicate list_all_iff unat_div Let_def)

lemma layout_attributes: "has_attribute nv_volume EFI_FVB2_WRITE_STATUS" "has_attribute nv_volume EFI_FVB2_READ_STATUS" "write_locked main_volume"
  by (simp_all add: write_locked_def main_volume nv_volume_def layout_volume_def media_info_def has_attribute_def set_attributes_def fvb2_defs)

lemma layout_guarded: "guarded 0x800000 0 layout_volumes"
  by (auto simp: guarded_def layout_volumes_def layout_fv_ok less_Suc_eq fv_apart_def fv_size_def layout_blocks layout_base sum_list_replicate)

lemma layout_instances: "GetFvbInstance layout_volumes 0 = Some main_volume" "GetFvbInstance layout_volumes 1 = Some nv_volume"
  by (simp_all add: GetFvbInstance_def layout_volumes_def)

lemma layout_address: "i \<le> 46 \<Longrightarrow> block_address nv_volume i = 0x400000 + i * 4096"
  by (simp add: block_address_def block_offset_def layout_base layout_blocks [unfolded fv_blocks_def] sum_list_replicate)

lemmas layout_facts = layout_blocks layout_base layout_attributes layout_address

abbreviation ideal_flash_device :: "flash SPI_DEVICE_PROTOCOL" where
  "ideal_flash_device \<equiv> mSpiDevProtocol ideal_driver"

lemmas ideal_device = ideal_dev.dev.spi_device_axioms

text \<open>
  FvbGetLbaAddress.  For a well-formed volume the search in the block map finds exactly the blocks the map denotes: the
  flash address of a block is that of the volume plus the lengths of the blocks before it, and the number of blocks that is
  returned counts blocks of the same length that follow; every other block number is EFI_INVALID_PARAMETER.
\<close>
theorem FvbGetLbaAddress_blocks:
  assumes "GetFvbInstance g Inst = Some fw" "fv_ok fsize fw" "fsize \<le> 2 ^ 27"
  shows "if unat Lba < length (fv_blocks fw) then \<exists>lba. FvbGetLbaAddress g Inst Lba = Some (Some lba) \<and>
      unat (FlashLinearAddress lba) = unat (FvFlashLinearAddress fw) + sum_list (take (unat Lba) (fv_blocks fw)) \<and>
      unat (LbaLength lba) = fv_blocks fw ! unat Lba \<and>
      0 < unat (LbaNumOfBlocks lba) \<and> unat Lba + unat (LbaNumOfBlocks lba) \<le> length (fv_blocks fw) \<and>
      (\<forall>j < unat (LbaNumOfBlocks lba). fv_blocks fw ! (unat Lba + j) = unat (LbaLength lba)) \<and>
      LbaAddress lba - FlashLinearAddress lba = FvBase fw - FvFlashLinearAddress fw
    else FvbGetLbaAddress g Inst Lba = Some None"
  using lba_address [OF assms, of Lba] unfolding block_address_def block_offset_def fv_blocks_def by blast

theorem FvbGetLbaAddress_blocks_witness:
  "(\<exists>lba. FvbGetLbaAddress layout_volumes 1 5 = Some (Some lba) \<and> unat (FlashLinearAddress lba) = 0x405000 \<and> unat (LbaLength lba) = 4096) \<and>
   FvbGetLbaAddress layout_volumes 1 46 = Some None"
  using FvbGetLbaAddress_blocks [OF layout_instances(2) layout_fv_ok(1), of 5] FvbGetLbaAddress_blocks [OF layout_instances(2) layout_fv_ok(1), of 46]
  by (auto simp: layout_facts sum_list_replicate)



text \<open>
  Data that is written into an erased block is read back: unless the erase or the write reports EFI_DEVICE_ERROR, a read
  of the range returns the bytes that were written, if the processor can read it without a command.
\<close>
theorem Fvb_erase_write_read:
  assumes "spi_device D flash ready fsize readable" "ready s" "GetFvbInstance g Inst = Some fw" "fv_ok fsize fw"
    and n: "0 < n" "unat n = length b" "unat Lba < length (fv_blocks fw)" "unat off + unat n \<le> fv_blocks fw ! unat Lba"
    and a: "has_attribute fw EFI_FVB2_READ_STATUS" "has_attribute fw EFI_FVB2_WRITE_STATUS"
      "\<And>s. readable s (block_address fw (unat Lba) + unat off) (unat n)"
  shows "\<exists>st1 s1 st2 n2 s2. FvbEraseBlock D g Inst Lba s = Some (st1, s1) \<and> FvbWriteBlock D g Inst Lba off (Some n) (Some b) s1 = Some (st2, n2, s2) \<and>
    (st1 = EFI_DEVICE_ERROR \<or> st2 = EFI_DEVICE_ERROR \<or>
     FvbReadBlock D g Inst Lba off (Some n) (Some (replicate (unat n) 0)) s2 = Some (EFI_SUCCESS, Some n, Some b, s2))"
proof -
  let ?A = "block_address fw (unat Lba)" and ?L = "fv_blocks fw ! unat Lba" and ?a = "block_address fw (unat Lba) + unat off"
  obtain st1 s1 where 1: "FvbEraseBlock D g Inst Lba s = Some (st1, s1)" "ready s1" "st1 = EFI_DEVICE_ERROR \<or> flash s1 = erased ?A ?L (flash s)"
    using spi_device.erase_block [OF assms(1-4), of Lba] n(3) a by auto
  have b: "unat n \<le> length b" "length b \<le> 2 ^ 63" using block_in_volume(2) [OF assms(4) n(3)] n(2,4) by auto
  have k: "min (unat n) (?L - unat off) = unat n" "\<not> ?L < unat off" using n(4) by auto
  obtain st2 n2 s2 where 2: "FvbWriteBlock D g Inst Lba off (Some n) (Some b) s1 = Some (st2, n2, s2)" "ready s2"
      "st2 = EFI_DEVICE_ERROR \<or> flash s2 = programmed ?a b (flash s1)"
    using spi_device.write_block [OF assms(1) 1(2) assms(3,4) n(1) b, of Lba off] n(2,3) a k by auto
  have "FvbReadBlock D g Inst Lba off (Some n) (Some (replicate (unat n) 0)) s2 = Some (EFI_SUCCESS, Some n, Some b, s2)"
    if ok: "st1 \<noteq> EFI_DEVICE_ERROR" "st2 \<noteq> EFI_DEVICE_ERROR"
  proof -
    have d: "flash_bytes ?a (unat n) (flash s2) = b" using 1(3) 2(3) ok n(2,4) flash_bytes_written [of "unat off" b ?L ?A "flash s"] by simp
    obtain n1 where "FvbReadBlock D g Inst Lba off (Some n) (Some (replicate (unat n) 0)) s2 = Some (EFI_SUCCESS, Some n1, Some b, s2)" "unat n1 = unat n"
      using spi_device.read_block [OF assms(1) 2(2) assms(3,4) n(1), of "replicate (unat n) 0" Lba off] b n(2,3) a k d by (auto simp: not_le)
    then show ?thesis by (metis unsigned_word_eqI)
  qed
  then show ?thesis using 1(1) 2(1) by blast
qed

lemma ideal_readable: "0x400000 \<le> a \<Longrightarrow> a + n \<le> 0x800000 \<Longrightarrow> 0 < n \<Longrightarrow> ideal_dev.readable s a n"
  unfolding ideal_dev.readable_def
  by (simp add: ideal_driver_def ReadUsingMmio_Smm_def BIOS_REGION_FLASH_OFFSET_def braswell_pcds_def word_le_nat_alt
      word_less_nat_alt unat_of_nat)

theorem Fvb_erase_write_read_witness:
  "\<exists>st1 s1 st2 n2 s2. FvbEraseBlock ideal_flash_device layout_volumes 1 3 (\<lambda>_. 7) = Some (st1, s1) \<and>
    FvbWriteBlock ideal_flash_device layout_volumes 1 3 0x10 (Some 2) (Some [0xAB, 0xCD]) s1 = Some (st2, n2, s2) \<and>
    (st1 = EFI_DEVICE_ERROR \<or> st2 = EFI_DEVICE_ERROR \<or>
     FvbReadBlock ideal_flash_device layout_volumes 1 3 0x10 (Some 2) (Some (replicate 2 0)) s2 = Some (EFI_SUCCESS, Some 2, Some [0xAB, 0xCD], s2))"
  using Fvb_erase_write_read [OF ideal_device _ layout_instances(2) layout_fv_ok(1), where n = 2 and b = "[0xAB, 0xCD]" and Lba = 3 and off = "0x10"
      and s = "\<lambda>_. 7"]
  by (simp add: layout_facts ideal_readable)


definition nv_device :: EFI_FW_VOL_BLOCK_DEVICE where
  "nv_device = \<lparr>Instance = 1, DevicePath = MemMapDevPath 0xFFC00000 0xFFC2DFFF\<rparr>"

lemma nv_instance: "GetFvbInstance layout_volumes (Instance nv_device) = Some nv_volume"
  by (simp add: nv_device_def layout_instances)


text \<open>C30. 
  The check of the ranges adds the block number and the count modulo 2^64.  A range that starts at block
  0xFFFFFFFFFFFFFFFE and has three blocks passes it on every volume, so a call that names such a range is not rejected
  before the first block of the list is erased: it returns EFI_INVALID_PARAMETER, or EFI_DEVICE_ERROR, after the erase.
\<close>
theorem FvbProtocolEraseBlocks_partial:
  assumes "spi_device D flash ready fsize readable" "ready s" "GetFvbInstance g (Instance This) = Some fw" "fv_ok fsize fw"
    "has_attribute fw EFI_FVB2_WRITE_STATUS" "fv_blocks fw \<noteq> []"
  shows "\<exists>st s'. FvbProtocolEraseBlocks D g This [(0, 1), (0xFFFFFFFFFFFFFFFE, 3)] s = Some (st, s') \<and>
    (st = EFI_DEVICE_ERROR \<or> st = EFI_INVALID_PARAMETER \<and> flash s' = erased (block_address fw 0) (fv_blocks fw ! 0) (flash s))"
proof -
  have N: "unat (NumOfBlocks fw) = length (fv_blocks fw)" using assms(4) by (simp add: fv_ok_def fv_blocks_def Let_def)
  then have c: "check_lbas (NumOfBlocks fw) [(0, 1), (0xFFFFFFFFFFFFFFFE, 3)]"
    using assms(6) by (auto simp: EFI_LBA_LIST_TERMINATOR_def word_less_nat_alt length_greater_0_conv [symmetric] simp del: length_greater_0_conv)
  have z: "length (fv_blocks fw) \<le> unat (0xFFFFFFFFFFFFFFFE :: UINT64)"
    using few_blocks [of "BlockMap (VolumeHeader fw)"] assms(4) by (simp add: fv_ok_def fv_blocks_def Let_def)
  obtain st s1 where e: "FvbEraseBlock D g (Instance This) 0 s = Some (st, s1)" "ready s1"
      "st = EFI_DEVICE_ERROR \<or> st = EFI_SUCCESS \<and> flash s1 = erased (block_address fw 0) (fv_blocks fw ! 0) (flash s)"
    using spi_device.erase_block [OF assms(1-4), of 0] assms(5,6) by auto
  have "FvbEraseBlock D g (Instance This) 0xFFFFFFFFFFFFFFFE s1 = Some (EFI_INVALID_PARAMETER, s1)"
    using spi_device.erase_block [OF assms(1) e(2) assms(3,4), of "0xFFFFFFFFFFFFFFFE"] assms(5) z by simp
  then have "erase_lba_range (Suc 2) D g (Instance This) 0xFFFFFFFFFFFFFFFE s1 = Some (EFI_INVALID_PARAMETER, s1)"
    unfolding erase_lba_range.simps by simp
  then have "erase_lba_range 3 D g (Instance This) 0xFFFFFFFFFFFFFFFE s1 = Some (EFI_INVALID_PARAMETER, s1)"
    by (simp only: numeral_3_eq_3 numeral_2_eq_2)
  then show ?thesis using assms(3,5) c e by (auto simp: FvbProtocolEraseBlocks_def has_attribute_def EFI_LBA_LIST_TERMINATOR_def simp del: check_lbas.simps)
qed

theorem FvbProtocolEraseBlocks_partial_witness:
  "\<exists>st f. FvbProtocolEraseBlocks ideal_flash_device layout_volumes nv_device [(0, 1), (0xFFFFFFFFFFFFFFFE, 3)] (\<lambda>_. 7) = Some (st, f) \<and>
    (st = EFI_DEVICE_ERROR \<or> st = EFI_INVALID_PARAMETER \<and> f = erased 0x400000 4096 (\<lambda>_. 7))"
  using FvbProtocolEraseBlocks_partial [OF ideal_device TrueI nv_instance layout_fv_ok(1), where s = "\<lambda>_. 7"] by (simp add: layout_facts)

text \<open>C24. 
  FvbSetVolumeAttributes.  A request succeeds exactly when it repeats the read-only attributes, does not change the status
  of a locked volume and asks for nothing the capabilities exclude; it then changes the three status bits of this volume
  to the requested ones and nothing else.  Every other request changes nothing.
\<close>
theorem FvbSetVolumeAttributes_status:
  assumes "GetFvbInstance g Inst = Some fw"
  defines "old \<equiv> Attributes (VolumeHeader fw)"
  shows "if old AND UnchangedAttributes = a AND UnchangedAttributes \<and>
       (old AND EFI_FVB2_LOCK_STATUS = 0 \<or> old AND EFI_FVB2_STATUS = a AND EFI_FVB2_STATUS) \<and> status_allowed old a
     then \<exists>new. FvbSetVolumeAttributes g Inst a = Some (EFI_SUCCESS, new, g[unat Inst := set_attributes new fw]) \<and>
       new AND EFI_FVB2_STATUS = a AND EFI_FVB2_STATUS \<and> new AND NOT EFI_FVB2_STATUS = old AND NOT EFI_FVB2_STATUS
     else \<exists>st. FvbSetVolumeAttributes g Inst a = Some (st, a, g) \<and> st \<in> {EFI_INVALID_PARAMETER, EFI_ACCESS_DENIED}"
proof -
  have "FvbSetVolumeAttributes g Inst a \<noteq> None" using assms(1) by (simp add: FvbSetVolumeAttributes_def Let_def)
  then obtain st a' g' where r: "FvbSetVolumeAttributes g Inst a = Some (st, a', g')" by auto
  have "check_attributes old a \<in> {EFI_SUCCESS, EFI_INVALID_PARAMETER, EFI_ACCESS_DENIED}" by (simp add: check_attributes_def Let_def)
  then show ?thesis using set_spec [OF assms(1) r] check_success [of old a] r unfolding old_def by auto
qed

lemma nv_attributes: "Attributes (VolumeHeader nv_volume) = 0x4FEFF"
  by (simp add: nv_volume_def layout_volume_def media_info_def)

theorem FvbSetVolumeAttributes_status_witness:
  "\<exists>new. FvbSetVolumeAttributes layout_volumes 1 0x4FEFF = Some (EFI_SUCCESS, new, layout_volumes[unat (1 :: UINTN) := set_attributes new nv_volume]) \<and>
     new AND EFI_FVB2_STATUS = 0x4FEFF AND EFI_FVB2_STATUS"
  using FvbSetVolumeAttributes_status [OF layout_instances(2), of "0x4FEFF"] unfolding nv_attributes
  by (simp add: status_allowed_def UnchangedAttributes_def fvb2_defs) blast



text \<open>C21. 
  FvbInitialize.  In every boot mode but recovery and flash update, each volume of the lock list is write locked when the
  initialization has returned, whether its header was intact or had to be restored, and whatever its attributes were.
\<close>
theorem FvbInitialize_locks_volumes:
  assumes "FvbInitialize V pcd BootMode s = Some (st, g, s')" "BootMode \<notin> {BOOT_IN_RECOVERY_MODE, BOOT_ON_FLASH_UPDATE}"
    and "PcdFlashNvStorageFtwWorkingBase pcd \<notin> set (platform_lock_list pcd)" "PcdFlashNvStorageFtwSpareBase pcd \<notin> set (platform_lock_list pcd)"
    and "fw \<in> set g" "b \<in> set (platform_lock_list pcd)" "FvBase fw = ucast b"
  shows "write_locked fw"
  using FvbInitialize_locks [OF assms(1) _ _ assms(3,4)] assms(2,5-7) by (auto simp: volumes_locked_def)


definition memory_of :: "UINT64 \<Rightarrow> UINT8 list \<Rightarrow> memory" where
  "memory_of a b = (\<lambda>x. if unat (x - a) < length b then b ! unat (x - a) else 0xFF)"

lemma mem_bytes_memory_of: "length b < 2 ^ 64 \<Longrightarrow> mem_bytes a (of_nat (length b)) (memory_of a b) = b"
  by (intro nth_equalityI) (auto simp: mem_bytes_def memory_of_def unat_of_nat)


text \<open>Services over the ideal flash device, with the flash mapped below 4 GB.\<close>

definition ideal_services :: "flash fvb_services" where
  "ideal_services = \<lparr>mSpiDeviceProtocol = ideal_flash_device, MappedMemory = (\<lambda>f a. f (unat (a - 0xFF800000))),
     SmmInstall = (\<lambda>h i f. (EFI_SUCCESS, 1, f)), BsInstall = (\<lambda>h i f. (EFI_SUCCESS, 1, f))\<rparr>"

lemma erased_header_invalid:
  assumes "m (Base + 16) \<notin> {0x78, 0x8D}" shows "\<not> IsFvHeaderValid pcd Base m"
proof -
  let ?k = "max 56 (ucast (header_length_at m Base)) :: UINTN"
  have "unat ?k \<ge> 56" by (simp add: max_def word_le_nat_alt)
  then have "FileSystemGuid (header_at m Base) ! 0 \<notin> {0x78, 0x8D}" using assms by (simp add: header_at_def parse_header_def mem_bytes_def)
  then have "FileSystemGuid (header_at m Base) \<noteq> gEfiSystemNvDataFvGuid" "FileSystemGuid (header_at m Base) \<noteq> gEfiFirmwareFileSystem2Guid"
    by (auto simp: gEfiSystemNvDataFvGuid_def gEfiFirmwareFileSystem2Guid_def)
  then show ?thesis unfolding IsFvHeaderValid_def Let_def by presburger
qed

context spi_device
begin

lemma write_back:
  assumes "ready s" "mSpiDeviceProtocol V = D" "Length (BlockMap h ! 0) = 0x1000" "HeaderLength h = 72" "length (header_bytes h) = 72"
    and a: "unat Addr mod 4096 = 0" "unat Addr + 4096 \<le> fsize"
  shows "\<exists>s'. write_back_header V Addr h s = Some s' \<and> ready s' \<and> same_outside (unat Addr) 4096 (flash s) (flash s')"
proof -
  obtain st s1 where e: "DevErase D Addr 0x1000 s = Some (st, s1)" "ready s1" "same_outside (unat Addr) 4096 (flash s) (flash s1)"
    using dev_erase [OF assms(1), of "0x1000" Addr] a by auto
  obtain st2 s2 where w: "DevWrite D Addr (Some 72) (Some (header_bytes h)) s1 = (st2, s2)" by (meson surj_pair)
  have W: "ready s2" "same_outside (unat Addr) 72 (flash s1) (flash s2)"
    using dev_write [OF e(2), of Addr 72 "header_bytes h" st2 s2] a(2) w assms(5) by auto
  have "same_outside (unat Addr) 4096 (flash s) (flash s2)"
    using same_outside_trans [OF e(3)] same_outside_mono [OF W(2)] by simp
  moreover have "write_back_header V Addr h s = Some s2"
    using e(1) w assms(2-4) by (simp add: write_back_header_def)
  ultimately show ?thesis using W by blast
qed

end

lemma media_length: "length guid = 16 \<Longrightarrow> length (header_bytes (with_checksum (media_info pcd guid ext sz))) = 72"
    "HeaderLength (with_checksum (media_info pcd guid ext sz)) = 72"
    "BlockMap (with_checksum (media_info pcd guid ext sz)) = BlockMap (media_info pcd guid ext sz)"
  by (simp_all add: header_bytes_def with_checksum_def media_info_def)

lemma GetFvbInfo_media:
  assumes "GetFvbInfo pcd Base = Some (EFI_SUCCESS, Some h)"
  shows "\<exists>guid ext sz. h = with_checksum (media_info pcd guid ext sz) \<and> length guid = 16 \<and> ext \<in> {0, 0x60} \<and>
    sz \<in> {PcdFlashFvMainSize pcd, PcdFlashNvStorageVariableSize pcd, PcdFlashFvRecoverySize pcd, PcdFlashFvRecovery2Size pcd, PcdFlashPayloadSize pcd}"
proof -
  obtain b sz k where f: "find (\<lambda>(b, _). ucast b = Base) (mPlatformFvbMediaInfo pcd) = Some (b, sz, k)" and h: "h = with_checksum k"
    using assms by (auto simp: GetFvbInfo_def find_info_def split: if_splits option.splits)
  have "(b, sz, k) \<in> set (mPlatformFvbMediaInfo pcd)" using f unfolding find_Some_iff by (metis nth_mem)
  then obtain guid ext where "k = media_info pcd guid ext sz" "guid \<in> {gEfiSystemNvDataFvGuid, gEfiFirmwareFileSystem2Guid}" "ext \<in> {0, 0x60}"
      "sz \<in> {PcdFlashFvMainSize pcd, PcdFlashNvStorageVariableSize pcd, PcdFlashFvRecoverySize pcd, PcdFlashFvRecovery2Size pcd, PcdFlashPayloadSize pcd}"
    unfolding mPlatformFvbMediaInfo_def by auto
  moreover from this(2) have "length guid = 16" by (auto simp: gEfiSystemNvDataFvGuid_def gEfiFirmwareFileSystem2Guid_def)
  ultimately show ?thesis using h by blast
qed

lemma lock_volume_header [simp]:
  "HeaderLength (VolumeHeader (lock_volume pcd m fw)) = HeaderLength (VolumeHeader fw)"
  "BlockMap (VolumeHeader (lock_volume pcd m fw)) = BlockMap (VolumeHeader fw)"
  by (simp_all add: lock_volume_def platform_lock_list_def set_attributes_def)

lemma restored_volume:
  assumes "init_volume V pcd BootMode b (g, s) = Some (g', s')" "g' \<noteq> g" "\<not> IsFvHeaderValid pcd (ucast b) (MappedMemory V s)"
  shows "\<exists>fw. g' = g @ [fw] \<and> HeaderLength (VolumeHeader fw) = 72"
proof -
  obtain h s1 where v: "volume_header V pcd (ucast b) s = Some (h, s1)" and a: "add_volume V (lock_volume pcd BootMode
      \<lparr>FvBase = ucast b, NumOfBlocks = 0, FvFlashLinearAddress = FLASH_LINEAR_ADDRESS pcd (ucast b), VolumeHeader = h\<rparr>) (g, s1) = Some (g', s')"
    using assms(1,2) by (auto simp: init_volume_def split: if_splits option.splits)
  have "GetFvbInfo pcd (ucast b) = Some (EFI_SUCCESS, Some h)"
    using v assms(3) by (auto simp: volume_header_def split: option.splits prod.splits EFI_STATUS.splits)
  from GetFvbInfo_media [OF this] have "HeaderLength h = 72" using media_length(2) by blast
  then show ?thesis using a by (auto simp: add_volume_def Let_def split: option.splits)
qed

text \<open>C28. 
  The buffer for the records is sized with the header lengths that are in the flash, also for volumes whose header is
  damaged and replaced by a restored one of 72 bytes.  A damaged header that claims to be shorter makes the record the
  initialization writes longer than the space that was reserved for it.
\<close>
theorem FvbInitialize_record_overrun:
  assumes "init_volume V pcd BootMode b (g, s) = Some (g', s')" "g' \<noteq> g" "\<not> IsFvHeaderValid pcd (ucast b) (MappedMemory V s)"
    "header_length_at (MappedMemory V s) (ucast b) < 72"
  shows "\<exists>fw. g' = g @ [fw] \<and> unat (record_reserved (MappedMemory V s) b) < 24 + unat (HeaderLength (VolumeHeader fw))"
proof -
  have "unat (header_length_at (MappedMemory V s) (ucast b)) < 72" using assms(4) by (simp add: word_less_nat_alt)
  then have "unat (record_reserved (MappedMemory V s) b) < 96" by (simp add: record_reserved_def unat_add_noov)
  moreover obtain fw where "g' = g @ [fw]" "HeaderLength (VolumeHeader fw) = 72" using restored_volume [OF assms(1-3)] by blast
  ultimately show ?thesis by simp
qed

lemma layout_info:
  assumes "b \<in> {0xFFC00000, 0xFFED0000 :: UINT32}"
  shows "\<exists>h. GetFvbInfo (braswell_layout\<lparr>PcdFlashNvStorageFtwWorkingBase := w\<rparr>) (ucast b) = Some (EFI_SUCCESS, Some h) \<and>
    (\<exists>n. BlockMap h = [\<lparr>NumBlocks = n, Length = 0x1000\<rparr>, \<lparr>NumBlocks = 0, Length = 0\<rparr>])"
  using assms
  by (auto simp: GetFvbInfo_def find_info_def mPlatformFvbMediaInfo_def braswell_layout_def with_checksum_def media_info_def)

lemma ideal_init_volume:
  assumes b: "b \<in> {0xFFC00000, 0xFFED0000 :: UINT32}" and f: "f (unat b - 0xFF800000 + 16) \<notin> {0x78, 0x8D}"
  defines "pcd \<equiv> braswell_layout\<lparr>PcdFlashNvStorageFtwWorkingBase := 0\<rparr>"
  shows "\<exists>f' fw. init_volume ideal_services pcd 2 b (g, f) = Some (g @ [fw], f') \<and> FvBase fw = ucast b \<and>
    same_outside (unat b - 0xFF800000) 4096 f f'"
proof -
  have inv: "\<not> IsFvHeaderValid pcd (ucast b) (MappedMemory ideal_services f)"
    by (rule erased_header_invalid) (use b f in \<open>auto simp: ideal_services_def\<close>)
  obtain h n where h: "GetFvbInfo pcd (ucast b) = Some (EFI_SUCCESS, Some h)" "BlockMap h = [\<lparr>NumBlocks = n, Length = 0x1000\<rparr>, \<lparr>NumBlocks = 0, Length = 0\<rparr>]"
    using layout_info [OF b] unfolding pcd_def by blast
  have l: "HeaderLength h = 72" "length (header_bytes h) = 72" using GetFvbInfo_media [OF h(1)] media_length by blast+
  have A: "unat (FLASH_LINEAR_ADDRESS pcd (ucast b)) = unat b - 0xFF800000"
    using b by (auto simp: FLASH_LINEAR_ADDRESS_def pcd_def braswell_layout_def)
  obtain f' where f': "write_back_header ideal_services (FLASH_LINEAR_ADDRESS pcd (ucast b)) h f = Some f'" "same_outside (unat b - 0xFF800000) 4096 f f'"
    using ideal_dev.dev.write_back [where s = f and V = ideal_services and h = h and Addr = "FLASH_LINEAR_ADDRESS pcd (ucast b)"] h(2) l b A by (auto simp: ideal_services_def)
  have v: "volume_header ideal_services pcd (ucast b) f = Some (h, f')" using inv h(1) f'(1) by (simp add: volume_header_def)
  let ?fw = "lock_volume pcd 2 \<lparr>FvBase = ucast b, NumOfBlocks = 0, FvFlashLinearAddress = FLASH_LINEAR_ADDRESS pcd (ucast b), VolumeHeader = h\<rparr>"
  obtain N where N: "count_blocks (BlockMap h) 0 = Some N" using h(2) by (cases "n = 0") auto
  have "init_volume ideal_services pcd 2 b (g, f) = Some (g @ [?fw\<lparr>NumOfBlocks := N\<rparr>], f')"
    using b v N by (auto simp: init_volume_def add_volume_def InstallFvbProtocol_def ideal_services_def Let_def pcd_def braswell_layout_def)
  then show ?thesis using f'(2) by (intro exI conjI) auto
qed

lemma ideal_initialize:
  assumes "\<And>x. f x \<notin> {0x78, 0x8D}"
  defines "pcd \<equiv> braswell_layout\<lparr>PcdFlashNvStorageFtwWorkingBase := 0\<rparr>"
  shows "\<exists>fw fw' f'. FvbInitialize ideal_services pcd BOOT_ASSUMING_NO_CONFIGURATION_CHANGES f = Some (EFI_SUCCESS, [fw, fw'], f') \<and>
    FvBase fw = 0xFFC00000 \<and> FvBase fw' = 0xFFED0000"
proof -
  obtain f1 fw where 1: "init_volume ideal_services pcd 2 0xFFC00000 ([], f) = Some ([] @ [fw], f1)" "FvBase fw = 0xFFC00000"
      "same_outside 0x400000 4096 f f1"
    using ideal_init_volume [of "0xFFC00000" f "[]"] assms by auto
  have "f1 0x6D0010 = f 0x6D0010" using 1(3) by (simp add: same_outside_def)
  then obtain f2 fw' where 2: "init_volume ideal_services pcd 2 0xFFED0000 ([fw], f1) = Some ([fw] @ [fw'], f2)" "FvBase fw' = 0xFFED0000"
    using ideal_init_volume [of "0xFFED0000" f1 "[fw]"] assms(1) [of "0x6D0010"] assms(2) by auto
  have skip: "init_volume ideal_services pcd 2 b gs = Some gs" if "b \<in> {0xFFC83000, 0xFFFCE000, 0xFFE83000 :: UINT32}" for b gs
    using that by (cases gs) (auto simp: init_volume_def BOOT_ASSUMING_NO_CONFIGURATION_CHANGES_def assms(2) braswell_layout_def)
  have fvs: "platform_fvs pcd 2 = [0xFFC83000, 0xFFC00000, 0xFFFCE000, 0xFFE83000, 0xFFED0000]"
    by (simp add: platform_fvs_def BOOT_IN_RECOVERY_MODE_def assms(2) braswell_layout_def)
  have "PcdFlashNvStorageFtwWorkingBase pcd = 0" by (simp add: assms(2))
  then show ?thesis using 1(1,2) 2 skip by (simp add: FvbInitialize_def BOOT_ASSUMING_NO_CONFIGURATION_CHANGES_def fvs)
qed

theorem FvbInitialize_locks_volumes_witness:
  "\<exists>fw fw' f'. FvbInitialize ideal_services (braswell_layout\<lparr>PcdFlashNvStorageFtwWorkingBase := 0\<rparr>) BOOT_ASSUMING_NO_CONFIGURATION_CHANGES (\<lambda>_. 0xFF) =
     Some (EFI_SUCCESS, [fw, fw'], f') \<and> FvBase fw' = 0xFFED0000 \<and> write_locked fw'"
proof -
  obtain fw fw' f' where i: "FvbInitialize ideal_services (braswell_layout\<lparr>PcdFlashNvStorageFtwWorkingBase := 0\<rparr>)
      BOOT_ASSUMING_NO_CONFIGURATION_CHANGES (\<lambda>_. 0xFF) = Some (EFI_SUCCESS, [fw, fw'], f')" "FvBase fw' = 0xFFED0000"
    using ideal_initialize [of "\<lambda>_. 0xFF"] by auto
  have "write_locked fw'"
    by (rule FvbInitialize_locks_volumes [OF i(1), where b = "0xFFED0000"])
      (simp_all add: i(2) platform_lock_list_def braswell_layout_def BOOT_ASSUMING_NO_CONFIGURATION_CHANGES_def BOOT_IN_RECOVERY_MODE_def BOOT_ON_FLASH_UPDATE_def)
  then show ?thesis using i by blast
qed

theorem FvbInitialize_record_overrun_witness:
  "\<exists>fw f'. init_volume ideal_services (braswell_layout\<lparr>PcdFlashNvStorageFtwWorkingBase := 0\<rparr>) 2 0xFFC00000 ([], \<lambda>_. 0) = Some ([fw], f') \<and>
     unat (record_reserved (MappedMemory ideal_services (\<lambda>_. 0)) 0xFFC00000) < 24 + unat (HeaderLength (VolumeHeader fw))"
proof -
  let ?pcd = "braswell_layout\<lparr>PcdFlashNvStorageFtwWorkingBase := 0\<rparr>"
  obtain fw f' where i: "init_volume ideal_services ?pcd 2 0xFFC00000 ([], \<lambda>_. 0) = Some ([fw], f')"
    using ideal_init_volume [of "0xFFC00000" "\<lambda>_. 0" "[]"] by auto
  have inv: "\<not> IsFvHeaderValid ?pcd (ucast (0xFFC00000 :: UINT32)) (MappedMemory ideal_services (\<lambda>_. 0))"
    by (rule erased_header_invalid) (simp add: ideal_services_def)
  have "header_length_at (MappedMemory ideal_services (\<lambda>_. 0)) (ucast (0xFFC00000 :: UINT32)) < 72"
    by (simp add: header_length_at_def ideal_services_def mem_bytes_def word16_def upt_rec)
  from FvbInitialize_record_overrun [OF i _ inv this] i show ?thesis by auto
qed

text \<open>C29. 
  GetFvbInfo passes half of the header length to CalculateCheckSum16, which takes a length in bytes.  The
  header it returns has a checksum over its first 36 bytes, and for flash parts of up to 16 MB with 4 KB blocks no such header passes
  IsFvHeaderValid: a volume that has been restored is erased and restored again in every boot.
\<close>
theorem GetFvbInfo_header_not_valid:
  assumes "GetFvbInfo pcd Base = Some (EFI_SUCCESS, Some h)" "mem_bytes Base 72 m = header_bytes h" "PcdFlashMinEraseSize pcd = 0x1000"
    "list_all (\<lambda>(_, sz, _). sz \<le> 0x1000000) (mPlatformFvbMediaInfo pcd)"
  shows "\<not> IsFvHeaderValid pcd Base m"
proof
  assume v: "IsFvHeaderValid pcd Base m"
  obtain guid ext sz where h: "h = with_checksum (media_info pcd guid ext sz)" "length guid = 16" "ext \<in> {0, 0x60}" and
      "sz \<in> {PcdFlashFvMainSize pcd, PcdFlashNvStorageVariableSize pcd, PcdFlashFvRecoverySize pcd, PcdFlashFvRecovery2Size pcd, PcdFlashPayloadSize pcd}"
    using GetFvbInfo_media [OF assms(1)] by blast
  then have sz: "sz \<le> 0x1000000" using assms(4) by (auto simp: mPlatformFvbMediaInfo_def)
  have "header_formed h" using h by (simp add: header_formed_def with_checksum_def media_info_def)
  then have "header_at m Base = h" by (rule header_at_bytes) (use assms(2) h in \<open>simp add: with_checksum_def media_info_def\<close>)
  then have "CalculateCheckSum16 (words16 (header_bytes h)) 72 = 0"
    using v assms(2) h by (auto simp: IsFvHeaderValid_def Let_def with_checksum_def media_info_def split: if_splits)
  then have z: "0x9000 + ext + ucast (sz div 0x1000) + ucast (drop_bit 16 (sz div 0x1000)) + ucast (0x1000 :: UINT32) +
      ucast (drop_bit 16 (0x1000 :: UINT32)) = (0 :: UINT16)"
    unfolding CalculateCheckSum16_def neg_equal_0_iff_equal h(1) restored_sum [OF h(2)] assms(3) .
  have q: "unat (sz div 0x1000) \<le> 0x1000" using sz by (simp add: unat_div word_le_nat_alt)
  then have d: "drop_bit 16 (sz div 0x1000) = 0" by (simp add: word_unat_eq_iff unat_drop_bit_eq drop_bit_nat_def)
  have u: "unat (ucast (sz div 0x1000) :: UINT16) = unat (sz div 0x1000)" using q by (simp add: unsigned_ucast_eq take_bit_nat_def)
  have "unat (0x9000 + ext + ucast (sz div 0x1000) + 0x1000 :: UINT16) = 0xA000 + unat ext + unat (sz div 0x1000)"
    using h(3) q u by (auto simp: unat_word_ariths)
  then show False using z d by simp
qed

theorem GetFvbInfo_header_not_valid_witness:
  "\<exists>h. GetFvbInfo braswell_layout 0xFFC00000 = Some (EFI_SUCCESS, Some h) \<and>
     \<not> IsFvHeaderValid braswell_layout 0xFFC00000 (memory_of 0xFFC00000 (header_bytes h))"
proof -
  have w: "braswell_layout\<lparr>PcdFlashNvStorageFtwWorkingBase := 0xFFC2E000\<rparr> = braswell_layout" by (simp add: braswell_layout_def)
  obtain h where h: "GetFvbInfo braswell_layout 0xFFC00000 = Some (EFI_SUCCESS, Some h)"
    using layout_info [of "0xFFC00000" "0xFFC2E000"] unfolding w by auto
  have l: "length (header_bytes h) = 72" using GetFvbInfo_media [OF h] media_length by blast
  then have "mem_bytes 0xFFC00000 72 (memory_of 0xFFC00000 (header_bytes h)) = header_bytes h"
    using mem_bytes_memory_of [of "header_bytes h" "0xFFC00000"] by simp
  from GetFvbInfo_header_not_valid [OF h this] h show ?thesis
    by (auto simp: braswell_layout_def mPlatformFvbMediaInfo_def)
qed

end
