(* ===== verification/FlashPart.thy ===== *)
theory FlashPart
  imports SpiDevice
begin

text \<open>
  The SPI flash part of the platform, \<^verbatim>\<open>BraswellPlatformPkg/Flash/SpiFlashParts/MX25/MX25.c\<close>: the description of the Macronix
  MX25 family with its opcode table, the table of the JEDEC identifiers the driver knows, and \<open>GetFlashDescription\<close>, the one
  operation of the part protocol.  The device driver of \<open>SpiDevice\<close> looks for this protocol and programs the opcode menu
  of the controller from the description.
\<close>

section \<open>The flash part of the platform\<close>

definition SF_VENDOR_ID_MACRONIX :: UINT8 where "SF_VENDOR_ID_MACRONIX = 0xC2"
definition SF_DEVICE_ID0_MX25LXX :: UINT8 where "SF_DEVICE_ID0_MX25LXX = 0x20"
definition SF_DEVICE_ID0_MX25UXX :: UINT8 where "SF_DEVICE_ID0_MX25UXX = 0x25"

definition mFlashDescription :: FLASH_PART_DESCRIPTION where
  "mFlashDescription =
    \<lparr>PartNumber = ''MACRONIX MX25*** family'', StatusBytes = 1, WriteEnable = 0x06, WriteStatusEnable = 0x50,
     JededIdResponseLengthInBytes = 3, OpcodeTableEntries = 8,
     OpcodeTable =
      [\<lparr>MaxFrequency = 33000000, MaxTransferLength = 3, EnableWrite = False, Opcode = 0x9f, AddressBytes = 0, EntryOpcodeIndex = 0\<rparr>,
       \<lparr>MaxFrequency = 50000000, MaxTransferLength = 1, EnableWrite = False, Opcode = 0x05, AddressBytes = 0, EntryOpcodeIndex = 1\<rparr>,
       \<lparr>MaxFrequency = 50000000, MaxTransferLength = 1, EnableWrite = True, Opcode = 0x01, AddressBytes = 0, EntryOpcodeIndex = 2\<rparr>,
       \<lparr>MaxFrequency = 33000000, MaxTransferLength = 0xffffffff, EnableWrite = False, Opcode = 0x03, AddressBytes = 3, EntryOpcodeIndex = 3\<rparr>,
       \<lparr>MaxFrequency = 50000000, MaxTransferLength = 1, EnableWrite = True, Opcode = 0x02, AddressBytes = 3, EntryOpcodeIndex = 4\<rparr>,
       \<lparr>MaxFrequency = 50000000, MaxTransferLength = 0, EnableWrite = True, Opcode = 0x20, AddressBytes = 3, EntryOpcodeIndex = 5\<rparr>,
       \<lparr>MaxFrequency = 50000000, MaxTransferLength = 0, EnableWrite = True, Opcode = 0xd8, AddressBytes = 3, EntryOpcodeIndex = 6\<rparr>,
       \<lparr>MaxFrequency = 50000000, MaxTransferLength = 0, EnableWrite = True, Opcode = 0x5a, AddressBytes = 0, EntryOpcodeIndex = 7\<rparr>]\<rparr>"

definition mSpiChipIdTable :: "(UINT8 \<times> UINT8) list" where
  "mSpiChipIdTable =
    [(SF_DEVICE_ID0_MX25LXX, 0x15), (SF_DEVICE_ID0_MX25LXX, 0x16), (SF_DEVICE_ID0_MX25LXX, 0x17), (SF_DEVICE_ID0_MX25LXX, 0x18),
     (SF_DEVICE_ID0_MX25UXX, 0x36), (SF_DEVICE_ID0_MX25UXX, 0x37)]"

text \<open>The description and, if the routine writes it, the size of the part.\<close>

definition MX25_GetFlashDescription :: "UINT8 list option \<Rightarrow> FLASH_PART_DESCRIPTION option \<times> UINT64 option" where
  "MX25_GetFlashDescription JedecId =
    (case JedecId of
       None \<Rightarrow> (Some mFlashDescription, Some 0)
     | Some j \<Rightarrow>
       (if j ! 0 \<noteq> SF_VENDOR_ID_MACRONIX then (None, None)
        else if (j ! 1, j ! 2) \<notin> set mSpiChipIdTable then (None, None)
        else let Shift = (if j ! 1 = SF_DEVICE_ID0_MX25UXX then j ! 2 - 0x20 else j ! 2)
             in if Shift < 64 then (Some mFlashDescription, Some (push_bit (unat Shift) 1)) else (None, Some 0)))"

definition mSpiFlashPartProtocol :: SPI_FLASH_PART_PROTOCOL where
  "mSpiFlashPartProtocol = \<lparr>Priority = 0xC0000000, GetFlashDescription = MX25_GetFlashDescription\<rparr>"

lemma MX25_indices: "map (unat \<circ> EntryOpcodeIndex) (OpcodeTable mFlashDescription) = [0 ..< 8]"
  by (simp add: mFlashDescription_def upt_rec)

lemma MX25_table:
  "OpcodeTableEntries mFlashDescription = 8" "length (OpcodeTable mFlashDescription) = 8"
  "\<forall>i < 8. unat (EntryOpcodeIndex (OpcodeTable mFlashDescription ! i)) = i"
proof -
  show l: "OpcodeTableEntries mFlashDescription = 8" "length (OpcodeTable mFlashDescription) = 8" by (simp_all add: mFlashDescription_def)
  show "\<forall>i < 8. unat (EntryOpcodeIndex (OpcodeTable mFlashDescription ! i)) = i"
  proof (intro allI impI)
    fix i :: nat assume "i < 8"
    then show "unat (EntryOpcodeIndex (OpcodeTable mFlashDescription ! i)) = i"
      using arg_cong [OF MX25_indices, of "\<lambda>l. l ! i"] l(2) by (simp del: upt_rec)
  qed
qed

text \<open>
  GetFlashDescription of the MX25 family.  The parts of the table, and no other, are supported: their sizes are 2, 4, 8
  and 16 MB for the 3 volt parts and 4 and 8 MB for the 1.8 volt parts.
\<close>
theorem MX25_sizes:
  "MX25_GetFlashDescription (Some [v, d0, d1]) =
    (if v = 0xC2 \<and> (d0, d1) \<in> {(0x20, 0x15), (0x25, 0x36 :: UINT8)} then (Some mFlashDescription, Some (if d0 = 0x20 then 0x200000 else 0x400000))
     else if v = 0xC2 \<and> (d0, d1) \<in> {(0x20, 0x16), (0x25, 0x37 :: UINT8)} then (Some mFlashDescription, Some (if d0 = 0x20 then 0x400000 else 0x800000))
     else if v = 0xC2 \<and> (d0, d1) = (0x20, 0x17) then (Some mFlashDescription, Some 0x800000)
     else if v = 0xC2 \<and> (d0, d1) = (0x20, 0x18) then (Some mFlashDescription, Some 0x1000000)
     else (None, None))"
  by (auto simp: MX25_GetFlashDescription_def mSpiChipIdTable_def SF_VENDOR_ID_MACRONIX_def SF_DEVICE_ID0_MX25LXX_def SF_DEVICE_ID0_MX25UXX_def Let_def)

end
