(* ===== verification/FlashStack.thy ===== *)
theory FlashStack
  imports SpiController FvbProperties FlashPart
begin

text \<open>
  The flash stack as a whole: a block of a firmware volume (\<open>FvbService\<close>), the SPI device driver (\<open>SpiDevice\<close>), the
  controller driver (\<open>SpiController\<close>) and the registers of the controller.

  The contracts of \<open>SpiProtocol\<close> allow every command to fail with EFI_DEVICE_ERROR.  The locales of this theory add that
  it does not: \<open>reliable_controller\<close> and \<open>reliable_device\<close> are controllers and devices whose commands succeed,
  \<open>reliable_driver\<close> is the device driver over such a controller, and a sublocale shows that it is such a device.
  \<open>timely_hardware\<close> states it of the registers: no cycle fails, and each one ends within the 600000 waits of 10
  microseconds the driver allows; a sublocale shows that the controller driver over such registers is a reliable
  controller.  The simulated controller is an instance.  The theorems at the end put the layers together.
\<close>

section \<open>Controllers that do not fail\<close>

locale reliable_controller = spi_controller P flash ready fsize
  for P :: "'s EFI_SPI_PROTOCOL" and flash :: "'s \<Rightarrow> flash" and ready :: "'s \<Rightarrow> bool" and fsize :: nat +
  assumes prog_ok: "\<lbrakk>ready s; 0 < n; unat n \<le> 4096; unat a + unat n \<le> fsize; length b = unat n;
      Execute P SPI_PROG SPI_WREN True True True a n b EnumSpiRegionAll s = (st, b', s')\<rbrakk> \<Longrightarrow> st = EFI_SUCCESS"
    and erase_ok: "\<lbrakk>ready s; unat a < fsize;
      Execute P SPI_SERASE SPI_WREN False True False a 0 [] EnumSpiRegionAll s = (st, b', s')\<rbrakk> \<Longrightarrow> st = EFI_SUCCESS"
begin

lemma SpiWrite_loop_succeeds:
  assumes "ready s" "unat off + unat r \<le> fsize" "p + unat r \<le> length b"
  shows "fst (SpiWrite_loop P r off p b EFI_SUCCESS s) = EFI_SUCCESS"
  using assms
proof (induction "unat r" arbitrary: r off p s rule: less_induct)
  case less
  show ?case
  proof (cases "r = 0")
    case False
    let ?L = "chunk_length r" and ?a = "ucast (ucast off :: UINT32) :: UINTN" and ?n = "ucast (chunk_length r) :: UINT32"
    note L = chunk_step [OF False order_trans [OF less.prems(2) fsize]]
    obtain st1 b1 s1 where e: "Execute P SPI_PROG SPI_WREN True True True ?a ?n (chunk p ?L b) EnumSpiRegionAll s = (st1, b1, s1)"
      by (metis prod_cases3)
    have len: "length (chunk p ?L b) = unat ?n" using less.prems(3) L by (simp add: chunk_def)
    have one: "ready s1" "st1 = EFI_SUCCESS"
      using prog_cmd [OF less.prems(1) _ _ _ len e] prog_ok [OF less.prems(1) _ _ _ len e] L less.prems(2) by (simp_all add: word_less_nat_alt)
    have "fst (SpiWrite_loop P (r - ?L) (off + ?L) (p + unat ?L) b EFI_SUCCESS s1) = EFI_SUCCESS"
      using L less.prems one by (intro less.hyps) auto
    then show ?thesis using False e one by (simp add: SpiWrite_loop.simps [of P r] Let_def)
  qed simp
qed

lemma SpiErase_loop_succeeds:
  assumes "ready s" "unat n = 4096 * k" "unat off div 4096 * 4096 + unat n \<le> fsize" "n = 0 \<longrightarrow> st0 = EFI_SUCCESS"
  shows "\<exists>s'. SpiErase_loop P n off st0 s = Some (EFI_SUCCESS, s')"
  using assms
proof (induction k arbitrary: n off st0 s)
  case 0
  then show ?case by (simp add: unat_eq_zero)
next
  case (Suc k)
  let ?a = "ucast (ucast off :: UINT32) :: UINTN" and ?b = "unat off div 4096 * 4096"
  have n0: "n \<noteq> 0" using Suc.prems(2) by auto
  have "unat off < 4096 + ?b" by (rule dividend_less_div_times) simp
  then have small: "unat off < fsize" by (rule order.strict_trans2) (use Suc.prems(2,3) in simp)
  have off: "unat off < 2 ^ 27" using small fsize by linarith
  then have a: "unat ?a = unat off" by (intro unat_down_up) simp
  have n1: "unat (n - SIZE_4KB) = 4096 * k" using Suc.prems(2) by (simp add: unat_sub_noov SIZE_4KB_def)
  have o1: "unat (off + SIZE_4KB) = unat off + 4096" using off by (simp add: unat_add_noov SIZE_4KB_def)
  have d1: "unat (off + SIZE_4KB) div 4096 * 4096 = ?b + 4096" by (simp add: o1 div_add_self2 add_mult_distrib)
  obtain st1 b1 s1 where e: "Execute P SPI_SERASE SPI_WREN False True False ?a 0 [] EnumSpiRegionAll s = (st1, b1, s1)"
    by (metis prod_cases3)
  have one: "ready s1" "st1 = EFI_SUCCESS"
    using erase_cmd [OF Suc.prems(1) _ e] erase_ok [OF Suc.prems(1) _ e] small a by simp_all
  obtain s' where "SpiErase_loop P (n - SIZE_4KB) (off + SIZE_4KB) EFI_SUCCESS s1 = Some (EFI_SUCCESS, s')"
    using Suc.IH [OF one(1) n1, of "off + SIZE_4KB" EFI_SUCCESS] n1 Suc.prems(2,3) unfolding d1 by auto
  then show ?case using n0 e one by (simp add: SpiErase_loop.simps [of P n])
qed

end

locale reliable_device = spi_device D flash ready fsize readable
  for D :: "'s SPI_DEVICE_PROTOCOL" and flash :: "'s \<Rightarrow> flash" and ready :: "'s \<Rightarrow> bool" and fsize :: nat and readable +
  assumes write_ok: "\<lbrakk>ready s; unat a + unat n \<le> fsize; unat n \<le> length b; DevWrite D a (Some n) (Some b) s = (st, s')\<rbrakk> \<Longrightarrow> st = EFI_SUCCESS"
    and erase_ok: "\<lbrakk>ready s; 0 < n; unat a + unat n \<le> fsize; unat a mod 4096 = 0; unat n mod 4096 = 0; DevErase D a n s = Some (st, s')\<rbrakk> \<Longrightarrow>
      st = EFI_SUCCESS"

locale reliable_driver = spi_driver_ok D flash ready fsize nvsize + reliable_controller "mSpiProtocol D" flash ready fsize
  for D :: "'s spi_driver" and flash ready fsize nvsize

sublocale reliable_driver \<subseteq> dev: reliable_device "mSpiDevProtocol D" flash ready fsize readable
proof (unfold_locales, goal_cases)
  case (1 s a n b st s')
  then show ?case using SpiWrite_loop_succeeds [of s a n 0 b] in_area [of a n] by (simp add: mSpiDevProtocol_def SpiWrite_def)
next
  case (2 s n a st s')
  have al: "unat a div 4096 * 4096 = unat a" using 2(4) by auto
  have m: "a AND (SIZE_4KB - 1) = 0" using 2(4) and_page_mask_eq_0 [of a] by (simp add: SIZE_4KB_def EFI_PAGE_MASK_def)
  show ?case
    using SpiErase_loop_succeeds [of s n "unat n div 4096" a EFI_INVALID_PARAMETER] 2 in_area [OF 2(3)] al m
    by (auto simp: mSpiDevProtocol_def SpiErase_def dvd_mult_div_cancel mod_eq_0_iff_dvd)
qed

context reliable_device
begin

lemma erase_block_ok:
  assumes "ready s" "GetFvbInstance g inst = Some fw" "fv_ok fsize fw" "has_attribute fw EFI_FVB2_WRITE_STATUS" "unat Lba < length (fv_blocks fw)"
  shows "\<exists>s'. FvbEraseBlock D g inst Lba s = Some (EFI_SUCCESS, s') \<and> ready s' \<and>
    flash s' = erased (block_address fw (unat Lba)) (fv_blocks fw ! unat Lba) (flash s)"
proof -
  obtain st s' where e: "FvbEraseBlock D g inst Lba s = Some (st, s')" "ready s'"
      "st = EFI_DEVICE_ERROR \<or> st = EFI_SUCCESS \<and> flash s' = erased (block_address fw (unat Lba)) (fv_blocks fw ! unat Lba) (flash s)"
    using erase_block [OF assms(1-3), of Lba] assms(4,5) by auto
  obtain lba where l: "FvbGetLbaAddress g inst Lba = Some (Some lba)" "unat (FlashLinearAddress lba) = block_address fw (unat Lba)"
      "unat (LbaLength lba) = fv_blocks fw ! unat Lba"
    using lba_address [OF assms(2,3) dev_size, of Lba] assms(5) by auto
  note B = block_in_volume [OF assms(3,5)]
  have "st \<noteq> EFI_DEVICE_ERROR"
    using e(1) l B assms(1,2,4) dev_lock volume_attributes [OF assms(2)] block_address_mod [OF assms(3)]
      erase_ok [of s "LbaLength lba" "FlashLinearAddress lba"]
    by (auto simp: FvbEraseBlock_def has_attribute_def word_less_nat_alt Let_def split: option.splits prod.splits if_splits)
  then show ?thesis using e by blast
qed

lemma write_block_ok:
  assumes "ready s" "GetFvbInstance g inst = Some fw" "fv_ok fsize fw" "has_attribute fw EFI_FVB2_WRITE_STATUS" "unat Lba < length (fv_blocks fw)"
    and n: "0 < n" "unat n = length b" "unat off + unat n \<le> fv_blocks fw ! unat Lba"
  shows "\<exists>s'. FvbWriteBlock D g inst Lba off (Some n) (Some b) s = Some (EFI_SUCCESS, Some n, s') \<and> ready s' \<and>
    flash s' = programmed (block_address fw (unat Lba) + unat off) b (flash s)"
proof -
  note B = block_in_volume [OF assms(3,5)]
  have len: "unat n \<le> length b" "length b \<le> 2 ^ 63" using B(2) n(2,3) by auto
  have k: "min (unat n) (fv_blocks fw ! unat Lba - unat off) = unat n" "\<not> fv_blocks fw ! unat Lba < unat off" using n(3) by auto
  obtain st n' s' where w: "FvbWriteBlock D g inst Lba off (Some n) (Some b) s = Some (st, Some n', s')" "unat n' = unat n" "ready s'"
      "st = EFI_DEVICE_ERROR \<or> st = EFI_SUCCESS \<and> flash s' = programmed (block_address fw (unat Lba) + unat off) b (flash s)"
    using write_block [OF assms(1-3) n(1) len, of Lba off] assms(4,5) n(2) k by auto
  obtain lba where l: "FvbGetLbaAddress g inst Lba = Some (Some lba)" "unat (FlashLinearAddress lba) = block_address fw (unat Lba)"
      "unat (LbaLength lba) = fv_blocks fw ! unat Lba"
    using lba_address [OF assms(2,3) dev_size, of Lba] assms(5) by auto
  have s: "unat (n + off) = unat off + unat n" "unat (FlashLinearAddress lba + off) = block_address fw (unat Lba) + unat off"
    using B(1,2) n(3) l(2) dev_size by (simp_all add: unat_add_noov)
  then have c: "clip_to_block (LbaLength lba) off n = (n, EFI_SUCCESS)" using n(3) l(3) by (simp add: clip_to_block_def word_less_nat_alt)
  obtain st1 s1 where d: "DevWrite D (FlashLinearAddress lba + off) (Some n) (Some b) s = (st1, s1)" by (meson surj_pair)
  have "st1 = EFI_SUCCESS" by (rule write_ok [OF assms(1) _ len(1) d]) (use B(1) n(3) s(2) in simp)
  moreover have "\<not> LbaLength lba < off" "n \<noteq> 0" using n(1) k(2) l(3) by (auto simp: word_less_nat_alt)
  ultimately have "st \<noteq> EFI_DEVICE_ERROR"
    using w(1) l(1) c d assms(4) volume_attributes [OF assms(2)] dev_lock
    by (auto simp: FvbWriteBlock_def has_attribute_def Let_def split: prod.splits)
  moreover have "n' = n" using w(2) by (rule unsigned_word_eqI)
  ultimately show ?thesis using w by auto
qed

end

section \<open>Controllers that finish in time\<close>

text \<open>
  A controller whose cycles never fail and end within the time limit of the driver: \<open>busy\<close> is the number of waits of
  10 microseconds until the status register of a sequencing mode shows the end of the cycle.
\<close>

locale timely_hardware = spi_hardware B base flash fdata faddr failed fsize
  for B :: "'h spi_bus" and base flash fdata faddr failed fsize +
  fixes busy :: "bool \<Rightarrow> 'h \<Rightarrow> nat"
  assumes no_failure: "\<not> failed h"
    and in_progress: "run_state (MmioRead16 B (base + status_register sw)) h = (y, h') \<Longrightarrow>
      (y AND CycleInProgressBit sw = 0 \<longleftrightarrow> busy sw h = 0) \<and> busy sw h' = busy sw h"
    and stall: "run_state (PchPmTimerStall B 10) h = (u, h') \<Longrightarrow> busy sw h' = busy sw h - 1"
    and in_time: "busy sw h < WaitCount"
begin

lemma wait_loop_ends:
  "busy sw h < k \<Longrightarrow> sw \<longrightarrow> \<not> e \<Longrightarrow> fst (run_state (wait_loop B base sw e k) h)"
proof (induction k arbitrary: h)
  case (Suc k)
  obtain d h1 where d: "run_state (MmioRead16 B (base + status_register sw)) h = (d, h1)" by (meson surj_pair)
  note p = in_progress [OF d]
  show ?case
  proof (cases "busy sw h = 0")
    case True
    then have z: "d AND CycleInProgressBit sw = 0" using p by simp
    have "d AND AelBit sw = 0 \<and> d AND FcErrBit sw = 0" if "\<not> sw"
      using outcome [of h d h1] no_failure [of h] d z that by (simp add: status_register_def CycleInProgressBit_def AelBit_def FcErrBit_def)
    then show ?thesis using d z Suc.prems(2) by (auto split: prod.splits)
  next
    case False
    obtain u h2 where s: "run_state (PchPmTimerStall B 10) h1 = (u, h2)" by (meson surj_pair)
    have "busy sw h2 < k" using stall [OF s, of sw] p False Suc.prems(1) by simp
    then show ?thesis using Suc.IH [of h2] d s p False Suc.prems(2) by (simp split: prod.splits)
  qed
qed simp

lemma Wait_ends: "SpiBase I = base \<Longrightarrow> sw \<longrightarrow> \<not> e \<Longrightarrow> fst (run_state (WaitForSpiCycleComplete B I sw e) h)"
  using wait_loop_ends [OF in_time, of sw e h] by (simp add: WaitForSpiCycleComplete_def)

lemma cycle_succeeds:
  assumes "SpiBase I = base" "FlashCycle op = Some c" "\<not> uses_software_sequence I op"
  shows "fst (run_state (run_cycle B I Index Prefix dc at so op a n buf) h) = Some True"
  using assms Wait_ends [OF assms(1), of False True]
  by (auto simp: run_cycle_def start_cycle_def split: prod.splits) (metis fst_conv)+

lemma loop_succeeds:
  assumes I: "SpiBase I = base" "DescriptorMode I" and op: "FlashCycle op = Some c" "\<not> uses_software_sequence I op"
  shows "unat m < k \<Longrightarrow> unat a + unat m \<le> 2 ^ 27 \<Longrightarrow>
    fst (fst (run_state (SendSpiCmd_loop k B I Ix Px dc at so OpCode op a m out buf) h)) = EFI_SUCCESS"
proof (induction k arbitrary: a m out buf h)
  case (Suc k)
  let ?n = "SpiDataCount I OpCode op a m"
  obtain h1 where c: "run_state (run_cycle B I Ix Px dc at so op a ?n buf) h = (Some True, h1)"
    using cycle_succeeds [OF I(1) op, of Ix Px dc at so a ?n buf h] by (metis prod.collapse)
  show ?case
  proof (cases "m = 0")
    case True
    have "?n = 0" using SpiDataCount_unat [OF I(2) Suc.prems(2), of OpCode op] True by (simp add: unat_eq_zero)
    then show ?thesis using c True by (auto simp: Let_def split: prod.splits)
  next
    case False
    then have n: "0 < ?n" "unat (m - ?n) = unat m - unat ?n" "unat (a + ucast ?n) = unat a + unat ?n" "unat ?n \<le> unat m"
      using count_facts [OF I(2) Suc.prems(2), of OpCode op] by (auto simp: word_gt_0)
    then have "unat (m - ?n) < k" "unat (a + ucast ?n) + unat (m - ?n) \<le> 2 ^ 27" using Suc.prems by (simp_all add: word_less_nat_alt)
    then show ?thesis using Suc.IH c by (auto simp: Let_def split: prod.splits)
  qed
qed simp

end

context timely_hardware
begin

lemma SendSpiCmd_succeeds:
  assumes I: "menu_ready base I" and ix: "Ix < SPI_NUM_OPCODE" and op: "FlashCycle (Operation (InitConfig I ! unat Ix)) = Some c"
      "\<not> uses_software_sequence I (Operation (InitConfig I ! unat Ix))"
    and a: "unat a + unat (if dc then m else 0) \<le> 2 ^ 27"
  shows "fst (fst (run_state (SendSpiCmd B I Ix Px dc at so a m buf EnumSpiRegionAll) h)) = EFI_SUCCESS"
proof -
  have b: "SpiBase I = base" "DescriptorMode I" using I by (auto simp: menu_ready_def)
  obtain oc h1 where 1: "run_state (MmioRead8 B (base + R_PCH_SPI_OPMENU0 + ucast Ix)) h = (oc, h1)" by (meson surj_pair)
  have "oc \<noteq> 0" by (rule menu_set [OF 1 ix])
  then show ?thesis
    using loop_succeeds [OF b op lessI a] 1 b
    by (cases dc) (simp_all add: SendSpiCmd_def SpiOffset2Physical_def Let_def split: prod.splits del: SendSpiCmd_loop.simps)
qed

lemma Execute_succeeds:
  assumes I: "menu_ready base I" and ix: "Ix < SPI_NUM_OPCODE" "Px < SPI_NUM_PREFIX_OPCODE"
    and op: "FlashCycle (Operation (InitConfig I ! unat Ix)) = Some c" "\<not> uses_software_sequence I (Operation (InitConfig I ! unat Ix))"
    and a: "unat a + unat (if dc then m else 0) \<le> 2 ^ 27"
  shows "fst (fst (run_state (SpiProtocolExecute B I Ix Px dc at so a m buf EnumSpiRegionAll) h)) = EFI_SUCCESS"
proof -
  have b: "SpiBase I = base" using I by (auto simp: menu_ready_def)
  have nix: "\<not> SPI_NUM_OPCODE \<le> Ix" "\<not> SPI_NUM_PREFIX_OPCODE \<le> Px" using ix by (simp_all add: not_le)
  obtain h1 where 1: "run_state (WaitForSpiCycleComplete B I True False) h = (True, h1)" using Wait_ends [OF b, of True False h] by (metis prod.collapse)
  obtain h2 where 2: "run_state (WaitForSpiCycleComplete B I False False) h1 = (True, h2)" using Wait_ends [OF b, of False False h1] by (metis prod.collapse)
  show ?thesis using 1 2 nix SendSpiCmd_succeeds [OF I ix(1) op a] by (auto simp: SpiProtocolExecute_def Let_def split: prod.splits) (metis fst_conv)+
qed

end

sublocale timely_hardware \<subseteq> ctl: reliable_controller "SpiProtocol B" "\<lambda>s. flash (snd s)" "\<lambda>s. menu_ready base (fst s)" fsize
proof (unfold_locales, goal_cases)
  case (1 s n a b st b' s')
  have op: "Operation (InitConfig (fst s) ! unat SPI_PROG) = EnumSpiOperationProgramData_1_Byte" "DescriptorMode (fst s)"
    using 1(1) by (simp_all add: menu_ready_def)
  have "fst (fst (run_state (SpiProtocolExecute B (fst s) SPI_PROG SPI_WREN True True True a n b EnumSpiRegionAll) (snd s))) = EFI_SUCCESS"
    by (rule Execute_succeeds [OF 1(1), where c = 4])
      (use 1(4) fsize op in \<open>simp_all add: opcode_bounds FlashCycle_def uses_software_sequence_def\<close>)
  then show ?case using 1(6) by (auto simp: SpiProtocol_def split: prod.splits)
next
  case (2 s a st b' s')
  have op: "Operation (InitConfig (fst s) ! unat SPI_SERASE) = EnumSpiOperationErase_4K_Byte" "DescriptorMode (fst s)"
    using 2(1) by (simp_all add: menu_ready_def)
  have "fst (fst (run_state (SpiProtocolExecute B (fst s) SPI_SERASE SPI_WREN False True False a 0 [] EnumSpiRegionAll) (snd s))) = EFI_SUCCESS"
    by (rule Execute_succeeds [OF 2(1), where c = 6])
      (use 2(2) fsize op in \<open>simp_all add: opcode_bounds FlashCycle_def uses_software_sequence_def\<close>)
  then show ?case using 2(3) by (auto simp: SpiProtocol_def split: prod.splits)
qed

interpretation sim_timely: timely_hardware sim_bus sim_base SimFlash SimData SimAddr "\<lambda>_. False" "0x800000" "\<lambda>_ _. 0"
  by unfold_locales (auto simp: sim_bus_def WaitCount_def)

context timely_hardware
begin

lemma reliable: "reliable_controller (SpiProtocol B) (\<lambda>s. flash (snd s)) (\<lambda>s. menu_ready base (fst s)) fsize"
  by (rule ctl.reliable_controller_axioms)

end

context reliable_driver
begin

lemma device: "reliable_device (mSpiDevProtocol D) flash ready fsize readable"
  by (rule dev.reliable_device_axioms)

end

context reliable_device
begin

lemma erase_write_read_ok:
  assumes "ready s" "GetFvbInstance g inst = Some fw" "fv_ok fsize fw"
    and a: "has_attribute fw EFI_FVB2_READ_STATUS" "has_attribute fw EFI_FVB2_WRITE_STATUS" "unat Lba < length (fv_blocks fw)"
    and n: "0 < n" "unat n = length b" "unat off + unat n \<le> fv_blocks fw ! unat Lba"
    and r: "\<And>s. readable s (block_address fw (unat Lba) + unat off) (unat n)"
  shows "\<exists>s1 s2. FvbEraseBlock D g inst Lba s = Some (EFI_SUCCESS, s1) \<and>
    FvbWriteBlock D g inst Lba off (Some n) (Some b) s1 = Some (EFI_SUCCESS, Some n, s2) \<and>
    (\<forall>bx. length bx = unat n \<longrightarrow> FvbReadBlock D g inst Lba off (Some n) (Some bx) s2 = Some (EFI_SUCCESS, Some n, Some b, s2)) \<and> ready s2 \<and>
    flash s2 = programmed (block_address fw (unat Lba) + unat off) b (erased (block_address fw (unat Lba)) (fv_blocks fw ! unat Lba) (flash s))"
proof -
  let ?A = "block_address fw (unat Lba)" and ?L = "fv_blocks fw ! unat Lba"
  obtain s1 where 1: "FvbEraseBlock D g inst Lba s = Some (EFI_SUCCESS, s1)" "ready s1" "flash s1 = erased ?A ?L (flash s)"
    using erase_block_ok [OF assms(1-3) a(2,3)] by blast
  obtain s2 where 2: "FvbWriteBlock D g inst Lba off (Some n) (Some b) s1 = Some (EFI_SUCCESS, Some n, s2)" "ready s2"
      "flash s2 = programmed (?A + unat off) b (flash s1)"
    using write_block_ok [OF 1(2) assms(2,3) a(2,3) n] by blast
  have k: "min (unat n) (?L - unat off) = unat n" "\<not> ?L < unat off" using n(3) by auto
  have d: "flash_bytes (?A + unat off) (unat n) (flash s2) = b" using 1(3) 2(3) n flash_bytes_written [of "unat off" b ?L ?A "flash s"] by simp
  have len: "length b \<le> 2 ^ 63" using block_in_volume(2) [OF assms(3) a(3)] n(2,3) by simp
  have "FvbReadBlock D g inst Lba off (Some n) (Some bx) s2 = Some (EFI_SUCCESS, Some n, Some b, s2)" if "length bx = unat n" for bx
  proof -
    have bx: "length bx = length b" using that n(2) by simp
    obtain n1 where "FvbReadBlock D g inst Lba off (Some n) (Some bx) s2 = Some (EFI_SUCCESS, Some n1, Some b, s2)" "unat n1 = unat n"
      using read_block [OF 2(2) assms(2,3) n(1), of bx Lba off] bx len n(2) a r k d by (auto simp: not_le)
    then show ?thesis by (metis unsigned_word_eqI)
  qed
  then show ?thesis using 1 2 by auto
qed

end

section \<open>The stack on hardware that finishes in time\<close>

lemma stack:
  assumes "timely_hardware B base flash fdata faddr failed fsize busy" "mSpiProtocol D = SpiProtocol B"
    "spi_driver_ok_axioms D (\<lambda>s. flash (snd s)) (\<lambda>s. menu_ready base (fst s)) fsize nvsize"
  shows "reliable_driver D (\<lambda>s. flash (snd s)) (\<lambda>s. menu_ready base (fst s)) fsize nvsize"
proof -
  have c: "reliable_controller (mSpiProtocol D) (\<lambda>s. flash (snd s)) (\<lambda>s. menu_ready base (fst s)) fsize"
    using timely_hardware.reliable [OF assms(1)] by (simp add: assms(2))
  show ?thesis by (intro reliable_driver.intro spi_driver_ok.intro c assms(3) reliable_controller.axioms(1) [OF c])
qed

text \<open>C12. 
  The whole stack, from a block of a firmware volume to the registers of the controller.  On a controller whose cycles
  neither fail nor exceed the time limit, and with the menu of the flash part programmed, an erase, a write and a read of
  a block all return EFI_SUCCESS, the read returns the bytes that were written, and the flash is exactly the erased block
  with the data in it: no other byte of the part has changed.
\<close>
theorem stack_erase_write_read:
  assumes "timely_hardware B base flash fdata faddr failed fsize busy" "mSpiProtocol D = SpiProtocol B"
    "spi_driver_ok_axioms D (\<lambda>s. flash (snd s)) (\<lambda>s. menu_ready base (fst s)) fsize nvsize"
    and I: "menu_ready base I" "GetFvbInstance g inst = Some fw" "fv_ok fsize fw"
    and a: "has_attribute fw EFI_FVB2_READ_STATUS" "has_attribute fw EFI_FVB2_WRITE_STATUS" "unat Lba < length (fv_blocks fw)"
    and n: "0 < n" "unat n = length b" "unat off + unat n \<le> fv_blocks fw ! unat Lba"
    and r: "\<And>s. UsesMmio D (of_nat (block_address fw (unat Lba) + unat off)) s"
  shows "\<exists>s1 s2. FvbEraseBlock (mSpiDevProtocol D) g inst Lba (I, h) = Some (EFI_SUCCESS, s1) \<and>
    FvbWriteBlock (mSpiDevProtocol D) g inst Lba off (Some n) (Some b) s1 = Some (EFI_SUCCESS, Some n, s2) \<and>
    FvbReadBlock (mSpiDevProtocol D) g inst Lba off (Some n) (Some (replicate (unat n) 0)) s2 = Some (EFI_SUCCESS, Some n, Some b, s2) \<and>
    flash (snd s2) = programmed (block_address fw (unat Lba) + unat off) b (erased (block_address fw (unat Lba)) (fv_blocks fw ! unat Lba) (flash h))"
proof -
  note d = stack [OF assms(1-3)]
  have "spi_driver_ok.readable D nvsize s (block_address fw (unat Lba) + unat off) (unat n)" for s
    using r spi_driver_ok.readable_def [OF reliable_driver.axioms(1) [OF d]] by blast
  from reliable_device.erase_write_read_ok [OF reliable_driver.device [OF d], of "(I, h)", OF _ I(2,3) a n this]
  show ?thesis using I(1) by auto
qed

definition sim_driver :: "(SPI_INSTANCE \<times> sim_hw) spi_driver" where
  "sim_driver =
    \<lparr>mSpiProtocol = SpiProtocol sim_bus, mNvStorageBase = 0xFFC00000, Pcds = braswell_pcds,
     UsesMmio = (\<lambda>off s. ReadUsingMmio_Smm braswell_pcds off), MemoryOf = (\<lambda>s a. SimFlash (snd s) (unat (a - 0xFF800000)))\<rparr>"

lemma sim_driver_memory:
  "spi_driver_ok_axioms sim_driver (\<lambda>s. SimFlash (snd s)) (\<lambda>s. menu_ready sim_base (fst s)) 0x800000 0x2E000"
  by (intro spi_driver_ok_axioms.intro)
    (auto simp: sim_driver_def braswell_pcds_def VN_STORAGE_REGION_FLASH_OFFSET_def unat_of_nat)

lemma sim_instance_ready: "menu_ready sim_base sim_instance"
  by (simp add: menu_ready_def sim_instance_def SPI_READ_def SPI_PROG_def SPI_SERASE_def)

lemma sim_driver_mmio: "0x400000 \<le> a \<Longrightarrow> a < 0x800000 \<Longrightarrow> UsesMmio sim_driver (of_nat a) s"
  by (simp add: sim_driver_def ReadUsingMmio_Smm_def BIOS_REGION_FLASH_OFFSET_def braswell_pcds_def word_le_nat_alt
      word_less_nat_alt unat_of_nat)

theorem stack_erase_write_read_witness:
  "\<exists>s1 s2. FvbEraseBlock (mSpiDevProtocol sim_driver) layout_volumes 1 3 (sim_instance, sim_start) = Some (EFI_SUCCESS, s1) \<and>
    FvbWriteBlock (mSpiDevProtocol sim_driver) layout_volumes 1 3 0x10 (Some 2) (Some [0xAB, 0xCD]) s1 = Some (EFI_SUCCESS, Some 2, s2) \<and>
    FvbReadBlock (mSpiDevProtocol sim_driver) layout_volumes 1 3 0x10 (Some 2) (Some (replicate 2 0)) s2 = Some (EFI_SUCCESS, Some 2, Some [0xAB, 0xCD], s2)"
proof -
  have p: "mSpiProtocol sim_driver = SpiProtocol sim_bus" by (simp add: sim_driver_def)
  have r: "UsesMmio sim_driver (of_nat (block_address nv_volume (unat (3 :: EFI_LBA)) + unat (0x10 :: UINTN))) s" for s
    by (rule sim_driver_mmio) (simp_all add: layout_address)
  obtain s1 s2 where s: "FvbEraseBlock (mSpiDevProtocol sim_driver) layout_volumes 1 3 (sim_instance, sim_start) = Some (EFI_SUCCESS, s1)"
      "FvbWriteBlock (mSpiDevProtocol sim_driver) layout_volumes 1 3 0x10 (Some 2) (Some [0xAB, 0xCD]) s1 = Some (EFI_SUCCESS, Some 2, s2)"
      "FvbReadBlock (mSpiDevProtocol sim_driver) layout_volumes 1 3 0x10 (Some 2) (Some (replicate (unat (2 :: UINTN)) 0)) s2 =
        Some (EFI_SUCCESS, Some 2, Some [0xAB, 0xCD], s2)"
    using stack_erase_write_read [OF sim_timely.timely_hardware_axioms p sim_driver_memory sim_instance_ready layout_instances(2) layout_fv_ok(1)
        layout_attributes(2,1) _ _ _ _ r, where n = 2 and b = "[0xAB, 0xCD]" and h = sim_start]
    by (auto simp: layout_blocks)
  then show ?thesis by (intro exI [of _ s1] exI [of _ s2]) simp
qed



end
