(* ===== verification/FvbComm.thy ===== *)
theory FvbComm
  imports SmmComm FlashStack
begin

text \<open>
  The firmware volume block protocol outside SMM, \<^verbatim>\<open>BraswellPlatformPkg/Flash/FvbRuntimeDxe/FvbSmmDxe.c\<close>, and the SMI handler
  that serves it inside, \<^verbatim>\<open>FvbSmmHandler\<close> of \<^verbatim>\<open>FvbServiceSmm.c\<close>.

  A request is a communication buffer in memory, byte for byte: the GUID and the length of the message, the function number
  and the returned status, and the structure of the function with the address of the SMM protocol in front.  The wrapper
  fills the buffer, sends it through the communication protocol of \<open>SmmComm\<close> and reads the answer; the handler finds the
  device record at the address it is given and calls the operation of \<open>FvbService\<close>.  Statuses cross the buffer encoded as
  numbers.  Failed assertions are \<open>None\<close> outside SMM and set \<open>Asserted\<close> inside.
\<close>

section \<open>Fields in memory\<close>

definition put_bytes :: "UINT64 \<Rightarrow> UINT8 list \<Rightarrow> memory \<Rightarrow> memory" where
  "put_bytes a b m = (\<lambda>x. if unat (x - a) < length b then b ! unat (x - a) else m x)"

definition get32 :: "memory \<Rightarrow> UINT64 \<Rightarrow> UINT32" where "get32 m a = word32 (mem_bytes a 4 m)"
definition get64 :: "memory \<Rightarrow> UINT64 \<Rightarrow> UINT64" where "get64 m a = word64 (mem_bytes a 8 m)"
definition put32 :: "UINT64 \<Rightarrow> UINT32 \<Rightarrow> memory \<Rightarrow> memory" where "put32 a v = put_bytes a (bytes32 v)"
definition put64 :: "UINT64 \<Rightarrow> UINT64 \<Rightarrow> memory \<Rightarrow> memory" where "put64 a v = put_bytes a (bytes64 v)"

text \<open>Two fields of one buffer, given by their offsets and sizes, do not meet; the buffer itself may be anywhere.\<close>

definition apart :: "UINT64 \<Rightarrow> nat \<Rightarrow> UINT64 \<Rightarrow> nat \<Rightarrow> bool" where
  "apart i n j k \<longleftrightarrow> (unat i + n \<le> unat j \<and> unat j + k \<le> 2 ^ 64 \<or> unat j + k \<le> unat i \<and> unat i + n \<le> 2 ^ 64)"

lemma apart_outside:
  assumes "apart i n j k" "x < n"
  shows "\<not> unat (B + i + of_nat x - (B + j)) < k"
proof -
  have s: "B + i + of_nat x - (B + j) = i + of_nat x - j" by simp
  have x: "unat (of_nat x :: UINT64) = x" if "x < 2 ^ 64" using that by (simp add: unat_of_nat)
  have "n \<le> 2 ^ 64" using assms(1) unat_bound64 [of j] by (auto simp: apart_def)
  then have i: "unat (i + of_nat x) = unat i + x" if "unat i + x < 2 ^ 64"
    using that assms(2) by (subst unat_add_noov) (simp_all add: x)
  show ?thesis
  proof (cases "unat i + n \<le> unat j \<and> unat j + k \<le> 2 ^ 64")
    case True
    then have i': "unat (i + of_nat x) = unat i + x" using assms(2) unat_bound64 [of j] by (intro i) simp
    then have "unat (i + of_nat x - j) = 2 ^ 64 + (unat i + x) - unat j"
      using True assms(2) by (subst unat_sub_if') (simp add: i')
    then show ?thesis unfolding s using True by linarith
  next
    case False
    then have c: "unat j + k \<le> unat i" "unat i + n \<le> 2 ^ 64" using assms(1) by (auto simp: apart_def)
    then have "unat (i + of_nat x) = unat i + x" using assms(2) by (intro i) simp
    then have "unat (i + of_nat x - j) = unat i + x - unat j" using c by (subst unat_sub_if') simp
    then show ?thesis unfolding s using c by linarith
  qed
qed

lemma mem_bytes_put_other:
  "apart i (unat n) j (length b) \<Longrightarrow> mem_bytes (B + i) n (put_bytes (B + j) b m) = mem_bytes (B + i) n m"
  using apart_outside [of i "unat n" j "length b" _ B] by (auto simp: mem_bytes_def put_bytes_def)

lemma mem_bytes_put_same: "unat n = length b \<Longrightarrow> mem_bytes a n (put_bytes a b m) = b"
proof -
  assume n: "unat n = length b"
  then have "unat (of_nat i :: UINT64) = i" if "i < length b" for i
    using that unat_bound64 [of n] by (simp add: unat_of_nat)
  then show ?thesis using n by (auto simp: mem_bytes_def put_bytes_def intro: nth_equalityI)
qed

lemma get_put_same [simp]: "get64 (put64 a v m) a = v" "get32 (put32 a w m) a = w"
  using word64_bytes64 [of v "[]"] word32_bytes32 [of w "[]"] by (simp_all add: get64_def put64_def get32_def put32_def mem_bytes_put_same)

lemma get_put_other:
  "apart i 8 j 8 \<Longrightarrow> get64 (put64 (B + j) v m) (B + i) = get64 m (B + i)"
  "apart i 8 j 4 \<Longrightarrow> get64 (put32 (B + j) w m) (B + i) = get64 m (B + i)"
  "apart i 4 j 8 \<Longrightarrow> get32 (put64 (B + j) v m) (B + i) = get32 m (B + i)"
  "apart i 8 j (length b) \<Longrightarrow> get64 (put_bytes (B + j) b m) (B + i) = get64 m (B + i)"
  by (simp_all add: get64_def get32_def put64_def put32_def mem_bytes_put_other)

lemma bytes_put_other:
  "apart i (unat n) j 8 \<Longrightarrow> mem_bytes (B + i) n (put64 (B + j) v m) = mem_bytes (B + i) n m"
  "apart i (unat n) j 4 \<Longrightarrow> mem_bytes (B + i) n (put32 (B + j) u m) = mem_bytes (B + i) n m"
  by (simp_all add: put64_def put32_def mem_bytes_put_other)

lemma mem_bytes_prefix: "unat k \<le> unat n \<Longrightarrow> mem_bytes a k m = take (unat k) (mem_bytes a n m)"
  by (simp add: mem_bytes_def take_map)

lemma mem_bytes_put_prefix:
  "unat (n :: UINTN) = length b \<Longrightarrow> unat k \<le> unat n \<Longrightarrow> mem_bytes a k (put_bytes a b m) = take (unat k) b"
  using mem_bytes_prefix [of k n a "put_bytes a b m"] by (simp add: mem_bytes_put_same)

section \<open>Status codes\<close>

definition MAX_BIT :: UINTN where "MAX_BIT = 0x8000000000000000"

definition ENCODE_ERROR :: "UINTN \<Rightarrow> UINTN" where "ENCODE_ERROR a = MAX_BIT OR a"

fun status_code :: "EFI_STATUS \<Rightarrow> UINTN" where
  "status_code EFI_SUCCESS = 0"
| "status_code EFI_LOAD_ERROR = ENCODE_ERROR 1"
| "status_code EFI_INVALID_PARAMETER = ENCODE_ERROR 2"
| "status_code EFI_UNSUPPORTED = ENCODE_ERROR 3"
| "status_code EFI_BAD_BUFFER_SIZE = ENCODE_ERROR 4"
| "status_code EFI_BUFFER_TOO_SMALL = ENCODE_ERROR 5"
| "status_code EFI_NOT_READY = ENCODE_ERROR 6"
| "status_code EFI_DEVICE_ERROR = ENCODE_ERROR 7"
| "status_code EFI_WRITE_PROTECTED = ENCODE_ERROR 8"
| "status_code EFI_OUT_OF_RESOURCES = ENCODE_ERROR 9"
| "status_code EFI_VOLUME_CORRUPTED = ENCODE_ERROR 10"
| "status_code EFI_VOLUME_FULL = ENCODE_ERROR 11"
| "status_code EFI_NO_MEDIA = ENCODE_ERROR 12"
| "status_code EFI_MEDIA_CHANGED = ENCODE_ERROR 13"
| "status_code EFI_NOT_FOUND = ENCODE_ERROR 14"
| "status_code EFI_ACCESS_DENIED = ENCODE_ERROR 15"
| "status_code EFI_NO_RESPONSE = ENCODE_ERROR 16"
| "status_code EFI_NO_MAPPING = ENCODE_ERROR 17"
| "status_code EFI_TIMEOUT = ENCODE_ERROR 18"
| "status_code EFI_NOT_STARTED = ENCODE_ERROR 19"
| "status_code EFI_ALREADY_STARTED = ENCODE_ERROR 20"
| "status_code EFI_ABORTED = ENCODE_ERROR 21"
| "status_code EFI_ICMP_ERROR = ENCODE_ERROR 22"
| "status_code EFI_TFTP_ERROR = ENCODE_ERROR 23"
| "status_code EFI_PROTOCOL_ERROR = ENCODE_ERROR 24"
| "status_code EFI_INCOMPATIBLE_VERSION = ENCODE_ERROR 25"
| "status_code EFI_SECURITY_VIOLATION = ENCODE_ERROR 26"
| "status_code EFI_CRC_ERROR = ENCODE_ERROR 27"
| "status_code EFI_END_OF_MEDIA = ENCODE_ERROR 28"
| "status_code EFI_END_OF_FILE = ENCODE_ERROR 31"
| "status_code EFI_INVALID_LANGUAGE = ENCODE_ERROR 32"
| "status_code EFI_COMPROMISED_DATA = ENCODE_ERROR 33"
| "status_code EFI_INTERRUPT_PENDING = MAX_BIT OR drop_bit 2 MAX_BIT OR 0"
| "status_code EFI_WARN_UNKNOWN_GLYPH = 1"
| "status_code EFI_WARN_DELETE_FAILURE = 2"
| "status_code EFI_WARN_WRITE_FAILURE = 3"
| "status_code EFI_WARN_BUFFER_TOO_SMALL = 4"
| "status_code EFI_WARN_STALE_DATA = 5"
| "status_code EFI_WARN_INTERRUPT_SOURCE_PENDING = drop_bit 2 MAX_BIT OR 0"
| "status_code EFI_WARN_INTERRUPT_SOURCE_QUIESCED = drop_bit 2 MAX_BIT OR 1"

text \<open>The test of an error on the encoded status: its sign as a signed integer.\<close>

definition RETURN_ERROR :: "UINTN \<Rightarrow> bool" where "RETURN_ERROR c \<longleftrightarrow> sint c < 0"

lemma RETURN_ERROR_code: "RETURN_ERROR (status_code st) = EFI_ERROR st"
  by (cases st) (simp_all add: RETURN_ERROR_def ENCODE_ERROR_def MAX_BIT_def)

section \<open>The handler\<close>

definition EFI_FUNCTION_GET_ATTRIBUTES :: UINTN where "EFI_FUNCTION_GET_ATTRIBUTES = 1"
definition EFI_FUNCTION_SET_ATTRIBUTES :: UINTN where "EFI_FUNCTION_SET_ATTRIBUTES = 2"
definition EFI_FUNCTION_GET_PHYSICAL_ADDRESS :: UINTN where "EFI_FUNCTION_GET_PHYSICAL_ADDRESS = 3"
definition EFI_FUNCTION_GET_BLOCK_SIZE :: UINTN where "EFI_FUNCTION_GET_BLOCK_SIZE = 4"
definition EFI_FUNCTION_READ :: UINTN where "EFI_FUNCTION_READ = 5"
definition EFI_FUNCTION_WRITE :: UINTN where "EFI_FUNCTION_WRITE = 6"
definition EFI_FUNCTION_ERASE_BLOCKS :: UINTN where "EFI_FUNCTION_ERASE_BLOCKS = 7"

lemmas function_defs = EFI_FUNCTION_GET_ATTRIBUTES_def EFI_FUNCTION_SET_ATTRIBUTES_def EFI_FUNCTION_GET_PHYSICAL_ADDRESS_def
  EFI_FUNCTION_GET_BLOCK_SIZE_def EFI_FUNCTION_READ_def EFI_FUNCTION_WRITE_def EFI_FUNCTION_ERASE_BLOCKS_def

text \<open>The function header: \<^verbatim>\<open>Function\<close> at 0, \<^verbatim>\<open>ReturnStatus\<close> at 8, \<^verbatim>\<open>Data\<close> at 16.\<close>

definition SMM_FVB_COMMUNICATE_HEADER_SIZE :: UINTN where "SMM_FVB_COMMUNICATE_HEADER_SIZE = 16"

text \<open>
  The world of the handler: memory, the volumes, the device records by the address of their protocol interface, and the
  state of the flash.  \<open>Asserted\<close> is set when an assertion fails, after which the processor does not return.
\<close>

record 's fvb_world =
  FvbMem :: memory
  FvbVolumes :: fvb_instances
  FvbDeviceAt :: "UINTN \<rightharpoonup> EFI_FW_VOL_BLOCK_DEVICE"
  FlashState :: 's
  Asserted :: bool

text \<open>
  The requests.  Every structure in \<^verbatim>\<open>Data\<close> starts with the address of the SMM protocol; its other fields follow at
  multiples of 8.
\<close>

definition fvb_request :: "'s SPI_DEVICE_PROTOCOL \<Rightarrow> UINTN \<Rightarrow> UINTN \<Rightarrow> 's fvb_world \<Rightarrow> (EFI_STATUS \<times> 's fvb_world) option" where
  "fvb_request D Fn Dat w =
    (let m = FvbMem w; g = FvbVolumes w in
     case FvbDeviceAt w (get64 m Dat) of
       None \<Rightarrow> None
     | Some This \<Rightarrow>
       (if Fn = EFI_FUNCTION_GET_ATTRIBUTES then
          map_option (\<lambda>(st, a). (st, w\<lparr>FvbMem := put32 (Dat + 8) a m\<rparr>)) (FvbProtocolGetAttributes g This)
        else if Fn = EFI_FUNCTION_SET_ATTRIBUTES then
          map_option (\<lambda>(st, a, g'). (st, w\<lparr>FvbMem := put32 (Dat + 8) a m, FvbVolumes := g'\<rparr>)) (FvbProtocolSetAttributes g This (get32 m (Dat + 8)))
        else if Fn = EFI_FUNCTION_GET_PHYSICAL_ADDRESS then
          map_option (\<lambda>(st, a). (st, w\<lparr>FvbMem := put64 (Dat + 8) a m\<rparr>)) (FvbProtocolGetPhysicalAddress g This)
        else if Fn = EFI_FUNCTION_GET_BLOCK_SIZE then
          map_option (\<lambda>(st, sz, n). (st, w\<lparr>FvbMem := put64 (Dat + 24) n (put64 (Dat + 16) sz m)\<rparr>))
            (FvbProtocolGetBlockSize g This (get64 m (Dat + 8)) (get64 m (Dat + 16), get64 m (Dat + 24)))
        else if Fn = EFI_FUNCTION_READ then
          map_option (\<lambda>(st, n, b, s). (st, w\<lparr>FvbMem := put_bytes (Dat + 32) (the b) (put64 (Dat + 24) (the n) m), FlashState := s\<rparr>))
            (FvbProtocolRead D g This (get64 m (Dat + 8)) (get64 m (Dat + 16)) (Some (get64 m (Dat + 24)))
              (Some (mem_bytes (Dat + 32) (get64 m (Dat + 24)) m)) (FlashState w))
        else if Fn = EFI_FUNCTION_WRITE then
          map_option (\<lambda>(st, n, s). (st, w\<lparr>FvbMem := put64 (Dat + 24) (the n) m, FlashState := s\<rparr>))
            (FvbProtocolWrite D g This (get64 m (Dat + 8)) (get64 m (Dat + 16)) (Some (get64 m (Dat + 24)))
              (Some (mem_bytes (Dat + 32) (get64 m (Dat + 24)) m)) (FlashState w))
        else if Fn = EFI_FUNCTION_ERASE_BLOCKS then
          map_option (\<lambda>(st, s). (st, w\<lparr>FlashState := s\<rparr>))
            (FvbProtocolEraseBlocks D g This [(get64 m (Dat + 8), ucast (get64 m (Dat + 16))), (EFI_LBA_LIST_TERMINATOR, 0)] (FlashState w))
        else None))"

definition FvbSmmHandler :: "'s SPI_DEVICE_PROTOCOL \<Rightarrow> UINTN \<Rightarrow> 's fvb_world \<Rightarrow> (EFI_STATUS \<times> 's fvb_world) option" where
  "FvbSmmHandler D CommBuffer w =
    (if CommBuffer = 0 then None
     else map_option (\<lambda>(Status, w'). (EFI_SUCCESS, w'\<lparr>FvbMem := put64 (CommBuffer + 8) (status_code Status) (FvbMem w')\<rparr>))
       (fvb_request D (get64 (FvbMem w) CommBuffer) (CommBuffer + 16) w))"

text \<open>The handler as the dispatcher calls it; it leaves the size of the buffer alone.\<close>

definition call_FvbSmmHandler :: "'s SPI_DEVICE_PROTOCOL \<Rightarrow> (UINTN \<times> UINTN) option \<Rightarrow> 's fvb_world \<Rightarrow> EFI_STATUS \<times> UINTN \<times> 's fvb_world" where
  "call_FvbSmmHandler D buf w =
    (case FvbSmmHandler D (case buf of None \<Rightarrow> 0 | Some (b, _) \<Rightarrow> b) w of
       None \<Rightarrow> (EFI_SUCCESS, case buf of None \<Rightarrow> 0 | Some (_, n) \<Rightarrow> n, w\<lparr>Asserted := True\<rparr>)
     | Some (st, w') \<Rightarrow> (st, case buf of None \<Rightarrow> 0 | Some (_, n) \<Rightarrow> n, w'))"

section \<open>The wrapper outside SMM\<close>

definition gEfiSmmFirmwareVolumeBlockProtocolGuid :: "UINT8 list" where
  "gEfiSmmFirmwareVolumeBlockProtocolGuid = [0x41, 0xd0, 0x26, 0xd3, 0x31, 0xbd, 0x01, 0x4c, 0xb5, 0xa8, 0x62, 0x8b, 0xe8, 0x7f, 0x06, 0x53]"

type_synonym ('h, 's) fvb_machine = "('h, 's fvb_world) smm_machine"

record ('h, 's) dxe_env =
  Smm :: "('h, 's fvb_world) smm_env"
  Ipl :: "('h, 's fvb_world) ipl_env"
  DxeAllocatePool :: "UINTN \<Rightarrow> ('h, 's) fvb_machine \<Rightarrow> UINTN \<times> ('h, 's) fvb_machine"
  DxeFreePool :: "UINTN \<Rightarrow> ('h, 's) fvb_machine \<Rightarrow> ('h, 's) fvb_machine"

record EFI_FVB_DEVICE =
  SmmFvbInstance :: UINTN
  FvbNumOfBlocks :: UINTN
  FvbDevicePath :: EFI_DEVICE_PATH

definition on_mem :: "(memory \<Rightarrow> memory) \<Rightarrow> ('h, 's) fvb_machine \<Rightarrow> ('h, 's) fvb_machine" where
  "on_mem f M = M\<lparr>World := (World M)\<lparr>FvbMem := f (FvbMem (World M))\<rparr>\<rparr>"

abbreviation mem_of :: "('h, 's) fvb_machine \<Rightarrow> memory" where
  "mem_of M \<equiv> FvbMem (World M)"

text \<open>The buffer and the address of its data; a failed allocation is an assertion.\<close>

definition InitCommunicateBuffer :: "('h, 's) dxe_env \<Rightarrow> UINTN \<Rightarrow> UINTN \<Rightarrow> ('h, 's) fvb_machine \<Rightarrow> (EFI_STATUS \<times> UINTN \<times> UINTN \<times> ('h, 's) fvb_machine) option" where
  "InitCommunicateBuffer X DataSize Fn M =
    (let (a, M1) = DxeAllocatePool X (DataSize + SMM_COMMUNICATE_HEADER_SIZE + SMM_FVB_COMMUNICATE_HEADER_SIZE) M
     in if a = 0 then None
        else Some (EFI_SUCCESS, a, a + 40,
          on_mem (\<lambda>m. put64 (a + 24) Fn (put64 (a + 16) (DataSize + SMM_FVB_COMMUNICATE_HEADER_SIZE) (put_bytes a gEfiSmmFirmwareVolumeBlockProtocolGuid m))) M1))"

definition SendCommunicateBuffer :: "('h, 's) dxe_env \<Rightarrow> UINTN \<Rightarrow> UINTN \<Rightarrow> ('h, 's) fvb_machine \<Rightarrow> (UINTN \<times> ('h, 's) fvb_machine) option" where
  "SendCommunicateBuffer X a DataSize M =
    (let CommSize = DataSize + SMM_COMMUNICATE_HEADER_SIZE + SMM_FVB_COMMUNICATE_HEADER_SIZE;
         (Status, _, M1) = SmmCommunicationCommunicate (Smm X) (Ipl X) a (Some CommSize) M
     in if EFI_ERROR Status \<or> Asserted (World M1) then None else Some (get64 (mem_of M1) (a + 32), M1))"

text \<open>One exchange: the buffer, the fields of the request, the SMI, what is read from the answer, and the free of the buffer.\<close>

definition exchange :: "('h, 's) dxe_env \<Rightarrow> UINTN \<Rightarrow> UINTN \<Rightarrow> (UINTN \<Rightarrow> memory \<Rightarrow> memory) \<Rightarrow> (UINTN \<Rightarrow> UINTN \<Rightarrow> memory \<Rightarrow> 'r) \<Rightarrow> ('h, 's) fvb_machine \<Rightarrow>
    (UINTN \<times> 'r \<times> ('h, 's) fvb_machine) option" where
  "exchange X PayloadSize Fn fill answer M =
    (case InitCommunicateBuffer X PayloadSize Fn M of
       None \<Rightarrow> None
     | Some (_, a, Dat, M1) \<Rightarrow>
       (case SendCommunicateBuffer X a PayloadSize (on_mem (fill Dat) M1) of
          None \<Rightarrow> None
        | Some (Status, M2) \<Rightarrow> Some (Status, answer Dat Status (mem_of M2), DxeFreePool X a M2)))"

definition FvbGetAttributes :: "('h, 's) dxe_env \<Rightarrow> EFI_FVB_DEVICE \<Rightarrow> bool \<Rightarrow> ('h, 's) fvb_machine \<Rightarrow> (UINTN \<times> UINT32 option \<times> ('h, 's) fvb_machine) option" where
  "FvbGetAttributes X This out M =
    (if \<not> out then Some (status_code EFI_INVALID_PARAMETER, None, M)
     else exchange X 16 EFI_FUNCTION_GET_ATTRIBUTES (\<lambda>d m. put32 (d + 8) 0 (put64 d (SmmFvbInstance This) m)) (\<lambda>d st m. Some (get32 m (d + 8))) M)"

definition FvbSetAttributes :: "('h, 's) dxe_env \<Rightarrow> EFI_FVB_DEVICE \<Rightarrow> UINT32 option \<Rightarrow> ('h, 's) fvb_machine \<Rightarrow> (UINTN \<times> UINT32 option \<times> ('h, 's) fvb_machine) option" where
  "FvbSetAttributes X This Attr M =
    (case Attr of
       None \<Rightarrow> Some (status_code EFI_INVALID_PARAMETER, None, M)
     | Some a \<Rightarrow> exchange X 16 EFI_FUNCTION_SET_ATTRIBUTES (\<lambda>d m. put32 (d + 8) a (put64 d (SmmFvbInstance This) m)) (\<lambda>d st m. Some (get32 m (d + 8))) M)"

definition GetPhysicalAddress :: "('h, 's) dxe_env \<Rightarrow> UINTN \<Rightarrow> ('h, 's) fvb_machine \<Rightarrow> (UINTN \<times> EFI_PHYSICAL_ADDRESS \<times> ('h, 's) fvb_machine) option" where
  "GetPhysicalAddress X SmmFvb M =
    exchange X 16 EFI_FUNCTION_GET_PHYSICAL_ADDRESS (\<lambda>d m. put64 (d + 8) 0 (put64 d SmmFvb m)) (\<lambda>d st m. get64 m (d + 8)) M"

definition FvbGetPhysicalAddress :: "('h, 's) dxe_env \<Rightarrow> EFI_FVB_DEVICE \<Rightarrow> bool \<Rightarrow> ('h, 's) fvb_machine \<Rightarrow>
    (UINTN \<times> EFI_PHYSICAL_ADDRESS option \<times> ('h, 's) fvb_machine) option" where
  "FvbGetPhysicalAddress X This out M =
    (if \<not> out then Some (status_code EFI_INVALID_PARAMETER, None, M)
     else map_option (\<lambda>(st, a, M'). (st, Some a, M')) (GetPhysicalAddress X (SmmFvbInstance This) M))"

text \<open>The two numbers come back from the buffer whatever the status is.\<close>

definition GetBlockSize :: "('h, 's) dxe_env \<Rightarrow> UINTN \<Rightarrow> EFI_LBA \<Rightarrow> bool \<Rightarrow> bool \<Rightarrow> ('h, 's) fvb_machine \<Rightarrow>
    (UINTN \<times> (UINTN \<times> UINTN) option \<times> ('h, 's) fvb_machine) option" where
  "GetBlockSize X SmmFvb Lba BlockSize NumBlks M =
    (if \<not> BlockSize \<or> \<not> NumBlks then Some (status_code EFI_INVALID_PARAMETER, None, M)
     else exchange X 32 EFI_FUNCTION_GET_BLOCK_SIZE (\<lambda>d m. put64 (d + 8) Lba (put64 d SmmFvb m)) (\<lambda>d st m. Some (get64 m (d + 16), get64 m (d + 24))) M)"

definition FvbGetBlockSize :: "('h, 's) dxe_env \<Rightarrow> EFI_FVB_DEVICE \<Rightarrow> EFI_LBA \<Rightarrow> bool \<Rightarrow> bool \<Rightarrow> ('h, 's) fvb_machine \<Rightarrow>
    (UINTN \<times> (UINTN \<times> UINTN) option \<times> ('h, 's) fvb_machine) option" where
  "FvbGetBlockSize X This Lba BlockSize NumBlks M = GetBlockSize X (SmmFvbInstance This) Lba BlockSize NumBlks M"

text \<open>
  A read returns the byte count and the buffer of the caller; its bytes are copied from the answer when the status is no error.
\<close>

definition FvbRead :: "('h, 's) dxe_env \<Rightarrow> EFI_FVB_DEVICE \<Rightarrow> EFI_LBA \<Rightarrow> UINTN \<Rightarrow> UINTN option \<Rightarrow> UINT8 list option \<Rightarrow> ('h, 's) fvb_machine \<Rightarrow>
    (UINTN \<times> (UINTN option \<times> UINT8 list option) \<times> ('h, 's) fvb_machine) option" where
  "FvbRead X This Lba Off NumBytes Buffer M =
    (case (NumBytes, Buffer) of
       (Some n, Some b) \<Rightarrow>
       exchange X (32 + n) EFI_FUNCTION_READ (\<lambda>d m. put64 (d + 24) n (put64 (d + 16) Off (put64 (d + 8) Lba (put64 d (SmmFvbInstance This) m))))
         (\<lambda>d st m. let n1 = get64 m (d + 24)
            in (Some n1, Some (if RETURN_ERROR st then b else mem_bytes (d + 32) n1 m @ drop (unat n1) b))) M
     | _ \<Rightarrow> Some (status_code EFI_INVALID_PARAMETER, (NumBytes, Buffer), M))"

definition FvbWrite :: "('h, 's) dxe_env \<Rightarrow> EFI_FVB_DEVICE \<Rightarrow> EFI_LBA \<Rightarrow> UINTN \<Rightarrow> UINTN option \<Rightarrow> UINT8 list option \<Rightarrow> ('h, 's) fvb_machine \<Rightarrow>
    (UINTN \<times> UINTN option \<times> ('h, 's) fvb_machine) option" where
  "FvbWrite X This Lba Off NumBytes Buffer M =
    (case (NumBytes, Buffer) of
       (Some n, Some b) \<Rightarrow>
       exchange X (32 + n) EFI_FUNCTION_WRITE
         (\<lambda>d m. put_bytes (d + 32) (take (unat n) b) (put64 (d + 24) n (put64 (d + 16) Off (put64 (d + 8) Lba (put64 d (SmmFvbInstance This) m)))))
         (\<lambda>d st m. Some (get64 m (d + 24))) M
     | _ \<Rightarrow> Some (status_code EFI_INVALID_PARAMETER, NumBytes, M))"

definition EraseBlock :: "('h, 's) dxe_env \<Rightarrow> EFI_FVB_DEVICE \<Rightarrow> EFI_LBA \<Rightarrow> UINTN \<Rightarrow> ('h, 's) fvb_machine \<Rightarrow> (UINTN \<times> unit \<times> ('h, 's) fvb_machine) option" where
  "EraseBlock X This StartingLba NumOfLba M =
    exchange X 24 EFI_FUNCTION_ERASE_BLOCKS (\<lambda>d m. put64 (d + 16) NumOfLba (put64 (d + 8) StartingLba (put64 d (SmmFvbInstance This) m))) (\<lambda>d st m. ()) M"

fun EraseBlock_loop :: "('h, 's) dxe_env \<Rightarrow> EFI_FVB_DEVICE \<Rightarrow> (EFI_LBA \<times> UINT32) list \<Rightarrow> UINTN \<Rightarrow> ('h, 's) fvb_machine \<Rightarrow> (UINTN \<times> ('h, 's) fvb_machine) option" where
  "EraseBlock_loop X This [] Status M = Some (Status, M)"
| "EraseBlock_loop X This ((StartingLba, NumOfLba) # args) Status M =
    (if StartingLba = EFI_LBA_LIST_TERMINATOR then Some (Status, M)
     else case EraseBlock X This StartingLba (ucast NumOfLba) M of
            None \<Rightarrow> None
          | Some (Status1, _, M1) \<Rightarrow> (if RETURN_ERROR Status1 then Some (Status1, M1) else EraseBlock_loop X This args Status1 M1))"

definition FvbEraseBlocks :: "('h, 's) dxe_env \<Rightarrow> EFI_FVB_DEVICE \<Rightarrow> (EFI_LBA \<times> UINT32) list \<Rightarrow> ('h, 's) fvb_machine \<Rightarrow> (UINTN \<times> ('h, 's) fvb_machine) option" where
  "FvbEraseBlocks X This args M =
    (if \<not> check_lbas (FvbNumOfBlocks This) args then Some (status_code EFI_INVALID_PARAMETER, M)
     else EraseBlock_loop X This args (status_code EFI_SUCCESS) M)"

text \<open>
  The device a volume gets.  The number of blocks is the one \<^verbatim>\<open>GetBlockSize\<close> returns for block 0; the volume header is
  read in memory at the physical address.  Finding the handle and installing the protocols are the parameter \<open>install\<close>.
\<close>

definition fvb_dxe_device :: "memory \<Rightarrow> UINTN \<Rightarrow> UINTN \<Rightarrow> EFI_PHYSICAL_ADDRESS \<Rightarrow> EFI_FVB_DEVICE" where
  "fvb_dxe_device m SmmFvb NumBlks Address =
    (let VolHeader = header_at m Address
     in \<lparr>SmmFvbInstance = SmmFvb, FvbNumOfBlocks = NumBlks,
         FvbDevicePath = (if ExtHeaderOffset VolHeader = 0 then MemMapDevPath Address (Address + FvLength VolHeader - 1)
           else PiwgDevPath (mem_bytes (Address + ucast (ExtHeaderOffset VolHeader)) 16 m))\<rparr>)"

definition InstallFvb :: "('h, 's) dxe_env \<Rightarrow> (EFI_FVB_DEVICE \<Rightarrow> ('h, 's) fvb_machine \<Rightarrow> ('h, 's) fvb_machine option) \<Rightarrow> UINTN \<Rightarrow> ('h, 's) fvb_machine \<Rightarrow>
    (EFI_FVB_DEVICE \<times> ('h, 's) fvb_machine) option" where
  "InstallFvb X install SmmFvb M =
    (case GetBlockSize X SmmFvb 0 True True M of
       None \<Rightarrow> None
     | Some (Status, r, M1) \<Rightarrow>
       (if RETURN_ERROR Status then None
        else case GetPhysicalAddress X SmmFvb M1 of
          None \<Rightarrow> None
        | Some (Status1, Address, M2) \<Rightarrow>
          (if RETURN_ERROR Status1 then None
           else let dev = fvb_dxe_device (mem_of M2) SmmFvb (snd (the r)) Address
                in map_option (\<lambda>M3. (dev, M3)) (install dev M2))))"

end
