(* ===== verification/FvbChannel.thy ===== *)
theory FvbChannel
  imports FvbComm
begin

text \<open>
  The path from the firmware volume block protocol outside SMM to the flash.

  The locale \<open>fvb_channel\<close> collects what the wrapper of \<open>FvbComm\<close> relies on: a trigger that enters SMM, pool buffers outside
  SMRAM, and the handler that the dispatcher calls.  \<open>channel_open\<close> is the state in which a request gets through; every request
  keeps it.  Inside the locale each operation of the wrapper is shown to be one exchange with the operation of \<open>FvbService\<close>; the
  theorems at the end are these facts for the protocol, the whole path down to a flash device whose commands succeed, and what
  the handler does not check.  The interpretation \<open>sample\<close> runs the channel on the dispatcher and entry point of \<open>SmmComm\<close>, over any
  flash device.
\<close>

section \<open>The channel\<close>

definition fvb_guid :: EFI_GUID where
  "fvb_guid = guid_value gEfiSmmFirmwareVolumeBlockProtocolGuid"

lemma comm_size: "n + SMM_COMMUNICATE_HEADER_SIZE + SMM_FVB_COMMUNICATE_HEADER_SIZE = n + 40"
  by (simp add: SMM_COMMUNICATE_HEADER_SIZE_def SMM_FVB_COMMUNICATE_HEADER_SIZE_def)

lemma length_fvb_guid: "length gEfiSmmFirmwareVolumeBlockProtocolGuid = 16"
  by (simp add: gEfiSmmFirmwareVolumeBlockProtocolGuid_def)

text \<open>The first field of a buffer, with offset 0.\<close>

lemmas at_base = mem_bytes_put_other [where i = 0, simplified] bytes_put_other(1) [where i = 0, simplified]
  bytes_put_other(2) [where i = 0, simplified]  get_put_other(1) [where i = 0, simplified] get_put_other(2) [where i = 0, simplified] get_put_other(4) [where i = 0, simplified]
  get_put_other(1) [where j = 0, simplified]

text \<open>A machine outside SMM whose only handler for the GUID is the one of the driver.\<close>

definition channel_open :: "'h \<Rightarrow> ('h, 's) fvb_machine \<Rightarrow> bool" where
  "channel_open hf M \<longleftrightarrow> \<not> mInLegacyBoot M \<and> \<not> InSmm (Core M) \<and> SmmEntryPointRegistered (Core M) \<and> \<not> Asserted (World M) \<and>
     addrs (SmiLists M) None = [] \<and> handlers_of (SmiLists M) (Some fvb_guid) = [hf]"

locale fvb_channel =
  fixes X :: "('h, 's) dxe_env" and D :: "'s SPI_DEVICE_PROTOCOL" and hf :: 'h and ctx :: EFI_SMM_ENTRY_CONTEXT and limit :: nat
  assumes trigger: "Trigger (Ipl X) M = (EFI_SUCCESS, SmmEntryPoint (Smm X) ctx M)"
    and view: "MemoryIn (Smm X) = FvbMem"
    and handler: "CallHandler (Smm X) hf d b w = call_FvbSmmHandler D b w"
    and ranges: "wf_ranges (CoreMemLib (Smm X))"
    and alloc: "\<lbrakk>unat n \<le> limit; DxeAllocatePool X n M = (a, M1)\<rbrakk> \<Longrightarrow> M1 = M \<and> a \<noteq> 0 \<and>
      SmmIsBufferOutsideSmmValid (CoreMemLib (Smm X)) a n \<and> \<not> InternalIsBufferOverlapped a n (CoreAddress (Smm X)) 104"
    and free: "DxeFreePool X a M = M"
    and limit: "limit < 2 ^ 63"
begin

abbreviation is_open :: "('h, 's) fvb_machine \<Rightarrow> bool" where
  "is_open \<equiv> channel_open hf"

lemma dispatch:
  assumes "handlers_of S (Some fvb_guid) = [hf]" "FvbSmmHandler D b w = Some (EFI_SUCCESS, w')"
  shows "SmiManage_sync (Smm X) fvb_guid b n S w = (EFI_SUCCESS, n, w')"
proof -
  obtain a where "addrs S (Some fvb_guid) = [a]" "Handler (the (HandlerAt S a)) = hf" using assms(1) by (auto simp: handlers_of_def)
  then show ?thesis using assms(2) by (simp add: SmiManage_sync_def manage_loop handler_functions_def handler call_FvbSmmHandler_def)
qed

lemma no_async: "addrs S None = [] \<Longrightarrow> snd (SmiManage_async (Smm X) S w) = w"
  by (simp add: SmiManage_async_def manage_loop handler_functions_def)

lemma send:
  assumes M: "is_open M" and a: "a \<noteq> 0" "SmmIsBufferOutsideSmmValid (CoreMemLib (Smm X)) a (n + 40)"
      "\<not> InternalIsBufferOverlapped a (n + 40) (CoreAddress (Smm X)) 104" "unat n + 40 \<le> limit"
    and g: "mem_bytes a 16 (mem_of M) = gEfiSmmFirmwareVolumeBlockProtocolGuid"
    and h: "FvbSmmHandler D (a + 24) (World M) = Some (EFI_SUCCESS, w)" "\<not> Asserted w"
  shows "\<exists>M'. SendCommunicateBuffer X a n M = Some (get64 (FvbMem w) (a + 32), M') \<and> World M' = w \<and> is_open M'"
proof -
  have n: "unat (n + 40) = unat n + 40" "24 \<le> n + 40" using a(4) limit by (simp_all add: unat_add_noov word_le_nat_alt)
  have guid: "HeaderGuid_at (MemoryIn (Smm X) (World M)) a = fvb_guid" by (simp add: HeaderGuid_at_def view g fvb_guid_def)
  have d: "SmiManage_sync (Smm X) (HeaderGuid_at (MemoryIn (Smm X) (World M)) a) (a + 24) (n + 40 - 24) (SmiLists M) (World M) =
      (EFI_SUCCESS, n + 40 - 24, w)"
    unfolding guid using M by (intro dispatch h(1)) (simp add: channel_open_def)
  obtain M' where "SmmCommunicationCommunicate (Smm X) (Ipl X) a (Some (n + 40)) M = (EFI_SUCCESS, Some (n + 40 - 24 + 24), M')"
    "World M' = w" "SmiLists M' = SmiLists M" "\<not> mInLegacyBoot M'" "\<not> InSmm (Core M')" "SmmEntryPointRegistered (Core M')"
    using communicate_delivers [OF trigger _ _ _ a(1) n(2) a(2,3) d] M no_async by (auto simp: channel_open_def)
  then show ?thesis using M h(2) by (auto simp: SendCommunicateBuffer_def comm_size channel_open_def)
qed

lemma exchange_request:
  assumes M: "is_open M" and n: "unat n + 40 \<le> limit"
    and fill: "\<And>d m. get64 (fill (d + 40) m) (d + 24) = get64 m (d + 24)" "\<And>d m. mem_bytes d 16 (fill (d + 40) m) = mem_bytes d 16 m"
  obtains a m where
    "\<And>st w. \<lbrakk>fvb_request D Fn (a + 40) ((World M)\<lparr>FvbMem := fill (a + 40) m\<rparr>) = Some (st, w); \<not> Asserted w\<rbrakk> \<Longrightarrow>
      let m' = put64 (a + 32) (status_code st) (FvbMem w)
      in \<exists>M'. exchange X n Fn fill answer M = Some (status_code st, answer (a + 40) (status_code st) m', M') \<and>
        World M' = w\<lparr>FvbMem := m'\<rparr> \<and> is_open M'"
proof -
  obtain a M1 where "DxeAllocatePool X (n + 40) M = (a, M1)" by (meson surj_pair)
  moreover have "unat (n + 40) \<le> limit" using n limit by (simp add: unat_add_noov)
  ultimately have al: "DxeAllocatePool X (n + 40) M = (a, M)" and a: "a \<noteq> 0" "SmmIsBufferOutsideSmmValid (CoreMemLib (Smm X)) a (n + 40)"
      "\<not> InternalIsBufferOverlapped a (n + 40) (CoreAddress (Smm X)) 104"
    using alloc [of "n + 40" M a M1] by auto
  have "unat (n + 40) = unat n + 40" using n limit by (simp add: unat_add_noov)
  then have "unat a + 40 \<le> unat (mSmmMemLibInternalMaximumSupportAddress (CoreMemLib (Smm X))) + 1"
    using outside_iff [OF ranges, of "n + 40" a] a(2) by (auto simp: word_unat_eq_iff)
  then have "unat (a + 24) \<noteq> 0" using ranges by (simp add: wf_ranges_def unat_add_noov)
  then have a24: "a + 24 \<noteq> 0" by auto
  let ?m = "put64 (a + 24) Fn (put64 (a + 16) (n + SMM_FVB_COMMUNICATE_HEADER_SIZE) (put_bytes a gEfiSmmFirmwareVolumeBlockProtocolGuid (mem_of M)))"
  let ?M = "on_mem (fill (a + 40)) (on_mem (\<lambda>m. ?m) M)"
  have i: "InitCommunicateBuffer X n Fn M = Some (EFI_SUCCESS, a, a + 40, on_mem (\<lambda>m. ?m) M)"
    using al a(1) by (simp add: InitCommunicateBuffer_def comm_size on_mem_def)
  have W: "World ?M = (World M)\<lparr>FvbMem := fill (a + 40) ?m\<rparr>" "is_open ?M" using M by (auto simp: on_mem_def channel_open_def)
  have g: "mem_bytes a 16 (mem_of ?M) = gEfiSmmFirmwareVolumeBlockProtocolGuid"
    by (simp add: on_mem_def fill(2) at_base mem_bytes_put_same apart_def length_fvb_guid)
  have f: "get64 (mem_of ?M) (a + 24) = Fn" by (simp add: on_mem_def fill(1))
  show thesis
  proof (rule that)
    fix st w assume r: "fvb_request D Fn (a + 40) ((World M)\<lparr>FvbMem := fill (a + 40) ?m\<rparr>) = Some (st, w)" "\<not> Asserted w"
    let ?w = "w\<lparr>FvbMem := put64 (a + 32) (status_code st) (FvbMem w)\<rparr>"
    have "FvbSmmHandler D (a + 24) (World ?M) = Some (EFI_SUCCESS, ?w)"
      using r(1) a24 f unfolding FvbSmmHandler_def W(1) [symmetric] by (simp add: add.assoc)
    then obtain M' where "SendCommunicateBuffer X a n ?M = Some (get64 (FvbMem ?w) (a + 32), M')" "World M' = ?w" "is_open M'"
      using send [OF W(2) a n g] r(2) by auto
    then show "let m' = put64 (a + 32) (status_code st) (FvbMem w)
      in \<exists>M'. exchange X n Fn fill answer M = Some (status_code st, answer (a + 40) (status_code st) m', M') \<and>
        World M' = w\<lparr>FvbMem := m'\<rparr> \<and> is_open M'"
      using i by (simp add: exchange_def free)
  qed
qed

end

lemmas fields = get_put_other bytes_put_other mem_bytes_put_other at_base apart_def add.assoc

definition world_after :: "'s fvb_world \<Rightarrow> fvb_instances \<Rightarrow> 's \<Rightarrow> 's fvb_world \<Rightarrow> bool" where
  "world_after w g s w' \<longleftrightarrow> FvbVolumes w' = g \<and> FlashState w' = s \<and> FvbDeviceAt w' = FvbDeviceAt w \<and> Asserted w' = Asserted w"

lemma world_after_mem [simp]: "world_after w g s (w'\<lparr>FvbMem := m\<rparr>) = world_after w g s w'"
  by (simp add: world_after_def)

context fvb_channel
begin

lemma exchange_via:
  assumes M: "is_open M" and n: "unat n + 40 \<le> limit"
    and fill: "\<And>d m. get64 (fill (d + 40) m) (d + 24) = get64 m (d + 24)" "\<And>d m. mem_bytes d 16 (fill (d + 40) m) = mem_bytes d 16 m"
    and req: "\<And>a m. \<exists>w. fvb_request D Fn (a + 40) ((World M)\<lparr>FvbMem := fill (a + 40) m\<rparr>) = Some (st, w) \<and> world_after (World M) g s w \<and>
      answer (a + 40) (status_code st) (put64 (a + 32) (status_code st) (FvbMem w)) = r"
  shows "\<exists>M'. exchange X n Fn fill answer M = Some (status_code st, r, M') \<and> is_open M' \<and> world_after (World M) g s (World M')"
proof (rule exchange_request [OF M n fill, of Fn answer])
  fix a m
  assume x: "\<And>st w. \<lbrakk>fvb_request D Fn (a + 40) ((World M)\<lparr>FvbMem := fill (a + 40) m\<rparr>) = Some (st, w); \<not> Asserted w\<rbrakk> \<Longrightarrow>
      let m' = put64 (a + 32) (status_code st) (FvbMem w)
      in \<exists>M'. exchange X n Fn fill answer M = Some (status_code st, answer (a + 40) (status_code st) m', M') \<and>
        World M' = w\<lparr>FvbMem := m'\<rparr> \<and> is_open M'"
  obtain w where w: "fvb_request D Fn (a + 40) ((World M)\<lparr>FvbMem := fill (a + 40) m\<rparr>) = Some (st, w)" "world_after (World M) g s w"
      "answer (a + 40) (status_code st) (put64 (a + 32) (status_code st) (FvbMem w)) = r" using req by blast
  then have "\<not> Asserted w" using M by (simp add: world_after_def channel_open_def)
  from x [OF w(1) this] show ?thesis using w(2,3) by auto
qed

lemma GetAttributes_exchange:
  assumes "is_open M" "56 \<le> limit" "FvbDeviceAt (World M) (SmmFvbInstance dev) = Some This"
    "FvbProtocolGetAttributes (FvbVolumes (World M)) This = Some (st, a)"
  shows "\<exists>M'. FvbGetAttributes X dev True M = Some (status_code st, Some a, M') \<and> is_open M' \<and>
    world_after (World M) (FvbVolumes (World M)) (FlashState (World M)) (World M')"
  unfolding FvbGetAttributes_def using assms by (simp, intro exchange_via) (auto simp: fvb_request_def world_after_def fields)

lemma SetAttributes_exchange:
  assumes "is_open M" "56 \<le> limit" "FvbDeviceAt (World M) (SmmFvbInstance dev) = Some This"
    "FvbProtocolSetAttributes (FvbVolumes (World M)) This attr = Some (st, a, g)"
  shows "\<exists>M'. FvbSetAttributes X dev (Some attr) M = Some (status_code st, Some a, M') \<and> is_open M' \<and>
    world_after (World M) g (FlashState (World M)) (World M')"
  unfolding FvbSetAttributes_def using assms
  by (simp, intro exchange_via) (auto simp: fvb_request_def world_after_def fields function_defs)

lemma PhysicalAddress_exchange:
  assumes "is_open M" "56 \<le> limit" "FvbDeviceAt (World M) p = Some This"
    "FvbProtocolGetPhysicalAddress (FvbVolumes (World M)) This = Some (st, a)"
  shows "\<exists>M'. GetPhysicalAddress X p M = Some (status_code st, a, M') \<and> is_open M' \<and>
    world_after (World M) (FvbVolumes (World M)) (FlashState (World M)) (World M')"
  unfolding GetPhysicalAddress_def using assms
  by (intro exchange_via) (auto simp: fvb_request_def world_after_def fields function_defs)

lemma BlockSize_exchange:
  assumes "is_open M" "72 \<le> limit" "FvbDeviceAt (World M) p = Some This"
    "\<And>out. FvbProtocolGetBlockSize (FvbVolumes (World M)) This Lba out = Some (st, sz, k)"
  shows "\<exists>M'. GetBlockSize X p Lba True True M = Some (status_code st, Some (sz, k), M') \<and> is_open M' \<and>
    world_after (World M) (FvbVolumes (World M)) (FlashState (World M)) (World M')"
  unfolding GetBlockSize_def using assms
  by (simp, intro exchange_via) (auto simp: fvb_request_def world_after_def fields function_defs)

lemma Erase_exchange:
  assumes "is_open M" "64 \<le> limit" "FvbDeviceAt (World M) (SmmFvbInstance dev) = Some This"
    "FvbProtocolEraseBlocks D (FvbVolumes (World M)) This [(Lba, ucast k), (EFI_LBA_LIST_TERMINATOR, 0)] (FlashState (World M)) = Some (st, s)"
  shows "\<exists>M'. EraseBlock X dev Lba k M = Some (status_code st, (), M') \<and> is_open M' \<and>
    world_after (World M) (FvbVolumes (World M)) s (World M')"
  unfolding EraseBlock_def using assms
  by (intro exchange_via) (auto simp: fvb_request_def world_after_def fields function_defs)

lemma Write_exchange:
  assumes "is_open M" "unat n + 72 \<le> limit" "unat n \<le> length b" "FvbDeviceAt (World M) (SmmFvbInstance dev) = Some This"
    "FvbProtocolWrite D (FvbVolumes (World M)) This Lba off (Some n) (Some (take (unat n) b)) (FlashState (World M)) = Some (st, Some k, s)"
  shows "\<exists>M'. FvbWrite X dev Lba off (Some n) (Some b) M = Some (status_code st, Some k, M') \<and> is_open M' \<and>
    world_after (World M) (FvbVolumes (World M)) s (World M')"
proof -
  have n: "unat (32 + n) = 32 + unat n" using assms(2) limit by (simp add: unat_add_noov)
  show ?thesis unfolding FvbWrite_def using assms limit
    by (simp, intro exchange_via) (auto simp: n fvb_request_def world_after_def fields function_defs mem_bytes_put_same)
qed

lemma Read_exchange:
  assumes "is_open M" "unat n + 72 \<le> limit" "FvbDeviceAt (World M) (SmmFvbInstance dev) = Some This" "k \<le> n"
    and rd: "\<And>bx. length bx = unat n \<Longrightarrow> \<exists>b'. length b' = unat n \<and> take (unat k) b' = dat \<and>
      FvbProtocolRead D (FvbVolumes (World M)) This Lba off (Some n) (Some bx) (FlashState (World M)) = Some (st, Some k, Some b', s)"
  shows "\<exists>M'. FvbRead X dev Lba off (Some n) (Some b) M =
      Some (status_code st, (Some k, Some (if EFI_ERROR st then b else dat @ drop (unat k) b)), M') \<and> is_open M' \<and>
    world_after (World M) (FvbVolumes (World M)) s (World M')"
proof -
  have n: "unat (32 + n) = 32 + unat n" using assms(2) limit by (simp add: unat_add_noov)
  have k: "unat k \<le> unat n" using assms(4) by (simp add: word_le_nat_alt)
  let ?fill = "\<lambda>d m. put64 (d + 24) n (put64 (d + 16) off (put64 (d + 8) Lba (put64 d (SmmFvbInstance dev) m)))"
  have req: "\<exists>w. fvb_request D EFI_FUNCTION_READ (a + 40) ((World M)\<lparr>FvbMem := ?fill (a + 40) m\<rparr>) = Some (st, w) \<and>
      world_after (World M) (FvbVolumes (World M)) s w \<and>
      get64 (put64 (a + 32) (status_code st) (FvbMem w)) (a + 40 + 24) = k \<and>
      mem_bytes (a + 40 + 32) k (put64 (a + 32) (status_code st) (FvbMem w)) = dat" for a m
  proof -
    let ?m = "?fill (a + 40) m"
    obtain b' where b: "length b' = unat n" "take (unat k) b' = dat"
      "FvbProtocolRead D (FvbVolumes (World M)) This Lba off (Some n) (Some (mem_bytes (a + 72) n ?m)) (FlashState (World M)) = Some (st, Some k, Some b', s)"
      using rd [of "mem_bytes (a + 72) n ?m"] by auto
    have "fvb_request D EFI_FUNCTION_READ (a + 40) ((World M)\<lparr>FvbMem := ?m\<rparr>) =
        Some (st, (World M)\<lparr>FvbMem := put_bytes (a + 72) b' (put64 (a + 64) k ?m), FlashState := s\<rparr>)"
      using assms(3) b(3) by (simp add: fvb_request_def fields function_defs)
    moreover have "mem_bytes (a + 72) k (put_bytes (a + 72) b' m') = dat" for m'
      using b(1,2) k mem_bytes_put_prefix [of n b' k] by simp
    ultimately show ?thesis using b(1) n k assms(2) limit by (auto simp: world_after_def fields)
  qed
  show ?thesis unfolding FvbRead_def option.case prod.case
  proof (rule exchange_via [OF assms(1)])
    fix a m
    obtain w where "fvb_request D EFI_FUNCTION_READ (a + 40) ((World M)\<lparr>FvbMem := ?fill (a + 40) m\<rparr>) = Some (st, w)"
        "world_after (World M) (FvbVolumes (World M)) s w" "get64 (put64 (a + 32) (status_code st) (FvbMem w)) (a + 40 + 24) = k"
        "mem_bytes (a + 40 + 32) k (put64 (a + 32) (status_code st) (FvbMem w)) = dat"
      using req by blast
    then show "\<exists>w. fvb_request D EFI_FUNCTION_READ (a + 40) ((World M)\<lparr>FvbMem := ?fill (a + 40) m\<rparr>) = Some (st, w) \<and>
        world_after (World M) (FvbVolumes (World M)) s w \<and>
        (let n1 = get64 (put64 (a + 32) (status_code st) (FvbMem w)) (a + 40 + 24)
         in (Some n1, Some (if RETURN_ERROR (status_code st) then b
              else mem_bytes (a + 40 + 32) n1 (put64 (a + 32) (status_code st) (FvbMem w)) @ drop (unat n1) b))) =
        (Some k, Some (if EFI_ERROR st then b else dat @ drop (unat k) b))"
      by (intro exI [of _ w]) (simp add: RETURN_ERROR_code Let_def)
  qed (use assms(2) n in \<open>simp_all add: fields\<close>)
qed

end

lemma erase_range_status: "erase_lba_range k D g i Lba s = Some (st, s') \<Longrightarrow> EFI_ERROR st \<or> st = EFI_SUCCESS"
  by (induction k D g i Lba s rule: erase_lba_range.induct) (auto split: option.splits prod.splits if_splits)

lemma no_RETURN_ERROR [simp]: "\<not> RETURN_ERROR 0"
  by (simp add: RETURN_ERROR_def)

lemma ucast_up_down [simp]: "ucast (ucast (k :: UINT32) :: UINTN) = k"
  by (simp add: word_unat_eq_iff unat_down)

text \<open>One range of a list of block ranges, as its own request.\<close>

lemma erase_one_range:
  assumes "GetFvbInstance g (Instance This) = Some fw" "has_attribute fw EFI_FVB2_WRITE_STATUS" "check_lbas (NumOfBlocks fw) ((Lba, k) # args)"
    "Lba \<noteq> EFI_LBA_LIST_TERMINATOR"
  shows "FvbProtocolEraseBlocks D g This [(Lba, k), (EFI_LBA_LIST_TERMINATOR, 0)] s = erase_lba_range (unat k) D g (Instance This) Lba s"
  using assms erase_range_status [of "unat k" D g "Instance This" Lba s]
  by (auto simp: FvbProtocolEraseBlocks_def has_attribute_def split: option.splits prod.splits if_splits)

context fvb_channel
begin

lemma erase_loop:
  assumes g: "GetFvbInstance g (Instance This) = Some fw" "has_attribute fw EFI_FVB2_WRITE_STATUS" and l: "64 \<le> limit"
  shows "\<lbrakk>is_open M; FvbDeviceAt (World M) (SmmFvbInstance dev) = Some This; FvbVolumes (World M) = g; check_lbas (NumOfBlocks fw) args;
      erase_lbas D g (Instance This) args (FlashState (World M)) = Some (st, s)\<rbrakk> \<Longrightarrow>
    \<exists>M'. EraseBlock_loop X dev args (status_code EFI_SUCCESS) M = Some (status_code st, M') \<and> is_open M' \<and> world_after (World M) g s (World M')"
proof (induction args arbitrary: M)
  case Nil
  then show ?case by (simp add: world_after_def)
next
  case (Cons x args)
  obtain Lba k where x: "x = (Lba, k)" by fastforce
  show ?case
  proof (cases "Lba = EFI_LBA_LIST_TERMINATOR")
    case True
    then show ?thesis using Cons.prems x by (simp add: world_after_def)
  next
    case False
    then obtain st1 s1 where e: "erase_lba_range (unat k) D g (Instance This) Lba (FlashState (World M)) = Some (st1, s1)"
      and rest: "if EFI_ERROR st1 then st = st1 \<and> s = s1 else erase_lbas D g (Instance This) args s1 = Some (st, s)"
      using Cons.prems(5) x by (auto split: option.splits prod.splits if_splits)
    have "FvbProtocolEraseBlocks D (FvbVolumes (World M)) This [(Lba, ucast (ucast k :: UINTN)), (EFI_LBA_LIST_TERMINATOR, 0)] (FlashState (World M)) = Some (st1, s1)"
      using erase_one_range [OF g, of Lba k args D "FlashState (World M)"] Cons.prems(3,4) x False e by simp
    from Erase_exchange [OF Cons.prems(1) l Cons.prems(2) this] obtain M1
      where m: "EraseBlock X dev Lba (ucast k) M = Some (status_code st1, (), M1)" "is_open M1" "world_after (World M) g s1 (World M1)"
      using Cons.prems(3) by auto
    show ?thesis
    proof (cases "EFI_ERROR st1")
      case True
      then show ?thesis using x False m rest by (simp add: RETURN_ERROR_code)
    next
      case ok: False
      then have "st1 = EFI_SUCCESS" using erase_range_status [OF e] by blast
      moreover have "\<exists>M'. EraseBlock_loop X dev args (status_code EFI_SUCCESS) M1 = Some (status_code st, M') \<and> is_open M' \<and> world_after (World M1) g s (World M')"
        using Cons.IH [OF m(2)] m(3) Cons.prems(2,4) rest ok x False by (auto simp: world_after_def split: if_splits)
      ultimately show ?thesis using x False m ok by (auto simp: RETURN_ERROR_code world_after_def)
    qed
  qed
qed

lemma Erase_list:
  assumes "is_open M" "64 \<le> limit" "FvbDeviceAt (World M) (SmmFvbInstance dev) = Some This"
    and g: "GetFvbInstance (FvbVolumes (World M)) (Instance This) = Some fw" "has_attribute fw EFI_FVB2_WRITE_STATUS"
    and N: "FvbNumOfBlocks dev = NumOfBlocks fw"
    and e: "FvbProtocolEraseBlocks D (FvbVolumes (World M)) This args (FlashState (World M)) = Some (st, s)"
  shows "\<exists>M'. FvbEraseBlocks X dev args M = Some (status_code st, M') \<and> is_open M' \<and> world_after (World M) (FvbVolumes (World M)) s (World M')"
proof (cases "check_lbas (NumOfBlocks fw) args")
  case True
  then have "erase_lbas D (FvbVolumes (World M)) (Instance This) args (FlashState (World M)) = Some (st, s)"
    using e g by (simp add: FvbProtocolEraseBlocks_def has_attribute_def)
  from erase_loop [OF g assms(2) assms(1,3) refl True this] show ?thesis using True N by (simp add: FvbEraseBlocks_def)
next
  case False
  then show ?thesis using e g N assms(1) by (auto simp: FvbProtocolEraseBlocks_def has_attribute_def FvbEraseBlocks_def world_after_def)
qed

end

section \<open>Properties\<close>

text \<open>C15. 
  FvbRead outside SMM is the read inside SMM.  Whatever the pool buffer held before, if the operation inside SMM returns a
  status, a byte count and the same bytes, then so does the wrapper: with the encoded status, the byte count, and the bytes in
  the buffer of the caller if the status is no error.  An error leaves the buffer of the caller alone, also EFI_BAD_BUFFER_SIZE, for
  which the operation inside SMM has returned the bytes up to the end of the block.
\<close>
theorem FvbRead_as_in_SMM:
  assumes "fvb_channel X D hf ctx limit" "channel_open hf M" "unat n + 72 \<le> limit"
    "FvbDeviceAt (World M) (SmmFvbInstance dev) = Some This" "k \<le> n"
    and "\<And>bx. length bx = unat n \<Longrightarrow> \<exists>b'. length b' = unat n \<and> take (unat k) b' = dat \<and>
      FvbProtocolRead D (FvbVolumes (World M)) This Lba off (Some n) (Some bx) (FlashState (World M)) = Some (st, Some k, Some b', s)"
  shows "\<exists>M'. FvbRead X dev Lba off (Some n) (Some b) M =
      Some (status_code st, (Some k, Some (if EFI_ERROR st then b else dat @ drop (unat k) b)), M') \<and> channel_open hf M' \<and>
    world_after (World M) (FvbVolumes (World M)) s (World M')"
  using fvb_channel.Read_exchange [OF assms] .


text \<open>C11. 
  The whole path, from the protocol outside SMM through the communication buffer, the entry point and the dispatcher of the SMM
  core, the handler and the block driver to a flash device whose commands succeed.  Erasing a block, writing into it and
  reading it back returns EFI_SUCCESS three times and the bytes that were written, and the flash is exactly the erased block with
  the data in it.
\<close>
theorem dxe_erase_write_read:
  assumes X: "fvb_channel X D hf ctx limit" and dev: "reliable_device D flash ready fsize readable"
    and M: "channel_open hf M" "ready (FlashState (World M))" "FvbDeviceAt (World M) (SmmFvbInstance d) = Some This"
    and fw: "GetFvbInstance (FvbVolumes (World M)) (Instance This) = Some fw" "fv_ok fsize fw" "FvbNumOfBlocks d = NumOfBlocks fw"
    and a: "has_attribute fw EFI_FVB2_READ_STATUS" "has_attribute fw EFI_FVB2_WRITE_STATUS" "unat Lba < length (fv_blocks fw)"
    and n: "0 < n" "unat n = length b" "unat off + unat n \<le> fv_blocks fw ! unat Lba" "unat n + 72 \<le> limit"
    and r: "\<And>s. readable s (block_address fw (unat Lba) + unat off) (unat n)"
  shows "\<exists>M1 M2 M3. FvbEraseBlocks X d [(Lba, 1), (EFI_LBA_LIST_TERMINATOR, 0)] M = Some (status_code EFI_SUCCESS, M1) \<and>
    FvbWrite X d Lba off (Some n) (Some b) M1 = Some (status_code EFI_SUCCESS, Some n, M2) \<and>
    FvbRead X d Lba off (Some n) (Some (replicate (length b) 0)) M2 = Some (status_code EFI_SUCCESS, (Some n, Some b), M3) \<and>
    flash (FlashState (World M3)) =
      programmed (block_address fw (unat Lba) + unat off) b (erased (block_address fw (unat Lba)) (fv_blocks fw ! unat Lba) (flash (FlashState (World M))))"
proof -
  let ?g = "FvbVolumes (World M)"
  obtain s1 s2 where s: "FvbEraseBlock D ?g (Instance This) Lba (FlashState (World M)) = Some (EFI_SUCCESS, s1)"
      "FvbWriteBlock D ?g (Instance This) Lba off (Some n) (Some b) s1 = Some (EFI_SUCCESS, Some n, s2)"
      "\<And>bx. length bx = unat n \<Longrightarrow> FvbReadBlock D ?g (Instance This) Lba off (Some n) (Some bx) s2 = Some (EFI_SUCCESS, Some n, Some b, s2)"
      "flash s2 = programmed (block_address fw (unat Lba) + unat off) b (erased (block_address fw (unat Lba)) (fv_blocks fw ! unat Lba) (flash (FlashState (World M))))"
    using reliable_device.erase_write_read_ok [OF dev M(2) fw(1,2) a n(1-3) r] by blast
  have N: "unat (NumOfBlocks fw) = length (fv_blocks fw)" "length (fv_blocks fw) < 2 ^ 32"
    using fw(2) few_blocks by (auto simp: fv_ok_def fv_blocks_def Let_def)
  have L: "Lba \<noteq> EFI_LBA_LIST_TERMINATOR" using a(3) N(2) by (auto simp: EFI_LBA_LIST_TERMINATOR_def)
  have "unat (Lba + 1) = unat Lba + 1" using a(3) N(2) by (intro unat_suc_noov) simp
  then have c: "check_lbas (NumOfBlocks fw) [(Lba, 1), (EFI_LBA_LIST_TERMINATOR, 0)]"
    using a(3) N L by (simp add: word_less_nat_alt not_less)
  have e: "FvbProtocolEraseBlocks D ?g This [(Lba, 1), (EFI_LBA_LIST_TERMINATOR, 0)] (FlashState (World M)) = Some (EFI_SUCCESS, s1)"
    using erase_one_range [OF fw(1) a(2), of Lba 1 "[(EFI_LBA_LIST_TERMINATOR, 0)]" D "FlashState (World M)"] c L s(1) by simp
  obtain M1 where 1: "FvbEraseBlocks X d [(Lba, 1), (EFI_LBA_LIST_TERMINATOR, 0)] M = Some (status_code EFI_SUCCESS, M1)" "channel_open hf M1"
      "world_after (World M) ?g s1 (World M1)"
    using fvb_channel.Erase_list [OF X M(1) _ M(3) fw(1) a(2) fw(3) e] n(4) by auto
  obtain M2 where 2: "FvbWrite X d Lba off (Some n) (Some b) M1 = Some (status_code EFI_SUCCESS, Some n, M2)" "channel_open hf M2"
      "world_after (World M) ?g s2 (World M2)"
    using fvb_channel.Write_exchange [OF X 1(2) n(4), of b d This Lba off EFI_SUCCESS n s2] 1(3) s(2) n(2) M(3)
    by (auto simp: world_after_def FvbProtocolWrite_def)
  have "\<exists>b'. length b' = unat n \<and> take (unat n) b' = b \<and>
      FvbProtocolRead D (FvbVolumes (World M2)) This Lba off (Some n) (Some bx) (FlashState (World M2)) = Some (EFI_SUCCESS, Some n, Some b', s2)"
    if "length bx = unat n" for bx
    using s(3) [OF that] 2(3) n(2) by (auto simp: world_after_def FvbProtocolRead_def)
  from fvb_channel.Read_exchange [OF X 2(2) n(4) _ order_refl this, of d "replicate (length b) 0"] obtain M3
    where "FvbRead X d Lba off (Some n) (Some (replicate (length b) 0)) M2 = Some (status_code EFI_SUCCESS, (Some n, Some b), M3)"
      "world_after (World M2) (FvbVolumes (World M2)) s2 (World M3)"
    using 2(3) M(3) n(2) by (auto simp: world_after_def)
  then show ?thesis using 1(1) 2(1) s(4) by (auto simp: world_after_def)
qed

text \<open>C33. 
  FvbSmmHandler.  The handler takes the byte count of a read from the message and compares it with nothing: whatever size the
  communication buffer has, a successful read puts the bytes of the flash at the addresses behind the message, up to the end of the
  block, also when these addresses are in SMRAM.
\<close>
theorem FvbSmmHandler_read_unbounded:
  assumes dev: "spi_device D flash ready fsize readable" and w: "ready (FlashState w)" "FvbDeviceAt w (get64 (FvbMem w) (Buf + 16)) = Some This"
    and fw: "GetFvbInstance (FvbVolumes w) (Instance This) = Some fw" "fv_ok fsize fw" "has_attribute fw EFI_FVB2_READ_STATUS"
    and msg: "Buf \<noteq> 0" "get64 (FvbMem w) Buf = EFI_FUNCTION_READ" "get64 (FvbMem w) (Buf + 24) = Lba" "get64 (FvbMem w) (Buf + 32) = 0"
      "get64 (FvbMem w) (Buf + 40) = n"
    and n: "unat Lba < length (fv_blocks fw)" "0 < n" "unat n \<le> fv_blocks fw ! unat Lba" "readable (FlashState w) (block_address fw (unat Lba)) (unat n)"
    and a: "x \<in> smram lib" "x \<in> mem_range (Buf + 48) n"
  shows "\<exists>w'. call_FvbSmmHandler D (Some (Buf, sz)) w = (EFI_SUCCESS, sz, w') \<and>
    FvbMem w' x = flash (FlashState w) (block_address fw (unat Lba) + unat (x - (Buf + 48)))"
proof -
  let ?b = "mem_bytes (Buf + 48) n (FvbMem w)" and ?A = "block_address fw (unat Lba)"
  have small: "unat n < 2 ^ 32" using block_in_volume(2) [OF fw(2) n(1)] n(3) by simp
  obtain n1 where "FvbProtocolRead D (FvbVolumes w) This Lba 0 (Some n) (Some ?b) (FlashState w) =
      Some (EFI_SUCCESS, Some n1, Some (flash_bytes ?A (unat n) (flash (FlashState w))), FlashState w)" "unat n1 = unat n"
    using spi_device.read_block [OF dev w(1) fw(1,2) n(2), of ?b Lba 0] small n(1,3,4) fw(3)
    by (auto simp: FvbProtocolRead_def min_def)
  then have r: "FvbProtocolRead D (FvbVolumes w) This Lba 0 (Some n) (Some ?b) (FlashState w) =
      Some (EFI_SUCCESS, Some n, Some (flash_bytes ?A (unat n) (flash (FlashState w))), FlashState w)"
    by (metis unsigned_word_eqI)
  let ?m = "put64 (Buf + 8) 0 (put_bytes (Buf + 48) (flash_bytes ?A (unat n) (flash (FlashState w))) (put64 (Buf + 40) n (FvbMem w)))"
  have h: "call_FvbSmmHandler D (Some (Buf, sz)) w = (EFI_SUCCESS, sz, w\<lparr>FvbMem := ?m, FlashState := FlashState w\<rparr>)"
    using msg w(2) r by (simp add: call_FvbSmmHandler_def FvbSmmHandler_def fvb_request_def function_defs add.assoc)
  have i: "unat (x - (Buf + 48)) < unat n" using a(2) by (simp add: mem_range_def word_less_nat_alt)
  let ?i = "unat (x - (Buf + 48))"
  have "\<not> unat (Buf + 48 + of_nat ?i - (Buf + 8)) < 8" by (rule apart_outside [where n = "unat n"]) (use i small in \<open>simp_all add: apart_def\<close>)
  moreover have "Buf + 48 + of_nat ?i = x" by simp
  ultimately have "\<not> unat (x - (Buf + 8)) < 8" by metis
  then have "?m x = flash (FlashState w) (?A + ?i)" using i by (simp add: put64_def put_bytes_def flash_bytes_def)
  then show ?thesis using h by simp
qed

text \<open>C35. 
  InstallFvb.  The device of a volume knows the number of blocks of the first entry of its block map, not that of the volume.  The two
  agree when the map has one entry, as for every volume of the platform.
\<close>
theorem InstallFvb_counts_first_entry:
  assumes X: "fvb_channel X D hf ctx limit" and M: "channel_open hf M" "72 \<le> limit" "FvbDeviceAt (World M) p = Some This"
    and fw: "GetFvbInstance (FvbVolumes (World M)) (Instance This) = Some fw" "BlockMap (VolumeHeader fw) = e # es" "NumBlocks e \<noteq> 0" "Length e \<noteq> 0"
  shows "\<exists>d M'. InstallFvb X (\<lambda>d M. Some M) p M = Some (d, M') \<and> SmmFvbInstance d = p \<and> FvbNumOfBlocks d = ucast (NumBlocks e) \<and>
    (block_lengths es = [] \<longrightarrow> unat (FvbNumOfBlocks d) = length (fv_blocks fw))"
proof -
  let ?g = "FvbVolumes (World M)"
  have pos: "0 < unat (NumBlocks e)" using fw(3) by (simp add: unat_gt_0)
  then have "(0 :: EFI_LBA) < ucast (NumBlocks e)" by (simp add: word_less_nat_alt)
  then have "FvbProtocolGetBlockSize ?g This 0 out = Some (EFI_SUCCESS, ucast (Length e), ucast (NumBlocks e))" for out
    using fw by (simp add: FvbProtocolGetBlockSize_def FvbGetLbaAddress_def Let_def)
  from fvb_channel.BlockSize_exchange [OF X M(1,2,3) this] obtain M1
    where 1: "GetBlockSize X p 0 True True M = Some (0, Some (ucast (Length e), ucast (NumBlocks e)), M1)" "channel_open hf M1"
      "FvbVolumes (World M1) = ?g" "FvbDeviceAt (World M1) p = Some This"
    using M(3) by (auto simp: world_after_def)
  have "FvbProtocolGetPhysicalAddress (FvbVolumes (World M1)) This = Some (EFI_SUCCESS, FvBase fw)"
    using fw(1) 1(3) by (simp add: FvbProtocolGetPhysicalAddress_def)
  from fvb_channel.PhysicalAddress_exchange [OF X 1(2) _ 1(4) this] obtain M2 where "GetPhysicalAddress X p M1 = Some (0, FvBase fw, M2)"
    using M(2) by auto
  then show ?thesis using 1(1) fw by (auto simp: InstallFvb_def fvb_dxe_device_def Let_def fv_blocks_def)
qed

section \<open>A channel to evaluate on\<close>

definition sample_smm :: "'s SPI_DEVICE_PROTOCOL \<Rightarrow> (unit, 's fvb_world) smm_env" where
  "sample_smm D = \<lparr>CallHandler = (\<lambda>h a b w. call_FvbSmmHandler D b w), MemoryIn = FvbMem, CoreMemLib = sample_lib, CoreAddress = 0x100\<rparr>"

definition sample_channel :: "'s SPI_DEVICE_PROTOCOL \<Rightarrow> (unit, 's) dxe_env" where
  "sample_channel D =
    \<lparr>Smm = sample_smm D,
     Ipl = \<lparr>Trigger = (\<lambda>M. (EFI_SUCCESS, SmmEntryPoint (sample_smm D) sample_context M)), OpenState = False, LockState = True, EfiGoneVirtual = False\<rparr>,
     DxeAllocatePool = (\<lambda>n M. (0x100000, M)), DxeFreePool = (\<lambda>a M. M)\<rparr>"

lemma sample_buffer: "unat (n :: UINTN) \<le> 0x10000 \<Longrightarrow> SmmIsBufferOutsideSmmValid sample_lib 0x100000 n"
proof -
  assume "unat n \<le> 0x10000"
  then have "\<not> (n > 0xFFFFFFFFF \<or> 0x100000 > (0xFFFFFFFFF :: UINTN) \<or> (n \<noteq> 0 \<and> 0x100000 > 0xFFFFFFFFF - (n - 1)))"
    unfolding limit_test by simp
  moreover have "mSmmMemLibInternalMaximumSupportAddress sample_lib = 0xFFFFFFFFF" by (simp add: sample_lib_def)
  moreover have "\<not> list_ex (range_overlap 0x100000 n) (mSmmMemLibInternalSmramRanges sample_lib)" by (simp add: sample_lib_def range_overlap_def)
  ultimately show ?thesis unfolding SmmIsBufferOutsideSmmValid_def Let_def by metis
qed

interpretation sample: fvb_channel "sample_channel D" D "()" sample_context "0x10000" for D
  by unfold_locales
    (auto simp: sample_channel_def sample_smm_def sample_lib_wf sample_buffer InternalIsBufferOverlapped_def split: if_splits)

definition fvb_lists :: "unit smi_state" where
  "fvb_lists = \<lparr>SmiPool = sample_pool, mRootSmiHandlerList = [], mSmiEntryList = [0x1000],
     EntryAt = [0x1000 \<mapsto> \<lparr>HandlerType = fvb_guid, SmiHandlers = [64]\<rparr>], HandlerAt = [64 \<mapsto> \<lparr>Handler = (), SmiEntry = 0x1000\<rparr>]\<rparr>"

text \<open>The volumes of the platform, with the device of the non-volatile storage at 0x7200.\<close>

definition nv_machine :: "'s \<Rightarrow> (unit, 's) fvb_machine" where
  "nv_machine s =
    \<lparr>Core = \<lparr>SmmEntryPointRegistered = True, InSmm = False, Smst = 0x7100, CommunicationBuffer = 0, BufferSize = 0, CoreReturnStatus = EFI_SUCCESS\<rparr>,
     mInLegacyBoot = False, SmstContext = sample_context, SmiLists = fvb_lists,
     World = \<lparr>FvbMem = (\<lambda>_. 0), FvbVolumes = layout_volumes, FvbDeviceAt = [0x7200 \<mapsto> nv_device], FlashState = s, Asserted = False\<rparr>\<rparr>"

definition nv_wrapper :: EFI_FVB_DEVICE where
  "nv_wrapper = \<lparr>SmmFvbInstance = 0x7200, FvbNumOfBlocks = 46, FvbDevicePath = MemMapDevPath 0xFFC00000 0xFFC2DFFF\<rparr>"

lemma nv_machine_open: "channel_open () (nv_machine s)"
  by (simp add: channel_open_def nv_machine_def fvb_lists_def addrs_def handlers_of_def entry_handlers_def)

lemma nv_machine_facts:
  "FvbVolumes (World (nv_machine s)) = layout_volumes" "FlashState (World (nv_machine s)) = s"
  "FvbDeviceAt (World (nv_machine s)) (SmmFvbInstance nv_wrapper) = Some nv_device" "FvbNumOfBlocks nv_wrapper = NumOfBlocks nv_volume"
  by (simp_all add: nv_machine_def nv_wrapper_def nv_volume_def layout_volume_def)

lemma nv_read:
  assumes "length bx = 2"
  shows "FvbProtocolRead ideal_flash_device layout_volumes nv_device 3 0x10 (Some 2) (Some bx) (\<lambda>_. 7) = Some (EFI_SUCCESS, Some 2, Some [7, 7], \<lambda>_. 7)"
proof -
  obtain n where "FvbReadBlock ideal_flash_device layout_volumes (Instance nv_device) 3 0x10 (Some 2) (Some bx) (\<lambda>_. 7) =
      Some (EFI_SUCCESS, Some n, Some [7, 7], \<lambda>_. 7)" "unat n = 2"
    using spi_device.read_block [OF ideal_device TrueI nv_instance layout_fv_ok(1), where s = "\<lambda>_. 7" and n = 2 and b = bx and Lba = 3 and off = "0x10"] assms
    by (auto simp: layout_facts ideal_readable flash_bytes_def upt_rec)
  moreover have "n = 2" using \<open>unat n = 2\<close> by (simp add: word_unat_eq_iff)
  ultimately show ?thesis by (simp add: FvbProtocolRead_def)
qed

theorem FvbRead_as_in_SMM_witness:
  "\<exists>M'. FvbRead (sample_channel ideal_flash_device) nv_wrapper 3 0x10 (Some 2) (Some [0, 0, 0]) (nv_machine (\<lambda>_. 7)) = Some (0, (Some 2, Some [7, 7, 0]), M')"
  using FvbRead_as_in_SMM [OF sample.fvb_channel_axioms nv_machine_open, of 2 "\<lambda>_. 7" nv_wrapper nv_device 2 "[7, 7]" ideal_flash_device 3 "0x10" EFI_SUCCESS "\<lambda>_. 7" "[0, 0, 0]"]
  by (auto simp: nv_machine_facts nv_read)


theorem dxe_erase_write_read_witness:
  "\<exists>M1 M2 M3. FvbEraseBlocks (sample_channel (mSpiDevProtocol sim_driver)) nv_wrapper [(3, 1), (EFI_LBA_LIST_TERMINATOR, 0)] (nv_machine (sim_instance, sim_start)) = Some (0, M1) \<and>
    FvbWrite (sample_channel (mSpiDevProtocol sim_driver)) nv_wrapper 3 0x10 (Some 2) (Some [0xAB, 0xCD]) M1 = Some (0, Some 2, M2) \<and>
    FvbRead (sample_channel (mSpiDevProtocol sim_driver)) nv_wrapper 3 0x10 (Some 2) (Some [0, 0]) M2 = Some (0, (Some 2, Some [0xAB, 0xCD]), M3)"
proof -
  have p: "mSpiProtocol sim_driver = SpiProtocol sim_bus" by (simp add: sim_driver_def)
  note d = stack [OF sim_timely.timely_hardware_axioms p sim_driver_memory]
  have "UsesMmio sim_driver (of_nat (block_address nv_volume (unat (3 :: EFI_LBA)) + unat (0x10 :: UINTN))) s" for s
    by (rule sim_driver_mmio) (simp_all add: layout_address)
  then have r: "spi_driver_ok.readable sim_driver 0x2E000 s (block_address nv_volume (unat (3 :: EFI_LBA)) + unat (0x10 :: UINTN)) (unat (2 :: UINTN))" for s
    using spi_driver_ok.readable_def [OF reliable_driver.axioms(1) [OF d]] by blast
  show ?thesis
    using dxe_erase_write_read [OF sample.fvb_channel_axioms reliable_driver.device [OF d] nv_machine_open _ nv_machine_facts(3) _ layout_fv_ok(1) nv_machine_facts(4)
        layout_attributes(2,1) _ _ _ _ _ r, unfolded nv_machine_facts, OF _ nv_instance, of "(sim_instance, sim_start)" "[0xAB, 0xCD]"] sim_instance_ready
    by (auto simp: layout_blocks)
qed

text \<open>A message right below SMRAM: the function header at 0x6FD0, the data of the read at 0x7000.\<close>

definition read_message :: "UINTN \<Rightarrow> memory" where
  "read_message B = put64 (B + 40) 2 (put64 (B + 32) 0 (put64 (B + 24) 3 (put64 (B + 16) 0x7200 (put64 B EFI_FUNCTION_READ (\<lambda>_. 0)))))"

lemma read_message_fields:
  "get64 (read_message B) (B + 16) = 0x7200" "get64 (read_message B) B = EFI_FUNCTION_READ" "get64 (read_message B) (B + 24) = 3"
  "get64 (read_message B) (B + 32) = 0" "get64 (read_message B) (B + 40) = 2"
  by (simp_all add: read_message_def fields)

theorem FvbSmmHandler_read_unbounded_witness:
  "\<exists>w'. call_FvbSmmHandler ideal_flash_device (Some (0x6FD0, 0x30)) ((World (nv_machine (\<lambda>_. 7)))\<lparr>FvbMem := read_message 0x6FD0\<rparr>) = (EFI_SUCCESS, 0x30, w') \<and>
    FvbMem w' 0x7001 = 7"
proof -
  let ?w = "(World (nv_machine (\<lambda>_. 7 :: UINT8)))\<lparr>FvbMem := read_message 0x6FD0\<rparr>"
  have m: "FvbMem ?w = read_message 0x6FD0" "FvbVolumes ?w = layout_volumes" "FlashState ?w = (\<lambda>_. 7)" "FvbDeviceAt ?w 0x7200 = Some nv_device"
    by (simp_all add: nv_machine_def)
  have x: "0x7001 \<in> smram sample_lib" "0x7001 \<in> mem_range (0x6FD0 + 48) 2" by (simp_all add: smram_def sample_lib_def range_bytes_def mem_range_def)
  have r: "ideal_dev.readable (\<lambda>_. 7) (block_address nv_volume (unat (3 :: EFI_LBA))) (unat (2 :: UINTN))"
    by (rule ideal_readable) (simp_all add: layout_address)
  show ?thesis
    using FvbSmmHandler_read_unbounded [OF ideal_device, of ?w "0x6FD0" nv_device nv_volume 3 2 "0x7001" sample_lib "0x30"] x r
    unfolding m read_message_fields by (auto simp: nv_instance layout_fv_ok layout_facts)
qed

theorem InstallFvb_counts_first_entry_witness:
  "\<exists>d M'. InstallFvb (sample_channel ideal_flash_device) (\<lambda>d M. Some M) 0x7200 (nv_machine (\<lambda>_. 7)) = Some (d, M') \<and> FvbNumOfBlocks d = 46"
proof -
  have m: "BlockMap (VolumeHeader nv_volume) = [\<lparr>NumBlocks = 46, Length = 4096\<rparr>, \<lparr>NumBlocks = 0, Length = 0\<rparr>]"
    by (simp add: nv_volume_def layout_volume_def media_info_def braswell_layout_def)
  have d: "FvbDeviceAt (World (nv_machine (\<lambda>_. 7 :: UINT8))) 0x7200 = Some nv_device" by (simp add: nv_machine_def)
  from InstallFvb_counts_first_entry [OF sample.fvb_channel_axioms nv_machine_open _ d _ m, where D = ideal_flash_device]
  show ?thesis by (auto simp: nv_machine_facts nv_instance)
qed

end
