(* ===== verification/Spec2Isabelle.thy ===== *)
theory Spec2Isabelle
  imports SmmLockBox Dispatcher FvbChannel
begin

text \<open>
  A verification of the SMM core of the Braswell UEFI firmware, of the lock box drivers on top of it, and of the flash stack
  of the platform from the firmware volume block protocol down to the registers of the SPI controller.

  \<^bold>\<open>The program.\<close>  The repository is the source of a UEFI firmware: the EDK II packages and the platform code
  for the Braswell boards.  The part verified here is the System Management Mode foundation in
  \<^verbatim>\<open>MdeModulePkg/Core/PiSmmCore\<close>, which is loaded into SMRAM, allocates SMRAM to drivers, keeps the
  database of SMM protocols, discovers and starts the SMM drivers when their dependencies are satisfied and
  dispatches system management interrupts to them; and the lock box, a store in SMRAM that keeps data for
  the resume from S3, with the library \<^verbatim>\<open>MdeModulePkg/Library/SmmLockBoxLib\<close>, the driver
  \<^verbatim>\<open>MdeModulePkg/Universal/LockBox/SmmLockBox\<close> and the buffer checks \<^verbatim>\<open>MdePkg/Library/SmmMemLib\<close>; and the flash
  stack, which lives in SMM too: the SPI controller driver \<^verbatim>\<open>ChvRefCodePkg/CherryViewSoc/SouthCluster/Spi\<close>, the SPI flash device
  driver \<^verbatim>\<open>BraswellPlatformPkg/Flash/SpiDeviceDxe\<close> with its flash part \<^verbatim>\<open>SpiFlashParts/MX25\<close>, and the firmware volume block
  driver \<^verbatim>\<open>BraswellPlatformPkg/Flash/FvbRuntimeDxe\<close>.  Drivers outside SMM reach the block driver through a wrapper that sends
  requests with the SMM communication protocol; the core checks the buffer and dispatches the request to its handler.

  \<^bold>\<open>The theories.\<close>  Each theory models the files it names, in the order the code has them, and holds the
  lemmas about them.

  \<^item> \<open>Prelude\<close>: the word types of the X64 build, status codes and page macros (\<^verbatim>\<open>UefiBaseType.h\<close>), byte memory.

  \<^item> \<open>SmmPage\<close>: \<^verbatim>\<open>Page.c\<close>.  The free list \<^verbatim>\<open>mSmmMemoryMap\<close> is a list of nodes.  An allocation takes the highest run
  that fits or exactly the run asked for, a release coalesces with both neighbours, and over every sequence of
  operations no page is lost or owned twice.  Two lemmas show the arithmetic wrap-arounds in the guards.

  \<^item> \<open>SmmPool\<close>: \<^verbatim>\<open>Pool.c\<close>.  The buddy lists, the block headers by address and the page map below.  Every granule
  of 64 bytes has exactly one owner in every reachable state; a block is large enough and can be released.

  \<^item> \<open>SmmConfigTable\<close>: \<^verbatim>\<open>InstallConfigurationTable.c\<close>, as a finite map in a growing buffer.

  \<^item> \<open>SmmMem\<close>: \<^verbatim>\<open>SmmMemLib.c\<close>.  A buffer is accepted exactly when it shares no byte with SMRAM, and the copy
  services never write SMRAM through the wrong argument.

  \<^item> \<open>LockBox\<close>, \<open>SmmLockBox\<close>: the lock box library as a refinement of a map from GUIDs to contents, and the SMI
  handler in front of it, which no request gets past once the system is locked.

  \<^item> \<open>Smi\<close>: \<^verbatim>\<open>Smi.c\<close>.  The handlers of each interrupt type in order of registration, and which of them an
  interrupt runs.  The locale \<open>object_pool\<close> is the contract of the pool that all object stores of the core use;
  it is interpreted on the pool model.

  \<^item> \<open>SmmDepex\<close>: \<^verbatim>\<open>Dependency.c\<close>.  The byte code evaluator against an abstract syntax of dependency expressions.

  \<^item> \<open>SmmProtocol\<close>: \<^verbatim>\<open>Handle.c\<close>, \<^verbatim>\<open>Notify.c\<close>, \<^verbatim>\<open>Locate.c\<close>.  The database as the relation \<open>offers\<close> between handles,
  protocols and interfaces, the lists \<open>provided\<close> in the order of installation and the queue \<open>pending\<close> of every
  registration; how each operation changes them and what each search returns.

  \<^item> \<open>Dispatcher\<close>: \<^verbatim>\<open>Dispatcher.c\<close>.  Discovery, the a-priori list, scheduling with BEFORE and AFTER, the dispatch loop.

  \<^item> \<open>SmmComm\<close>: \<^verbatim>\<open>SmmEntryPoint\<close> of \<^verbatim>\<open>PiSmmCore.c\<close> and \<^verbatim>\<open>SmmCommunicationCommunicate\<close> of \<^verbatim>\<open>PiSmmIpl.c\<close>.  Which
  communication buffers reach a handler, and what the caller gets back.

  \<^item> \<open>SpiProtocol\<close>: the interfaces of the flash stack as locales.  \<open>spi_controller\<close> is what the device driver relies on,
  \<open>spi_device\<close> what the block driver relies on: the flash is a function from addresses to bytes, and every command
  reads, programs or erases exactly its range or fails inside it.

  \<^item> \<open>SpiController\<close>: \<^verbatim>\<open>SpiCommon.c\<close> over the registers of the controller, in the state monad.  The locale \<open>spi_hardware\<close> says
  what the registers do; a sublocale shows that the driver over such registers is an \<open>spi_controller\<close>, and a simulated
  controller is an instance.  \<open>bcr_hardware\<close> is the register of the write protection, which every command restores.

  \<^item> \<open>SpiDevice\<close>: \<^verbatim>\<open>SpiDevice.c\<close>, \<^verbatim>\<open>SpiDeviceSmm.c\<close>, \<^verbatim>\<open>SpiDeviceDxe.c\<close>.  Reads, writes and erases in pieces, the search of
  the flash part, the opcode menu.  The driver over an \<open>spi_controller\<close> is an \<open>spi_device\<close>.

  \<^item> \<open>FlashPart\<close>: \<^verbatim>\<open>MX25.c\<close>, the tables of the flash part.

  \<^item> \<open>FvbService\<close>, \<open>FvbProperties\<close>: \<^verbatim>\<open>FvbService.c\<close>, \<^verbatim>\<open>FvbInfo.c\<close>.  Volumes, their headers and block maps; reads, writes,
  erases and attributes of a volume over any \<open>spi_device\<close>; the initialization with its lock list.  A locked volume is never
  changed by any sequence of calls.

  \<^item> \<open>FlashStack\<close>: the layers put together.  \<open>timely_hardware\<close> are registers whose cycles neither fail nor outlast the time
  limit; over them every command succeeds (\<open>reliable_controller\<close>, \<open>reliable_device\<close>), and what is written is read back.

  \<^item> \<open>FvbComm\<close>, \<open>FvbChannel\<close>: \<^verbatim>\<open>FvbSmmDxe.c\<close> and the handler in \<^verbatim>\<open>FvbServiceSmm.c\<close>.  Requests as bytes of a communication buffer;
  the operations outside SMM are those inside, and the whole path from there to the flash works.

  \<^item> this theory: the evaluator over the protocol database.

  \<^bold>\<open>Conventions.\<close>  A pointer is its address, a word, and NULL is \<open>0\<close>; objects that only the modelled code
  addresses are found through a map from addresses to records, and linked lists are lists of addresses or
  of records.  An optional argument that may be NULL is an \<open>option\<close> or a flag.  A function returns its
  status and the new state; the result \<open>None\<close> stands for undefined behaviour of C, such as following a NULL
  pointer, corrupting a list or writing past a buffer, and every property that says what an operation
  returns also says that it is not \<open>None\<close>.  Assertions and debug output have no effect, as in a release
  build; only in the theories of the flash stack, whose code asserts where it cannot go on, a failed assertion is \<open>None\<close> too.  A GUID is an opaque 128-bit value.  Integers have the width of the code and wrap around as in C.
  Functions that are called through pointers (SMI handlers, notification functions, driver entry points) and
  services of the DXE phase are parameters; they may change the outside world, and where they share
  memory with the core the hypotheses say that they leave its blocks alone.

  \<^bold>\<open>Bounds.\<close>  All loops are recursions that are proved to end, except those with an explicit bound: the recursion
  depth of \<^verbatim>\<open>SmmInsertOnScheduledQueueWhileProcessingBeforeAndAfter\<close>, for which the number of discovered drivers
  is enough, and the rounds of \<^verbatim>\<open>SmmDispatcher\<close>, for which one more than that is enough.  In the flash stack the wait for a
  cycle has the limit of the code, 600000 waits of 10 microseconds, and the loop over the cycles of a transfer is bounded by
  one more than the byte count, since in descriptor mode every cycle but that of a command without data transfers a byte.

  \<^bold>\<open>Not modelled.\<close>  The SMRAM profile (diagnostics that only record callers), loading of images (a parameter of
  the dispatcher), \<^verbatim>\<open>SmmMain\<close> and the handlers it registers, the loader that opens and locks SMRAM, the discovery of the serial
  flash parameters, the virtual address events of the runtime drivers, the wrapper of the SPI device protocol outside SMM,
  the search for handles in \<^verbatim>\<open>InstallFvb\<close> (a parameter), the variable services and the fault tolerant write above the block
  protocol, and the rest of the firmware: the DXE and PEI cores, bus and device drivers, the network stack, the shell, the
  other silicon reference code and the build tools.  Interrupts are served one at a time; that memory outside SMRAM may be
  changed by other agents while a handler runs is not part of the model.
\<close>

section \<open>Dependency expressions over the protocol database\<close>

text \<open>The status of the search that the evaluator of dependency expressions makes in the SMM database.\<close>

definition depex_locate :: "'f protocol_db \<Rightarrow> EFI_GUID \<Rightarrow> EFI_STATUS" where
  "depex_locate db g = (case SmmLocateProtocol (Some g) 0 True db of None \<Rightarrow> EFI_NOT_FOUND | Some (Status, _, _) \<Rightarrow> Status)"

lemma depex_locate_offers:
  assumes "db_ok db" "requests_ok db"
  shows "EFI_ERROR (depex_locate db g) \<longleftrightarrow> (\<nexists>h i. offers db h g i)"
proof -
  obtain db' where "SmmLocateProtocol (Some g) 0 True db =
      Some (case provided db g of [] \<Rightarrow> (EFI_NOT_FOUND, Some 0, db') | (h, i) # _ \<Rightarrow> (EFI_SUCCESS, Some i, db'))"
    "provided db g = [] \<longleftrightarrow> (\<nexists>h i. offers db h g i)"
    using first_located [OF assms, of g] by blast
  then show ?thesis by (cases "provided db g") (auto simp: depex_locate_def)
qed



end
